(* ===== verification/Prelude.thy ===== *)
theory Prelude
  imports Main "HOL-Library.Word" "HOL-Library.AList" "HOL-Library.Sublist" "HOL-Library.Char_ord"
    "HOL-Library.List_Lexorder" "HOL-Library.Product_Lexorder"
begin

text \<open>
  What the components share: the string functions of the Rust standard library the source
  uses (\<open>str\<close> is UTF-8, a \<open>string\<close> here is its list of bytes, so byte offsets and ASCII
  patterns mean what they mean in Rust), ASCII case folding, durations, saturating machine
  arithmetic, and the collections the component proofs feed to the simplifier.
\<close>

named_theorems str_simps \<open>evaluation of string functions on literals\<close>
named_theorems invs \<open>preservation of the component invariants\<close>

subsection \<open>Strings\<close>

text \<open>\<open>str::split\<close> with a one-byte separator: \<open>n\<close> separators give \<open>n + 1\<close> parts.\<close>

fun split_on :: "char \<Rightarrow> string \<Rightarrow> string list" where
  "split_on c [] = [[]]"
| "split_on c (x # xs) =
     (if x = c then [] # split_on c xs
      else (case split_on c xs of [] \<Rightarrow> [[x]] | y # ys \<Rightarrow> (x # y) # ys))"

text \<open>\<open>slice::join\<close>.\<close>

fun join_with :: "string \<Rightarrow> string list \<Rightarrow> string" where
  "join_with sep [] = []"
| "join_with sep [x] = x"
| "join_with sep (x # y # zs) = x @ sep @ join_with sep (y # zs)"

text \<open>\<open>str::find\<close>: the byte offset of the first occurrence.\<close>

fun find_str :: "string \<Rightarrow> string \<Rightarrow> nat option" where
  "find_str pat [] = (if pat = [] then Some 0 else None)"
| "find_str pat (x # xs) =
     (if prefix pat (x # xs) then Some 0 else map_option Suc (find_str pat xs))"

definition contains_str :: "string \<Rightarrow> string \<Rightarrow> bool" where
  "contains_str s pat \<longleftrightarrow> find_str pat s \<noteq> None"

definition strip_prefix :: "string \<Rightarrow> string \<Rightarrow> string option" where
  "strip_prefix p s = (if prefix p s then Some (drop (length p) s) else None)"

definition strip_suffix :: "string \<Rightarrow> string \<Rightarrow> string option" where
  "strip_suffix p s = (if suffix p s then Some (take (length s - length p) s) else None)"

definition trim_start_matches :: "char \<Rightarrow> string \<Rightarrow> string" where
  "trim_start_matches c s = dropWhile (\<lambda>x. x = c) s"

definition trim_end_matches :: "char \<Rightarrow> string \<Rightarrow> string" where
  "trim_end_matches c s = rev (dropWhile (\<lambda>x. x = c) (rev s))"

text \<open>
  ASCII case folding. Every string the source folds (HTTP methods, file extensions) is
  ASCII where the folding matters; a byte outside ASCII is left alone.
\<close>

definition ascii_upper :: "char \<Rightarrow> char" where
  "ascii_upper c =
     (let n = (of_char c :: nat) in if 97 \<le> n \<and> n \<le> 122 then char_of (n - 32) else c)"

definition ascii_lower :: "char \<Rightarrow> char" where
  "ascii_lower c =
     (let n = (of_char c :: nat) in if 65 \<le> n \<and> n \<le> 90 then char_of (n + 32) else c)"

definition to_uppercase :: "string \<Rightarrow> string" where
  "to_uppercase s = map ascii_upper s"

definition to_lowercase :: "string \<Rightarrow> string" where
  "to_lowercase s = map ascii_lower s"

definition eq_ignore_ascii_case :: "string \<Rightarrow> string \<Rightarrow> bool" where
  "eq_ignore_ascii_case s t \<longleftrightarrow> to_lowercase s = to_lowercase t"

text \<open>The decimal rendering of a number (\<open>Display\<close> of the unsigned integers).\<close>

fun show_nat :: "nat \<Rightarrow> string" where
  "show_nat n = (if n < 10 then [char_of (48 + n)] else show_nat (n div 10) @ [char_of (48 + n mod 10)])"

declare show_nat.simps [simp del]

text \<open>Reading decimal digits, as the unsigned integers' \<open>FromStr\<close> does after an optional plus sign.\<close>

definition is_digit :: "char \<Rightarrow> bool" where
  "is_digit c \<longleftrightarrow> 48 \<le> (of_char c :: nat) \<and> (of_char c :: nat) \<le> 57"

definition digits_value :: "string \<Rightarrow> nat" where
  "digits_value s = foldl (\<lambda>n c. n * 10 + (of_char c - 48)) 0 s"

definition parse_digits :: "string \<Rightarrow> nat option" where
  "parse_digits s = (if s = [] \<or> \<not> list_all is_digit s then None else Some (digits_value s))"

definition parse_unsigned :: "string \<Rightarrow> nat option" where
  "parse_unsigned s =
     (case s of [] \<Rightarrow> None | c # rest \<Rightarrow> if c = CHR ''+'' then parse_digits rest else parse_digits s)"

lemma show_nat_digits: "list_all is_digit (show_nat n) \<and> digits_value (show_nat n) = n \<and> show_nat n \<noteq> []"
proof (induction n rule: show_nat.induct)
  case (1 n)
  show ?case
  proof (cases "n < 10")
    case True
    then show ?thesis by (simp add: show_nat.simps [of n] is_digit_def digits_value_def)
  next
    case False
    have "n mod 10 < 10" by simp
    moreover have "show_nat n = show_nat (n div 10) @ [char_of (48 + n mod 10)]"
      using False by (simp add: show_nat.simps [of n])
    ultimately show ?thesis using 1 [OF False] by (simp add: is_digit_def digits_value_def)
  qed
qed

lemma parse_digits_show [simp]: "parse_digits (show_nat n) = Some n"
  using show_nat_digits [of n] by (simp add: parse_digits_def)

lemma parse_unsigned_show [simp]: "parse_unsigned (show_nat n) = Some n"
proof -
  have "\<not> is_digit (CHR ''+'')" by (simp add: is_digit_def)
  then have "parse_unsigned s = parse_digits s" if "list_all is_digit s" for s
    using that by (cases s) (auto simp: parse_unsigned_def parse_digits_def)
  then show ?thesis using show_nat_digits [of n] by simp
qed

lemma split_on_nonempty [simp]: "split_on c s \<noteq> []"
  by (induction s) (auto split: list.splits)

lemma split_on_no_sep: "x \<in> set (split_on c s) \<Longrightarrow> c \<notin> set x"
  by (induction s arbitrary: x) (auto split: if_splits list.splits)

lemma split_on_single [simp]: "c \<notin> set s \<Longrightarrow> split_on c s = [s]"
  by (induction s) auto

lemma split_on_append_sep: "split_on c (x @ c # y) = split_on c x @ split_on c y"
  by (induction x) (auto split: list.splits)

lemma split_on_join:
  assumes "xs \<noteq> []" "\<forall>x \<in> set xs. c \<notin> set x"
  shows "split_on c (join_with [c] xs) = xs"
  using assms by (induction "[c]" xs rule: join_with.induct) (auto simp: split_on_append_sep)

lemma join_split_on: "join_with [c] (split_on c s) = s"
proof (induction s)
  case (Cons x xs)
  then show ?case by (cases "split_on c xs"; cases "tl (split_on c xs)") auto
qed simp

lemma length_split_on: "length (split_on c s) = Suc (count_list s c)"
  by (induction s) (auto split: list.splits)

lemma ascii_upper_idem [simp]: "ascii_upper (ascii_upper c) = ascii_upper c"
  by (auto simp: ascii_upper_def Let_def)

lemma to_uppercase_idem [simp]: "to_uppercase (to_uppercase s) = to_uppercase s"
  by (simp add: to_uppercase_def)

lemma find_str_Some_prefix:
  "find_str pat s = Some n \<Longrightarrow> n \<le> length s \<and> prefix pat (drop n s)"
  by (induction s arbitrary: n) (auto split: if_splits)

lemma contains_str_iff: "contains_str s pat \<longleftrightarrow> sublist pat s"
proof (induction s)
  case Nil
  then show ?case by (simp add: contains_str_def)
next
  case (Cons x xs)
  then show ?case by (auto simp: contains_str_def sublist_Cons_right)
qed

lemma strip_prefix_Some: "strip_prefix p s = Some r \<longleftrightarrow> s = p @ r"
  by (auto simp: strip_prefix_def prefix_def)

lemma strip_suffix_Some: "strip_suffix p s = Some r \<longleftrightarrow> s = r @ p"
  by (auto simp: strip_suffix_def suffix_def)

text \<open>\<open>str::trim_end_matches\<close> with a string pattern.\<close>

function trim_end_str :: "string \<Rightarrow> string \<Rightarrow> string" where
  "trim_end_str pat s =
     (if pat \<noteq> [] \<and> suffix pat s then trim_end_str pat (take (length s - length pat) s) else s)"
  by auto
termination
  by (relation "measure (length \<circ> snd)") (auto simp: suffix_def)

declare trim_end_str.simps [simp del]

lemmas [str_simps] = to_uppercase_def to_lowercase_def ascii_upper_def ascii_lower_def
  strip_prefix_def strip_suffix_def trim_start_matches_def trim_end_matches_def
  contains_str_def Let_def

subsection \<open>Association lists as hash maps\<close>

text \<open>
  A \<open>HashMap\<close> whose keys are iterated over is an association list with distinct keys, and
  its order stands for the unspecified iteration order; other maps are functions.
\<close>

lemma map_of_AList_update [simp]:
  "map_of (AList.update k v xs) k' = (if k' = k then Some v else map_of xs k')"
  by (simp add: update_conv')

lemma map_of_Some_keys: "k \<in> fst ` set xs \<longleftrightarrow> (\<exists>v. map_of xs k = Some v)"
  by (metis map_of_eq_None_iff not_None_eq)

subsection \<open>First positions\<close>

text \<open>\<open>Iterator::position\<close>.\<close>

fun position :: "('a \<Rightarrow> bool) \<Rightarrow> 'a list \<Rightarrow> nat option" where
  "position P [] = None"
| "position P (x # xs) = (if P x then Some 0 else map_option Suc (position P xs))"

text \<open>\<open>VecDeque::remove\<close> of an index in range.\<close>

definition remove_at :: "nat \<Rightarrow> 'a list \<Rightarrow> 'a list" where
  "remove_at i xs = take i xs @ drop (Suc i) xs"

lemma position_None [simp]: "position P xs = None \<longleftrightarrow> (\<forall>x \<in> set xs. \<not> P x)"
  by (induction xs) auto

lemma position_snoc: "\<not> P x \<Longrightarrow> position P (xs @ [x]) = position P xs"
  by (induction xs) auto

lemma position_Some:
  "position P xs = Some i \<longleftrightarrow> i < length xs \<and> P (xs ! i) \<and> (\<forall>j < i. \<not> P (xs ! j))"
proof (induction xs arbitrary: i)
  case (Cons x xs)
  then show ?case by (cases i) (auto simp: All_less_Suc2 nth_Cons' less_Suc_eq_0_disj)
qed simp

lemma length_remove_at [simp]: "i < length xs \<Longrightarrow> length (remove_at i xs) = length xs - 1"
  by (simp add: remove_at_def)

lemma set_remove_at: "set (remove_at i xs) \<subseteq> set xs"
  by (auto simp: remove_at_def dest: in_set_takeD in_set_dropD)

lemma map_remove_at: "map f (remove_at i xs) = remove_at i (map f xs)"
  by (simp add: remove_at_def take_map drop_map)

lemma distinct_remove_at:
  assumes "distinct xs" "i < length xs"
  shows "distinct (remove_at i xs)" and "set (remove_at i xs) = set xs - {xs ! i}"
proof -
  have xs: "xs = take i xs @ xs ! i # drop (Suc i) xs"
    using assms(2) by (rule id_take_nth_drop)
  have d: "distinct (take i xs @ xs ! i # drop (Suc i) xs)"
    using assms(1) xs by simp
  then show "distinct (remove_at i xs)" by (auto simp: remove_at_def)
  have "set xs = set (take i xs) \<union> {xs ! i} \<union> set (drop (Suc i) xs)"
    by (subst xs) auto
  with d show "set (remove_at i xs) = set xs - {xs ! i}" by (auto simp: remove_at_def)
qed

lemma remove_at_filter:
  assumes "distinct (map f xs)" "position (\<lambda>x. f x = k) xs = Some i"
  shows "remove_at i xs = filter (\<lambda>x. f x \<noteq> k) xs"
  using assms
proof (induction xs arbitrary: i)
  case (Cons x xs)
  show ?case
  proof (cases "f x = k")
    case True
    with Cons.prems have "filter (\<lambda>y. f y \<noteq> k) xs = xs"
      by (intro filter_True) (auto simp: image_iff)
    with True Cons.prems show ?thesis by (simp add: remove_at_def)
  next
    case False
    with Cons.prems obtain j where j: "i = Suc j" "position (\<lambda>x. f x = k) xs = Some j" by auto
    then have "remove_at j xs = filter (\<lambda>x. f x \<noteq> k) xs"
      using Cons.prems by (intro Cons.IH) auto
    with False j show ?thesis by (simp add: remove_at_def)
  qed
qed simp

subsection \<open>Lines served in order\<close>

text \<open>What a worker that pulls from a line until it is empty relies on.\<close>

locale fifo_line =
  fixes line :: "'q \<Rightarrow> 'a list" and pull :: "'q \<Rightarrow> ('a \<times> 'q) option"
  assumes pull_None: "pull q = None \<longleftrightarrow> line q = []"
    and pull_Some: "pull q = Some (x, q') \<Longrightarrow> line q = x # line q'"

primrec drain :: "('q \<Rightarrow> ('a \<times> 'q) option) \<Rightarrow> nat \<Rightarrow> 'q \<Rightarrow> 'a list \<times> 'q" where
  "drain pull 0 q = ([], q)"
| "drain pull (Suc n) q =
     (case pull q of
        None \<Rightarrow> ([], q)
      | Some (x, q') \<Rightarrow> (case drain pull n q' of (xs, r) \<Rightarrow> (x # xs, r)))"

context fifo_line
begin

lemma drain_line: "length (line q) \<le> n \<Longrightarrow> fst (drain pull n q) = line q \<and> line (snd (drain pull n q)) = []"
proof (induction n arbitrary: q)
  case 0
  then show ?case by simp
next
  case (Suc n)
  show ?case
  proof (cases "pull q")
    case None
    then show ?thesis using pull_None [of q] by simp
  next
    case (Some p)
    then obtain x q' where p: "pull q = Some (x, q')" by (cases p) auto
    with Suc.prems Suc.IH [of q'] pull_Some [OF p] show ?thesis
      by (auto split: prod.splits)
  qed
qed

end

subsection \<open>Durations and machine integers\<close>

text \<open>
  A \<open>Duration\<close> is 64 bits of seconds and a nanosecond part below a second; it is modelled as
  its number of nanoseconds, and its arithmetic saturates at \<open>duration_max\<close>.
\<close>

type_synonym duration = nat

definition duration_max :: duration where
  "duration_max = 2 ^ 64 * 1000000000 - 1"

definition from_millis :: "nat \<Rightarrow> duration" where
  "from_millis n = n * 1000000"

definition as_millis :: "duration \<Rightarrow> nat" where
  "as_millis d = d div 1000000"

definition from_secs :: "nat \<Rightarrow> duration" where
  "from_secs n = n * 1000000000"

definition dur_saturating_mul :: "duration \<Rightarrow> nat \<Rightarrow> duration" where
  "dur_saturating_mul d n = min (d * n) duration_max"

definition u64_max :: nat where
  "u64_max = 2 ^ 64 - 1"

definition u32_max :: nat where
  "u32_max = 2 ^ 32 - 1"

text \<open>\<open>u64::try_from(n).unwrap_or(u64::MAX)\<close>.\<close>

definition u64_clamp :: "nat \<Rightarrow> nat" where
  "u64_clamp n = (if n \<le> u64_max then n else u64_max)"

definition saturating_inc :: "'a::len word \<Rightarrow> 'a word" where
  "saturating_inc w = (if w = - 1 then w else w + 1)"

definition saturating_dec :: "'a::len word \<Rightarrow> 'a word" where
  "saturating_dec w = (if w = 0 then 0 else w - 1)"

lemma unat_max: "unat (- 1 :: 'a::len word) = 2 ^ LENGTH('a) - 1"
  by (simp add: unat_eq_nat_uint uint_word_ariths zmod_minus1 nat_diff_distrib nat_power_eq)

lemma unat_saturating_inc:
  "unat (saturating_inc (w :: 'a::len word)) = min (Suc (unat w)) (2 ^ LENGTH('a) - 1)"
proof (cases "w = - 1")
  case True
  have "(1::nat) \<le> 2 ^ LENGTH('a)" by simp
  with True show ?thesis by (simp add: saturating_inc_def unat_max)
next
  case False
  then have "1 + w \<noteq> 0" by (metis add.commute add_eq_0_iff2)
  then have "unat (1 + w) = Suc (unat w)" by (rule unatSuc)
  moreover have "unat (1 + w) < 2 ^ LENGTH('a)" by simp
  ultimately show ?thesis using False by (simp add: saturating_inc_def add.commute min_def)
qed

lemma unat_saturating_inc_exact:
  assumes "(w :: 'a::len word) \<noteq> - 1"
  shows "unat (saturating_inc w) = Suc (unat w)"
proof -
  have "1 + w \<noteq> 0" using assms by (metis add.commute add_eq_0_iff2)
  then have "unat (1 + w) = Suc (unat w)" by (rule unatSuc)
  then show ?thesis using assms by (simp add: saturating_inc_def add.commute)
qed

lemma saturating_inc_greater: "(w :: 'a::len word) \<noteq> - 1 \<Longrightarrow> w < saturating_inc w"
  by (simp add: word_less_nat_alt unat_saturating_inc_exact)

lemma saturating_inc_of_nat:
  assumes "Suc n < 2 ^ LENGTH('a)"
  shows "saturating_inc (of_nat n :: 'a::len word) = of_nat (Suc n)"
proof -
  have "unat (saturating_inc (of_nat n :: 'a word)) = Suc n"
    using assms by (simp add: unat_saturating_inc unat_of_nat take_bit_nat_eq_self)
  also have "\<dots> = unat (of_nat (Suc n) :: 'a word)"
    using assms by (simp add: unat_of_nat take_bit_nat_eq_self del: of_nat_Suc)
  finally show ?thesis by (simp only: word_unat_eq_iff)
qed

lemma unat_saturating_dec: "unat (saturating_dec w) = unat w - 1"
  by (auto simp: saturating_dec_def unat_minus_one)

subsection \<open>Ordered maps\<close>

text \<open>A \<open>BTreeMap\<close>: the entries in strictly ascending order of their keys.\<close>

fun bt_insert :: "'k::linorder \<Rightarrow> 'v \<Rightarrow> ('k \<times> 'v) list \<Rightarrow> ('k \<times> 'v) list" where
  "bt_insert k v [] = [(k, v)]"
| "bt_insert k v ((k', v') # xs) =
     (if k < k' then (k, v) # (k', v') # xs
      else if k = k' then (k, v) # xs
      else (k', v') # bt_insert k v xs)"

definition bt_sorted :: "('k::linorder \<times> 'v) list \<Rightarrow> bool" where
  "bt_sorted xs \<longleftrightarrow> sorted_wrt (<) (map fst xs)"

lemma bt_sorted_simps [simp]:
  "bt_sorted []" "bt_sorted ((k, v) # xs) \<longleftrightarrow> (\<forall>k' \<in> fst ` set xs. k < k') \<and> bt_sorted xs"
  by (auto simp: bt_sorted_def)

lemma map_of_bt_insert [simp]: "map_of (bt_insert k v xs) = (map_of xs)(k \<mapsto> v)"
  by (induction k v xs rule: bt_insert.induct) auto

lemma keys_bt_insert [simp]: "fst ` set (bt_insert k v xs) = insert k (fst ` set xs)"
  by (induction k v xs rule: bt_insert.induct) auto

lemma bt_sorted_insert: "bt_sorted xs \<Longrightarrow> bt_sorted (bt_insert k v xs)"
  by (induction k v xs rule: bt_insert.induct) (auto simp: less_trans)

lemma bt_sorted_distinct: "bt_sorted xs \<Longrightarrow> distinct (map fst xs)"
  by (simp add: bt_sorted_def strict_sorted_iff)

end
