(* ===== verification/LocalQueue.thy ===== *)
theory LocalQueue
  imports Prelude
begin

text \<open>
  The bounded, keyed, in-process queue of \<^verbatim>\<open>crates/flatbed/src/local_queue.rs\<close>: its state
  under the mutex, the operations producers call (\<open>send\<close>, \<open>status\<close>, \<open>requeue\<close>, \<open>forget\<close>), the
  operations its worker calls (\<open>next\<close>, \<open>retry\<close>, \<open>fail\<close>, \<open>release_in_flight\<close>, \<open>clear\<close>), and the
  executor (\<open>serve\<close>, \<open>handle_messages\<close>, \<open>attempt\<close>, \<open>dead_letter\<close>) as a step relation in which
  producers interleave with the worker at every release of the mutex.
\<close>

subsection \<open>Data\<close>

datatype local_queue_result = Done | Retry string

datatype dead_letter_cause = Exhausted | TimedOut duration | Failed string

record dead_letter =
  cause :: dead_letter_cause
  attempts :: "32 word"
  last_reason :: "string option"
  at :: nat

datatype key_status = InHand | Queued nat | DeadLettered dead_letter | Absent

text \<open>The associated items of a \<open>LocalQueueWorker\<close> implementation.\<close>

record ('k, 'm) local_queue_worker =
  key :: "'m \<Rightarrow> 'k"
  NAME :: string
  CAPACITY :: nat
  SETTLE :: duration
  RETRY_DELAY :: duration
  MAX_ATTEMPTS :: "32 word option"
  HANDLE_TIMEOUT :: "duration option"
  DEAD_LETTER_CAPACITY :: nat

record local_queue_full =
  full_worker :: string
  full_capacity :: nat

datatype send_error = Full local_queue_full | SendDeadLettered

record ('k, 'm) entry =
  e_key :: 'k
  e_msg :: 'm
  e_attempts :: "32 word"
  e_last_reason :: "string option"

record 'k in_hand =
  h_key :: 'k
  h_attempts :: "32 word"
  h_last_reason :: "string option"

record ('k, 'm) aside =
  a_key :: 'k
  a_msg :: 'm
  a_letter :: dead_letter

record ('k, 'm) lq_state =
  queued :: "('k, 'm) entry list"
  in_flight :: "'k in_hand option"
  dead :: "('k, 'm) aside list"

definition entry_new :: "'k \<Rightarrow> 'm \<Rightarrow> ('k, 'm) entry" where
  "entry_new k m = \<lparr>e_key = k, e_msg = m, e_attempts = 0, e_last_reason = None\<rparr>"

definition lq_new :: "('k, 'm) lq_state" where
  "lq_new = \<lparr>queued = [], in_flight = None, dead = []\<rparr>"

definition queued_index :: "('k, 'm) lq_state \<Rightarrow> 'k \<Rightarrow> nat option" where
  "queued_index st k = position (\<lambda>e. e_key e = k) (queued st)"

definition dead_index :: "('k, 'm) lq_state \<Rightarrow> 'k \<Rightarrow> nat option" where
  "dead_index st k = position (\<lambda>a. a_key a = k) (dead st)"

text \<open>Messages held, counting the one being handled.\<close>

definition held :: "('k, 'm) lq_state \<Rightarrow> nat" where
  "held st = length (queued st) + (if in_flight st = None then 0 else 1)"

definition has_room :: "('k, 'm) local_queue_worker \<Rightarrow> ('k, 'm) lq_state \<Rightarrow> local_queue_full + unit" where
  "has_room w st =
     (if held st < CAPACITY w then Inr ()
      else Inl \<lparr>full_worker = NAME w, full_capacity = CAPACITY w\<rparr>)"

text \<open>The eviction loop of \<open>set_aside\<close>: drop the oldest while over the capacity.\<close>

fun evict :: "nat \<Rightarrow> 'a list \<Rightarrow> 'a list" where
  "evict cap xs =
     (if length xs > cap then (case xs of [] \<Rightarrow> [] | _ # ys \<Rightarrow> evict cap ys) else xs)"

declare evict.simps [simp del]

definition set_aside ::
  "('k, 'm) local_queue_worker \<Rightarrow> nat \<Rightarrow> 'k in_hand \<Rightarrow> 'm \<Rightarrow> dead_letter_cause
   \<Rightarrow> ('k, 'm) lq_state \<Rightarrow> dead_letter \<times> ('k, 'm) lq_state" where
  "set_aside w now hand m c st =
     (let q = (case queued_index st (h_key hand) of
                 Some i \<Rightarrow> remove_at i (queued st) | None \<Rightarrow> queued st);
          letter = \<lparr>cause = c, attempts = h_attempts hand, last_reason = h_last_reason hand, at = now\<rparr>
      in (letter,
          st\<lparr>queued := q,
             dead := evict (DEAD_LETTER_CAPACITY w)
                       (dead st @ [\<lparr>a_key = h_key hand, a_msg = m, a_letter = letter\<rparr>])\<rparr>))"

subsection \<open>Operations of the sender\<close>

definition send ::
  "('k, 'm) local_queue_worker \<Rightarrow> 'm \<Rightarrow> ('k, 'm) lq_state \<Rightarrow> (send_error + unit) \<times> ('k, 'm) lq_state" where
  "send w m st =
     (if dead_index st (key w m) \<noteq> None then (Inl SendDeadLettered, st)
      else if queued_index st (key w m) \<noteq> None then (Inr (), st)
      else (case has_room w st of
              Inl full \<Rightarrow> (Inl (Full full), st)
            | Inr _ \<Rightarrow> (Inr (), st\<lparr>queued := queued st @ [entry_new (key w m) m]\<rparr>)))"

definition status :: "('k, 'm) lq_state \<Rightarrow> 'k \<Rightarrow> key_status" where
  "status st k =
     (if (case in_flight st of None \<Rightarrow> False | Some hand \<Rightarrow> h_key hand = k) then InHand
      else (case queued_index st k of
              Some i \<Rightarrow> Queued (i + 1)
            | None \<Rightarrow> (case dead_index st k of
                         None \<Rightarrow> Absent
                       | Some i \<Rightarrow> DeadLettered (a_letter (dead st ! i)))))"

definition requeue ::
  "('k, 'm) local_queue_worker \<Rightarrow> 'k \<Rightarrow> ('k, 'm) lq_state
   \<Rightarrow> (local_queue_full + unit) \<times> ('k, 'm) lq_state" where
  "requeue w k st =
     (case dead_index st k of
        None \<Rightarrow> (Inr (), st)
      | Some i \<Rightarrow>
          (case has_room w st of
             Inl full \<Rightarrow> (Inl full, st)
           | Inr _ \<Rightarrow>
               (Inr (), st\<lparr>dead := remove_at i (dead st),
                           queued := queued st @ [entry_new (a_key (dead st ! i)) (a_msg (dead st ! i))]\<rparr>)))"

definition forget :: "'k \<Rightarrow> ('k, 'm) lq_state \<Rightarrow> bool \<times> ('k, 'm) lq_state" where
  "forget k st =
     (case dead_index st k of
        None \<Rightarrow> (False, st)
      | Some i \<Rightarrow> (True, st\<lparr>dead := remove_at i (dead st)\<rparr>))"

subsection \<open>Operations of the worker\<close>

text \<open>One turn of the loop of \<open>next\<close>: \<open>None\<close> where it goes on to wait for a wake-up.\<close>

definition next_msg :: "('k, 'm) lq_state \<Rightarrow> (('m \<times> 32 word) \<times> ('k, 'm) lq_state) option" where
  "next_msg st =
     (case queued st of
        [] \<Rightarrow> None
      | e # es \<Rightarrow>
          (let n = saturating_inc (e_attempts e)
           in Some ((e_msg e, n),
                st\<lparr>queued := es,
                   in_flight := Some \<lparr>h_key = e_key e, h_attempts = n, h_last_reason = e_last_reason e\<rparr>\<rparr>)))"

definition retry ::
  "('k, 'm) local_queue_worker \<Rightarrow> nat \<Rightarrow> 'm \<Rightarrow> string \<Rightarrow> ('k, 'm) lq_state
   \<Rightarrow> dead_letter option \<times> ('k, 'm) lq_state" where
  "retry w now m reason st =
     (case in_flight st of
        None \<Rightarrow> (None, st)
      | Some hand0 \<Rightarrow>
          (let st = st\<lparr>in_flight := None\<rparr>;
               hand = hand0\<lparr>h_last_reason := Some reason\<rparr>
           in if (case MAX_ATTEMPTS w of None \<Rightarrow> False | Some mx \<Rightarrow> h_attempts hand \<ge> mx)
              then (case set_aside w now hand m Exhausted st of (l, st') \<Rightarrow> (Some l, st'))
              else (case queued_index st (h_key hand) of
                      None \<Rightarrow>
                        (None, st\<lparr>queued := queued st @
                           [(entry_new (h_key hand) m)\<lparr>e_attempts := h_attempts hand,
                                                       e_last_reason := h_last_reason hand\<rparr>]\<rparr>)
                    | Some i \<Rightarrow>
                        (None, st\<lparr>queued := (queued st)[i := (queued st ! i)\<lparr>e_attempts := h_attempts hand,
                                                       e_last_reason := h_last_reason hand\<rparr>]\<rparr>))))"

definition fail ::
  "('k, 'm) local_queue_worker \<Rightarrow> nat \<Rightarrow> 'm \<Rightarrow> dead_letter_cause \<Rightarrow> ('k, 'm) lq_state
   \<Rightarrow> dead_letter option \<times> ('k, 'm) lq_state" where
  "fail w now m c st =
     (case in_flight st of
        None \<Rightarrow> (None, st)
      | Some hand0 \<Rightarrow>
          (let hand = (case c of Failed reason \<Rightarrow> hand0\<lparr>h_last_reason := Some reason\<rparr> | _ \<Rightarrow> hand0)
           in case set_aside w now hand m c (st\<lparr>in_flight := None\<rparr>) of (l, st') \<Rightarrow> (Some l, st')))"

definition release_in_flight :: "('k, 'm) lq_state \<Rightarrow> ('k, 'm) lq_state" where
  "release_in_flight st = st\<lparr>in_flight := None\<rparr>"

definition clear :: "('k, 'm) lq_state \<Rightarrow> (nat \<times> nat) \<times> ('k, 'm) lq_state" where
  "clear st = ((held st, length (dead st)), st\<lparr>queued := [], in_flight := None, dead := []\<rparr>)"

subsection \<open>The executor\<close>

text \<open>
  How one call of \<open>handle\<close> ends: it returns, it panics with a message, or it is still
  running when the timeout elapses. \<open>attempt\<close> is \<open>None\<close> where the worker sets no timeout, so
  that end cannot occur.
\<close>

datatype handle_end = Returned "string + local_queue_result" | Panicked string | StillRunning

definition attempt ::
  "('k, 'm) local_queue_worker \<Rightarrow> handle_end \<Rightarrow> (dead_letter_cause + local_queue_result) option" where
  "attempt w h =
     (case h of
        Returned (Inr outcome) \<Rightarrow> Some (Inr outcome)
      | Returned (Inl e) \<Rightarrow> Some (Inl (Failed e))
      | Panicked p \<Rightarrow> Some (Inl (Failed (''panicked: '' @ p)))
      | StillRunning \<Rightarrow> map_option (\<lambda>after. Inl (TimedOut after)) (HANDLE_TIMEOUT w))"

text \<open>
  Where the worker task is: outside a leadership term, in the settle sleep, about to lock the
  queue, waiting for a wake-up, running \<open>handle\<close>, in the retry sleep, running the
  \<open>dead_letter\<close> hook, or about to clear the queue of a term that ended.
\<close>

datatype 'm phase =
  Follower | Settling | Polling | Waiting | Handling 'm "32 word" | RetryPause | Hook 'm dead_letter | Clearing

text \<open>What the loop body does with the attempt's result, and where it goes next.\<close>

definition after_attempt ::
  "('k, 'm) local_queue_worker \<Rightarrow> nat \<Rightarrow> 'm \<Rightarrow> dead_letter_cause + local_queue_result
   \<Rightarrow> ('k, 'm) lq_state \<Rightarrow> 'm phase \<times> ('k, 'm) lq_state" where
  "after_attempt w now m r st =
     (case r of
        Inr Done \<Rightarrow> (Polling, release_in_flight st)
      | Inr (Retry reason) \<Rightarrow>
          (case retry w now m reason st of
             (None, st') \<Rightarrow> (RetryPause, st')
           | (Some l, st') \<Rightarrow> (Hook m l, st'))
      | Inl c \<Rightarrow>
          (case fail w now m c st of
             (None, st') \<Rightarrow> (Polling, st')
           | (Some l, st') \<Rightarrow> (Hook m l, st')))"

text \<open>
  The calls of \<open>handle\<close> as they happen, and when a message leaves the queue for good: done, set
  aside, or dropped with its call. \<open>streak\<close> counts the calls for a key since a message of that key
  last left; it is the specification of an attempt count and reads no counter of the queue.
\<close>

datatype 'k call_event = Called 'k | Left 'k | Cleared

definition streak :: "'k \<Rightarrow> 'k call_event list \<Rightarrow> nat" where
  "streak k log =
     foldl (\<lambda>n e. case e of Called k' \<Rightarrow> if k' = k then Suc n else n | Left k' \<Rightarrow> if k' = k then 0 else n | Cleared \<Rightarrow> 0) 0 log"

text \<open>
  The shared state: the queue, the wake-up cell, the producers that have pushed and unlocked but not
  yet notified, and the worker's phase. The cell is tokio's \<open>Notify\<close>, code outside the repository:
  \<open>notify\<close> and \<open>take_permit\<close> are parameters. \<open>calls\<close> only records.
\<close>

record ('k, 'm, 'n) lq_sys =
  lq :: "('k, 'm) lq_state"
  wake :: 'n
  unnotified :: nat
  phase :: "'m phase"
  calls :: "'k call_event list"

text \<open>A call that is cut short takes its message with it.\<close>

definition cut_short :: "('k, 'm) local_queue_worker \<Rightarrow> 'm phase \<Rightarrow> 'k call_event list" where
  "cut_short w ph = (case ph of Handling m n \<Rightarrow> [Left (key w m)] | _ \<Rightarrow> [])"

text \<open>A message leaves with any result but a retry, and with a retry that gave a letter.\<close>

definition leaves :: "dead_letter_cause + local_queue_result \<Rightarrow> 'm phase \<Rightarrow> bool" where
  "leaves r ph = (case r of Inr (Retry reason) \<Rightarrow> ph \<noteq> RetryPause | _ \<Rightarrow> True)"

text \<open>\<open>serve\<close> begins (or begins again after a supervised restart) by dropping the message in hand.\<close>

definition serve_start :: "('k, 'm) local_queue_worker \<Rightarrow> bool \<Rightarrow> ('k, 'm, 'n) lq_sys \<Rightarrow> ('k, 'm, 'n) lq_sys" where
  "serve_start w ha s =
     s\<lparr>lq := release_in_flight (lq s), phase := (if ha then Follower else Settling), calls := calls s @ cut_short w (phase s)\<rparr>"

text \<open>\<open>send\<close> and \<open>requeue\<close> push under the lock, unlock, and notify as a step of their own.\<close>

inductive lq_step ::
  "('k, 'm) local_queue_worker \<Rightarrow> bool \<Rightarrow> ('n \<Rightarrow> 'n) \<Rightarrow> ('n \<Rightarrow> 'n option)
   \<Rightarrow> ('k, 'm, 'n) lq_sys \<Rightarrow> ('k, 'm, 'n) lq_sys \<Rightarrow> bool"
  for w ha notify take_permit where
  send_new: "send w m (lq s) = (Inr (), q) \<Longrightarrow> q \<noteq> lq s \<Longrightarrow>
     lq_step w ha notify take_permit s (s\<lparr>lq := q, unnotified := Suc (unnotified s)\<rparr>)"
| send_other: "send w m (lq s) = (r, lq s) \<Longrightarrow> lq_step w ha notify take_permit s s"
| requeue_moved: "requeue w k (lq s) = (Inr (), q) \<Longrightarrow> dead_index (lq s) k \<noteq> None \<Longrightarrow>
     lq_step w ha notify take_permit s (s\<lparr>lq := q, unnotified := Suc (unnotified s)\<rparr>)"
| notifies: "unnotified s = Suc n \<Longrightarrow>
     lq_step w ha notify take_permit s (s\<lparr>unnotified := n, wake := notify (wake s)\<rparr>)"
| forget: "forget k (lq s) = (b, q) \<Longrightarrow> lq_step w ha notify take_permit s (s\<lparr>lq := q\<rparr>)"
| restart: "lq_step w ha notify take_permit s (serve_start w ha s)"
| lead: "phase s = Follower \<Longrightarrow> ha \<Longrightarrow> lq_step w ha notify take_permit s (s\<lparr>phase := Settling\<rparr>)"
| lose: "phase s \<noteq> Follower \<Longrightarrow> ha \<Longrightarrow>
     lq_step w ha notify take_permit s (s\<lparr>phase := Clearing, calls := calls s @ cut_short w (phase s)\<rparr>)"
| cleared: "phase s = Clearing \<Longrightarrow>
     lq_step w ha notify take_permit s (s\<lparr>lq := snd (clear (lq s)), phase := Follower, calls := calls s @ [Cleared]\<rparr>)"
| settled: "phase s = Settling \<Longrightarrow> lq_step w ha notify take_permit s (s\<lparr>phase := Polling\<rparr>)"
| poll_some: "phase s = Polling \<Longrightarrow> next_msg (lq s) = Some ((m, n), q) \<Longrightarrow>
     lq_step w ha notify take_permit s (s\<lparr>lq := q, phase := Handling m n, calls := calls s @ [Called (key w m)]\<rparr>)"
| poll_none: "phase s = Polling \<Longrightarrow> next_msg (lq s) = None \<Longrightarrow>
     lq_step w ha notify take_permit s (s\<lparr>phase := Waiting\<rparr>)"
| woken: "phase s = Waiting \<Longrightarrow> take_permit (wake s) = Some n' \<Longrightarrow>
     lq_step w ha notify take_permit s (s\<lparr>wake := n', phase := Polling\<rparr>)"
| handled: "phase s = Handling m n \<Longrightarrow> attempt w h = Some r \<Longrightarrow>
     after_attempt w now m r (lq s) = (ph, q) \<Longrightarrow>
     lq_step w ha notify take_permit s
       (s\<lparr>lq := q, phase := ph, calls := calls s @ (if leaves r ph then [Left (key w m)] else [])\<rparr>)"
| paused: "phase s = RetryPause \<Longrightarrow> lq_step w ha notify take_permit s (s\<lparr>phase := Polling\<rparr>)"
| hook_done: "phase s = Hook m l \<Longrightarrow> lq_step w ha notify take_permit s (s\<lparr>phase := Polling\<rparr>)"

inductive lq_reachable ::
  "('k, 'm) local_queue_worker \<Rightarrow> bool \<Rightarrow> ('n \<Rightarrow> 'n) \<Rightarrow> ('n \<Rightarrow> 'n option)
   \<Rightarrow> ('k, 'm, 'n) lq_sys \<Rightarrow> bool"
  for w ha notify take_permit where
  init: "lq_reachable w ha notify take_permit
           (serve_start w ha \<lparr>lq = lq_new, wake = n0, unnotified = 0, phase = Follower, calls = []\<rparr>)"
| step: "lq_reachable w ha notify take_permit s \<Longrightarrow> lq_step w ha notify take_permit s t \<Longrightarrow>
           lq_reachable w ha notify take_permit t"

subsection \<open>The invariant of the guarded state\<close>

definition qkeys :: "('k, 'm) lq_state \<Rightarrow> 'k list" where
  "qkeys st = map e_key (queued st)"

definition dkeys :: "('k, 'm) lq_state \<Rightarrow> 'k list" where
  "dkeys st = map a_key (dead st)"

text \<open>A key is in at most one place, up to a resend of the key in hand; capacities hold.\<close>

definition lq_inv :: "('k, 'm) local_queue_worker \<Rightarrow> ('k, 'm) lq_state \<Rightarrow> bool" where
  "lq_inv w st \<longleftrightarrow>
     distinct (qkeys st) \<and> distinct (dkeys st) \<and> set (qkeys st) \<inter> set (dkeys st) = {} \<and>
     (\<forall>h. in_flight st = Some h \<longrightarrow> h_key h \<notin> set (dkeys st)) \<and>
     held st \<le> CAPACITY w \<and> length (dead st) \<le> DEAD_LETTER_CAPACITY w"

text \<open>Under a limit, a queued message has attempts left and the one in hand is within it.\<close>

definition attempts_inv :: "('k, 'm) local_queue_worker \<Rightarrow> ('k, 'm) lq_state \<Rightarrow> bool" where
  "attempts_inv w st \<longleftrightarrow>
     (\<forall>mx. MAX_ATTEMPTS w = Some mx \<longrightarrow>
        (\<forall>e \<in> set (queued st). e_attempts e < mx) \<and>
        (\<forall>h. in_flight st = Some h \<longrightarrow> h_attempts h \<le> mx))"

lemmas lq_inv_defs = lq_inv_def attempts_inv_def qkeys_def dkeys_def held_def

lemma lq_inv_new [invs]: "lq_inv w lq_new" "attempts_inv w lq_new"
  by (simp_all add: lq_inv_defs lq_new_def)

lemma entry_new_sel [simp]:
  "e_key (entry_new k m) = k" "e_msg (entry_new k m) = m" "e_attempts (entry_new k m) = 0"
  "e_last_reason (entry_new k m) = None"
  by (simp_all add: entry_new_def)

lemma queued_index_None: "queued_index st k = None \<longleftrightarrow> k \<notin> set (qkeys st)"
  by (auto simp: queued_index_def qkeys_def)

lemma dead_index_None: "dead_index st k = None \<longleftrightarrow> k \<notin> set (dkeys st)"
  by (auto simp: dead_index_def dkeys_def)

lemma queued_index_Some:
  "queued_index st k = Some i \<Longrightarrow> i < length (queued st) \<and> e_key (queued st ! i) = k"
  by (auto simp: queued_index_def position_Some)

lemma dead_index_Some:
  "dead_index st k = Some i \<Longrightarrow> i < length (dead st) \<and> a_key (dead st ! i) = k"
  by (auto simp: dead_index_def position_Some)

lemma evict_eq: "evict cap xs = drop (length xs - cap) xs"
proof (induction cap xs rule: evict.induct)
  case (1 cap xs)
  then show ?case
    by (cases xs) (auto simp: evict.simps [of cap "[]"] evict.simps [of cap "_ # _"] Suc_diff_le)
qed

lemma has_room_iff: "has_room w st = Inr () \<longleftrightarrow> held st < CAPACITY w"
  by (simp add: has_room_def)

text \<open>What \<open>set_aside\<close> leaves, as filters.\<close>

lemma set_aside_queued:
  assumes "distinct (qkeys st)"
  shows "queued (snd (set_aside w now hand m c st)) = filter (\<lambda>e. e_key e \<noteq> h_key hand) (queued st)"
proof (cases "queued_index st (h_key hand)")
  case None
  then have "filter (\<lambda>e. e_key e \<noteq> h_key hand) (queued st) = queued st"
    by (intro filter_True) (auto simp: queued_index_None qkeys_def image_iff)
  with None show ?thesis by (simp add: set_aside_def Let_def)
next
  case (Some i)
  then show ?thesis
    using assms remove_at_filter [of e_key "queued st" "h_key hand" i]
    by (simp add: set_aside_def queued_index_def qkeys_def Let_def)
qed

lemma set_aside_dead:
  "dead (snd (set_aside w now hand m c st)) =
     (let all = dead st @ [\<lparr>a_key = h_key hand, a_msg = m, a_letter = fst (set_aside w now hand m c st)\<rparr>]
      in drop (length all - DEAD_LETTER_CAPACITY w) all)"
  by (simp add: set_aside_def evict_eq Let_def)

lemma set_aside_in_flight [simp]: "in_flight (snd (set_aside w now hand m c st)) = in_flight st"
  by (simp add: set_aside_def Let_def)

lemma set_aside_inv:
  assumes "distinct (qkeys st)" "distinct (dkeys st)" "set (qkeys st) \<inter> set (dkeys st) = {}"
    and "in_flight st = None" "h_key hand \<notin> set (dkeys st)" "length (queued st) \<le> CAPACITY w"
  shows "lq_inv w (snd (set_aside w now hand m c st))"
proof -
  let ?st' = "snd (set_aside w now hand m c st)"
  have q: "queued ?st' = filter (\<lambda>e. e_key e \<noteq> h_key hand) (queued st)"
    using assms(1) by (rule set_aside_queued)
  have qk: "qkeys ?st' = filter (\<lambda>k. k \<noteq> h_key hand) (qkeys st)"
    by (simp add: qkeys_def q filter_map comp_def)
  have dk: "dkeys ?st' = drop (Suc (length (dead st)) - DEAD_LETTER_CAPACITY w) (dkeys st @ [h_key hand])"
    unfolding dkeys_def set_aside_dead Let_def drop_map [symmetric] by simp
  have "set (dkeys ?st') \<subseteq> insert (h_key hand) (set (dkeys st))"
    unfolding dk by (auto dest: in_set_dropD)
  moreover have "distinct (dkeys ?st')"
    unfolding dk using assms(2,5) by (intro distinct_drop) simp
  moreover have "length (queued ?st') \<le> CAPACITY w"
    unfolding q using assms(6) by (rule order_trans [OF length_filter_le])
  moreover have "length (dead ?st') \<le> DEAD_LETTER_CAPACITY w"
    by (simp add: set_aside_dead Let_def)
  ultimately show ?thesis
    using assms by (auto simp: lq_inv_def qk held_def)
qed

subsection \<open>Every operation keeps the invariants\<close>

definition keyed :: "('k, 'm) local_queue_worker \<Rightarrow> ('k, 'm) lq_state \<Rightarrow> bool" where
  "keyed w st \<longleftrightarrow>
     (\<forall>e \<in> set (queued st). e_key e = key w (e_msg e)) \<and> (\<forall>a \<in> set (dead st). a_key a = key w (a_msg a))"

definition lq_ok :: "('k, 'm) local_queue_worker \<Rightarrow> ('k, 'm) lq_state \<Rightarrow> bool" where
  "lq_ok w st \<longleftrightarrow> lq_inv w st \<and> attempts_inv w st \<and> keyed w st"

text \<open>\<open>MAX_ATTEMPTS\<close> is a \<open>NonZeroU32\<close>.\<close>

definition nonzero_max :: "('k, 'm) local_queue_worker \<Rightarrow> bool" where
  "nonzero_max w \<longleftrightarrow> MAX_ATTEMPTS w \<noteq> Some 0"

lemma lq_ok_new [invs]: "lq_ok w lq_new"
  by (simp add: lq_ok_def invs keyed_def) (simp add: lq_new_def)

lemma lq_ok_send [invs]:
  assumes "lq_ok w st" "nonzero_max w"
  shows "lq_ok w (snd (send w m st))"
  using assms
  by (auto simp: lq_ok_def send_def lq_inv_def keyed_def attempts_inv_def nonzero_max_def held_def
      dead_index_None queued_index_None qkeys_def dkeys_def word_gt_0 has_room_def split: sum.splits if_splits)

lemma remove_dead:
  assumes "distinct (dkeys st)" "dead_index st k = Some i"
  shows "set (map a_key (remove_at i (dead st))) = set (dkeys st) - {k}"
    and "distinct (map a_key (remove_at i (dead st)))" and "length (remove_at i (dead st)) < length (dead st)"
    and "set (remove_at i (dead st)) \<subseteq> set (dead st)"
  using assms dead_index_Some [OF assms(2)] distinct_remove_at [of "dkeys st" i] set_remove_at [of i "dead st"]
  by (auto simp add: map_remove_at dkeys_def)

lemma lq_ok_requeue [invs]:
  assumes "lq_ok w st" "nonzero_max w"
  shows "lq_ok w (snd (requeue w k st))"
proof (cases "dead_index st k")
  case None
  then show ?thesis using assms(1) by (simp add: requeue_def)
next
  case (Some i)
  have d: "distinct (dkeys st)" using assms(1) by (simp add: lq_ok_def lq_inv_def)
  note r = remove_dead [OF d Some]
  have a: "a_key (dead st ! i) = k" "dead st ! i \<in> set (dead st)"
    using dead_index_Some [OF Some] by auto
  have k: "k \<in> set (dkeys st)" using a by (force simp: dkeys_def)
  show ?thesis
  proof (cases "has_room w st")
    case (Inl full)
    then show ?thesis using assms(1) Some by (simp add: requeue_def)
  next
    case (Inr u)
    let ?e = "entry_new k (a_msg (dead st ! i))"
    let ?st' = "st\<lparr>dead := remove_at i (dead st), queued := queued st @ [?e]\<rparr>"
    have eq: "snd (requeue w k st) = ?st'" using Some Inr a by (simp add: requeue_def)
    have room: "held st < CAPACITY w" using Inr by (simp add: has_room_iff)
    have dk: "set (dkeys ?st') = set (dkeys st) - {k}" "distinct (dkeys ?st')"
      using r(1,2) by (simp_all add: dkeys_def)
    have qk: "qkeys ?st' = qkeys st @ [k]" by (simp add: qkeys_def)
    have "lq_inv w ?st'"
      using assms(1) room r(3) dk k unfolding lq_ok_def lq_inv_def qk
      by (auto simp: held_def split: if_splits)
    moreover have "attempts_inv w ?st'"
      using assms by (auto simp: lq_ok_def attempts_inv_def nonzero_max_def word_gt_0)
    moreover have "keyed w ?st'"
      using assms(1) a r(4) by (auto simp: lq_ok_def keyed_def)
    ultimately show ?thesis by (simp add: eq lq_ok_def)
  qed
qed

lemma lq_ok_forget [invs]:
  assumes "lq_ok w st"
  shows "lq_ok w (snd (forget k st))"
proof (cases "dead_index st k")
  case None
  then show ?thesis using assms(1) by (simp add: forget_def)
next
  case (Some i)
  have d: "distinct (dkeys st)" using assms(1) by (simp add: lq_ok_def lq_inv_def)
  note r = remove_dead [OF d Some]
  show ?thesis
    using assms r Some
    by (auto simp: forget_def lq_ok_def lq_inv_def keyed_def attempts_inv_def held_def
        qkeys_def dkeys_def subset_iff)
qed

lemma lq_ok_release [invs]: "lq_ok w st \<Longrightarrow> lq_ok w (release_in_flight st)"
  by (auto simp: release_in_flight_def lq_ok_def lq_inv_defs keyed_def split: if_splits)

lemma lq_ok_clear [invs]: "lq_ok w (snd (clear st))"
  by (simp add: clear_def lq_ok_def lq_inv_defs keyed_def)

lemma saturating_inc_le: "a < b \<Longrightarrow> saturating_inc a \<le> b"
  by (auto simp: saturating_inc_def word_less_nat_alt word_le_nat_alt unat_word_ariths
      intro: order_trans [OF mod_less_eq_dividend])

lemma next_msg_Some:
  "next_msg st = Some ((m, n), st') \<longleftrightarrow>
     (\<exists>e. queued st = e # queued st' \<and> m = e_msg e \<and> n = saturating_inc (e_attempts e) \<and>
        in_flight st' = Some \<lparr>h_key = e_key e, h_attempts = n, h_last_reason = e_last_reason e\<rparr> \<and>
        dead st' = dead st)"
  by (cases st; cases st') (auto simp: next_msg_def Let_def split: list.splits)

lemma lq_ok_next [invs]:
  assumes "lq_ok w st" "in_flight st = None" "next_msg st = Some ((m, n), st')"
  shows "lq_ok w st'"
    and "\<exists>h. in_flight st' = Some h \<and> h_key h = key w m \<and> h_attempts h = n"
proof -
  from assms(3) obtain e where e: "queued st = e # queued st'" "m = e_msg e" "n = saturating_inc (e_attempts e)"
    "in_flight st' = Some \<lparr>h_key = e_key e, h_attempts = n, h_last_reason = e_last_reason e\<rparr>" "dead st' = dead st"
    by (auto simp: next_msg_Some)
  have ks: "qkeys st = e_key e # qkeys st'" "dkeys st' = dkeys st"
    using e by (simp_all add: qkeys_def dkeys_def)
  have "lq_inv w st'"
    using assms(1,2) e ks by (auto simp: lq_ok_def lq_inv_def held_def)
  moreover have "attempts_inv w st'" "keyed w st'"
    using assms(1) e by (auto simp: lq_ok_def attempts_inv_def keyed_def saturating_inc_le)
  ultimately show "lq_ok w st'" by (simp add: lq_ok_def)
  show "\<exists>h. in_flight st' = Some h \<and> h_key h = key w m \<and> h_attempts h = n"
    using assms(1) e by (simp add: lq_ok_def keyed_def)
qed

lemma keyed_set_aside:
  "keyed w st \<Longrightarrow> h_key hand = key w m \<Longrightarrow> keyed w (snd (set_aside w now hand m c st))"
  by (auto simp: keyed_def set_aside_def evict_eq Let_def
      dest: in_set_dropD set_remove_at [THEN subsetD] split: option.splits)

lemma attempts_set_aside:
  "attempts_inv w st \<Longrightarrow> attempts_inv w (snd (set_aside w now hand m c st))"
  by (auto simp: attempts_inv_def set_aside_def Let_def
      dest: set_remove_at [THEN subsetD] split: option.splits)

lemma lq_ok_set_aside:
  assumes "lq_ok w st" "in_flight st = Some hand0" "h_key hand = h_key hand0" "h_key hand = key w m"
  shows "lq_ok w (snd (set_aside w now hand m c (st\<lparr>in_flight := None\<rparr>)))"
proof -
  let ?st = "st\<lparr>in_flight := None\<rparr>"
  have "lq_inv w (snd (set_aside w now hand m c ?st))"
    using assms by (intro set_aside_inv) (auto simp: lq_ok_def lq_inv_defs)
  moreover have "keyed w ?st" "attempts_inv w ?st"
    using assms(1) by (auto simp: lq_ok_def keyed_def attempts_inv_def)
  ultimately show ?thesis
    using assms(4) by (simp add: lq_ok_def keyed_set_aside attempts_set_aside)
qed

lemma fail_eq:
  assumes "in_flight st = Some hand"
  obtains hand' where "h_key hand' = h_key hand" "h_attempts hand' = h_attempts hand"
    and "snd (fail w now m c st) = snd (set_aside w now hand' m c (st\<lparr>in_flight := None\<rparr>))"
    and "fst (fail w now m c st) = Some (fst (set_aside w now hand' m c (st\<lparr>in_flight := None\<rparr>)))"
proof -
  let ?hand = "case c of Failed reason \<Rightarrow> hand\<lparr>h_last_reason := Some reason\<rparr> | _ \<Rightarrow> hand"
  have "h_key ?hand = h_key hand" "h_attempts ?hand = h_attempts hand"
    by (simp_all split: dead_letter_cause.splits)
  then show ?thesis
    using assms by (intro that [of ?hand]) (simp_all add: fail_def Let_def split: prod.splits)
qed

lemma lq_ok_fail [invs]:
  assumes "lq_ok w st" "in_flight st = Some hand" "h_key hand = key w m"
  shows "lq_ok w (snd (fail w now m c st))"
  using assms(2)
proof (rule fail_eq [where w = w and now = now and m = m and c = c])
  fix hand' assume h: "h_key hand' = h_key hand"
    and eq: "snd (fail w now m c st) = snd (set_aside w now hand' m c (st\<lparr>in_flight := None\<rparr>))"
  show ?thesis
    unfolding eq using assms(3) h by (intro lq_ok_set_aside [OF assms(1,2)]) simp_all
qed

text \<open>The three ways \<open>retry\<close> ends: set aside, back at the end of the line, or merged into the resend.\<close>

definition exhausted :: "('k, 'm) local_queue_worker \<Rightarrow> 'k in_hand \<Rightarrow> bool" where
  "exhausted w hand \<longleftrightarrow> (case MAX_ATTEMPTS w of None \<Rightarrow> False | Some mx \<Rightarrow> mx \<le> h_attempts hand)"

lemma retry_exhausted:
  "in_flight st = Some hand \<Longrightarrow> exhausted w hand \<Longrightarrow>
   retry w now m reason st =
     map_prod Some id (set_aside w now (hand\<lparr>h_last_reason := Some reason\<rparr>) m Exhausted (st\<lparr>in_flight := None\<rparr>))"
  by (simp add: retry_def exhausted_def Let_def split: prod.splits option.splits)

lemma retry_back:
  "in_flight st = Some hand \<Longrightarrow> \<not> exhausted w hand \<Longrightarrow> queued_index st (h_key hand) = None \<Longrightarrow>
   retry w now m reason st =
     (None, st\<lparr>in_flight := None, queued := queued st @
        [\<lparr>e_key = h_key hand, e_msg = m, e_attempts = h_attempts hand, e_last_reason = Some reason\<rparr>]\<rparr>)"
  by (simp add: retry_def exhausted_def Let_def entry_new_def queued_index_def del: position_None split: option.splits)

lemma retry_merge:
  "in_flight st = Some hand \<Longrightarrow> \<not> exhausted w hand \<Longrightarrow> queued_index st (h_key hand) = Some i \<Longrightarrow>
   retry w now m reason st =
     (None, st\<lparr>in_flight := None, queued := (queued st)[i :=
        (queued st ! i)\<lparr>e_attempts := h_attempts hand, e_last_reason := Some reason\<rparr>]\<rparr>)"
  by (simp add: retry_def exhausted_def Let_def queued_index_def split: option.splits)

lemma lq_ok_retry [invs]:
  assumes "lq_ok w st" "in_flight st = Some hand" "h_key hand = key w m"
  shows "lq_ok w (snd (retry w now m reason st))"
proof (cases "exhausted w hand")
  case True
  with assms lq_ok_set_aside [OF assms(1,2)] show ?thesis
    by (simp add: retry_exhausted)
next
  case False
  then have lt: "\<forall>mx. MAX_ATTEMPTS w = Some mx \<longrightarrow> h_attempts hand < mx"
    by (auto simp: exhausted_def)
  show ?thesis
  proof (cases "queued_index st (h_key hand)")
    case None
    with assms False lt show ?thesis
      by (auto simp: retry_back queued_index_None lq_ok_def lq_inv_defs keyed_def)
  next
    case (Some i)
    note i = queued_index_Some [OF Some]
    let ?e = "(queued st ! i)\<lparr>e_attempts := h_attempts hand, e_last_reason := Some reason\<rparr>"
    let ?st' = "st\<lparr>in_flight := None, queued := (queued st)[i := ?e]\<rparr>"
    have "qkeys ?st' = qkeys st"
      using i by (simp add: qkeys_def map_update) (metis list_update_id nth_map)
    then have "lq_inv w ?st'"
      using assms(1) by (auto simp: lq_ok_def lq_inv_def held_def dkeys_def split: if_splits)
    moreover have "keyed w ?st'" "attempts_inv w ?st'"
      using assms(1) i lt by (auto simp: lq_ok_def keyed_def attempts_inv_def dest!: set_update_subset_insert [THEN subsetD])
    ultimately show ?thesis
      by (simp add: retry_merge [OF assms(2) False Some] lq_ok_def)
  qed
qed

subsection \<open>Invariant of the executor\<close>

text \<open>The message in hand is the one the worker runs \<open>handle\<close> on, with its count.\<close>

definition phase_inv :: "('k, 'm) local_queue_worker \<Rightarrow> ('k, 'm, 'n) lq_sys \<Rightarrow> bool" where
  "phase_inv w s \<longleftrightarrow>
     (case phase s of
        Handling m n \<Rightarrow> (\<exists>h. in_flight (lq s) = Some h \<and> h_key h = key w m \<and> h_attempts h = n)
      | Clearing \<Rightarrow> True
      | _ \<Rightarrow> in_flight (lq s) = None)"

definition sys_inv ::
  "('k, 'm) local_queue_worker \<Rightarrow> ('n \<Rightarrow> 'n option) \<Rightarrow> ('k, 'm, 'n) lq_sys \<Rightarrow> bool" where
  "sys_inv w take_permit s \<longleftrightarrow>
     lq_ok w (lq s) \<and> phase_inv w s \<and>
     (phase s = Waiting \<longrightarrow> queued (lq s) = [] \<or> take_permit (wake s) \<noteq> None \<or> 0 < unnotified s)"

lemma send_in_flight [simp]: "in_flight (snd (send w m st)) = in_flight st"
  by (simp add: send_def split: sum.splits)

lemma requeue_in_flight [simp]: "in_flight (snd (requeue w k st)) = in_flight st"
  by (simp add: requeue_def split: sum.splits option.splits)

lemma forget_frame [simp]:
  "in_flight (snd (forget k st)) = in_flight st" "queued (snd (forget k st)) = queued st"
  by (simp_all add: forget_def split: option.splits)

lemma fail_in_flight: "in_flight (snd (fail w now m c st)) = None"
  by (cases "in_flight st") (auto simp: fail_def set_aside_def Let_def split: prod.splits)

lemma retry_in_flight: "in_flight (snd (retry w now m reason st)) = None"
  by (cases "in_flight st") (auto simp: retry_def set_aside_def Let_def split: prod.splits option.splits)

lemma after_attempt_ok:
  assumes "lq_ok w st" "in_flight st = Some hand" "h_key hand = key w m"
    and "after_attempt w now m r st = (ph, q)"
  shows "lq_ok w q \<and> in_flight q = None \<and> (\<forall>m n. ph \<noteq> Handling m n) \<and> ph \<noteq> Waiting"
proof (cases r)
  case (Inl c)
  with assms(4) lq_ok_fail [OF assms(1-3), of now c] fail_in_flight [of w now m c st] show ?thesis
    by (auto simp: after_attempt_def split: prod.splits option.splits)
next
  case (Inr res)
  show ?thesis
  proof (cases res)
    case Done
    with Inr assms show ?thesis
      by (auto simp: after_attempt_def invs) (auto simp: release_in_flight_def)
  next
    case (Retry reason)
    with Inr assms(4) lq_ok_retry [OF assms(1-3), of now reason] retry_in_flight [of w now m reason st]
    show ?thesis by (auto simp: after_attempt_def split: prod.splits option.splits)
  qed
qed

lemma sys_inv_init: "sys_inv w take_permit (serve_start w ha \<lparr>lq = lq_new, wake = n0, unnotified = 0, phase = Follower, calls = []\<rparr>)"
  by (auto simp: sys_inv_def serve_start_def invs phase_inv_def) (simp add: release_in_flight_def)+

lemma sys_inv_step:
  assumes "lq_step w ha notify take_permit s t" "sys_inv w take_permit s"
    and "nonzero_max w" and "\<And>n. take_permit (notify n) \<noteq> None"
  shows "sys_inv w take_permit t"
  using assms(1)
proof cases
  case (send_new m q)
  then have q: "snd (send w m (lq s)) = q" by simp
  have "lq_ok w q" "in_flight q = in_flight (lq s)"
    using lq_ok_send [of w "lq s" m] send_in_flight [of w m "lq s"] assms(2,3) unfolding q
    by (simp_all add: sys_inv_def)
  then show ?thesis
    unfolding send_new(1) using assms(2,4)
    by (cases "phase s") (simp_all add: sys_inv_def phase_inv_def)
next
  case (send_other m r)
  with assms(2) show ?thesis by simp
next
  case (requeue_moved k q)
  then have q: "snd (requeue w k (lq s)) = q" by simp
  have "lq_ok w q" "in_flight q = in_flight (lq s)"
    using lq_ok_requeue [of w "lq s" k] requeue_in_flight [of w k "lq s"] assms(2,3) unfolding q
    by (simp_all add: sys_inv_def)
  then show ?thesis
    unfolding requeue_moved(1) using assms(2,4)
    by (cases "phase s") (simp_all add: sys_inv_def phase_inv_def)
next
  case (forget k b q)
  then have q: "snd (forget k (lq s)) = q" by simp
  have "lq_ok w q" "in_flight q = in_flight (lq s)" "queued q = queued (lq s)"
    using lq_ok_forget [of w "lq s" k] forget_frame [of k "lq s"] assms(2) unfolding q
    by (simp_all add: sys_inv_def)
  then show ?thesis
    unfolding forget(1) using assms(2)
    by (cases "phase s") (simp_all add: sys_inv_def phase_inv_def)
next
  case restart
  have "in_flight (release_in_flight (lq s)) = None" by (simp add: release_in_flight_def)
  with assms(2) show ?thesis
    unfolding restart by (simp add: sys_inv_def serve_start_def invs phase_inv_def)
next
  case (handled m n h r now ph q)
  with assms(2) obtain hand where h: "in_flight (lq s) = Some hand" "h_key hand = key w m" "lq_ok w (lq s)"
    by (auto simp: sys_inv_def phase_inv_def)
  have "lq_ok w q \<and> in_flight q = None \<and> (\<forall>m n. ph \<noteq> Handling m n) \<and> ph \<noteq> Waiting"
    using after_attempt_ok [OF h(3,1,2) handled(4)] .
  then show ?thesis
    unfolding handled(1) by (cases ph) (simp_all add: sys_inv_def phase_inv_def)
next
  case (poll_some m n q)
  with assms(2) have "lq_ok w (lq s)" "in_flight (lq s) = None"
    by (simp_all add: sys_inv_def phase_inv_def)
  from lq_ok_next [OF this poll_some(3)] show ?thesis
    unfolding poll_some(1) by (simp add: sys_inv_def phase_inv_def)
next
  case poll_none
  then have "queued (lq s) = []" by (simp add: next_msg_def Let_def split: list.splits)
  with poll_none assms(2) show ?thesis by (simp add: sys_inv_def phase_inv_def)
next
  case lose
  with assms(2) show ?thesis by (simp add: sys_inv_def phase_inv_def)
next
  case cleared
  have "in_flight (snd (clear (lq s))) = None" by (simp add: clear_def)
  then show ?thesis unfolding cleared(1) by (simp add: sys_inv_def phase_inv_def invs)
next
  case (notifies n)
  with assms(2,4) show ?thesis by (cases "phase s") (simp_all add: sys_inv_def phase_inv_def)
next
  case (woken n')
  with assms(2) show ?thesis by (simp add: sys_inv_def phase_inv_def)
next
  case lead
  with assms(2) show ?thesis by (simp add: sys_inv_def phase_inv_def)
next
  case settled
  with assms(2) show ?thesis by (simp add: sys_inv_def phase_inv_def)
next
  case paused
  with assms(2) show ?thesis by (simp add: sys_inv_def phase_inv_def)
next
  case (hook_done m l)
  with assms(2) show ?thesis by (simp add: sys_inv_def phase_inv_def)
qed

lemma sys_inv_reachable:
  assumes "lq_reachable w ha notify take_permit s" "nonzero_max w" "\<And>n. take_permit (notify n) \<noteq> None"
  shows "sys_inv w take_permit s"
  using assms(1)
proof induction
  case (init n0)
  show ?case by (rule sys_inv_init)
next
  case (step s t)
  show ?case by (rule sys_inv_step [OF step.hyps(2) step.IH assms(2,3)])
qed

subsection \<open>Counting the calls\<close>

lemma streak_snoc [simp]:
  "streak k [] = 0" "streak k (log @ [Called k']) = (if k' = k then Suc (streak k log) else streak k log)"
  "streak k (log @ [Left k']) = (if k' = k then 0 else streak k log)" "streak k (log @ [Cleared]) = 0"
  by (simp_all add: streak_def)

definition handling :: "('k, 'm) local_queue_worker \<Rightarrow> 'm phase \<Rightarrow> 'k option" where
  "handling w ph = (case ph of Handling m n \<Rightarrow> Some (key w m) | _ \<Rightarrow> None)"

text \<open>
  The counts in the queue are the numbers of calls: of a queued key, or none yet when its message is
  a resend of the one being handled; a key that is nowhere has none.
\<close>

definition counted :: "('k \<Rightarrow> nat) \<Rightarrow> 'k option \<Rightarrow> ('k, 'm) entry list \<Rightarrow> bool" where
  "counted f hand es \<longleftrightarrow>
     (\<forall>e \<in> set es. unat (e_attempts e) = (if hand = Some (e_key e) then 0 else f (e_key e))) \<and>
     (\<forall>k. k \<notin> e_key ` set es \<longrightarrow> hand \<noteq> Some k \<longrightarrow> f k = 0)"

definition call_inv :: "('k, 'm) local_queue_worker \<Rightarrow> ('k, 'm, 'n) lq_sys \<Rightarrow> bool" where
  "call_inv w s \<longleftrightarrow>
     counted (\<lambda>k. streak k (calls s)) (handling w (phase s)) (queued (lq s)) \<and>
     (\<forall>m n. phase s = Handling m n \<longrightarrow> unat n = streak (key w m) (calls s))"

lemma handling_simps [simp]:
  "handling w (Handling m n) = Some (key w m)" "\<forall>m n. ph \<noteq> Handling m n \<Longrightarrow> handling w ph = None"
  "handling w Follower = None" "handling w Settling = None" "handling w Polling = None" "handling w Waiting = None"
  "handling w Clearing = None" "handling w RetryPause = None" "handling w (Hook m l) = None"
  by (simp_all add: handling_def split: phase.split)

lemma counted_snoc:
  "counted f hand es \<Longrightarrow> k \<notin> e_key ` set es \<Longrightarrow> counted f hand (es @ [entry_new k m])"
  by (auto simp: counted_def)

lemma counted_drop_hand:
  "counted f (Some k) es \<Longrightarrow> f' = f(k := 0) \<Longrightarrow> counted f' None es"
  by (auto simp: counted_def)

lemma counted_nil: "counted (\<lambda>k. 0) None []"
  by (simp add: counted_def)

text \<open>Taking the first message in line and calling \<open>handle\<close> on it.\<close>

lemma counted_next:
  assumes "counted f None (e # es)" "distinct (map e_key (e # es))" "f' = f(e_key e := Suc (f (e_key e)))"
  shows "counted f' (Some (e_key e)) es" "f' (e_key e) = Suc (unat (e_attempts e))"
  using assms by (auto simp: counted_def)

text \<open>What an attempt leaves in line.\<close>

lemma after_attempt_queue:
  assumes "in_flight st = Some hand" "distinct (qkeys st)" "after_attempt w now m r st = (ph, q)"
  obtains (gone) "leaves r ph" "queued q = queued st \<or> queued q = filter (\<lambda>e. e_key e \<noteq> h_key hand) (queued st)"
  | (again) reason where "\<not> leaves r ph" "h_key hand \<notin> set (qkeys st)"
      "queued q = queued st @ [\<lparr>e_key = h_key hand, e_msg = m, e_attempts = h_attempts hand, e_last_reason = reason\<rparr>]"
  | (merged) i reason where "\<not> leaves r ph" "i < length (queued st)" "e_key (queued st ! i) = h_key hand"
      "queued q = (queued st)[i := (queued st ! i)\<lparr>e_attempts := h_attempts hand, e_last_reason := reason\<rparr>]"
proof -
  have aside: "queued (snd (set_aside w now hand' m c (st\<lparr>in_flight := None\<rparr>))) = filter (\<lambda>e. e_key e \<noteq> h_key hand) (queued st)"
    if "h_key hand' = h_key hand" for hand' c
    using set_aside_queued [of "st\<lparr>in_flight := None\<rparr>" w now hand' m c] assms(2) that by (simp add: qkeys_def)
  show thesis
  proof (cases r)
    case (Inl c)
    from assms(1) obtain hand' where "h_key hand' = h_key hand"
      "snd (fail w now m c st) = snd (set_aside w now hand' m c (st\<lparr>in_flight := None\<rparr>))"
      using fail_eq [where w = w and now = now and m = m and c = c] by metis
    with Inl assms(3) aside show thesis
      by (intro gone) (auto simp: leaves_def after_attempt_def split: prod.splits option.splits)
  next
    case (Inr res)
    show thesis
    proof (cases res)
      case Done
      with Inr assms(3) show thesis
        by (intro gone) (auto simp: leaves_def after_attempt_def release_in_flight_def)
    next
      case (Retry reason)
      show thesis
      proof (cases "exhausted w hand")
        case True
        obtain l q' where a: "set_aside w now (hand\<lparr>h_last_reason := Some reason\<rparr>) m Exhausted (st\<lparr>in_flight := None\<rparr>) = (l, q')"
          by fastforce
        with aside [of "hand\<lparr>h_last_reason := Some reason\<rparr>" Exhausted]
        have "queued q' = filter (\<lambda>e. e_key e \<noteq> h_key hand) (queued st)" by simp
        with a Inr Retry True assms(3) show thesis
          by (intro gone) (auto simp: leaves_def after_attempt_def retry_exhausted [OF assms(1)])
      next
        case False
        show thesis
        proof (cases "queued_index st (h_key hand)")
          case None
          with Inr Retry False assms(3) show thesis
            by (intro again [of "Some reason"])
              (auto simp: leaves_def after_attempt_def retry_back [OF assms(1)] queued_index_None)
        next
          case (Some i)
          with Inr Retry False assms(3) queued_index_Some [OF Some] show thesis
            by (intro merged [of i "Some reason"])
              (auto simp: leaves_def after_attempt_def retry_merge [OF assms(1)])
        qed
      qed
    qed
  qed
qed

lemma counted_after:
  assumes "counted f (Some k) es" "distinct (map e_key es)"
  shows "counted (f(k := 0)) None es" "counted (f(k := 0)) None (filter (\<lambda>e. e_key e \<noteq> k) es)"
    and "k \<notin> e_key ` set es \<Longrightarrow> f k = unat a \<Longrightarrow>
      counted f None (es @ [\<lparr>e_key = k, e_msg = m, e_attempts = a, e_last_reason = reason\<rparr>])"
    and "i < length es \<Longrightarrow> e_key (es ! i) = k \<Longrightarrow> f k = unat a \<Longrightarrow>
      counted f None (es[i := (es ! i)\<lparr>e_attempts := a, e_last_reason := reason\<rparr>])"
proof -
  show "counted (f(k := 0)) None es" "counted (f(k := 0)) None (filter (\<lambda>e. e_key e \<noteq> k) es)"
    using assms(1) by (auto simp: counted_def)
  show "k \<notin> e_key ` set es \<Longrightarrow> f k = unat a \<Longrightarrow>
      counted f None (es @ [\<lparr>e_key = k, e_msg = m, e_attempts = a, e_last_reason = reason\<rparr>])"
    using assms(1) by (auto simp: counted_def)
  assume i: "i < length es" "e_key (es ! i) = k" "f k = unat a"
  let ?e = "(es ! i)\<lparr>e_attempts := a, e_last_reason := reason\<rparr>"
  have keys: "e_key ` set (es[i := ?e]) = e_key ` set es"
  proof -
    have "map e_key (es[i := ?e]) = map e_key es" using i by (simp add: map_update) (metis list_update_id nth_map)
    then show ?thesis by (metis list.set_map)
  qed
  have others: "e_key e \<noteq> k" if "e \<in> set (es[i := ?e])" "e \<noteq> ?e" for e
  proof -
    from that(1) obtain j where j: "j < length es" "e = es[i := ?e] ! j" by (auto simp: in_set_conv_nth)
    with that(2) i(1) have "j \<noteq> i" by auto
    with j assms(2) i(1,2) show ?thesis by (auto simp: distinct_conv_nth)
  qed
  have in_es: "e \<in> set es" if "e \<in> set (es[i := ?e])" "e \<noteq> ?e" for e
    using that set_update_subset_insert [of es i ?e] by auto
  have member: "k \<in> e_key ` set es" using i(1,2) by auto
  show "counted f None (es[i := ?e])"
    unfolding counted_def keys
  proof (intro conjI ballI allI impI)
    fix e assume e: "e \<in> set (es[i := ?e])"
    show "unat (e_attempts e) = (if None = Some (e_key e) then 0 else f (e_key e))"
    proof (cases "e = ?e")
      case True
      then show ?thesis using i by simp
    next
      case False
      with assms(1) others [OF e False] in_es [OF e False] show ?thesis by (auto simp: counted_def)
    qed
  next
    fix k' assume "k' \<notin> e_key ` set es" "None \<noteq> Some k'"
    with assms(1) member show "f k' = 0" by (auto simp: counted_def)
  qed
qed

lemma counted_kept: "counted f hand es \<Longrightarrow> g = f \<Longrightarrow> hand' = hand \<Longrightarrow> counted g hand' es"
  by simp

text \<open>Cutting a call short.\<close>

lemma call_inv_cut:
  assumes "call_inv w s" "handling w ph = None" "\<forall>m n. ph \<noteq> Handling m n" "queued q = queued (lq s)"
  shows "call_inv w (s\<lparr>lq := q, phase := ph, calls := calls s @ cut_short w (phase s)\<rparr>)"
proof (cases "\<exists>m n. phase s = Handling m n")
  case True
  then obtain m n where "phase s = Handling m n" by blast
  with assms show ?thesis
    by (auto simp: call_inv_def cut_short_def intro!: counted_drop_hand [of "\<lambda>k. streak k (calls s)" "key w m"])
next
  case False
  then have "cut_short w (phase s) = []" "handling w (phase s) = None"
    by (auto simp: cut_short_def handling_def split: phase.splits)
  with assms show ?thesis by (simp add: call_inv_def)
qed

lemma call_inv_step:
  assumes "lq_step w ha notify take_permit s t" "call_inv w s" "sys_inv w take_permit s" "MAX_ATTEMPTS w = Some mx"
  shows "call_inv w t"
  using assms(1)
proof cases
  case (send_new m q)
  then have "queued q = queued (lq s) @ [entry_new (key w m) m]" "key w m \<notin> e_key ` set (queued (lq s))"
    by (auto simp: send_def queued_index_None qkeys_def split: if_splits sum.splits)
  with assms(2) show ?thesis unfolding send_new(1) by (simp add: call_inv_def counted_snoc)
next
  case (requeue_moved k q)
  then obtain i where i: "dead_index (lq s) k = Some i" by blast
  have "k \<in> set (dkeys (lq s))" using dead_index_Some [OF i] by (force simp: dkeys_def)
  then have "k \<notin> e_key ` set (queued (lq s))" using assms(3) by (auto simp: sys_inv_def lq_ok_def lq_inv_def qkeys_def)
  moreover have "queued q = queued (lq s) @ [entry_new k (a_msg (dead (lq s) ! i))]"
    using requeue_moved(2) i dead_index_Some [OF i] by (auto simp: requeue_def split: sum.splits)
  ultimately show ?thesis using assms(2) unfolding requeue_moved(1) by (simp add: call_inv_def counted_snoc)
next
  case (forget k b q)
  then have "queued q = queued (lq s)" using forget_frame(2) [of k "lq s"] by simp
  with assms(2) show ?thesis unfolding forget(1) by (simp add: call_inv_def)
next
  case restart
  show ?thesis unfolding restart serve_start_def
    by (rule call_inv_cut [OF assms(2)]) (auto simp: release_in_flight_def)
next
  case lose
  show ?thesis unfolding lose(1)
    using call_inv_cut [OF assms(2), of Clearing "lq s"] by simp
next
  case cleared
  show ?thesis unfolding cleared(1) by (simp add: call_inv_def clear_def counted_def)
next
  case (poll_some m n q)
  from poll_some(3) obtain e where e: "queued (lq s) = e # queued q" "m = e_msg e" "n = saturating_inc (e_attempts e)"
    by (auto simp: next_msg_Some)
  have ok: "lq_ok w (lq s)" using assms(3) by (simp add: sys_inv_def)
  then have "key w m = e_key e" "e_attempts e < mx" "distinct (map e_key (e # queued q))"
    using e assms(4) by (auto simp: lq_ok_def keyed_def attempts_inv_def lq_inv_def qkeys_def)
  moreover from this have "unat n = Suc (unat (e_attempts e))"
    unfolding e(3) by (intro unat_saturating_inc_exact) (auto dest: less_le_trans [OF _ word_order.extremum])
  ultimately show ?thesis
    using assms(2) poll_some(2) e(1) unfolding poll_some(1)
    by (auto simp: call_inv_def counted_def)
next
  case (handled m n h r now ph q)
  with assms(3) obtain hand where h: "in_flight (lq s) = Some hand" "h_key hand = key w m" "h_attempts hand = n" "lq_ok w (lq s)"
    by (auto simp: sys_inv_def phase_inv_def)
  have ph: "\<forall>m n. ph \<noteq> Handling m n"
    using after_attempt_ok [OF h(4,1,2) handled(4)] by blast
  have d: "distinct (qkeys (lq s))" using h(4) by (simp add: lq_ok_def lq_inv_def)
  let ?f = "\<lambda>k. streak k (calls s)"
  have c: "counted ?f (Some (key w m)) (queued (lq s))" "?f (key w m) = unat n"
    using assms(2) handled(2) by (simp_all add: call_inv_def)
  note after = counted_after [OF c(1) d [unfolded qkeys_def]]
  from h(1) d handled(4) show ?thesis
  proof (cases rule: after_attempt_queue)
    case gone
    have "(\<lambda>k. streak k (calls s @ [Left (key w m)])) = ?f(key w m := 0)" by auto
    with gone after(1,2) h(2) ph show ?thesis unfolding handled(1) by (auto simp: call_inv_def)
  next
    case (again reason)
    with after(3) [of n] c(2) h ph show ?thesis unfolding handled(1) by (simp add: call_inv_def qkeys_def)
  next
    case (merged i reason)
    with after(4) [of i n] c(2) h ph show ?thesis unfolding handled(1) by (simp add: call_inv_def)
  qed
qed (use assms(2) in \<open>simp_all add: call_inv_def\<close>)

lemma call_inv_reachable:
  assumes "lq_reachable w ha notify take_permit s" "nonzero_max w" "\<And>n. take_permit (notify n) \<noteq> None"
    and "MAX_ATTEMPTS w = Some mx"
  shows "call_inv w s"
  using assms(1)
proof induction
  case (init n0)
  show ?case
    by (simp add: call_inv_def serve_start_def release_in_flight_def lq_new_def cut_short_def counted_def)
next
  case (step s t)
  show ?case
    by (rule call_inv_step [OF step.hyps(2) step.IH sys_inv_reachable [OF step.hyps(1) assms(2,3)] assms(4)])
qed

subsection \<open>Lines, statuses and attempts\<close>

text \<open>One message taken and finished.\<close>

definition process_done :: "('k, 'm) lq_state \<Rightarrow> ('m \<times> ('k, 'm) lq_state) option" where
  "process_done st = map_option (\<lambda>((m, _), st'). (m, release_in_flight st')) (next_msg st)"

interpretation lq_line: fifo_line "\<lambda>st. map e_msg (queued st)" process_done
  by unfold_locales
     (auto simp: process_done_def next_msg_def release_in_flight_def Let_def split: list.splits)

text \<open>Messages sent one after the other.\<close>

definition send_all :: "('k, 'm) local_queue_worker \<Rightarrow> 'm list \<Rightarrow> ('k, 'm) lq_state \<Rightarrow> ('k, 'm) lq_state" where
  "send_all w ms st = fold (\<lambda>m st. snd (send w m st)) ms st"

text \<open>One attempt that asks for a retry.\<close>

definition retry_cycle :: "('k, 'm) local_queue_worker \<Rightarrow> nat \<Rightarrow> string \<Rightarrow> ('k, 'm) lq_state \<Rightarrow> ('k, 'm) lq_state" where
  "retry_cycle w now reason st =
     (case next_msg st of None \<Rightarrow> st | Some ((m, _), st') \<Rightarrow> snd (retry w now m reason st'))"

lemma send_fresh:
  assumes "key w m \<notin> set (qkeys st)" "key w m \<notin> set (dkeys st)" "held st < CAPACITY w"
  shows "send w m st = (Inr (), st\<lparr>queued := queued st @ [entry_new (key w m) m]\<rparr>)"
  using assms by (simp add: send_def has_room_def flip: queued_index_None dead_index_None)

lemma send_all_fresh:
  assumes "distinct (map (key w) ms)" "set (map (key w) ms) \<inter> set (qkeys st) = {}"
    and "set (map (key w) ms) \<inter> set (dkeys st) = {}" "held st + length ms \<le> CAPACITY w"
  shows "map e_msg (queued (send_all w ms st)) = map e_msg (queued st) @ ms"
  using assms
proof (induction ms arbitrary: st)
  case Nil
  then show ?case by (simp add: send_all_def)
next
  case (Cons m ms)
  let ?st = "st\<lparr>queued := queued st @ [entry_new (key w m) m]\<rparr>"
  have s: "send_all w (m # ms) st = send_all w ms ?st"
    using Cons.prems by (simp add: send_all_def send_fresh)
  have "map e_msg (queued (send_all w ms ?st)) = map e_msg (queued ?st) @ ms"
    using Cons.prems by (intro Cons.IH) (auto simp: qkeys_def dkeys_def held_def split: if_splits)
  then show ?case unfolding s by simp
qed

lemma position_distinct:
  "distinct (map f xs) \<Longrightarrow> position (\<lambda>x. f x = k) xs = Some i \<longleftrightarrow> i < length xs \<and> f (xs ! i) = k"
  by (auto simp: position_Some distinct_conv_nth)

lemma status_cases:
  assumes "lq_inv w st"
  shows "status st k = InHand \<longleftrightarrow> (\<exists>h. in_flight st = Some h \<and> h_key h = k)"
    and "status st k = Queued j \<longleftrightarrow>
           (\<forall>h. in_flight st = Some h \<longrightarrow> h_key h \<noteq> k) \<and>
           0 < j \<and> j \<le> length (queued st) \<and> e_key (queued st ! (j - 1)) = k"
    and "status st k = DeadLettered l \<longleftrightarrow> (\<exists>a \<in> set (dead st). a_key a = k \<and> a_letter a = l)"
    and "status st k = Absent \<longleftrightarrow>
           (\<forall>h. in_flight st = Some h \<longrightarrow> h_key h \<noteq> k) \<and> k \<notin> set (qkeys st) \<and> k \<notin> set (dkeys st)"
proof -
  have dq: "distinct (map e_key (queued st))" and dd: "distinct (map a_key (dead st))"
    and dis: "set (qkeys st) \<inter> set (dkeys st) = {}"
    and hand: "\<forall>h. in_flight st = Some h \<longrightarrow> h_key h \<notin> set (dkeys st)"
    using assms by (auto simp: lq_inv_def qkeys_def dkeys_def)
  show "status st k = InHand \<longleftrightarrow> (\<exists>h. in_flight st = Some h \<and> h_key h = k)"
    by (auto simp: status_def split: option.splits)
  show "status st k = Queued j \<longleftrightarrow>
     (\<forall>h. in_flight st = Some h \<longrightarrow> h_key h \<noteq> k) \<and> 0 < j \<and> j \<le> length (queued st) \<and> e_key (queued st ! (j - 1)) = k"
  proof -
    have "queued_index st k = Some (j - 1) \<longleftrightarrow> j - 1 < length (queued st) \<and> e_key (queued st ! (j - 1)) = k"
      unfolding queued_index_def by (rule position_distinct [OF dq])
    moreover have "status st k = Queued j \<longleftrightarrow>
        (\<forall>h. in_flight st = Some h \<longrightarrow> h_key h \<noteq> k) \<and> 0 < j \<and> queued_index st k = Some (j - 1)"
      by (cases j) (auto simp: status_def split: option.splits)
    ultimately show ?thesis by auto
  qed
  show "status st k = DeadLettered l \<longleftrightarrow> (\<exists>a \<in> set (dead st). a_key a = k \<and> a_letter a = l)"
  proof
    assume "status st k = DeadLettered l"
    then obtain i where "dead_index st k = Some i" "l = a_letter (dead st ! i)"
      by (auto simp: status_def split: option.splits if_splits)
    with dead_index_Some [of st k i] show "\<exists>a \<in> set (dead st). a_key a = k \<and> a_letter a = l" by auto
  next
    assume "\<exists>a \<in> set (dead st). a_key a = k \<and> a_letter a = l"
    then obtain i where i: "i < length (dead st)" "a_key (dead st ! i) = k" "a_letter (dead st ! i) = l"
      by (auto simp: in_set_conv_nth)
    then have d: "dead_index st k = Some i"
      unfolding dead_index_def by (simp add: position_distinct [OF dd])
    have k: "k \<in> set (dkeys st)" using i by (force simp: dkeys_def)
    then have "queued_index st k = None" using dis by (auto simp: queued_index_None)
    moreover have "\<forall>h. in_flight st = Some h \<longrightarrow> h_key h \<noteq> k" using hand k by auto
    ultimately show "status st k = DeadLettered l"
      using d i by (auto simp: status_def split: option.splits)
  qed
  show "status st k = Absent \<longleftrightarrow>
     (\<forall>h. in_flight st = Some h \<longrightarrow> h_key h \<noteq> k) \<and> k \<notin> set (qkeys st) \<and> k \<notin> set (dkeys st)"
    by (auto simp: status_def queued_index_None [symmetric] dead_index_None [symmetric] split: option.splits)
qed

subsection \<open>Attempts of one message that keeps asking for a retry\<close>

lemma retry_cycle_single:
  assumes "queued st = [e]" "in_flight st = None" "MAX_ATTEMPTS w = Some mx" "saturating_inc (e_attempts e) < mx"
  shows "retry_cycle w now reason st =
     st\<lparr>queued := [e\<lparr>e_attempts := saturating_inc (e_attempts e), e_last_reason := Some reason\<rparr>]\<rparr>"
proof -
  have "\<not> mx \<le> saturating_inc (e_attempts e)" using assms(4) by simp
  with assms show ?thesis
    by (simp add: retry_cycle_def next_msg_def retry_def queued_index_def entry_new_def Let_def)
qed

lemma retry_cycle_last:
  assumes "queued st = [e]" "in_flight st = None" "dead st = []" "MAX_ATTEMPTS w = Some mx"
    and "mx \<le> saturating_inc (e_attempts e)" "0 < DEAD_LETTER_CAPACITY w"
  shows "retry_cycle w now reason st =
     st\<lparr>queued := [],
        dead := [\<lparr>a_key = e_key e, a_msg = e_msg e,
                  a_letter = \<lparr>cause = Exhausted, attempts = saturating_inc (e_attempts e),
                              last_reason = Some reason, at = now\<rparr>\<rparr>]\<rparr>"
  using assms
  by (simp add: retry_cycle_def next_msg_def retry_def queued_index_def entry_new_def set_aside_def evict_eq Let_def)

lemma retry_cycles:
  assumes "queued st = [entry_new k m]" "in_flight st = None" "MAX_ATTEMPTS w = Some mx"
    and "0 < j" "j < unat mx"
  shows "(retry_cycle w now reason ^^ j) st =
     st\<lparr>queued := [\<lparr>e_key = k, e_msg = m, e_attempts = of_nat j, e_last_reason = Some reason\<rparr>]\<rparr>"
  using assms(4,5)
proof (induction j)
  case 0
  then show ?case by simp
next
  case (Suc j)
  have inc: "saturating_inc (of_nat j :: 32 word) = of_nat (Suc j)" "of_nat (Suc j) < mx"
  proof -
    have m: "unat mx < 2 ^ 32" using unsigned_less [of mx] by simp
    with Suc.prems have "Suc j < 2 ^ 32" by simp
    then have u: "unat (of_nat j :: 32 word) = j" "unat (of_nat (Suc j) :: 32 word) = Suc j"
      by (simp_all add: unat_of_nat take_bit_nat_eq_self del: of_nat_Suc)
    then have "unat (saturating_inc (of_nat j :: 32 word)) = unat (of_nat (Suc j) :: 32 word)"
      using \<open>Suc j < 2 ^ 32\<close> by (simp add: unat_saturating_inc del: of_nat_Suc)
    then show "saturating_inc (of_nat j :: 32 word) = of_nat (Suc j)" by (simp only: word_unat_eq_iff)
    show "of_nat (Suc j) < mx" using u Suc.prems by (simp only: word_less_nat_alt)
  qed
  show ?case
  proof (cases "j = 0")
    case True
    with assms(1-3) inc show ?thesis
      by (simp add: retry_cycle_single [where e = "entry_new k m" and mx = mx] entry_new_def)
  next
    case False
    with Suc have "(retry_cycle w now reason ^^ j) st =
        st\<lparr>queued := [\<lparr>e_key = k, e_msg = m, e_attempts = of_nat j, e_last_reason = Some reason\<rparr>]\<rparr>"
      by simp
    with assms(2,3) inc show ?thesis
      by (simp add: retry_cycle_single [where mx = mx] del: of_nat_Suc)
  qed
qed

subsection \<open>Properties\<close>

text \<open>
  C1. Safety of the queue under every interleaving of producers, worker, restarts and
  leadership changes: a key is queued at most once and set aside at most once, a set-aside key
  is neither queued nor in hand, and both capacities hold.
\<close>

theorem queue_safe:
  assumes "lq_reachable w ha notify take_permit s" "nonzero_max w" "\<And>n. take_permit (notify n) \<noteq> None"
  shows "distinct (qkeys (lq s)) \<and> distinct (dkeys (lq s)) \<and> set (qkeys (lq s)) \<inter> set (dkeys (lq s)) = {} \<and>
     (\<forall>h. in_flight (lq s) = Some h \<longrightarrow> h_key h \<notin> set (dkeys (lq s))) \<and>
     held (lq s) \<le> CAPACITY w \<and> length (dead (lq s)) \<le> DEAD_LETTER_CAPACITY w"
  using sys_inv_reachable [OF assms] by (simp add: sys_inv_def lq_ok_def lq_inv_def)

definition demo_worker :: "(nat, nat \<times> nat) local_queue_worker" where
  "demo_worker = \<lparr>key = fst, NAME = ''demo'', CAPACITY = 2, SETTLE = 0, RETRY_DELAY = 0,
     MAX_ATTEMPTS = Some 2, HANDLE_TIMEOUT = None, DEAD_LETTER_CAPACITY = 1\<rparr>"

lemma demo_worker_sel [simp]:
  "key demo_worker = fst" "CAPACITY demo_worker = 2" "MAX_ATTEMPTS demo_worker = Some 2"
  "HANDLE_TIMEOUT demo_worker = None" "DEAD_LETTER_CAPACITY demo_worker = 1" "nonzero_max demo_worker"
  by (simp_all add: demo_worker_def nonzero_max_def)

text \<open>A run for the witnesses: a send and its notification, then the worker takes the message.\<close>

abbreviation demo_permit :: "bool \<Rightarrow> bool option" where
  "demo_permit \<equiv> \<lambda>b. if b then Some False else None"

definition demo_sys ::
  "(nat, nat \<times> nat) entry list \<Rightarrow> bool \<Rightarrow> nat \<Rightarrow> (nat \<times> nat) phase \<Rightarrow> (nat, nat \<times> nat, bool) lq_sys" where
  "demo_sys es b n ph = \<lparr>lq = \<lparr>queued = es, in_flight = None, dead = []\<rparr>, wake = b, unnotified = n, phase = ph, calls = []\<rparr>"

lemma demo_settling: "lq_reachable demo_worker False (\<lambda>_. True) demo_permit (demo_sys [] False 0 Settling)"
  using lq_reachable.init [of demo_worker False "\<lambda>_. True" demo_permit False]
  by (simp add: serve_start_def release_in_flight_def lq_new_def demo_sys_def cut_short_def)

lemma demo_send:
  "lq_step demo_worker False (\<lambda>_. True) demo_permit (demo_sys [] b n ph) (demo_sys [entry_new 1 (1, 7)] b (Suc n) ph)"
  using lq_step.send_new [where w = demo_worker and m = "(1, 7)" and q = "lq (demo_sys [entry_new 1 (1, 7)] b n ph)" and
      s = "demo_sys [] b n ph" and notify = "\<lambda>_. True"]
  by (simp add: demo_sys_def send_def dead_index_def queued_index_def has_room_def held_def)

lemma demo_poll:
  "lq_step demo_worker False (\<lambda>_. True) demo_permit (demo_sys es b n Settling) (demo_sys es b n Polling)"
  using lq_step.settled [where s = "demo_sys es b n Settling"] by (simp add: demo_sys_def)

definition demo_hand :: "(nat, nat \<times> nat, bool) lq_sys" where
  "demo_hand = \<lparr>lq = \<lparr>queued = [], in_flight = Some \<lparr>h_key = 1, h_attempts = 1, h_last_reason = None\<rparr>, dead = []\<rparr>,
     wake = True, unnotified = 0, phase = Handling (1, 7) 1, calls = [Called 1]\<rparr>"

lemma demo_hand_reachable: "lq_reachable demo_worker False (\<lambda>_. True) demo_permit demo_hand"
proof -
  let ?R = "lq_reachable demo_worker False (\<lambda>_. True) demo_permit" and ?es = "[entry_new 1 (1, 7)]"
  have "?R (demo_sys ?es False 1 Settling)"
    using lq_reachable.step [OF demo_settling demo_send] by simp
  then have "?R (demo_sys ?es True 0 Settling)"
    by (rule lq_reachable.step)
      (use lq_step.notifies [where s = "demo_sys ?es False 1 Settling" and notify = "\<lambda>_. True"] in \<open>simp add: demo_sys_def\<close>)
  then have "?R (demo_sys ?es True 0 Polling)" by (rule lq_reachable.step) (rule demo_poll)
  then show ?thesis
    by (rule lq_reachable.step)
       (use lq_step.poll_some [where s = "demo_sys ?es True 0 Polling" and m = "(1, 7)" and n = 1
          and q = "lq demo_hand" and w = demo_worker] in
        \<open>simp add: demo_hand_def demo_sys_def next_msg_def Let_def saturating_inc_def\<close>)
qed

theorem queue_safe_witness:
  "held (lq demo_hand) \<le> 2 \<and> lq_reachable demo_worker False (\<lambda>_. True) demo_permit demo_hand"
  using queue_safe [OF demo_hand_reachable] demo_hand_reachable by simp

text \<open>
  C2. The attempt limit, counted in calls of \<open>handle\<close>: whatever producers, restarts and leadership
  do, \<open>handle\<close> is called at most \<open>MAX_ATTEMPTS\<close> times for a key before its message leaves the
  queue (done, set aside, or dropped with its call or with the term); and the count the worker
  reads for the message in hand is the number of calls so far.
\<close>

theorem attempts_bounded:
  assumes "lq_reachable w ha notify take_permit s" "nonzero_max w" "\<And>n. take_permit (notify n) \<noteq> None"
    and "MAX_ATTEMPTS w = Some mx"
  shows "streak k (calls s) \<le> unat mx \<and> (\<forall>m n. phase s = Handling m n \<longrightarrow> unat n = streak (key w m) (calls s))"
proof -
  have inv: "call_inv w s" "attempts_inv w (lq s)" "phase_inv w s"
    using call_inv_reachable [OF assms] sys_inv_reachable [OF assms(1-3)] by (simp_all add: sys_inv_def lq_ok_def)
  have hand: "n \<le> mx" "unat n = streak (key w m) (calls s)" if "phase s = Handling m n" for m n
    using inv that assms(4) by (auto simp: call_inv_def phase_inv_def attempts_inv_def)
  have "streak k (calls s) \<le> unat mx"
  proof (cases "handling w (phase s) = Some k")
    case True
    then obtain m n where "phase s = Handling m n" "key w m = k" by (auto simp: handling_def split: phase.splits)
    with hand show ?thesis by (auto simp: word_le_nat_alt)
  next
    case False
    show ?thesis
    proof (cases "k \<in> e_key ` set (queued (lq s))")
      case True
      then obtain e where "e \<in> set (queued (lq s))" "e_key e = k" by blast
      with inv(1,2) False assms(4) show ?thesis
        by (auto simp: call_inv_def counted_def attempts_inv_def word_less_nat_alt intro: less_imp_le)
    next
      case not_queued: False
      with inv(1) False show ?thesis by (simp add: call_inv_def counted_def)
    qed
  qed
  with hand(2) show ?thesis by blast
qed

theorem attempts_bounded_witness:
  "streak 1 (calls demo_hand) = 1 \<and> streak 1 (calls demo_hand) \<le> unat (2 :: 32 word)"
  using attempts_bounded [OF demo_hand_reachable _ _ demo_worker_sel(3), of 1]
  by (simp add: demo_hand_def streak_def)

text \<open>
  C3. No lost wake-up, with a producer's push, its unlocking and its notification apart: whenever
  the worker waits while the queue holds a message, the cell holds a permit or a producer that
  pushed has yet to notify; in the first case the worker can take the permit, in the second it can
  once that producer has notified, and either way it then finds a message. The one law assumed of
  the cell is that a permit can be taken after \<open>notify_one\<close>.
\<close>

theorem no_lost_wakeup:
  assumes "lq_reachable w ha notify take_permit s" "nonzero_max w" "\<And>n. take_permit (notify n) \<noteq> None"
    and "phase s = Waiting" "queued (lq s) \<noteq> []"
  shows "next_msg (lq s) \<noteq> None \<and>
    ((\<exists>c. take_permit (wake s) = Some c \<and> lq_step w ha notify take_permit s (s\<lparr>wake := c, phase := Polling\<rparr>)) \<or>
     (\<exists>u c. unnotified s = Suc u \<and>
        lq_step w ha notify take_permit s (s\<lparr>unnotified := u, wake := notify (wake s)\<rparr>) \<and>
        lq_step w ha notify take_permit (s\<lparr>unnotified := u, wake := notify (wake s)\<rparr>)
          (s\<lparr>unnotified := u, wake := c, phase := Polling\<rparr>)))"
proof -
  have found: "next_msg (lq s) \<noteq> None" using assms(5) by (simp add: next_msg_def Let_def split: list.splits)
  have "take_permit (wake s) \<noteq> None \<or> 0 < unnotified s"
    using sys_inv_reachable [OF assms(1-3)] assms(4,5) by (auto simp: sys_inv_def)
  then consider c where "take_permit (wake s) = Some c" | u c where "unnotified s = Suc u" "take_permit (notify (wake s)) = Some c"
    using assms(3) [of "wake s"] gr0_implies_Suc by blast
  then show ?thesis
  proof cases
    case 1
    with found assms(4) show ?thesis by (blast intro: lq_step.woken)
  next
    case 2
    let ?t = "s\<lparr>unnotified := u, wake := notify (wake s)\<rparr>"
    have "lq_step w ha notify take_permit s ?t" using 2(1) by (rule lq_step.notifies)
    moreover have "lq_step w ha notify take_permit ?t (?t\<lparr>wake := c, phase := Polling\<rparr>)"
      by (rule lq_step.woken) (use 2(2) assms(4) in simp_all)
    ultimately show ?thesis using found 2(1) by auto
  qed
qed

text \<open>The worker waits, a producer has pushed and unlocked, and its notification is still to come.\<close>

abbreviation demo_wait :: "(nat, nat \<times> nat, bool) lq_sys" where
  "demo_wait \<equiv> demo_sys [entry_new 1 (1, 7)] False 1 Waiting"

lemmas demo_wait_def = demo_sys_def

lemma demo_wait_reachable: "lq_reachable demo_worker False (\<lambda>_. True) demo_permit demo_wait"
proof -
  let ?R = "lq_reachable demo_worker False (\<lambda>_. True) demo_permit"
  have "?R (demo_sys [] False 0 Polling)" by (rule lq_reachable.step [OF demo_settling demo_poll])
  then have "?R (demo_sys [] False 0 Waiting)"
    by (rule lq_reachable.step)
       (use lq_step.poll_none [where s = "demo_sys [] False 0 Polling"] in \<open>simp add: next_msg_def demo_sys_def\<close>)
  from lq_reachable.step [OF this demo_send] show ?thesis by simp
qed

theorem no_lost_wakeup_witness:
  "next_msg (lq demo_wait) \<noteq> None \<and> unnotified demo_wait = 1 \<and>
     lq_step demo_worker False (\<lambda>_. True) demo_permit demo_wait (demo_sys [entry_new 1 (1, 7)] True 0 Waiting)"
proof -
  have s: "unnotified demo_wait = 1" "wake demo_wait = False"
    "demo_wait\<lparr>unnotified := 0, wake := True\<rparr> = demo_sys [entry_new 1 (1, 7)] True 0 Waiting"
    by (simp_all add: demo_sys_def)
  have "phase demo_wait = Waiting" "queued (lq demo_wait) \<noteq> []" by (simp_all add: demo_sys_def)
  from no_lost_wakeup [OF demo_wait_reachable _ _ this] show ?thesis using s by auto
qed

text \<open>
  \<open>status\<close> tells where a key stands: in hand exactly when it is being handled; \<open>Queued j\<close>
  exactly when it is not in hand and is the \<open>j\<close>th in line, counting from one; set aside with
  exactly the letter kept for it; absent exactly when it is in none of the three.
\<close>

theorem status_exact:
  assumes "lq_inv w st"
  shows "(status st k = InHand \<longleftrightarrow> (\<exists>h. in_flight st = Some h \<and> h_key h = k)) \<and>
     (status st k = Queued j \<longleftrightarrow>
        (\<forall>h. in_flight st = Some h \<longrightarrow> h_key h \<noteq> k) \<and>
        0 < j \<and> j \<le> length (queued st) \<and> e_key (queued st ! (j - 1)) = k) \<and>
     (status st k = DeadLettered l \<longleftrightarrow> (\<exists>a \<in> set (dead st). a_key a = k \<and> a_letter a = l)) \<and>
     (status st k = Absent \<longleftrightarrow>
        (\<forall>h. in_flight st = Some h \<longrightarrow> h_key h \<noteq> k) \<and> k \<notin> set (qkeys st) \<and> k \<notin> set (dkeys st))"
  using status_cases [OF assms, of k] by auto

theorem status_exact_witness:
  "status (lq demo_wait) 1 = Queued 1"
proof -
  have "lq_inv demo_worker (lq demo_wait)"
    by (simp add: demo_wait_def lq_inv_defs)
  from status_exact [OF this, of 1 1] show ?thesis by (simp add: demo_wait_def)
qed

text \<open>
  C4. What \<open>send\<close> answers and what it changes: it refuses as dead-lettered exactly the set-aside
  keys, and as full exactly the keys neither set aside nor queued when no room is left; a
  refusal or a coalesced send changes nothing; an accepted new key joins the end of the line
  with no attempts; and the status of every other key stays as it was.
\<close>

theorem send_spec:
  assumes "lq_inv w st" "send w m st = (r, st')"
  shows "(r = Inl SendDeadLettered \<longleftrightarrow> (\<exists>l. status st (key w m) = DeadLettered l)) \<and>
     ((\<exists>f. r = Inl (Full f)) \<longleftrightarrow>
        key w m \<notin> set (dkeys st) \<and> key w m \<notin> set (qkeys st) \<and> CAPACITY w \<le> held st) \<and>
     (r \<noteq> Inr () \<or> key w m \<in> set (qkeys st) \<longrightarrow> st' = st) \<and>
     (r = Inr () \<and> key w m \<notin> set (qkeys st) \<longrightarrow>
        queued st' = queued st @ [entry_new (key w m) m] \<and> in_flight st' = in_flight st \<and> dead st' = dead st) \<and>
     (\<forall>k. k \<noteq> key w m \<longrightarrow> status st' k = status st k)"
proof -
  let ?k = "key w m"
  have dead: "(\<exists>l. status st ?k = DeadLettered l) \<longleftrightarrow> ?k \<in> set (dkeys st)"
    unfolding status_cases(3) [OF assms(1)] dkeys_def by force
  have other: "status (st\<lparr>queued := queued st @ [entry_new ?k m]\<rparr>) k = status st k" if "k \<noteq> ?k" for k
  proof -
    have "position (\<lambda>e. e_key e = k) (queued st @ [entry_new ?k m]) = position (\<lambda>e. e_key e = k) (queued st)"
      using that by (intro position_snoc) simp
    then show ?thesis
      by (simp add: status_def queued_index_def dead_index_def del: position_None split: option.split)
  qed
  consider "?k \<in> set (dkeys st)" | "?k \<notin> set (dkeys st)" "?k \<in> set (qkeys st)"
    | "?k \<notin> set (dkeys st)" "?k \<notin> set (qkeys st)" "held st < CAPACITY w"
    | "?k \<notin> set (dkeys st)" "?k \<notin> set (qkeys st)" "CAPACITY w \<le> held st" by fastforce
  then show ?thesis
  proof cases
    case 1
    then have "dead_index st ?k \<noteq> None" by (simp add: dead_index_None del: not_None_eq)
    with assms(2) have "r = Inl SendDeadLettered" "st' = st" by (auto simp: send_def)
    with 1 dead show ?thesis by auto
  next
    case 2
    then have "dead_index st ?k = None" "queued_index st ?k \<noteq> None"
      by (simp_all add: dead_index_None queued_index_None del: not_None_eq)
    with assms(2) have "r = Inr ()" "st' = st" by (auto simp: send_def)
    with 2 dead show ?thesis by auto
  next
    case 3
    then have "r = Inr ()" "st' = st\<lparr>queued := queued st @ [entry_new ?k m]\<rparr>"
      using assms(2) send_fresh [of w m st] by auto
    with 3 dead other show ?thesis by auto
  next
    case 4
    then have "dead_index st ?k = None" "queued_index st ?k = None"
      by (simp_all add: dead_index_None queued_index_None)
    with 4 assms(2) have "\<exists>f. r = Inl (Full f)" "st' = st" by (auto simp: send_def has_room_def)
    with 4 dead show ?thesis by auto
  qed
qed

theorem send_spec_witness:
  "fst (send demo_worker (1, 9) (lq demo_wait)) = Inr () \<and> snd (send demo_worker (1, 9) (lq demo_wait)) = lq demo_wait"
proof -
  have inv: "lq_inv demo_worker (lq demo_wait)"
    by (simp add: demo_wait_def lq_inv_defs)
  have "1 \<in> set (qkeys (lq demo_wait))" "held (lq demo_wait) = 1" "dkeys (lq demo_wait) = []"
    by (simp_all add: demo_wait_def lq_inv_defs)
  moreover obtain r st' where s: "send demo_worker (1, 9) (lq demo_wait) = (r, st')" by fastforce
  moreover have "\<not> (\<exists>l. status (lq demo_wait) 1 = DeadLettered l)"
    using status_cases(3) [OF inv] by (simp add: demo_wait_def)
  ultimately show ?thesis
    using send_spec [OF inv s] by (cases r) (auto, metis send_error.exhaust)
qed

text \<open>
  First in, first out: messages with fresh, distinct keys that fit are all accepted, and a
  worker whose \<open>handle\<close> returns \<open>Done\<close> handles everything queued before them and then
  them, in the order they were sent, and leaves the queue empty.
\<close>

theorem done_handles_in_order:
  assumes "distinct (map (key w) ms)" "set (map (key w) ms) \<inter> set (qkeys st) = {}"
    and "set (map (key w) ms) \<inter> set (dkeys st) = {}" "held st + length ms \<le> CAPACITY w"
    and "length (queued st) + length ms \<le> n"
  shows "fst (drain process_done n (send_all w ms st)) = map e_msg (queued st) @ ms \<and>
     queued (snd (drain process_done n (send_all w ms st))) = []"
  using lq_line.drain_line [of "send_all w ms st" n] assms(5)
  by (simp add: send_all_fresh [OF assms(1-4)] arg_cong [OF send_all_fresh [OF assms(1-4)], of length, simplified])

theorem done_handles_in_order_witness:
  "fst (drain process_done 2 (send_all demo_worker [(2, 0), (1, 0)] lq_new)) = [(2, 0), (1, 0)]"
  using done_handles_in_order [of demo_worker "[(2, 0), (1, 0)]" lq_new 2]
  by (simp add: lq_new_def lq_inv_defs)

text \<open>
  C4. A message that never succeeds does not loop for ever: under a limit \<open>mx\<close>, a fresh message
  whose \<open>handle\<close> asks for a retry every time is back in line with its count after each of the
  first \<open>mx - 1\<close> attempts, and after attempt \<open>mx\<close> it is set aside as exhausted, with that
  count and the last reason, and the line is empty.
\<close>

theorem retries_exhaust:
  assumes "queued st = [entry_new k m]" "in_flight st = None" "dead st = []"
    and "MAX_ATTEMPTS w = Some mx" "mx \<noteq> 0" "0 < DEAD_LETTER_CAPACITY w"
  shows "(\<forall>j. 0 < j \<and> j < unat mx \<longrightarrow>
        queued ((retry_cycle w now reason ^^ j) st) =
          [\<lparr>e_key = k, e_msg = m, e_attempts = of_nat j, e_last_reason = Some reason\<rparr>]) \<and>
     queued ((retry_cycle w now reason ^^ unat mx) st) = [] \<and>
     dead ((retry_cycle w now reason ^^ unat mx) st) =
       [\<lparr>a_key = k, a_msg = m,
         a_letter = \<lparr>cause = Exhausted, attempts = mx, last_reason = Some reason, at = now\<rparr>\<rparr>]"
proof -
  have pos: "0 < unat mx" using assms(5) by (simp add: unat_gt_0)
  then obtain p where p: "unat mx = Suc p" by (cases "unat mx") auto
  have lim: "Suc p < 2 ^ 32" using unsigned_less [of mx, where 'a = nat] p by simp
  have mx: "mx = of_nat (Suc p)" unfolding p [symmetric] by simp
  let ?e = "if p = 0 then entry_new k m
            else \<lparr>e_key = k, e_msg = m, e_attempts = of_nat p, e_last_reason = Some reason\<rparr>"
  have before: "(retry_cycle w now reason ^^ p) st = st\<lparr>queued := [?e]\<rparr>"
    using retry_cycles [OF assms(1,2,4), of p now reason] assms(1) p by auto
  have "unat (saturating_inc (of_nat p :: 32 word)) = unat mx"
    using lim p by (simp add: unat_saturating_inc unat_of_nat take_bit_nat_eq_self)
  then have inc: "saturating_inc (e_attempts ?e) = mx" "e_key ?e = k" "e_msg ?e = m"
    by (auto simp: word_unat_eq_iff)
  have "retry_cycle w now reason (st\<lparr>queued := [?e]\<rparr>) =
      (st\<lparr>queued := [?e]\<rparr>)\<lparr>queued := [],
        dead := [\<lparr>a_key = e_key ?e, a_msg = e_msg ?e,
                  a_letter = \<lparr>cause = Exhausted, attempts = saturating_inc (e_attempts ?e),
                              last_reason = Some reason, at = now\<rparr>\<rparr>]\<rparr>"
    by (rule retry_cycle_last [OF _ _ _ assms(4) _ assms(6)]) (use assms inc(1) in simp_all)
  then have "(retry_cycle w now reason ^^ unat mx) st = (st\<lparr>queued := [?e]\<rparr>)\<lparr>queued := [],
        dead := [\<lparr>a_key = k, a_msg = m,
                  a_letter = \<lparr>cause = Exhausted, attempts = mx, last_reason = Some reason, at = now\<rparr>\<rparr>]\<rparr>"
    by (simp only: p funpow.simps comp_def before inc)
  then show ?thesis
    using retry_cycles [OF assms(1,2,4)] by simp
qed

theorem retries_exhaust_witness:
  "queued ((retry_cycle demo_worker 5 ''no'' ^^ unat (2 :: 32 word))
     \<lparr>queued = [entry_new 1 (1, 7)], in_flight = None, dead = []\<rparr>) = []"
  using retries_exhaust [where w = demo_worker and now = 5 and reason = "''no''" and k = 1 and m = "(1, 7)" and mx = 2
      and st = "\<lparr>queued = [entry_new 1 (1, 7)], in_flight = None, dead = []\<rparr>"]
  by simp

lemma fail_sets_aside:
  assumes "lq_ok w st" "in_flight st = Some hand" "h_key hand = key w m" "0 < DEAD_LETTER_CAPACITY w"
    and "fail w now m c st = (res, st1)"
  obtains l where "res = Some l" "cause l = c" "attempts l = h_attempts hand" "lq_inv w st1" "in_flight st1 = None"
    "queued st1 = filter (\<lambda>e. e_key e \<noteq> key w m) (queued st)"
    "dkeys st1 = drop (Suc (length (dead st)) - DEAD_LETTER_CAPACITY w) (dkeys st @ [key w m])"
    "\<exists>xs. dead st1 = xs @ [\<lparr>a_key = key w m, a_msg = m, a_letter = l\<rparr>]"
  using assms(2)
proof (rule fail_eq [where w = w and now = now and m = m and c = c])
  fix hand' assume h: "h_key hand' = h_key hand" "h_attempts hand' = h_attempts hand"
    and snd_eq: "snd (fail w now m c st) = snd (set_aside w now hand' m c (st\<lparr>in_flight := None\<rparr>))"
    and fst_eq: "fst (fail w now m c st) = Some (fst (set_aside w now hand' m c (st\<lparr>in_flight := None\<rparr>)))"
  let ?st = "st\<lparr>in_flight := None\<rparr>" and ?k = "key w m"
  let ?l = "fst (set_aside w now hand' m c ?st)"
  let ?d = "Suc (length (dead st)) - DEAD_LETTER_CAPACITY w"
  let ?a = "\<lparr>a_key = ?k, a_msg = m, a_letter = ?l\<rparr>"
  have st1: "st1 = snd (set_aside w now hand' m c ?st)" and res: "res = Some ?l"
    using assms(5) snd_eq fst_eq by simp_all
  have d1: "dead st1 = drop ?d (dead st @ [?a])"
    using set_aside_dead [of w now hand' m c ?st] assms(3) h by (simp add: st1 Let_def)
  have ok1: "lq_ok w st1" unfolding st1 using lq_ok_set_aside [OF assms(1,2)] h assms(3) by simp
  show thesis
  proof (rule that [OF res])
    show "cause ?l = c" "attempts ?l = h_attempts hand" using h by (simp_all add: set_aside_def Let_def)
    show "lq_inv w st1" using ok1 by (simp add: lq_ok_def)
    show "in_flight st1 = None" unfolding st1 by simp
    show "queued st1 = filter (\<lambda>e. e_key e \<noteq> ?k) (queued st)"
      using set_aside_queued [of ?st w now hand' m c] assms(1,3) h
      by (simp add: st1 lq_ok_def lq_inv_def qkeys_def)
    show "dkeys st1 = drop ?d (dkeys st @ [?k])" unfolding dkeys_def d1 drop_map [symmetric] by simp
    show "\<exists>xs. dead st1 = xs @ [?a]" using assms(4) by (simp add: d1)
  qed
qed

text \<open>
  A set-aside message can be brought back: when \<open>fail\<close> sets the message in hand aside, its
  letter carries the cause and the attempt count, its queued resend is dropped, only the oldest
  letters are evicted, and a following \<open>requeue\<close> of its key puts it at the end of the line as
  a fresh message and removes the letter.
\<close>

theorem fail_then_requeue:
  assumes "lq_ok w st" "in_flight st = Some hand" "h_key hand = key w m" "0 < DEAD_LETTER_CAPACITY w"
    and "fail w now m c st = (res, st1)" "requeue w (key w m) st1 = (rq, st2)"
  shows "(\<exists>l. res = Some l \<and> cause l = c \<and> attempts l = h_attempts hand \<and> status st1 (key w m) = DeadLettered l) \<and>
     queued st1 = filter (\<lambda>e. e_key e \<noteq> key w m) (queued st) \<and>
     dkeys st1 = drop (Suc (length (dead st)) - DEAD_LETTER_CAPACITY w) (dkeys st @ [key w m]) \<and>
     rq = Inr () \<and> queued st2 = queued st1 @ [entry_new (key w m) m] \<and> key w m \<notin> set (dkeys st2)"
proof -
  let ?k = "key w m"
  obtain l xs where f: "res = Some l" "cause l = c" "attempts l = h_attempts hand" "lq_inv w st1" "in_flight st1 = None"
    "queued st1 = filter (\<lambda>e. e_key e \<noteq> ?k) (queued st)"
    "dkeys st1 = drop (Suc (length (dead st)) - DEAD_LETTER_CAPACITY w) (dkeys st @ [?k])"
    and last: "dead st1 = xs @ [\<lparr>a_key = ?k, a_msg = m, a_letter = l\<rparr>]"
    using fail_sets_aside [OF assms(1-5)] by metis
  have stat: "status st1 ?k = DeadLettered l" unfolding status_cases(3) [OF f(4)] by (force simp: last)
  have dd: "distinct (dkeys st1)" using f(4) by (simp add: lq_inv_def)
  have at: "dead st1 ! length xs = \<lparr>a_key = ?k, a_msg = m, a_letter = l\<rparr>" by (simp add: last nth_append)
  have i: "dead_index st1 ?k = Some (length xs)"
    unfolding dead_index_def
    by (subst position_distinct) (use dd at in \<open>simp_all add: dkeys_def last\<close>)
  have "length (queued st1) \<le> length (queued st)" unfolding f(6) by (rule length_filter_le)
  moreover have "Suc (length (queued st)) \<le> CAPACITY w"
    using assms(1,2) by (simp add: lq_ok_def lq_inv_def held_def)
  ultimately have "held st1 < CAPACITY w" using f(5) by (simp add: held_def)
  then have rq: "rq = Inr ()" "queued st2 = queued st1 @ [entry_new ?k m]" "dead st2 = remove_at (length xs) (dead st1)"
    using assms(6) i at by (auto simp: requeue_def has_room_def)
  have "?k \<notin> set (dkeys st2)"
    using remove_dead(1) [OF dd i] by (simp add: dkeys_def rq(3))
  with rq f stat show ?thesis by blast
qed

theorem fail_then_requeue_witness:
  "fst (requeue demo_worker 1 (snd (fail demo_worker 5 (1, 7) (Failed ''x'') (lq demo_hand)))) = Inr ()"
proof -
  have ok: "lq_ok demo_worker (lq demo_hand)"
    by (simp add: demo_hand_def lq_ok_def lq_inv_defs keyed_def) 
  obtain res st1 where f: "fail demo_worker 5 (1, 7) (Failed ''x'') (lq demo_hand) = (res, st1)" by fastforce
  obtain rq st2 where r: "requeue demo_worker (key demo_worker (1, 7)) st1 = (rq, st2)" by fastforce
  have "in_flight (lq demo_hand) = Some \<lparr>h_key = 1, h_attempts = 1, h_last_reason = None\<rparr>"
    by (simp add: demo_hand_def)
  from fail_then_requeue [OF ok this _ _ f r] f r show ?thesis by simp
qed

end
