(* ===== verification/HttpTypes.thy ===== *)
theory HttpTypes
  imports Prelude
begin

text \<open>
  The types a handler meets, from \<^verbatim>\<open>crates/flatbed/src/lib.rs\<close>: requests, responses, errors,
  the parts the generated wrappers exchange with the service, and the codec named by an
  \<open>accept\<close> header. Header maps belong to the \<open>http\<close> crate: their operations are the fields
  of \<open>http_lib\<close>, and what the code relies on of them is \<open>http_ok\<close>.
\<close>

type_synonym bytes = "8 word list"

definition str_bytes :: "string \<Rightarrow> bytes" where
  "str_bytes s = map of_char s"

type_synonym status = "16 word"

subsection \<open>Header maps\<close>

text \<open>
  \<open>hm_get\<close> is the first value of a name, \<open>hm_insert\<close> replaces all values of one, \<open>hm_append\<close>
  adds one, \<open>hm_remove\<close> drops all values of one, \<open>hm_iter\<close> lists the pairs. \<open>header_name\<close> and \<open>header_value\<close> are the checked
  conversions from strings; \<open>header_str\<close> is \<open>HeaderValue::to_str\<close>. \<open>json_error\<close> is the JSON
  text of an object with a \<open>code\<close> and a \<open>message\<close>, from serde_json.
\<close>

record 'h http_lib =
  hm_new :: 'h
  hm_get :: "'h \<Rightarrow> string \<Rightarrow> string option"
  hm_insert :: "string \<Rightarrow> string \<Rightarrow> 'h \<Rightarrow> 'h"
  hm_append :: "string \<Rightarrow> string \<Rightarrow> 'h \<Rightarrow> 'h"
  hm_remove :: "string \<Rightarrow> 'h \<Rightarrow> 'h"
  hm_iter :: "'h \<Rightarrow> (string \<times> string) list"
  header_name :: "string \<Rightarrow> string option"
  header_value :: "string \<Rightarrow> string option"
  header_str :: "string \<Rightarrow> string option"
  json_error :: "string \<Rightarrow> string \<Rightarrow> bytes"

text \<open>Characters every header value may carry, and those of the names the framework uses.\<close>

definition visible :: "char \<Rightarrow> bool" where
  "visible c \<longleftrightarrow> 32 \<le> (of_char c :: nat) \<and> (of_char c :: nat) < 127"

definition lower_token :: "char \<Rightarrow> bool" where
  "lower_token c \<longleftrightarrow> c = CHR ''-'' \<or> (CHR ''0'' \<le> c \<and> c \<le> CHR ''9'') \<or> (CHR ''a'' \<le> c \<and> c \<le> CHR ''z'')"

text \<open>
  The documented behaviour: a map holds what was inserted and appended last under each name,
  iteration lists each name's values in the order they were added and the names as
  \<open>header_name\<close> spells them, lower-case tokens are names as they are, visible text is accepted
  as a value and reads back, and what \<open>to_str\<close> reads is the value itself.
\<close>

definition http_ok :: "'h http_lib \<Rightarrow> bool" where
  "http_ok L \<longleftrightarrow>
     hm_iter L (hm_new L) = [] \<and>
     (\<forall>h n. hm_get L h n = map_of (hm_iter L h) n) \<and>
     (\<forall>h p. p \<in> set (hm_iter L h) \<longrightarrow> header_name L (fst p) = Some (fst p)) \<and>
     (\<forall>h n v k. header_name L n = Some n \<longrightarrow> filter (\<lambda>p. fst p = k) (hm_iter L (hm_insert L n v h)) =
        (if k = n then [(n, v)] else filter (\<lambda>p. fst p = k) (hm_iter L h))) \<and>
     (\<forall>h n v k. header_name L n = Some n \<longrightarrow> filter (\<lambda>p. fst p = k) (hm_iter L (hm_append L n v h)) =
        filter (\<lambda>p. fst p = k) (hm_iter L h) @ (if k = n then [(n, v)] else [])) \<and>
     (\<forall>n. n \<noteq> [] \<and> list_all lower_token n \<longrightarrow> header_name L n = Some n) \<and>
     (\<forall>s n. header_name L s = Some n \<longrightarrow> header_name L n = Some n) \<and>
     (\<forall>v. list_all visible v \<longrightarrow> header_value L v = Some v \<and> header_str L v = Some v) \<and>
     (\<forall>v s. header_str L v = Some s \<longrightarrow> s = v \<and> header_value L s = Some s) \<and>
     (\<forall>h n k. header_name L n = Some n \<longrightarrow> filter (\<lambda>p. fst p = k) (hm_iter L (hm_remove L n h)) =
        (if k = n then [] else filter (\<lambda>p. fst p = k) (hm_iter L h)))"

lemma http_okD:
  assumes "http_ok L"
  shows "hm_iter L (hm_new L) = []"
    and "hm_get L h n = map_of (hm_iter L h) n"
    and "p \<in> set (hm_iter L h) \<Longrightarrow> header_name L (fst p) = Some (fst p)"
    and "header_name L n = Some n \<Longrightarrow> filter (\<lambda>p. fst p = k) (hm_iter L (hm_insert L n v h)) =
        (if k = n then [(n, v)] else filter (\<lambda>p. fst p = k) (hm_iter L h))"
    and "header_name L n = Some n \<Longrightarrow> filter (\<lambda>p. fst p = k) (hm_iter L (hm_append L n v h)) =
        filter (\<lambda>p. fst p = k) (hm_iter L h) @ (if k = n then [(n, v)] else [])"
    and "n \<noteq> [] \<Longrightarrow> list_all lower_token n \<Longrightarrow> header_name L n = Some n"
    and "header_name L s = Some n \<Longrightarrow> header_name L n = Some n"
    and "list_all visible v \<Longrightarrow> header_value L v = Some v"
    and "list_all visible v \<Longrightarrow> header_str L v = Some v"
    and "header_str L v = Some s \<Longrightarrow> s = v \<and> header_value L v = Some v"
    and "header_name L n = Some n \<Longrightarrow> filter (\<lambda>p. fst p = k) (hm_iter L (hm_remove L n h)) =
        (if k = n then [] else filter (\<lambda>p. fst p = k) (hm_iter L h))"
proof -
  note c = assms [unfolded http_ok_def]
  note c1 = c [THEN conjunct2]
  note c2 = c1 [THEN conjunct2]
  note c3 = c2 [THEN conjunct2]
  note c4 = c3 [THEN conjunct2]
  note c5 = c4 [THEN conjunct2]
  note c6 = c5 [THEN conjunct2]
  note c7 = c6 [THEN conjunct2]
  note c8 = c7 [THEN conjunct2]
  show "hm_iter L (hm_new L) = []" by (rule c [THEN conjunct1])
  show "hm_get L h n = map_of (hm_iter L h) n" by (rule c1 [THEN conjunct1, rule_format])
  show "p \<in> set (hm_iter L h) \<Longrightarrow> header_name L (fst p) = Some (fst p)"
    by (rule c2 [THEN conjunct1, rule_format])
  show "header_name L n = Some n \<Longrightarrow> filter (\<lambda>p. fst p = k) (hm_iter L (hm_insert L n v h)) =
        (if k = n then [(n, v)] else filter (\<lambda>p. fst p = k) (hm_iter L h))"
    by (rule c3 [THEN conjunct1, rule_format])
  show "header_name L n = Some n \<Longrightarrow> filter (\<lambda>p. fst p = k) (hm_iter L (hm_append L n v h)) =
        filter (\<lambda>p. fst p = k) (hm_iter L h) @ (if k = n then [(n, v)] else [])"
    by (rule c4 [THEN conjunct1, rule_format])
  show "n \<noteq> [] \<Longrightarrow> list_all lower_token n \<Longrightarrow> header_name L n = Some n"
    using c5 [THEN conjunct1, rule_format, of n] by simp
  show "header_name L s = Some n \<Longrightarrow> header_name L n = Some n"
    by (rule c6 [THEN conjunct1, rule_format])
  show "list_all visible v \<Longrightarrow> header_value L v = Some v"
    using c7 [THEN conjunct1, rule_format, of v] by simp
  show "list_all visible v \<Longrightarrow> header_str L v = Some v"
    using c7 [THEN conjunct1, rule_format, of v] by simp
  show "header_str L v = Some s \<Longrightarrow> s = v \<and> header_value L v = Some v"
    using c8 [THEN conjunct1, rule_format, of v s] by auto
  show "header_name L n = Some n \<Longrightarrow> filter (\<lambda>p. fst p = k) (hm_iter L (hm_remove L n h)) =
        (if k = n then [] else filter (\<lambda>p. fst p = k) (hm_iter L h))"
    by (rule c8 [THEN conjunct2, rule_format])
qed

lemmas header_name_lower [simp] = http_okD(6)
lemmas header_value_visible [simp] = http_okD(8)
lemmas header_str_visible [simp] = http_okD(9)
lemmas header_str_SomeD = http_okD(10)

lemma header_name_iter: "http_ok L \<Longrightarrow> (n, v) \<in> set (hm_iter L h) \<Longrightarrow> header_name L n = Some n"
  using http_okD(3) [of L "(n, v)"] by simp

text \<open>Literal names and values, spelt out.\<close>

lemmas literal_headers = lower_token_def visible_def less_eq_char_def

text \<open>The values of one name.\<close>

definition hm_all :: "'h http_lib \<Rightarrow> 'h \<Rightarrow> string \<Rightarrow> string list" where
  "hm_all L h n = map snd (filter (\<lambda>p. fst p = n) (hm_iter L h))"

lemma map_of_filter_fst: "map_of (filter (\<lambda>p. fst p = k) xs) k = map_of xs k"
  by (induction xs) auto

lemma hm_get_all: "http_ok L \<Longrightarrow> hm_get L h n = (case hm_all L h n of [] \<Rightarrow> None | v # _ \<Rightarrow> Some v)"
proof -
  assume ok: "http_ok L"
  have "map_of xs n = (case map snd xs of [] \<Rightarrow> None | v # _ \<Rightarrow> Some v)" if "\<forall>p \<in> set xs. fst p = n" for xs :: "(string \<times> string) list"
    using that by (cases xs) auto
  from this [of "filter (\<lambda>p. fst p = n) (hm_iter L h)"] show ?thesis
    by (simp add: http_okD(2) [OF ok] hm_all_def map_of_filter_fst)
qed

lemma hm_all_new [simp]: "http_ok L \<Longrightarrow> hm_all L (hm_new L) n = []"
  by (simp add: http_okD(1) hm_all_def)

lemma hm_all_insert [simp]:
  "http_ok L \<Longrightarrow> header_name L n = Some n \<Longrightarrow>
     hm_all L (hm_insert L n v h) k = (if k = n then [v] else hm_all L h k)"
  by (simp add: http_okD(4) hm_all_def)

lemma hm_all_append [simp]:
  "http_ok L \<Longrightarrow> header_name L n = Some n \<Longrightarrow>
     hm_all L (hm_append L n v h) k = hm_all L h k @ (if k = n then [v] else [])"
  by (simp add: http_okD(5) hm_all_def)

lemma hm_all_remove [simp]:
  "http_ok L \<Longrightarrow> header_name L n = Some n \<Longrightarrow>
     hm_all L (hm_remove L n h) k = (if k = n then [] else hm_all L h k)"
  by (simp add: http_okD(11) hm_all_def)

text \<open>A list of pairs as a header map, for the witnesses.\<close>

definition list_name :: "string \<Rightarrow> string option" where
  "list_name s = (if s \<noteq> [] \<and> list_all lower_token (to_lowercase s) then Some (to_lowercase s) else None)"

definition list_iter :: "(string \<times> string) list \<Rightarrow> (string \<times> string) list" where
  "list_iter h = filter (\<lambda>p. list_name (fst p) = Some (fst p)) h"

definition list_lib :: "(string \<times> string) list http_lib" where
  "list_lib = \<lparr>hm_new = [], hm_get = (\<lambda>h. map_of (list_iter h)),
     hm_insert = (\<lambda>n v h. filter (\<lambda>p. fst p \<noteq> n) h @ [(n, v)]),
     hm_append = (\<lambda>n v h. h @ [(n, v)]),
     hm_remove = (\<lambda>n h. filter (\<lambda>p. fst p \<noteq> n) h), hm_iter = list_iter, header_name = list_name,
     header_value = (\<lambda>s. if list_all visible s then Some s else None),
     header_str = (\<lambda>s. if list_all visible s then Some s else None),
     json_error = (\<lambda>c m. str_bytes (''{\"code\":\"'' @ c @ ''\",\"message\":\"'' @ m @ ''\"}''))\<rparr>"

lemma list_lib_ok [simp]: "http_ok list_lib"
proof -
  have low: "to_lowercase s = s" if "list_all lower_token s" for s
    using that by (induction s) (auto simp: to_lowercase_def ascii_lower_def lower_token_def less_eq_char_def)
  have idem: "list_name n = Some n" if "list_name s = Some n" for s n
    using that by (auto simp: list_name_def low split: if_splits)
       (metis to_lowercase_def map_is_Nil_conv)
  have lown: "list_name n = Some n" if "n \<noteq> []" "list_all lower_token n" for n
    using that by (simp add: list_name_def low)
  show ?thesis
    unfolding http_ok_def
    by (intro conjI allI impI)
       (auto simp: list_lib_def list_iter_def filter_empty_conv idem lown split: if_splits,
        (rule filter_cong; auto)+)
qed

subsection \<open>Requests and responses\<close>

record ('t, 'c, 'h) request =
  rq_body :: 't
  rq_ctx :: 'c
  rq_headers :: 'h
  rq_method :: string
  rq_path :: string
  rq_path_params :: "string \<rightharpoonup> string"
  rq_query_params :: "string \<rightharpoonup> string"
  rq_request_id :: string

definition header :: "'h http_lib \<Rightarrow> ('t, 'c, 'h) request \<Rightarrow> string \<Rightarrow> string option" where
  "header L rq name = Option.bind (hm_get L (rq_headers rq) name) (header_str L)"

definition param :: "('t, 'c, 'h) request \<Rightarrow> string \<Rightarrow> string option" where
  "param rq name = rq_path_params rq name"

definition query :: "('t, 'c, 'h) request \<Rightarrow> string \<Rightarrow> string option" where
  "query rq name = rq_query_params rq name"

record ('t, 'h) response =
  rs_body :: 't
  rs_status :: status
  rs_headers :: 'h
  rs_raw :: "(bytes \<times> string) option"

definition rs_with_status :: "'h http_lib \<Rightarrow> 't \<Rightarrow> status \<Rightarrow> ('t, 'h) response" where
  "rs_with_status L b s = \<lparr>rs_body = b, rs_status = s, rs_headers = hm_new L, rs_raw = None\<rparr>"

definition rs_ok :: "'h http_lib \<Rightarrow> 't \<Rightarrow> ('t, 'h) response" where
  "rs_ok L b = rs_with_status L b 200"

definition rs_created :: "'h http_lib \<Rightarrow> 't \<Rightarrow> ('t, 'h) response" where
  "rs_created L b = rs_with_status L b 201"

definition rs_accepted :: "'h http_lib \<Rightarrow> 't \<Rightarrow> ('t, 'h) response" where
  "rs_accepted L b = rs_with_status L b 202"

definition rs_no_content :: "'h http_lib \<Rightarrow> 't \<Rightarrow> ('t, 'h) response" where
  "rs_no_content L b = rs_with_status L b 204"

definition rs_set_status :: "status \<Rightarrow> ('t, 'h) response \<Rightarrow> ('t, 'h) response" where
  "rs_set_status s r = r\<lparr>rs_status := s\<rparr>"

definition checked_insert :: "'h http_lib \<Rightarrow> string \<Rightarrow> string \<Rightarrow> 'h \<Rightarrow> 'h" where
  "checked_insert L k v h =
     (case (header_name L k, header_value L v) of
        (Some n, Some w) \<Rightarrow> hm_insert L n w h
      | _ \<Rightarrow> h)"

definition rs_header :: "'h http_lib \<Rightarrow> string \<Rightarrow> string \<Rightarrow> ('t, 'h) response \<Rightarrow> ('t, 'h) response" where
  "rs_header L k v r = r\<lparr>rs_headers := checked_insert L k v (rs_headers r)\<rparr>"

definition rs_new_raw :: "'h http_lib \<Rightarrow> bytes \<Rightarrow> string \<Rightarrow> (unit, 'h) response" where
  "rs_new_raw L bs ct = (rs_with_status L () 200)\<lparr>rs_raw := Some (bs, ct)\<rparr>"

definition take_raw :: "('t, 'h) response \<Rightarrow> (bytes \<times> string) option \<times> ('t, 'h) response" where
  "take_raw r = (rs_raw r, r\<lparr>rs_raw := None\<rparr>)"

subsection \<open>Errors\<close>

record worker_error =
  we_code :: string
  we_message :: string

definition worker_error_str :: "worker_error \<Rightarrow> string" where
  "worker_error_str e = ''['' @ we_code e @ ''] '' @ we_message e"

record ('d, 'h) route_error =
  re_status :: status
  re_code :: string
  re_message :: string
  re_headers :: 'h
  re_details :: "'d option"

definition re_with_status :: "'h http_lib \<Rightarrow> status \<Rightarrow> string \<Rightarrow> ('d, 'h) route_error" where
  "re_with_status L s m =
     \<lparr>re_status = s, re_code = [], re_message = m, re_headers = hm_new L, re_details = None\<rparr>"

definition bad_request :: "'h http_lib \<Rightarrow> string \<Rightarrow> ('d, 'h) route_error" where
  "bad_request L m = re_with_status L 400 m"

definition unauthorized :: "'h http_lib \<Rightarrow> string \<Rightarrow> ('d, 'h) route_error" where
  "unauthorized L m = re_with_status L 401 m"

definition forbidden :: "'h http_lib \<Rightarrow> string \<Rightarrow> ('d, 'h) route_error" where
  "forbidden L m = re_with_status L 403 m"

definition not_found :: "'h http_lib \<Rightarrow> string \<Rightarrow> ('d, 'h) route_error" where
  "not_found L m = re_with_status L 404 m"

definition conflict :: "'h http_lib \<Rightarrow> string \<Rightarrow> ('d, 'h) route_error" where
  "conflict L m = re_with_status L 409 m"

definition unprocessable :: "'h http_lib \<Rightarrow> string \<Rightarrow> ('d, 'h) route_error" where
  "unprocessable L m = re_with_status L 422 m"

definition internal :: "'h http_lib \<Rightarrow> string \<Rightarrow> ('d, 'h) route_error" where
  "internal L m = re_with_status L 500 m"

definition with_code :: "string \<Rightarrow> ('d, 'h) route_error \<Rightarrow> ('d, 'h) route_error" where
  "with_code c e = e\<lparr>re_code := c\<rparr>"

definition re_header :: "'h http_lib \<Rightarrow> string \<Rightarrow> string \<Rightarrow> ('d, 'h) route_error \<Rightarrow> ('d, 'h) route_error" where
  "re_header L k v e = e\<lparr>re_headers := checked_insert L k v (re_headers e)\<rparr>"

definition with_details :: "'d2 \<Rightarrow> ('d, 'h) route_error \<Rightarrow> ('d2, 'h) route_error" where
  "with_details d e =
     \<lparr>re_status = re_status e, re_code = re_code e, re_message = re_message e, re_headers = re_headers e,
      re_details = Some d\<rparr>"

definition route_error_str :: "('d, 'h) route_error \<Rightarrow> string" where
  "route_error_str e = (if re_code e = [] then re_message e else ''['' @ re_code e @ ''] '' @ re_message e)"

text \<open>The code put on the wire: the error's own, or \<open>ERROR\<close> when it set none.\<close>

definition wire_code :: "('d, 'h) route_error \<Rightarrow> string" where
  "wire_code e = (if re_code e = [] then ''ERROR'' else re_code e)"

datatype error =
  DeserializationError string | SerializationError string | HandlerError string | Custom string

definition error_str :: "error \<Rightarrow> string" where
  "error_str e =
     (case e of
        DeserializationError m \<Rightarrow> ''Deserialization error: '' @ m
      | SerializationError m \<Rightarrow> ''Serialization error: '' @ m
      | HandlerError m \<Rightarrow> ''Handler error: '' @ m
      | Custom m \<Rightarrow> m)"

subsection \<open>Parts\<close>

record 'h request_parts =
  rp_headers :: 'h
  rp_method :: string
  rp_path :: string
  rp_path_params :: "string \<rightharpoonup> string"
  rp_query_params :: "string \<rightharpoonup> string"
  rp_request_id :: string

text \<open>\<open>uuid\<close> is the identifier generated for this request.\<close>

definition request_parts_new :: "'h http_lib \<Rightarrow> string \<Rightarrow> string \<Rightarrow> string \<Rightarrow> 'h request_parts" where
  "request_parts_new L uuid meth path =
     \<lparr>rp_headers = hm_new L, rp_method = meth, rp_path = path, rp_path_params = Map.empty,
      rp_query_params = Map.empty, rp_request_id = uuid\<rparr>"

definition parts_header :: "'h http_lib \<Rightarrow> 'h request_parts \<Rightarrow> string \<Rightarrow> string option" where
  "parts_header L p name = Option.bind (hm_get L (rp_headers p) name) (header_str L)"

definition with_request_id_from_header :: "'h http_lib \<Rightarrow> 'h request_parts \<Rightarrow> 'h request_parts" where
  "with_request_id_from_header L p =
     (case Option.bind (hm_get L (rp_headers p) ''x-request-id'') (header_str L) of
        Some i \<Rightarrow> p\<lparr>rp_request_id := i\<rparr>
      | None \<Rightarrow> p)"

record 'h response_parts =
  sp_body :: bytes
  sp_status :: status
  sp_headers :: 'h
  sp_content_type :: string

definition response_parts_with_status :: "'h http_lib \<Rightarrow> bytes \<Rightarrow> status \<Rightarrow> string \<Rightarrow> 'h response_parts" where
  "response_parts_with_status L b s ct =
     \<lparr>sp_body = b, sp_status = s, sp_headers = hm_new L, sp_content_type = ct\<rparr>"

definition response_parts_ok :: "'h http_lib \<Rightarrow> bytes \<Rightarrow> string \<Rightarrow> 'h response_parts" where
  "response_parts_ok L b ct = response_parts_with_status L b 200 ct"

definition with_request_id :: "'h http_lib \<Rightarrow> string \<Rightarrow> 'h response_parts \<Rightarrow> 'h response_parts" where
  "with_request_id L i p =
     (case header_value L i of
        Some v \<Rightarrow> p\<lparr>sp_headers := hm_insert L ''x-request-id'' v (sp_headers p)\<rparr>
      | None \<Rightarrow> p)"

subsection \<open>Codecs\<close>

datatype codec = Json | FlatBuffer

definition accepted_codec :: "'h http_lib \<Rightarrow> 'h \<Rightarrow> codec option" where
  "accepted_codec L h =
     (case Option.bind (hm_get L h ''accept'') (header_str L) of
        None \<Rightarrow> None
      | Some accept \<Rightarrow>
          (let json = find_str ''application/json'' accept;
               flatbuffer = (case find_str ''application/x-flatbuffers'' accept of
                               Some i \<Rightarrow> Some i
                             | None \<Rightarrow> find_str ''application/x-flat-buffers'' accept)
           in case (json, flatbuffer) of
                (Some j, Some f) \<Rightarrow> if f < j then Some FlatBuffer else Some Json
              | (Some _, None) \<Rightarrow> Some Json
              | (None, Some _) \<Rightarrow> Some FlatBuffer
              | (None, None) \<Rightarrow> None))"

definition is_json :: "string \<Rightarrow> bool" where
  "is_json ct \<longleftrightarrow> contains_str ct ''application/json''"

definition is_flatbuffer :: "string \<Rightarrow> bool" where
  "is_flatbuffer ct \<longleftrightarrow>
     contains_str ct ''application/x-flatbuffers'' \<or> contains_str ct ''application/x-flat-buffers''"

datatype http_method = Get | Post | Put | Delete | Patch | Head | Options

fun method_str :: "http_method \<Rightarrow> string" where
  "method_str Get = ''GET''"
| "method_str Post = ''POST''"
| "method_str Put = ''PUT''"
| "method_str Delete = ''DELETE''"
| "method_str Patch = ''PATCH''"
| "method_str Head = ''HEAD''"
| "method_str Options = ''OPTIONS''"

lemma method_str_inject [simp]: "method_str a = method_str b \<longleftrightarrow> a = b"
  by (cases a; cases b) simp_all

end
