(* ===== verification/Registry.thy ===== *)
theory Registry
  imports HttpTypes
begin

text \<open>
  The compile-time registries of \<^verbatim>\<open>crates/flatbed/src/lib.rs\<close>: routes and the generated
  types, enums and unions. \<open>inventory\<close> collects them in no defined order: the lists here are
  that collection, in the order it iterates. The lookups key a hash map by bare name, and the
  validations that run at startup are what makes a bare name denote one item.
\<close>

record field_info =
  fi_name :: string
  fi_fbs_type :: string
  fi_required :: bool

record schema_info =
  si_name :: string
  si_fields :: "field_info list"

record type_field_info =
  tf_name :: string
  tf_fbs_type :: string
  tf_field_id :: "16 word"
  tf_required :: bool

record type_schema =
  ty_name :: string
  ty_namespace :: string
  ty_fields :: "type_field_info list"

record enum_schema =
  en_name :: string
  en_namespace :: string
  en_variants :: "string list"
  en_bit_flags :: bool

record union_schema =
  un_name :: string
  un_namespace :: string
  un_variants :: "(string \<times> string) list"

record openapi_info =
  oi_version :: "string option"
  oi_tag :: "string option"
  oi_summary :: "string option"
  oi_operation_id :: "string option"
  oi_deprecated :: bool
  oi_request_schema :: "schema_info option"
  oi_response_schema :: "schema_info option"

text \<open>A registered route; \<open>'f\<close> is the pair of its handler functions.\<close>

record 'f route_info =
  ri_path :: string
  ri_method :: http_method
  ri_request_type :: string
  ri_response_type :: string
  ri_handlers :: 'f
  ri_openapi :: openapi_info

type_synonym route_key = "string \<times> http_method"

definition route_key :: "'f route_info \<Rightarrow> route_key" where
  "route_key r = (ri_path r, ri_method r)"

subsection \<open>The route map\<close>

type_synonym 'f route_map = "(route_key \<times> 'f route_info) list"

definition get_routes :: "'f route_info list \<Rightarrow> 'f route_map" where
  "get_routes regs = foldl (\<lambda>m r. AList.update (route_key r) r m) [] regs"

record route_conflict =
  rc_path :: string
  rc_method :: http_method
  rc_first_request :: string
  rc_first_response :: string
  rc_second_request :: string
  rc_second_response :: string

definition quoted_name :: "string \<Rightarrow> string" where
  "quoted_name s = CHR 0x27 # s @ [CHR 0x27]"

definition route_conflict_str :: "route_conflict \<Rightarrow> string" where
  "route_conflict_str c =
     ''Route conflict at '' @ method_str (rc_method c) @ '' '' @ quoted_name (rc_path c) @ '': ('' @
     rc_first_request c @ '', '' @ rc_first_response c @ '') vs ('' @
     rc_second_request c @ '', '' @ rc_second_response c @ '')''"

definition differ :: "'f route_info \<Rightarrow> 'f route_info \<Rightarrow> bool" where
  "differ a b \<longleftrightarrow> ri_request_type a \<noteq> ri_request_type b \<or> ri_response_type a \<noteq> ri_response_type b"

definition conflict_of :: "'f route_info \<Rightarrow> 'f route_info \<Rightarrow> route_conflict" where
  "conflict_of a b =
     \<lparr>rc_path = ri_path b, rc_method = ri_method b,
      rc_first_request = ri_request_type a, rc_first_response = ri_response_type a,
      rc_second_request = ri_request_type b, rc_second_response = ri_response_type b\<rparr>"

primrec check_routes ::
  "'f route_info list \<Rightarrow> (route_key \<rightharpoonup> 'f route_info) \<Rightarrow> route_conflict + unit" where
  "check_routes [] seen = Inr ()"
| "check_routes (r # rs) seen =
     (case seen (route_key r) of
        Some a \<Rightarrow>
          if differ a r then Inl (conflict_of a r) else check_routes rs (seen(route_key r \<mapsto> r))
      | None \<Rightarrow> check_routes rs (seen(route_key r \<mapsto> r)))"

definition validate_routes :: "'f route_info list \<Rightarrow> route_conflict + unit" where
  "validate_routes regs = check_routes regs Map.empty"

subsection \<open>The type registry\<close>

definition get_type_schema :: "type_schema list \<Rightarrow> string \<Rightarrow> type_schema option" where
  "get_type_schema types n = foldl (\<lambda>m ty. m(ty_name ty \<mapsto> ty)) Map.empty types n"

definition get_enum_schema :: "enum_schema list \<Rightarrow> string \<Rightarrow> enum_schema option" where
  "get_enum_schema enums n = foldl (\<lambda>m en. m(en_name en \<mapsto> en)) Map.empty enums n"

record type_conflict =
  tc_name :: string
  tc_first_namespace :: string
  tc_second_namespace :: string
  tc_first_kind :: string
  tc_second_kind :: string

definition type_conflict_str :: "type_conflict \<Rightarrow> string" where
  "type_conflict_str c =
     ''name conflict: '' @ quoted_name (tc_name c) @ '' is registered in namespace '' @
     quoted_name (tc_first_namespace c) @ '' ('' @ tc_first_kind c @ '') and namespace '' @
     quoted_name (tc_second_namespace c) @ '' ('' @ tc_second_kind c @ '')''"

text \<open>An entry of the registry: name, namespace and kind.\<close>

type_synonym registered = "string \<times> string \<times> string"

primrec collision :: "registered list \<Rightarrow> (string \<rightharpoonup> string \<times> string) \<Rightarrow> type_conflict + unit" where
  "collision [] seen = Inr ()"
| "collision (e # es) seen =
     (case e of (n, ns, kind) \<Rightarrow>
        (case seen n of
           None \<Rightarrow> collision es (seen(n \<mapsto> (ns, kind)))
         | Some (prev_ns, prev_kind) \<Rightarrow>
             if prev_ns \<noteq> ns then
               Inl \<lparr>tc_name = n, tc_first_namespace = prev_ns, tc_second_namespace = ns,
                    tc_first_kind = prev_kind, tc_second_kind = kind\<rparr>
             else collision es (seen(n \<mapsto> (ns, kind)))))"

definition find_name_collision :: "registered list \<Rightarrow> type_conflict + unit" where
  "find_name_collision es = collision es Map.empty"

text \<open>What generated code registered: the tables, the enums and the unions.\<close>

record type_registry =
  reg_types :: "type_schema list"
  reg_enums :: "enum_schema list"
  reg_unions :: "union_schema list"

definition registry_entries :: "type_registry \<Rightarrow> registered list" where
  "registry_entries R =
     map (\<lambda>t. (ty_name t, ty_namespace t, ''type'')) (reg_types R) @
     map (\<lambda>e. (en_name e, en_namespace e, ''enum'')) (reg_enums R) @
     map (\<lambda>u. (un_name u, un_namespace u, ''union'')) (reg_unions R)"

definition validate_type_registry :: "type_registry \<Rightarrow> type_conflict + unit" where
  "validate_type_registry R = find_name_collision (registry_entries R)"

subsection \<open>What the lookups and the validations say\<close>

lemma map_of_foldl_update:
  "map_of (foldl (\<lambda>m r. AList.update (route_key r) r m) m rs) k =
     (case List.find (\<lambda>r. route_key r = k) (rev rs) of Some r \<Rightarrow> Some r | None \<Rightarrow> map_of m k)"
  by (induction rs rule: rev_induct) auto

lemma map_of_get_routes: "map_of (get_routes rs) k = List.find (\<lambda>r. route_key r = k) (rev rs)"
  by (simp add: get_routes_def map_of_foldl_update split: option.splits)

lemma distinct_get_routes [simp]: "distinct (map fst (get_routes rs))"
proof -
  have "distinct (map fst m) \<Longrightarrow>
      distinct (map fst (foldl (\<lambda>m r. AList.update (route_key r) r m) m rs))" for m :: "'a route_map"
    by (induction rs arbitrary: m) (simp_all add: distinct_update)
  from this [of "[]"] show ?thesis by (simp add: get_routes_def)
qed

lemma find_rev_Some: "List.find P (rev rs) = Some r \<Longrightarrow> r \<in> set rs \<and> P r"
  by (metis find_Some_iff nth_mem set_rev)

lemma get_routes_key: "(k, r) \<in> set (get_routes rs) \<Longrightarrow> k = route_key r \<and> r \<in> set rs"
proof -
  assume "(k, r) \<in> set (get_routes rs)"
  then have "map_of (get_routes rs) k = Some r" by simp
  then have "List.find (\<lambda>r. route_key r = k) (rev rs) = Some r" by (simp add: map_of_get_routes)
  then show ?thesis by (auto dest: find_rev_Some)
qed

lemma get_routes_has:
  assumes "r \<in> set rs"
  shows "\<exists>r'. (route_key r, r') \<in> set (get_routes rs)"
proof -
  have "List.find (\<lambda>x. route_key x = route_key r) (rev rs) \<noteq> None"
    using assms by (auto simp: find_None_iff)
  then show ?thesis
    by (metis map_of_get_routes map_of_SomeD not_None_eq)
qed

text \<open>
  The startup checks scan the registrations and compare each with what was seen under its key.
\<close>

primrec scan_agrees :: "('x \<Rightarrow> 'k) \<Rightarrow> ('x \<Rightarrow> 'v) \<Rightarrow> 'x list \<Rightarrow> ('k \<rightharpoonup> 'v) \<Rightarrow> bool" where
  "scan_agrees key val [] seen = True"
| "scan_agrees key val (x # xs) seen =
     ((seen (key x) = None \<or> seen (key x) = Some (val x)) \<and> scan_agrees key val xs (seen(key x \<mapsto> val x)))"

lemma scan_agrees_iff:
  "scan_agrees key val xs seen \<longleftrightarrow>
     (\<forall>x \<in> set xs. \<forall>v. seen (key x) = Some v \<longrightarrow> v = val x) \<and>
     (\<forall>x \<in> set xs. \<forall>y \<in> set xs. key x = key y \<longrightarrow> val x = val y)"
  (is "_ \<longleftrightarrow> ?S xs seen \<and> ?P xs")
proof (induction xs arbitrary: seen)
  case (Cons x xs)
  have IH: "scan_agrees key val xs (seen(key x \<mapsto> val x)) \<longleftrightarrow> ?S xs (seen(key x \<mapsto> val x)) \<and> ?P xs"
    by (rule Cons.IH)
  have S: "?S xs (seen(key x \<mapsto> val x)) \<longleftrightarrow>
      (\<forall>y \<in> set xs. key x = key y \<longrightarrow> val x = val y) \<and>
      (\<forall>y \<in> set xs. key x \<noteq> key y \<longrightarrow> (\<forall>v. seen (key y) = Some v \<longrightarrow> v = val y))"
    by (auto split: if_splits)
  have P: "?P (x # xs) \<longleftrightarrow> ?P xs \<and> (\<forall>y \<in> set xs. key x = key y \<longrightarrow> val x = val y)"
    by (simp add: eq_commute [of "val x"] eq_commute [of "key x"]) blast
  have here: "(seen (key x) = None \<or> seen (key x) = Some (val x)) \<longleftrightarrow> (\<forall>v. seen (key x) = Some v \<longrightarrow> v = val x)"
    by (cases "seen (key x)") auto
  have rest: "(\<forall>y \<in> set xs. key x \<noteq> key y \<longrightarrow> (\<forall>v. seen (key y) = Some v \<longrightarrow> v = val y)) \<longleftrightarrow> ?S xs seen"
    if "\<forall>v. seen (key x) = Some v \<longrightarrow> v = val x" "\<forall>y \<in> set xs. key x = key y \<longrightarrow> val x = val y"
    using that by (intro ball_cong refl) metis
  have "?S (x # xs) seen \<longleftrightarrow> (\<forall>v. seen (key x) = Some v \<longrightarrow> v = val x) \<and> ?S xs seen"
    by simp
  then show ?case unfolding scan_agrees.simps IH S P here using rest by blast
qed simp

definition types_of :: "'f route_info \<Rightarrow> string \<times> string" where
  "types_of r = (ri_request_type r, ri_response_type r)"

lemma differ_iff: "differ a b \<longleftrightarrow> types_of a \<noteq> types_of b"
  by (auto simp: differ_def types_of_def)

lemma check_routes_scan:
  "check_routes rs seen = Inr () \<longleftrightarrow> scan_agrees route_key types_of rs (map_option types_of \<circ> seen)"
proof (induction rs arbitrary: seen)
  case (Cons r rs)
  have upd: "map_option types_of \<circ> seen(route_key r \<mapsto> r) = (map_option types_of \<circ> seen)(route_key r \<mapsto> types_of r)"
    by auto
  have IH: "check_routes rs (seen(route_key r \<mapsto> r)) = Inr () \<longleftrightarrow>
      scan_agrees route_key types_of rs ((map_option types_of \<circ> seen)(route_key r \<mapsto> types_of r))"
    by (rule Cons.IH [of "seen(route_key r \<mapsto> r)", unfolded upd])
  show ?case by (simp add: IH [unfolded comp_def] differ_iff comp_def split: option.split)
qed simp

text \<open>The conflict reported is between two registrations of one path and method.\<close>

lemma check_routes_conflict:
  assumes "check_routes rs seen = Inl c" "\<forall>k a. seen k = Some a \<longrightarrow> a \<in> A \<and> route_key a = k"
  shows "\<exists>a b. a \<in> A \<union> set rs \<and> b \<in> set rs \<and> route_key a = route_key b \<and> differ a b \<and> c = conflict_of a b"
  using assms
proof (induction rs arbitrary: seen A)
  case (Cons r rs)
  show ?case
  proof (cases "\<exists>a. seen (route_key r) = Some a \<and> differ a r")
    case True
    then obtain a where a: "seen (route_key r) = Some a" "differ a r" by blast
    then have "a \<in> A \<and> route_key a = route_key r" using Cons.prems(2) by blast
    moreover have "c = conflict_of a r" using a Cons.prems(1) by simp
    ultimately show ?thesis using a(2) by (intro exI [of _ a] exI [of _ r]) simp
  next
    case False
    then have "check_routes rs (seen(route_key r \<mapsto> r)) = Inl c"
      using Cons.prems(1) by (auto split: option.splits if_splits)
    then have "\<exists>a b. a \<in> insert r A \<union> set rs \<and> b \<in> set rs \<and> route_key a = route_key b \<and> differ a b \<and> c = conflict_of a b"
      by (rule Cons.IH) (use Cons.prems(2) in auto)
    then show ?thesis by auto
  qed
qed simp

lemma routes_validated:
  "validate_routes rs = Inr () \<longleftrightarrow>
      (\<forall>a \<in> set rs. \<forall>b \<in> set rs. route_key a = route_key b \<longrightarrow>
         ri_request_type a = ri_request_type b \<and> ri_response_type a = ri_response_type b)"
  by (simp add: validate_routes_def check_routes_scan scan_agrees_iff types_of_def comp_def)

lemma collision_scan:
  "collision es seen = Inr () \<longleftrightarrow> scan_agrees fst (fst \<circ> snd) es (map_option fst \<circ> seen)"
proof (induction es arbitrary: seen)
  case (Cons e es)
  obtain n ns k where e: "e = (n, ns, k)" by (cases e) auto
  have upd: "map_option fst \<circ> seen(n \<mapsto> (ns, k)) = (map_option fst \<circ> seen)(n \<mapsto> ns)"
    by auto
  have IH: "collision es (seen(n \<mapsto> (ns, k))) = Inr () \<longleftrightarrow>
      scan_agrees fst (fst \<circ> snd) es ((map_option fst \<circ> seen)(n \<mapsto> ns))"
    by (rule Cons.IH [of "seen(n \<mapsto> (ns, k))", unfolded upd])
  show ?case by (simp add: IH [unfolded comp_def] e comp_def split: option.split prod.split)
qed simp

lemma foldl_lookup:
  "foldl (\<lambda>m x. m(f x \<mapsto> x)) m xs n = (case List.find (\<lambda>x. f x = n) (rev xs) of Some x \<Rightarrow> Some x | None \<Rightarrow> m n)"
  by (induction xs rule: rev_induct) auto

lemma get_type_schema_found:
  assumes "t \<in> set types"
  shows "\<exists>t'. get_type_schema types (ty_name t) = Some t' \<and> t' \<in> set types \<and> ty_name t' = ty_name t"
proof -
  have "List.find (\<lambda>x. ty_name x = ty_name t) (rev types) \<noteq> None"
    using assms by (auto simp: find_None_iff)
  then obtain t' where t': "List.find (\<lambda>x. ty_name x = ty_name t) (rev types) = Some t'" by auto
  then have "t' \<in> set types \<and> ty_name t' = ty_name t" by (auto dest: find_rev_Some)
  with t' show ?thesis by (simp add: get_type_schema_def foldl_lookup)
qed

lemma registry_ok:
  "validate_type_registry R = Inr () \<longleftrightarrow>
     (\<forall>e \<in> set (registry_entries R). \<forall>e' \<in> set (registry_entries R).
        fst e = fst e' \<longrightarrow> fst (snd e) = fst (snd e'))"
  by (simp add: validate_type_registry_def find_name_collision_def collision_scan scan_agrees_iff comp_def)

text \<open>
  Once the type registry has validated, looking a registered table up by its bare name finds
  a table, and the one found is in the same namespace: no table is shadowed by one of another
  namespace, whatever order the registrations were collected in.
\<close>

lemma lookup_not_shadowed:
  assumes "validate_type_registry R = Inr ()" "t \<in> set (reg_types R)"
  shows "\<exists>t'. get_type_schema (reg_types R) (ty_name t) = Some t' \<and>
      t' \<in> set (reg_types R) \<and> ty_name t' = ty_name t \<and> ty_namespace t' = ty_namespace t"
proof -
  obtain t' where t': "get_type_schema (reg_types R) (ty_name t) = Some t'"
      "t' \<in> set (reg_types R)" "ty_name t' = ty_name t"
    using get_type_schema_found [OF assms(2)] by blast
  have entry: "(ty_name x, ty_namespace x, ''type'') \<in> set (registry_entries R)" if "x \<in> set (reg_types R)" for x
    using that by (auto simp: registry_entries_def)
  have "ty_namespace t' = ty_namespace t"
    using assms(1) entry [OF t'(2)] entry [OF assms(2)] t'(3) by (fastforce simp: registry_ok)
  with t' show ?thesis by blast
qed

end
