(* ===== verification/Router.thy ===== *)
theory Router
  imports Prelude
begin

text \<open>
  The trie router of \<^verbatim>\<open>crates/flatbed/src/hyper/router.rs\<close>: nodes, \<open>add_route\<close>,
  \<open>match_route\<close>, \<open>get_allowed_methods\<close>, and \<open>build_router\<close> of \<^verbatim>\<open>hyper/mod.rs\<close>.
  The trie is abstracted to the partial map from route patterns and methods to entries.
\<close>

subsection \<open>Nodes\<close>

datatype 'e router_node = RouterNode
  (children: "(string \<times> 'e router_node) list")
  (param_child: "(string \<times> 'e router_node) option")
  (handlers: "(string \<times> 'e) list")

definition router_node_new :: "'e router_node" where
  "router_node_new = RouterNode [] None []"

definition path_segments :: "string \<Rightarrow> string list" where
  "path_segments path = filter (\<lambda>s. s \<noteq> []) (split_on CHR ''/'' path)"

definition is_param_segment :: "string \<Rightarrow> bool" where
  "is_param_segment s \<longleftrightarrow> prefix ''{'' s \<and> suffix ''}'' s"

definition param_name :: "string \<Rightarrow> string" where
  "param_name s = take (length s - 2) (drop 1 s)"

subsection \<open>Registration\<close>

fun add_segments :: "string list \<Rightarrow> string \<Rightarrow> 'e \<Rightarrow> 'e router_node \<Rightarrow> 'e router_node" where
  "add_segments [] m e (RouterNode cs p hs) = RouterNode cs p (AList.update (to_uppercase m) e hs)"
| "add_segments (s # ss) m e (RouterNode cs p hs) =
     (if is_param_segment s then
        (case (case p of None \<Rightarrow> (param_name s, router_node_new) | Some q \<Rightarrow> q) of
           (name, child) \<Rightarrow> RouterNode cs (Some (name, add_segments ss m e child)) hs)
      else
        RouterNode
          (AList.update s
             (add_segments ss m e
                (case map_of cs s of None \<Rightarrow> router_node_new | Some c \<Rightarrow> c)) cs)
          p hs)"

definition add_route :: "string \<Rightarrow> string \<Rightarrow> 'e \<Rightarrow> 'e router_node \<Rightarrow> 'e router_node" where
  "add_route path m e root = add_segments (path_segments path) m e root"

subsection \<open>Matching\<close>

fun match_segments ::
  "'e router_node \<Rightarrow> string list \<Rightarrow> (string \<rightharpoonup> string)
   \<Rightarrow> ('e router_node \<times> (string \<rightharpoonup> string)) option" where
  "match_segments n [] params = Some (n, params)"
| "match_segments n (s # ss) params =
     (case map_of (children n) s of
        Some child \<Rightarrow> match_segments child ss params
      | None \<Rightarrow>
          (case param_child n of
             Some (name, child) \<Rightarrow> match_segments child ss (params(name \<mapsto> s))
           | None \<Rightarrow> None))"

definition match_route ::
  "'e router_node \<Rightarrow> string \<Rightarrow> string \<Rightarrow> ('e \<times> (string \<rightharpoonup> string)) option" where
  "match_route root path m =
     (case match_segments root (path_segments path) Map.empty of
        None \<Rightarrow> None
      | Some (n, params) \<Rightarrow>
          map_option (\<lambda>e. (e, params)) (map_of (handlers n) (to_uppercase m)))"

fun allowed_segments :: "'e router_node \<Rightarrow> string list \<Rightarrow> string list" where
  "allowed_segments n [] = map fst (handlers n)"
| "allowed_segments n (s # ss) =
     (case map_of (children n) s of
        Some child \<Rightarrow> allowed_segments child ss
      | None \<Rightarrow>
          (case param_child n of
             Some (_, child) \<Rightarrow> allowed_segments child ss
           | None \<Rightarrow> []))"

definition get_allowed_methods :: "'e router_node \<Rightarrow> string \<Rightarrow> string list" where
  "get_allowed_methods root path = allowed_segments root (path_segments path)"

text \<open>
  \<open>build_router\<close> inserts the registered routes in the iteration order of the route map,
  each a path, a method and an entry.
\<close>

definition build_router :: "(string \<times> string \<times> 'e) list \<Rightarrow> 'e router_node" where
  "build_router routes = fold (\<lambda>(path, m, e). add_route path m e) routes router_node_new"

subsection \<open>Abstraction: patterns to entries\<close>

datatype pat = Static string | Param

definition pat_of :: "string \<Rightarrow> pat" where
  "pat_of s = (if is_param_segment s then Param else Static s)"

fun pat_accepts :: "pat \<Rightarrow> string \<Rightarrow> bool" where
  "pat_accepts Param s = True"
| "pat_accepts (Static t) s = (s = t)"

fun node_at :: "'e router_node \<Rightarrow> pat list \<Rightarrow> 'e router_node option" where
  "node_at n [] = Some n"
| "node_at n (Static s # ps) =
     (case map_of (children n) s of None \<Rightarrow> None | Some c \<Rightarrow> node_at c ps)"
| "node_at n (Param # ps) =
     (case param_child n of None \<Rightarrow> None | Some (_, c) \<Rightarrow> node_at c ps)"

definition handler_at :: "'e router_node \<Rightarrow> pat list \<Rightarrow> string \<Rightarrow> 'e option" where
  "handler_at n ps m = (case node_at n ps of None \<Rightarrow> None | Some c \<Rightarrow> map_of (handlers c) m)"

text \<open>The pattern the matcher follows: at each node a static child before the parameter.\<close>

fun greedy :: "'e router_node \<Rightarrow> string list \<Rightarrow> pat list option" where
  "greedy n [] = Some []"
| "greedy n (s # ss) =
     (case map_of (children n) s of
        Some child \<Rightarrow> map_option ((#) (Static s)) (greedy child ss)
      | None \<Rightarrow>
          (case param_child n of
             Some (_, child) \<Rightarrow> map_option ((#) Param) (greedy child ss)
           | None \<Rightarrow> None))"

lemma router_node_new_sel [simp]:
  "children router_node_new = []" "param_child router_node_new = None" "handlers router_node_new = []"
  by (simp_all add: router_node_new_def)

lemma node_at_new [simp]: "node_at router_node_new ps = (if ps = [] then Some router_node_new else None)"
proof (cases ps)
  case (Cons p qs)
  then show ?thesis by (cases p) (simp_all add: router_node_new_def)
qed simp

lemma handler_at_new [simp]: "handler_at router_node_new ps m = None"
  by (simp add: handler_at_def)

lemma pat_of_eq [simp]:
  "pat_of s = Param \<longleftrightarrow> is_param_segment s" "Param = pat_of s \<longleftrightarrow> is_param_segment s"
  "pat_of s = Static t \<longleftrightarrow> \<not> is_param_segment s \<and> s = t"
  "Static t = pat_of s \<longleftrightarrow> \<not> is_param_segment s \<and> s = t"
  by (auto simp: pat_of_def)

lemma add_segments_Nil:
  "add_segments [] m e n = RouterNode (children n) (param_child n) (AList.update (to_uppercase m) e (handlers n))"
  by (cases n) simp

lemma add_segments_Cons:
  "add_segments (s # ss) m e n =
     (if is_param_segment s then
        (case (case param_child n of None \<Rightarrow> (param_name s, router_node_new) | Some q \<Rightarrow> q) of
           (name, child) \<Rightarrow> RouterNode (children n) (Some (name, add_segments ss m e child)) (handlers n))
      else
        RouterNode
          (AList.update s
             (add_segments ss m e
                (case map_of (children n) s of None \<Rightarrow> router_node_new | Some c \<Rightarrow> c)) (children n))
          (param_child n) (handlers n))"
  by (cases n) simp

lemma node_at_add_iff:
  "node_at (add_segments ss m e n) ps \<noteq> None \<longleftrightarrow> node_at n ps \<noteq> None \<or> prefix ps (map pat_of ss)"
proof (induction ss arbitrary: n ps)
  case Nil
  then show ?case
    by (cases "(n, ps)" rule: node_at.cases) (auto simp: add_segments_Nil)
next
  case (Cons s ss)
  then show ?case
    by (cases "(n, ps)" rule: node_at.cases)
       (auto simp: add_segments_Cons split: option.splits if_splits)
qed

lemma handler_at_add:
  "handler_at (add_segments ss m e n) ps m' =
     (if ps = map pat_of ss \<and> m' = to_uppercase m then Some e else handler_at n ps m')"
proof (induction ss arbitrary: n ps)
  case Nil
  then show ?case
    by (cases "(n, ps)" rule: node_at.cases) (auto simp: add_segments_Nil handler_at_def)
next
  case (Cons s ss)
  have new: "handler_at router_node_new qs m' = None" for qs
    by simp
  show ?case
    using Cons.IH new
    by (cases "(n, ps)" rule: node_at.cases)
       (auto simp: add_segments_Cons handler_at_def split: option.splits if_splits)
qed

text \<open>The parameter bindings met on the way, first to last; a later binding of a name wins.\<close>

fun greedy_binds :: "'e router_node \<Rightarrow> string list \<Rightarrow> (string \<times> string) list" where
  "greedy_binds n [] = []"
| "greedy_binds n (s # ss) =
     (case map_of (children n) s of
        Some child \<Rightarrow> greedy_binds child ss
      | None \<Rightarrow>
          (case param_child n of
             Some (name, child) \<Rightarrow> (name, s) # greedy_binds child ss
           | None \<Rightarrow> []))"

text \<open>The bindings a route's own declaration asks for.\<close>

definition decl_binds :: "string list \<Rightarrow> string list \<Rightarrow> (string \<times> string) list" where
  "decl_binds decl ss = map (\<lambda>(d, s). (param_name d, s)) (filter (\<lambda>(d, s). is_param_segment d) (zip decl ss))"

definition name_at :: "'e router_node \<Rightarrow> pat list \<Rightarrow> string option" where
  "name_at n ps = (case node_at n ps of None \<Rightarrow> None | Some c \<Rightarrow> map_option fst (param_child c))"

lemma match_segments_eq:
  "match_segments n ss params =
     (case greedy n ss of
        None \<Rightarrow> None
      | Some ps \<Rightarrow> map_option (\<lambda>c. (c, params ++ map_of (rev (greedy_binds n ss)))) (node_at n ps))"
proof (induction ss arbitrary: n params)
  case (Cons s ss)
  show ?case
  proof (cases "map_of (children n) s")
    case (Some c)
    then show ?thesis by (auto simp: Cons.IH split: option.splits)
  next
    case None
    then show ?thesis
      by (cases "param_child n") (auto simp: Cons.IH split: option.splits)
  qed
qed simp

lemma greedy_accepts: "greedy n ss = Some ps \<Longrightarrow> list_all2 pat_accepts ps ss"
  by (induction ss arbitrary: n ps) (auto split: option.splits)

lemma greedy_node_at: "greedy n ss = Some ps \<Longrightarrow> node_at n ps \<noteq> None"
  by (induction ss arbitrary: n ps) (auto split: option.splits)

lemma match_route_eq:
  "match_route root path m =
     (case greedy root (path_segments path) of
        None \<Rightarrow> None
      | Some ps \<Rightarrow>
          map_option (\<lambda>e. (e, map_of (rev (greedy_binds root (path_segments path)))))
            (handler_at root ps (to_uppercase m)))"
  by (auto simp: match_route_def match_segments_eq handler_at_def split: option.splits)

lemma allowed_segments_eq:
  "allowed_segments n ss =
     (case greedy n ss of
        None \<Rightarrow> []
      | Some ps \<Rightarrow> (case node_at n ps of None \<Rightarrow> [] | Some c \<Rightarrow> map fst (handlers c)))"
  by (induction ss arbitrary: n) (auto split: option.splits)

subsection \<open>The router built from a list of registrations\<close>

definition route_pats :: "string \<Rightarrow> pat list" where
  "route_pats path = map pat_of (path_segments path)"

definition route_table :: "(string \<times> string \<times> 'e) list \<Rightarrow> pat list \<times> string \<rightharpoonup> 'e" where
  "route_table routes =
     map_of (rev (map (\<lambda>(path, m, e). ((route_pats path, to_uppercase m), e)) routes))"

text \<open>The route's pattern accepts the concrete path, segment by segment.\<close>

definition route_accepts :: "string \<Rightarrow> string \<Rightarrow> bool" where
  "route_accepts decl path \<longleftrightarrow> list_all2 pat_accepts (route_pats decl) (path_segments path)"

text \<open>Two routes name the parameters they share at the same place alike.\<close>

definition consistent_names :: "(string \<times> string \<times> 'e) list \<Rightarrow> bool" where
  "consistent_names routes \<longleftrightarrow>
     (\<forall>(p, _) \<in> set routes. \<forall>(q, _) \<in> set routes. \<forall>k < length (path_segments p).
        k < length (path_segments q) \<and> take (Suc k) (route_pats p) = take (Suc k) (route_pats q) \<and>
        is_param_segment (path_segments p ! k) \<longrightarrow>
        param_name (path_segments p ! k) = param_name (path_segments q ! k))"

lemma build_router_snoc:
  "build_router (routes @ [(p, m, e)]) = add_segments (path_segments p) m e (build_router routes)"
  by (simp add: build_router_def add_route_def)

lemma build_router_Nil [simp]: "build_router [] = router_node_new"
  by (simp add: build_router_def)

lemma handler_at_build: "handler_at (build_router routes) ps m = route_table routes (ps, m)"
proof (induction routes rule: rev_induct)
  case Nil
  then show ?case by (simp add: route_table_def)
next
  case (snoc r routes)
  then show ?case
    by (cases r) (auto simp: build_router_snoc handler_at_add route_table_def route_pats_def)
qed

lemma node_at_build:
  "node_at (build_router routes) ps \<noteq> None \<longleftrightarrow> ps = [] \<or> (\<exists>(p, _) \<in> set routes. prefix ps (route_pats p))"
proof (induction routes rule: rev_induct)
  case Nil
  then show ?case by simp
next
  case (snoc r routes)
  then show ?case
    by (cases r) (auto simp: build_router_snoc node_at_add_iff route_pats_def simp del: not_None_eq)
qed

lemma name_at_add:
  "name_at (add_segments ss m e n) ps =
     (case name_at n ps of
        Some x \<Rightarrow> Some x
      | None \<Rightarrow>
          (if length ps < length ss \<and> map pat_of (take (length ps) ss) = ps \<and> is_param_segment (ss ! length ps)
           then Some (param_name (ss ! length ps)) else None))"
proof (induction ss arbitrary: n ps)
  case Nil
  then show ?case
    by (cases "(n, ps)" rule: node_at.cases)
       (auto simp: add_segments_Nil name_at_def split: option.splits)
next
  case (Cons s ss)
  show ?case
  proof (cases ps)
    case Nil
    then show ?thesis
      by (auto simp: add_segments_Cons name_at_def split: option.splits)
  next
    case (Cons q qs)
    then show ?thesis
      using Cons.IH
      by (cases q)
         (auto simp: add_segments_Cons name_at_def split: option.splits if_splits)
  qed
qed

lemma name_at_build_origin:
  "name_at (build_router routes) ps = Some x \<Longrightarrow>
   \<exists>(p, _) \<in> set routes. length ps < length (path_segments p) \<and> take (length ps) (route_pats p) = ps \<and>
     is_param_segment (path_segments p ! length ps) \<and> x = param_name (path_segments p ! length ps)"
proof (induction routes rule: rev_induct)
  case Nil
  then show ?case by (simp add: name_at_def split: if_splits)
next
  case (snoc r routes)
  then show ?case
    by (cases r)
       (auto simp: build_router_snoc name_at_add route_pats_def take_map split: option.splits if_splits)
qed

lemma name_at_build_present:
  "(p, r) \<in> set routes \<Longrightarrow> k < length (path_segments p) \<Longrightarrow> is_param_segment (path_segments p ! k) \<Longrightarrow>
   name_at (build_router routes) (take k (route_pats p)) \<noteq> None"
proof (induction routes rule: rev_induct)
  case Nil
  then show ?case by simp
next
  case (snoc x routes)
  then show ?case
    by (cases x)
       (auto simp: build_router_snoc name_at_add route_pats_def take_map min_def split: option.splits)
qed

subsection \<open>What a match is\<close>

lemma allowed_iff_match:
  "u \<in> set (allowed_segments root ss) \<longleftrightarrow>
     (\<exists>ps. greedy root ss = Some ps \<and> handler_at root ps u \<noteq> None)"
proof (cases "greedy root ss")
  case (Some ps)
  then show ?thesis
    by (cases "node_at root ps") (simp_all add: allowed_segments_eq handler_at_def map_of_Some_keys)
qed (simp add: allowed_segments_eq)

lemma greedy_follows:
  assumes "list_all2 pat_accepts ps ss" and "node_at n ps \<noteq> None"
    and "\<And>k. k < length ss \<Longrightarrow> ps ! k = Param \<Longrightarrow> node_at n (take k ps @ [Static (ss ! k)]) = None"
  shows "greedy n ss = Some ps"
  using assms
proof (induction ps ss arbitrary: n rule: list_all2_induct)
  case Nil
  then show ?case by simp
next
  case (Cons p ps s ss)
  show ?case
  proof (cases p)
    case (Static t)
    with Cons.hyps Cons.prems(1) obtain c where c: "map_of (children n) s = Some c" "node_at c ps \<noteq> None"
      by (auto split: option.splits)
    have "greedy c ss = Some ps"
    proof (rule Cons.IH [OF c(2)])
      fix k assume "k < length ss" "ps ! k = Param"
      with Cons.prems(2) [of "Suc k"] c Static Cons.hyps
      show "node_at c (take k ps @ [Static (ss ! k)]) = None" by simp
    qed
    with c Static Cons.hyps show ?thesis by simp
  next
    case Param
    with Cons.prems(1) obtain x c where c: "param_child n = Some (x, c)" "node_at c ps \<noteq> None"
      by (auto split: option.splits)
    from Cons.prems(2) [of 0] Param have none: "map_of (children n) s = None"
      by (auto split: option.splits)
    have "greedy c ss = Some ps"
    proof (rule Cons.IH [OF c(2)])
      fix k assume "k < length ss" "ps ! k = Param"
      with Cons.prems(2) [of "Suc k"] c Param
      show "node_at c (take k ps @ [Static (ss ! k)]) = None" by simp
    qed
    with c Param none show ?thesis by simp
  qed
qed

lemma greedy_binds_decl:
  "greedy n ss = Some (map pat_of ds) \<Longrightarrow>
   (\<And>k. k < length ds \<Longrightarrow> is_param_segment (ds ! k) \<Longrightarrow>
        name_at n (map pat_of (take k ds)) = Some (param_name (ds ! k))) \<Longrightarrow>
   greedy_binds n ss = decl_binds ds ss"
proof (induction ss arbitrary: n ds)
  case Nil
  then show ?case by (simp add: decl_binds_def)
next
  case (Cons s ss)
  then obtain d es where ds: "ds = d # es"
    by (cases ds) (auto split: option.splits)
  have names: "name_at n (map pat_of (take k ds)) = Some (param_name (ds ! k))"
    if "k < length ds" "is_param_segment (ds ! k)" for k
    using Cons.prems(2) that by blast
  show ?case
  proof (cases "map_of (children n) s")
    case (Some c)
    with Cons.prems(1) ds have g: "greedy c ss = Some (map pat_of es)" and d: "\<not> is_param_segment d" "d = s"
      by auto
    have "greedy_binds c ss = decl_binds es ss"
    proof (rule Cons.IH [OF g])
      fix k assume "k < length es" "is_param_segment (es ! k)"
      with names [of "Suc k"] ds d Some show "name_at c (map pat_of (take k es)) = Some (param_name (es ! k))"
        by (simp add: name_at_def pat_of_def)
    qed
    with Some d ds show ?thesis by (simp add: decl_binds_def)
  next
    case None
    with Cons.prems(1) ds obtain x c where c: "param_child n = Some (x, c)"
      and g: "greedy c ss = Some (map pat_of es)" and d: "is_param_segment d"
      by (auto split: option.splits)
    have x: "x = param_name d"
      using names [of 0] ds d c by (simp add: name_at_def)
    have "greedy_binds c ss = decl_binds es ss"
    proof (rule Cons.IH [OF g])
      fix k assume "k < length es" "is_param_segment (es ! k)"
      with names [of "Suc k"] ds d c show "name_at c (map pat_of (take k es)) = Some (param_name (es ! k))"
        by (simp add: name_at_def pat_of_def)
    qed
    with None c d ds x show ?thesis by (simp add: decl_binds_def)
  qed
qed

lemma greedy_build:
  assumes "route_accepts decl path" and "(decl, r) \<in> set routes"
    and "\<forall>(q, _) \<in> set routes. \<forall>k < length (path_segments path).
           is_param_segment (path_segments decl ! k) \<longrightarrow>
           \<not> prefix (take k (route_pats decl) @ [Static (path_segments path ! k)]) (route_pats q)"
  shows "greedy (build_router routes) (path_segments path) = Some (route_pats decl)"
proof (rule greedy_follows)
  show "list_all2 pat_accepts (route_pats decl) (path_segments path)"
    using assms(1) by (simp add: route_accepts_def)
  then have len: "length (path_segments decl) = length (path_segments path)"
    by (auto simp: route_pats_def dest: list_all2_lengthD)
  show "node_at (build_router routes) (route_pats decl) \<noteq> None"
    using assms(2) by (auto simp: node_at_build simp del: not_None_eq)
  fix k assume k: "k < length (path_segments path)" "route_pats decl ! k = Param"
  then have "is_param_segment (path_segments decl ! k)"
    using len by (simp add: route_pats_def)
  with assms(3) k have "\<not> (\<exists>(q, _) \<in> set routes.
      prefix (take k (route_pats decl) @ [Static (path_segments path ! k)]) (route_pats q))"
    by blast
  then show "node_at (build_router routes) (take k (route_pats decl) @ [Static (path_segments path ! k)]) = None"
    using node_at_build [of routes "take k (route_pats decl) @ [Static (path_segments path ! k)]"] by auto
qed

lemma name_at_build:
  assumes "consistent_names routes" "(decl, r) \<in> set routes"
    and "k < length (path_segments decl)" "is_param_segment (path_segments decl ! k)"
  shows "name_at (build_router routes) (take k (route_pats decl)) = Some (param_name (path_segments decl ! k))"
proof -
  from name_at_build_present [OF assms(2-4)] obtain x
    where x: "name_at (build_router routes) (take k (route_pats decl)) = Some x" by blast
  have min: "min (length (path_segments decl)) k = k" using assms(3) by simp
  from name_at_build_origin [OF x] obtain q r' where q: "(q, r') \<in> set routes" "k < length (path_segments q)"
    "take k (route_pats q) = take k (route_pats decl)" "is_param_segment (path_segments q ! k)"
    "x = param_name (path_segments q ! k)"
    by (auto simp: route_pats_def min)
  have "take (Suc k) (route_pats decl) = take (Suc k) (route_pats q)"
    using q assms(3,4) by (simp add: take_Suc_conv_app_nth route_pats_def pat_of_def)
  with assms q have "param_name (path_segments decl ! k) = x"
    unfolding consistent_names_def by fast
  with x show ?thesis by simp
qed

lemma route_table_Some:
  "route_table routes (ps, u) = Some e \<Longrightarrow>
   \<exists>decl m. (decl, m, e) \<in> set routes \<and> route_pats decl = ps \<and> to_uppercase m = u"
  by (fastforce simp: route_table_def dest!: map_of_SomeD)

lemma allowed_methods_registered:
  assumes "u \<in> set (get_allowed_methods (build_router routes) path)"
  shows "\<exists>decl m e. (decl, m, e) \<in> set routes \<and> to_uppercase m = u"
proof -
  obtain ps e where "route_table routes (ps, u) = Some e"
    using assms by (auto simp: get_allowed_methods_def allowed_iff_match handler_at_build)
  from route_table_Some [OF this] show ?thesis by blast
qed

text \<open>Facts that evaluate patterns of literal paths.\<close>

lemmas router_eval = route_pats_def path_segments_def is_param_segment_def pat_of_def
  All_less_Suc suffix_to_prefix param_name_def

subsection \<open>Properties\<close>

text \<open>
  C18. The trie implements a map: after registering any list of routes, the entry stored under
  a pattern (parameters unnamed) and an upper-case method is the one registered last for that
  pattern and method, and nothing else is stored.
\<close>

theorem build_router_refines_table:
  "handler_at (build_router routes) ps m = route_table routes (ps, m)"
  by (rule handler_at_build)

text \<open>
  C19. Soundness of dispatch: whatever \<open>match_route\<close> returns was registered, for a method equal
  up to case and for a route whose segments accept the path's segments one by one.
\<close>

theorem match_route_sound:
  assumes "match_route (build_router routes) path m = Some (e, params)"
  shows "\<exists>decl m'. (decl, m', e) \<in> set routes \<and> to_uppercase m' = to_uppercase m \<and> route_accepts decl path"
proof -
  from assms obtain ps where g: "greedy (build_router routes) (path_segments path) = Some ps"
    and h: "handler_at (build_router routes) ps (to_uppercase m) = Some e"
    by (auto simp: match_route_eq split: option.splits)
  from h obtain decl m' where "(decl, m', e) \<in> set routes" "route_pats decl = ps" "to_uppercase m' = to_uppercase m"
    by (auto simp: handler_at_build dest: route_table_Some)
  with greedy_accepts [OF g] show ?thesis by (auto simp: route_accepts_def)
qed

theorem match_route_sound_witness:
  "\<exists>decl m'. (decl, m', 7::nat) \<in> set [(''/a/{x}'', ''get'', 7)] \<and> to_uppercase m' = to_uppercase ''GET''
     \<and> route_accepts decl ''/a/b''"
proof -
  have "map_option fst (match_route (build_router [(''/a/{x}'', ''get'', 7::nat)]) ''/a/b'' ''GET'') = Some 7"
    by code_simp
  then obtain params where
    "match_route (build_router [(''/a/{x}'', ''get'', 7::nat)]) ''/a/b'' ''GET'' = Some (7, params)"
    by auto
  from match_route_sound [OF this] show ?thesis .
qed

lemma dispatch_complete:
  assumes "(decl, m', e) \<in> set routes"
    and "route_table routes (route_pats decl, to_uppercase m) = Some e"
    and "route_accepts decl path" and "consistent_names routes"
    and "\<forall>(q, _) \<in> set routes. \<forall>k < length (path_segments path).
           is_param_segment (path_segments decl ! k) \<longrightarrow>
           \<not> prefix (take k (route_pats decl) @ [Static (path_segments path ! k)]) (route_pats q)"
  shows "match_route (build_router routes) path m =
           Some (e, map_of (rev (decl_binds (path_segments decl) (path_segments path))))"
proof -
  have g: "greedy (build_router routes) (path_segments path) = Some (route_pats decl)"
    using assms(3,1,5) by (rule greedy_build)
  moreover have "greedy_binds (build_router routes) (path_segments path) =
      decl_binds (path_segments decl) (path_segments path)"
  proof (rule greedy_binds_decl)
    show "greedy (build_router routes) (path_segments path) = Some (map pat_of (path_segments decl))"
      using g by (simp add: route_pats_def)
  qed (use name_at_build [OF assms(4,1)] in \<open>simp add: route_pats_def take_map\<close>)
  ultimately show ?thesis
    using assms(2) by (simp add: match_route_eq handler_at_build)
qed

text \<open>
  C20. Completeness of dispatch, with the parameters a handler sees: a registered route that
  accepts the path is the one dispatched to, and its own parameter names are bound to the
  path's segments, provided no registered literal segment shadows one of its parameters on this
  path and routes sharing a parameter position agree on its name.
\<close>

theorem match_route_complete:
  assumes "(decl, m', e) \<in> set routes"
    and "route_table routes (route_pats decl, to_uppercase m) = Some e"
    and "route_accepts decl path" and "consistent_names routes"
    and "\<forall>(q, _) \<in> set routes. \<forall>k < length (path_segments path).
           is_param_segment (path_segments decl ! k) \<longrightarrow>
           \<not> prefix (take k (route_pats decl) @ [Static (path_segments path ! k)]) (route_pats q)"
  shows "match_route (build_router routes) path m =
           Some (e, map_of (rev (decl_binds (path_segments decl) (path_segments path))))"
  using assms by (rule dispatch_complete)

theorem match_route_complete_witness:
  "match_route (build_router [(''/u/{id}'', ''GET'', 1), (''/u/{id}/p'', ''GET'', 2::nat)]) ''/u/7/p'' ''get'' =
     Some (2, map_of (rev (decl_binds (path_segments ''/u/{id}/p'') (path_segments ''/u/7/p''))))"
proof (rule match_route_complete)
  show "(''/u/{id}/p'', ''GET'', 2::nat) \<in> set [(''/u/{id}'', ''GET'', 1), (''/u/{id}/p'', ''GET'', 2)]" by simp
  show "route_table [(''/u/{id}'', ''GET'', 1), (''/u/{id}/p'', ''GET'', 2)]
      (route_pats ''/u/{id}/p'', to_uppercase ''get'') = Some (2::nat)" by code_simp
  show "route_accepts ''/u/{id}/p'' ''/u/7/p''" by code_simp
  show "consistent_names [(''/u/{id}'', ''GET'', 1), (''/u/{id}/p'', ''GET'', 2::nat)]"
    by (simp add: consistent_names_def router_eval)
  show "\<forall>(q, _) \<in> set [(''/u/{id}'', ''GET'', 1), (''/u/{id}/p'', ''GET'', 2::nat)].
      \<forall>k < length (path_segments ''/u/7/p''). is_param_segment (path_segments ''/u/{id}/p'' ! k) \<longrightarrow>
        \<not> prefix (take k (route_pats ''/u/{id}/p'') @ [Static (path_segments ''/u/7/p'' ! k)]) (route_pats q)"
    by (simp add: router_eval)
qed

text \<open>
  The methods offered in a 405 are exactly the ones that would match: a method, upper-cased,
  is among the allowed methods of a path if and only if \<open>match_route\<close> finds an entry for it.
\<close>

theorem allowed_methods_exact:
  "to_uppercase m \<in> set (get_allowed_methods root path) \<longleftrightarrow> match_route root path m \<noteq> None"
  by (auto simp: get_allowed_methods_def allowed_iff_match match_route_eq split: option.splits)

text \<open>
  What the greedy descent does to overlapping routes. With \<open>/u/me\<close> and \<open>/u/{id}/p\<close>
  registered, the path \<open>/u/me/p\<close> is not found although the second route accepts it, since the
  matcher never goes back to the parameter; and with \<open>/u/{id}\<close> registered before
  \<open>/u/{uid}/p\<close> the second route's handler gets its segment under the first route's name and
  nothing under its own.
\<close>

theorem router_shadowing:
  "route_accepts ''/u/{id}/p'' ''/u/me/p'' \<and>
   match_route (build_router [(''/u/me'', ''GET'', 1), (''/u/{id}/p'', ''GET'', 2::nat)]) ''/u/me/p'' ''GET'' = None \<and>
   map_option (\<lambda>(e, params). (e, params ''uid'', params ''id''))
     (match_route (build_router [(''/u/{id}'', ''GET'', 1), (''/u/{uid}/p'', ''GET'', 2::nat)]) ''/u/7/p'' ''GET'')
     = Some (2, None, Some ''7'')"
proof (intro conjI)
  show "route_accepts ''/u/{id}/p'' ''/u/me/p''" by code_simp
  have "map_option fst (match_route (build_router [(''/u/me'', ''GET'', 1), (''/u/{id}/p'', ''GET'', 2::nat)])
      ''/u/me/p'' ''GET'') = None" by code_simp
  then show "match_route (build_router [(''/u/me'', ''GET'', 1), (''/u/{id}/p'', ''GET'', 2::nat)]) ''/u/me/p'' ''GET'' = None"
    by simp
qed code_simp

end
