(* ===== verification/Readiness.thy ===== *)
theory Readiness
  imports Prelude "HOL-Library.Multiset"
begin

text \<open>
  The runtime readiness gates of \<^verbatim>\<open>crates/flatbed/src/readiness.rs\<close>. The registry is a list of
  gates behind a mutex and a machine-word count of the gates that are not ready. The
  operations are first given as they run alone; then \<open>rd_step\<close> splits them at their atomic
  accesses, so that any number of threads interleave.
\<close>

subsection \<open>State and operations\<close>

record gate_state =
  g_name :: string
  g_ready :: bool

record readiness =
  gates :: "gate_state list"
  blocking :: "64 word"

definition readiness_new :: readiness where
  "readiness_new = \<lparr>gates = [], blocking = 0\<rparr>"

text \<open>The two atomic parts of \<open>gate\<close>: the count first, then the registration under the lock.\<close>

definition count_gate :: "readiness \<Rightarrow> readiness" where
  "count_gate r = r\<lparr>blocking := blocking r + 1\<rparr>"

definition push_gate :: "string \<Rightarrow> readiness \<Rightarrow> readiness" where
  "push_gate name r = r\<lparr>gates := gates r @ [\<lparr>g_name = name, g_ready = False\<rparr>]\<rparr>"

text \<open>A handle is the position of its gate in the registry.\<close>

definition gate :: "string \<Rightarrow> readiness \<Rightarrow> nat \<times> readiness" where
  "gate name r = (length (gates r), push_gate name (count_gate r))"

text \<open>The two atomic parts of \<open>set_ready\<close>: the swap of the flag and the change of the count.\<close>

definition swap_ready :: "nat \<Rightarrow> bool \<Rightarrow> readiness \<Rightarrow> bool \<times> readiness" where
  "swap_ready i b r = (g_ready (gates r ! i), r\<lparr>gates := (gates r)[i := (gates r ! i)\<lparr>g_ready := b\<rparr>]\<rparr>)"

definition adjust :: "bool \<Rightarrow> readiness \<Rightarrow> readiness" where
  "adjust b r = r\<lparr>blocking := (if b then blocking r - 1 else blocking r + 1)\<rparr>"

definition set_ready :: "nat \<Rightarrow> bool \<Rightarrow> readiness \<Rightarrow> readiness" where
  "set_ready i b r =
     (case swap_ready i b r of (old, r') \<Rightarrow> if old = b then r' else adjust b r')"

definition is_ready :: "readiness \<Rightarrow> bool" where
  "is_ready r \<longleftrightarrow> blocking r = 0"

definition blocked_on :: "readiness \<Rightarrow> string list" where
  "blocked_on r = map g_name (filter (\<lambda>g. \<not> g_ready g) (gates r))"

definition gate_is_ready :: "nat \<Rightarrow> readiness \<Rightarrow> bool" where
  "gate_is_ready i r = g_ready (gates r ! i)"

subsection \<open>Threads\<close>

text \<open>
  What a thread still has to do after its first atomic access: register the gate it has
  counted, or apply the change of the count that its swap calls for.
\<close>

datatype pending = PPush string | PAdjust bool

record rd_sys =
  reg :: readiness
  pend :: "pending multiset"

inductive rd_step :: "rd_sys \<Rightarrow> rd_sys \<Rightarrow> bool" where
  count: "rd_step s (s\<lparr>reg := count_gate (reg s), pend := add_mset (PPush name) (pend s)\<rparr>)"
| push: "PPush name \<in># pend s \<Longrightarrow>
     rd_step s (s\<lparr>reg := push_gate name (reg s), pend := pend s - {#PPush name#}\<rparr>)"
| swap_same: "i < length (gates (reg s)) \<Longrightarrow> swap_ready i b (reg s) = (b, r) \<Longrightarrow>
     rd_step s (s\<lparr>reg := r\<rparr>)"
| swap_new: "i < length (gates (reg s)) \<Longrightarrow> swap_ready i b (reg s) = (\<not> b, r) \<Longrightarrow>
     rd_step s (s\<lparr>reg := r, pend := add_mset (PAdjust b) (pend s)\<rparr>)"
| adjust: "PAdjust b \<in># pend s \<Longrightarrow>
     rd_step s (s\<lparr>reg := adjust b (reg s), pend := pend s - {#PAdjust b#}\<rparr>)"

inductive rd_reachable :: "rd_sys \<Rightarrow> bool" where
  init: "rd_reachable \<lparr>reg = readiness_new, pend = {#}\<rparr>"
| step: "rd_reachable s \<Longrightarrow> rd_step s t \<Longrightarrow> rd_reachable t"

subsection \<open>The count\<close>

text \<open>The gates whose flag is down.\<close>

definition down :: "gate_state list \<Rightarrow> nat" where
  "down gs = length (filter (\<lambda>g. \<not> g_ready g) gs)"

lemma down_simps [simp]:
  "down [] = 0" "down (gs @ hs) = down gs + down hs"
  "down (g # gs) = (if g_ready g then down gs else Suc (down gs))"
  by (simp_all add: down_def)

lemma down_le: "down gs \<le> length gs"
  by (simp add: down_def)

lemma down_0: "down gs = 0 \<longleftrightarrow> (\<forall>g \<in> set gs. g_ready g)"
  by (simp add: down_def filter_empty_conv)

lemma down_update:
  assumes "i < length gs"
  shows "down (gs[i := g]) + (if g_ready (gs ! i) then 0 else 1) = down gs + (if g_ready g then 0 else 1)"
proof -
  have "down gs = down (take i gs @ gs ! i # drop (Suc i) gs)"
    using id_take_nth_drop [OF assms] by simp
  then show ?thesis by (simp add: upd_conv_take_nth_drop [OF assms])
qed

definition is_push :: "pending \<Rightarrow> bool" where
  "is_push p \<longleftrightarrow> (case p of PPush _ \<Rightarrow> True | _ \<Rightarrow> False)"

lemma is_push_simps [simp]: "is_push (PPush n)" "\<not> is_push (PAdjust b)"
  by (simp_all add: is_push_def)

text \<open>
  In every reachable state the count is the gates that are down, plus those counted and not
  yet registered, plus the raises whose decrement is still to come, less the drops whose
  increment is; all in the machine's modular arithmetic.
\<close>

definition count_inv :: "rd_sys \<Rightarrow> bool" where
  "count_inv s \<longleftrightarrow>
     blocking (reg s) + of_nat (count (pend s) (PAdjust False)) =
       of_nat (down (gates (reg s)) + size (filter_mset is_push (pend s)) + count (pend s) (PAdjust True))"

lemma count_inv_step:
  assumes "rd_step s t" "count_inv s"
  shows "count_inv t"
  using assms
proof (cases rule: rd_step.cases)
  case (push name)
  then obtain m where "pend s = add_mset (PPush name) m" by (metis insert_DiffM)
  with push assms(2) show ?thesis by (simp add: count_inv_def push_gate_def algebra_simps)
next
  case (swap_same i b r)
  then show ?thesis
    using assms(2) down_update [of i "gates (reg s)" "(gates (reg s) ! i)\<lparr>g_ready := b\<rparr>"]
    by (auto simp: count_inv_def swap_ready_def split: if_splits)
next
  case (swap_new i b r)
  then show ?thesis
    using assms(2) arg_cong [OF down_update [of i "gates (reg s)" "(gates (reg s) ! i)\<lparr>g_ready := b\<rparr>"],
        of "of_nat :: nat \<Rightarrow> 64 word"]
    by (cases b) (auto simp: count_inv_def swap_ready_def algebra_simps)
next
  case (adjust b)
  then obtain m where "pend s = add_mset (PAdjust b) m" by (metis insert_DiffM)
  with adjust assms(2) show ?thesis
    by (cases b) (simp_all add: count_inv_def adjust_def algebra_simps)
qed (simp add: count_inv_def count_gate_def algebra_simps)

lemma count_inv_reachable: "rd_reachable s \<Longrightarrow> count_inv s"
proof (induction rule: rd_reachable.induct)
  case init
  show ?case by (simp add: count_inv_def readiness_new_def)
next
  case (step s t)
  then show ?case using count_inv_step by blast
qed

lemma of_nat_word_eq_0: "n < 2 ^ 64 \<Longrightarrow> (of_nat n :: 64 word) = 0 \<longleftrightarrow> n = 0"
  by (simp add: word_of_nat_eq_0_iff) (use nat_dvd_not_less in blast)

subsection \<open>Alone: the gate's contract\<close>

text \<open>
  What the owner of a dependency relies on: setting its gate shows in the gate, leaves the
  others as they were, and the probe answers for all of them together.
\<close>

locale gate_handle =
  fixes ok :: "'s \<Rightarrow> bool" and set :: "bool \<Rightarrow> 's \<Rightarrow> 's" and up :: "'s \<Rightarrow> bool"
    and others_up :: "'s \<Rightarrow> bool" and probe :: "'s \<Rightarrow> bool"
  assumes ok_set: "ok s \<Longrightarrow> ok (set b s)"
    and up_set: "ok s \<Longrightarrow> up (set b s) \<longleftrightarrow> b"
    and others_set: "ok s \<Longrightarrow> others_up (set b s) \<longleftrightarrow> others_up s"
    and probe_iff: "ok s \<Longrightarrow> probe s \<longleftrightarrow> up s \<and> others_up s"
begin

lemma ok_fold: "ok s \<Longrightarrow> ok (fold set bs s)"
  by (induction bs arbitrary: s) (simp_all add: ok_set)

lemma others_fold: "ok s \<Longrightarrow> others_up (fold set bs s) \<longleftrightarrow> others_up s"
  by (induction bs arbitrary: s) (simp_all add: ok_set others_set)

lemma up_fold: "ok s \<Longrightarrow> up (fold set bs s) \<longleftrightarrow> (if bs = [] then up s else last bs)"
  by (induction bs arbitrary: s) (simp_all add: ok_set up_set)

text \<open>After any number of settings the probe is up when the last one was up and the others are.\<close>

lemma probe_fold:
  "ok s \<Longrightarrow> probe (fold set bs s) \<longleftrightarrow> (if bs = [] then up s else last bs) \<and> others_up s"
  by (simp add: probe_iff ok_fold up_fold others_fold)

end

definition settled :: "readiness \<Rightarrow> bool" where
  "settled r \<longleftrightarrow> length (gates r) < 2 ^ 64 \<and> blocking r = of_nat (down (gates r))"

definition others_ready :: "nat \<Rightarrow> readiness \<Rightarrow> bool" where
  "others_ready i r \<longleftrightarrow> (\<forall>j < length (gates r). j \<noteq> i \<longrightarrow> gate_is_ready j r)"

lemma is_ready_settled: "settled r \<Longrightarrow> is_ready r \<longleftrightarrow> (\<forall>g \<in> set (gates r). g_ready g)"
  using down_le [of "gates r"]
  by (simp add: settled_def is_ready_def of_nat_word_eq_0 flip: down_0)

lemma blocked_on_Nil: "blocked_on r = [] \<longleftrightarrow> (\<forall>g \<in> set (gates r). g_ready g)"
  by (auto simp: blocked_on_def filter_empty_conv)

lemma gates_set_ready:
  "i < length (gates r) \<Longrightarrow> gates (set_ready i b r) = (gates r)[i := (gates r ! i)\<lparr>g_ready := b\<rparr>]"
  by (simp add: set_ready_def swap_ready_def adjust_def)

lemma settled_set_ready:
  assumes "settled r" "i < length (gates r)"
  shows "settled (set_ready i b r)"
  using assms arg_cong [OF down_update [of i "gates r" "(gates r ! i)\<lparr>g_ready := b\<rparr>"], of "of_nat :: nat \<Rightarrow> 64 word"]
  by (auto simp: settled_def set_ready_def swap_ready_def adjust_def algebra_simps split: if_splits)

lemma settled_gate:
  assumes "settled r" "Suc (length (gates r)) < 2 ^ 64"
  shows "settled (snd (gate name r))"
  using assms by (simp add: settled_def gate_def push_gate_def count_gate_def algebra_simps)

interpretation gate: gate_handle
  "\<lambda>r. settled r \<and> i < length (gates r)" "set_ready i" "gate_is_ready i" "others_ready i" is_ready
  for i
proof
  fix r b
  assume ok: "settled r \<and> i < length (gates r)"
  show "settled (set_ready i b r) \<and> i < length (gates (set_ready i b r))"
    using ok by (simp add: settled_set_ready gates_set_ready)
  show "gate_is_ready i (set_ready i b r) \<longleftrightarrow> b"
    using ok by (simp add: gate_is_ready_def gates_set_ready)
  show "others_ready i (set_ready i b r) \<longleftrightarrow> others_ready i r"
    using ok by (simp add: others_ready_def gate_is_ready_def gates_set_ready)
  show "is_ready r \<longleftrightarrow> gate_is_ready i r \<and> others_ready i r"
    using ok unfolding is_ready_settled [OF conjunct1 [OF ok]]
    by (auto simp: all_set_conv_all_nth others_ready_def gate_is_ready_def)
qed

subsection \<open>Properties\<close>

text \<open>
  C10. The probe and its explanation agree: whenever no thread is half way through registering
  or setting a gate, whatever threads did before in whatever order, the server is ready
  exactly when no gate is reported as holding it down.
\<close>

theorem probe_agrees_when_quiet:
  assumes "rd_reachable s" "pend s = {#}" "length (gates (reg s)) < 2 ^ 64"
  shows "is_ready (reg s) \<longleftrightarrow> blocked_on (reg s) = []"
proof -
  have "settled (reg s)"
    using count_inv_reachable [OF assms(1)] assms(2,3) by (simp add: count_inv_def settled_def)
  then show ?thesis by (simp add: is_ready_settled blocked_on_Nil)
qed

lemma rd_reachable_step2:
  "rd_reachable s \<Longrightarrow> rd_step s t \<Longrightarrow> rd_step t u \<Longrightarrow> rd_reachable u"
  by (blast intro: rd_reachable.step)

text \<open>One gate registered by one thread, then raised by another that has not yet counted down.\<close>

lemma demo_gate_reachable:
  "rd_reachable \<lparr>reg = \<lparr>gates = [\<lparr>g_name = ''db'', g_ready = False\<rparr>], blocking = 1\<rparr>, pend = {#}\<rparr>"
proof (rule rd_reachable_step2 [OF rd_reachable.init])
  show "rd_step \<lparr>reg = readiness_new, pend = {#}\<rparr>
     \<lparr>reg = count_gate readiness_new, pend = {#PPush ''db''#}\<rparr>"
    using rd_step.count [of "\<lparr>reg = readiness_new, pend = {#}\<rparr>" "''db''"] by simp
  show "rd_step \<lparr>reg = count_gate readiness_new, pend = {#PPush ''db''#}\<rparr>
     \<lparr>reg = \<lparr>gates = [\<lparr>g_name = ''db'', g_ready = False\<rparr>], blocking = 1\<rparr>, pend = {#}\<rparr>"
    using rd_step.push [of "''db''" "\<lparr>reg = count_gate readiness_new, pend = {#PPush ''db''#}\<rparr>"]
    by (simp add: count_gate_def push_gate_def readiness_new_def)
qed

theorem probe_agrees_when_quiet_witness:
  "\<not> is_ready \<lparr>gates = [\<lparr>g_name = ''db'', g_ready = False\<rparr>], blocking = 1\<rparr>"
  using probe_agrees_when_quiet [OF demo_gate_reachable] by (simp add: blocked_on_def)

text \<open>
  C11. The probe is never early: unless some thread is inside \<open>set_ready(false)\<close> between its swap
  and its increment, a ready answer means that every registered gate is up, that no counted
  gate is still to be registered and that every raise has been counted. The count, taken
  modulo the machine word, never wraps to zero.
\<close>

theorem probe_never_early:
  assumes "rd_reachable s" "PAdjust False \<notin># pend s"
    and "length (gates (reg s)) + size (pend s) < 2 ^ 64" "is_ready (reg s)"
  shows "(\<forall>g \<in> set (gates (reg s)). g_ready g) \<and> pend s = {#}"
proof -
  let ?n = "down (gates (reg s)) + size (filter_mset is_push (pend s)) + count (pend s) (PAdjust True)"
  have part: "size (pend s) = size (filter_mset is_push (pend s)) + count (pend s) (PAdjust True)"
    using assms(2)
  proof (induction "pend s" arbitrary: s)
    case (add p m)
    from add(1) [of "s\<lparr>pend := m\<rparr>"] add(2,3) show ?case
      by (cases p) (auto simp flip: add(2))
  qed (metis add_0 count_empty filter_empty_mset size_empty)
  then have "?n < 2 ^ 64" using assms(3) down_le [of "gates (reg s)"] by simp
  moreover have "(of_nat ?n :: 64 word) = 0"
    using count_inv_reachable [OF assms(1)] assms(2,4)
    by (simp add: count_inv_def is_ready_def not_in_iff)
  ultimately have "?n = 0" using of_nat_word_eq_0 by blast
  then have "size (pend s) = 0" "down (gates (reg s)) = 0" using part by simp_all
  then show ?thesis by (simp add: down_0)
qed

lemma demo_up_reachable:
  "rd_reachable \<lparr>reg = \<lparr>gates = [\<lparr>g_name = ''db'', g_ready = True\<rparr>], blocking = 0\<rparr>, pend = {#}\<rparr>"
proof (rule rd_reachable_step2 [OF demo_gate_reachable])
  show "rd_step \<lparr>reg = \<lparr>gates = [\<lparr>g_name = ''db'', g_ready = False\<rparr>], blocking = 1\<rparr>, pend = {#}\<rparr>
     \<lparr>reg = \<lparr>gates = [\<lparr>g_name = ''db'', g_ready = True\<rparr>], blocking = 1\<rparr>, pend = {#PAdjust True#}\<rparr>"
    using rd_step.swap_new [of 0 "\<lparr>reg = \<lparr>gates = [\<lparr>g_name = ''db'', g_ready = False\<rparr>], blocking = 1\<rparr>, pend = {#}\<rparr>" True]
    by (simp add: swap_ready_def)
  show "rd_step \<lparr>reg = \<lparr>gates = [\<lparr>g_name = ''db'', g_ready = True\<rparr>], blocking = 1\<rparr>, pend = {#PAdjust True#}\<rparr>
     \<lparr>reg = \<lparr>gates = [\<lparr>g_name = ''db'', g_ready = True\<rparr>], blocking = 0\<rparr>, pend = {#}\<rparr>"
    using rd_step.adjust [of True "\<lparr>reg = \<lparr>gates = [\<lparr>g_name = ''db'', g_ready = True\<rparr>], blocking = 1\<rparr>,
      pend = {#PAdjust True#}\<rparr>"]
    by (simp add: adjust_def)
qed

theorem probe_never_early_witness:
  "g_ready (hd (gates \<lparr>gates = [\<lparr>g_name = ''db'', g_ready = True\<rparr>], blocking = 0\<rparr>))"
  using probe_never_early [OF demo_up_reachable] by (simp add: is_ready_def)

text \<open>
  A gate drives the probe: from the moment it is registered the server is not ready, and
  after any sequence of settings of the gate the server is ready exactly when the last one
  was \<open>true\<close> and the server was ready before the gate was registered.
\<close>

theorem gate_drives_probe:
  assumes "settled r" "Suc (length (gates r)) < 2 ^ 64" "gate name r = (i, r')"
  shows "is_ready (fold (set_ready i) bs r') \<longleftrightarrow> bs \<noteq> [] \<and> last bs \<and> is_ready r"
proof -
  have r': "i = length (gates r)" "gates r' = gates r @ [\<lparr>g_name = name, g_ready = False\<rparr>]"
    using assms(3) by (auto simp: gate_def push_gate_def count_gate_def)
  moreover have "settled r'" using settled_gate [OF assms(1,2), of name] assms(3) by simp
  moreover have "others_ready i r' \<longleftrightarrow> is_ready r"
    unfolding is_ready_settled [OF assms(1)]
    by (simp add: others_ready_def gate_is_ready_def r' nth_append all_set_conv_all_nth less_Suc_eq)
  moreover have "\<not> gate_is_ready i r'" by (simp add: gate_is_ready_def r')
  ultimately show ?thesis using gate.probe_fold [of r' i bs] by auto
qed

theorem gate_drives_probe_witness:
  "is_ready (fold (set_ready 0) [True, False, True] (snd (gate ''nats'' readiness_new)))"
  using gate_drives_probe [of readiness_new "''nats''" 0 "snd (gate ''nats'' readiness_new)" "[True, False, True]"]
  by (simp add: settled_def readiness_new_def gate_def is_ready_def)

end
