(* ===== verification/ErrorReporting.thy ===== *)
theory ErrorReporting
  imports Prelude
begin

text \<open>
  Server-failure reporting, \<^verbatim>\<open>crates/flatbed/src/error_reporting.rs\<close>: the reporter slot that
  is set once per process, the panic hook and its backtrace slot, \<open>catch_panic\<close>, and the
  functions that hand a failure to the reporter and log it. The reporter is the service's
  code: what it is handed is kept in order, and so is what is logged.
\<close>

subsection \<open>What is reported\<close>

datatype transport = Http | Nats

record route_request =
  rr_transport :: transport
  rr_method :: "string option"
  rr_route :: string
  rr_path :: string
  rr_request_id :: string

record route_failure =
  rf_request :: route_request
  rf_status :: "16 word"
  rf_code :: "string option"
  rf_message :: string

datatype panic_site = SiteRoute route_request | SiteWorker string

record panic_report =
  pr_site :: panic_site
  pr_message :: string
  pr_backtrace :: "string option"

record worker_failure =
  wf_worker :: string
  wf_error :: "string option"
  wf_restarts_exhausted :: bool

datatype report =
  RouteErrorReport route_failure | PanicReport panic_report | WorkerFailureReport worker_failure

definition PANIC_CODE :: string where
  "PANIC_CODE = ''PANIC''"

text \<open>A log event of this module: the failure and its \<open>flatbed.reported\<close> field.\<close>

datatype log_event = RouteFailed route_failure bool | RoutePanicked route_request string bool

text \<open>
  The process-wide state. A reporter is named by a number; \<open>hook\<close> says that flatbed's panic
  hook is the active one; \<open>last_backtrace\<close> is the slot of the polling thread.
\<close>

record reporting =
  reporter :: "nat option"
  hook :: bool
  last_backtrace :: "string option"
  delivered :: "(nat \<times> report) list"
  logged :: "log_event list"

definition reporting_new :: reporting where
  "reporting_new = \<lparr>reporter = None, hook = False, last_backtrace = None, delivered = [], logged = []\<rparr>"

definition install :: "nat \<Rightarrow> reporting \<Rightarrow> reporting" where
  "install n st = (case reporter st of Some _ \<Rightarrow> st | None \<Rightarrow> st\<lparr>reporter := Some n, hook := True\<rparr>)"

text \<open>Hand one report over; the answer says whether a reporter received it.\<close>

definition deliver :: "report \<Rightarrow> reporting \<Rightarrow> bool \<times> reporting" where
  "deliver r st =
     (case reporter st of
        None \<Rightarrow> (False, st)
      | Some n \<Rightarrow> (True, st\<lparr>delivered := delivered st @ [(n, r)]\<rparr>))"

definition route_error :: "route_failure \<Rightarrow> reporting \<Rightarrow> reporting" where
  "route_error f st =
     (let st' = (if reporter st \<noteq> None then snd (deliver (RouteErrorReport f) st) else st)
      in st'\<lparr>logged := logged st' @ [RouteFailed f (reporter st \<noteq> None)]\<rparr>)"

subsection \<open>Panics\<close>

datatype payload = StaticStr string | OwnedString string | OtherPayload

record caught_panic =
  cp_message :: string
  cp_backtrace :: "string option"

definition panic_message :: "payload \<Rightarrow> string" where
  "panic_message p =
     (case p of StaticStr s \<Rightarrow> s | OwnedString s \<Rightarrow> s | OtherPayload \<Rightarrow> ''non-string panic payload'')"

definition caught_panic_of :: "payload \<Rightarrow> reporting \<Rightarrow> caught_panic \<times> reporting" where
  "caught_panic_of p st =
     (\<lparr>cp_message = panic_message p, cp_backtrace = last_backtrace st\<rparr>, st\<lparr>last_backtrace := None\<rparr>)"

text \<open>The hook, run at the panic with the backtrace there.\<close>

definition run_hook :: "string \<Rightarrow> reporting \<Rightarrow> reporting" where
  "run_hook bt st = (if hook st then st\<lparr>last_backtrace := Some bt\<rparr> else st)"

text \<open>How one poll of a future ends, and \<open>CatchPanic::poll\<close> around it.\<close>

datatype 'a polled = Pending | Ready 'a | Unwound payload string

definition catch_poll :: "'a polled \<Rightarrow> reporting \<Rightarrow> (caught_panic + 'a) polled \<times> reporting" where
  "catch_poll p st =
     (case p of
        Pending \<Rightarrow> (Pending, st)
      | Ready a \<Rightarrow> (Ready (Inr a), st)
      | Unwound pl bt \<Rightarrow> (case caught_panic_of pl (run_hook bt st) of (c, st') \<Rightarrow> (Ready (Inl c), st')))"

definition report_panic :: "panic_site \<Rightarrow> caught_panic \<Rightarrow> reporting \<Rightarrow> bool \<times> reporting" where
  "report_panic site p st =
     deliver (PanicReport \<lparr>pr_site = site, pr_message = cp_message p, pr_backtrace = cp_backtrace p\<rparr>) st"

definition route_panic :: "route_request \<Rightarrow> caught_panic \<Rightarrow> reporting \<Rightarrow> reporting" where
  "route_panic rq p st =
     (case report_panic (SiteRoute rq) p st of
        (reported, st') \<Rightarrow> st'\<lparr>logged := logged st' @ [RoutePanicked rq (cp_message p) reported]\<rparr>)"

definition report_worker_failure :: "worker_failure \<Rightarrow> reporting \<Rightarrow> bool \<times> reporting" where
  "report_worker_failure f st = deliver (WorkerFailureReport f) st"

text \<open>
  How long shutdown waits for the flush: not at all without a reporter, otherwise until the
  reporter is done or the timeout elapses.
\<close>

definition flush :: "duration \<Rightarrow> duration \<Rightarrow> reporting \<Rightarrow> duration" where
  "flush timeout took st = (case reporter st of None \<Rightarrow> 0 | Some _ \<Rightarrow> min timeout took)"

definition is_server_error :: "16 word \<Rightarrow> bool" where
  "is_server_error s \<longleftrightarrow> 500 \<le> s \<and> s < 600"

definition report_http_route_error ::
  "string \<Rightarrow> string \<Rightarrow> string \<Rightarrow> string \<Rightarrow> 16 word \<Rightarrow> string \<Rightarrow> string \<Rightarrow> reporting \<Rightarrow> reporting" where
  "report_http_route_error meth route path request_id s code message st =
     (if \<not> is_server_error s then st
      else route_error
        \<lparr>rf_request = \<lparr>rr_transport = Http, rr_method = Some meth, rr_route = route, rr_path = path,
                       rr_request_id = request_id\<rparr>,
         rf_status = s, rf_code = Some code, rf_message = message\<rparr> st)"

subsection \<open>Facts\<close>

lemma deliver_eq:
  "fst (deliver r st) \<longleftrightarrow> reporter st \<noteq> None"
  "delivered (snd (deliver r st)) =
     delivered st @ (case reporter st of None \<Rightarrow> [] | Some n \<Rightarrow> [(n, r)])"
  "reporter (snd (deliver r st)) = reporter st" "hook (snd (deliver r st)) = hook st"
  "logged (snd (deliver r st)) = logged st" "last_backtrace (snd (deliver r st)) = last_backtrace st"
  by (simp_all add: deliver_def split: option.splits)

lemmas report_eq = deliver_eq report_panic_def report_worker_failure_def

lemma route_error_eq:
  "delivered (route_error f st) =
     delivered st @ (case reporter st of None \<Rightarrow> [] | Some n \<Rightarrow> [(n, RouteErrorReport f)])"
  "logged (route_error f st) = logged st @ [RouteFailed f (reporter st \<noteq> None)]"
  "reporter (route_error f st) = reporter st"
  by (simp_all add: route_error_def Let_def deliver_eq split: option.splits)

lemma route_panic_eq:
  "delivered (route_panic rq p st) =
     delivered st @ (case reporter st of None \<Rightarrow> [] | Some n \<Rightarrow>
       [(n, PanicReport \<lparr>pr_site = SiteRoute rq, pr_message = cp_message p, pr_backtrace = cp_backtrace p\<rparr>)])"
  "logged (route_panic rq p st) = logged st @ [RoutePanicked rq (cp_message p) (reporter st \<noteq> None)]"
  "reporter (route_panic rq p st) = reporter st"
  by (simp_all add: route_panic_def report_eq split: prod.split option.splits)
     (simp_all add: deliver_def split: option.splits)

text \<open>A process where only the first \<open>install\<close> counts.\<close>

lemma install_first: "reporter (fold install ns st) = (case reporter st of Some n \<Rightarrow> Some n | None \<Rightarrow>
    (case ns of [] \<Rightarrow> None | n # _ \<Rightarrow> Some n))"
proof (induction ns arbitrary: st)
  case (Cons n ns)
  then show ?case by (simp add: install_def split: option.splits)
qed (simp split: option.splits)

subsection \<open>Properties\<close>

text \<open>
  What the service's reporter sees of a route's error answer: exactly the 5xx ones, once each,
  with the declared route, the concrete path, the request id and what was put on the wire; and
  the log line for it says truthfully whether a reporter received it. A 4xx leaves no trace.
\<close>

theorem route_errors_reported:
  "\<exists>f. rf_status f = s \<and> rf_code f = Some code \<and> rf_message f = message \<and>
     rf_request f = \<lparr>rr_transport = Http, rr_method = Some meth, rr_route = route, rr_path = path, rr_request_id = rid\<rparr> \<and>
     delivered (report_http_route_error meth route path rid s code message st) =
       delivered st @ (if 500 \<le> s \<and> s < 600
                       then (case reporter st of None \<Rightarrow> [] | Some n \<Rightarrow> [(n, RouteErrorReport f)]) else []) \<and>
     logged (report_http_route_error meth route path rid s code message st) =
       logged st @ (if 500 \<le> s \<and> s < 600 then [RouteFailed f (reporter st \<noteq> None)] else [])"
  by (rule exI [of _ "\<lparr>rf_request = \<lparr>rr_transport = Http, rr_method = Some meth, rr_route = route,
        rr_path = path, rr_request_id = rid\<rparr>, rf_status = s, rf_code = Some code, rf_message = message\<rparr>"])
     (simp add: report_http_route_error_def is_server_error_def route_error_eq)

text \<open>
  A handler's panic is reported with its own backtrace: under the first reporter installed, a
  poll that unwinds hands over one panic report with the payload's text and the backtrace taken
  at that panic, never one left by an earlier panic, and leaves no backtrace behind for a later
  one.
\<close>

theorem panic_reported_with_backtrace:
  assumes "ns = n # rest" "catch_poll (Unwound pl bt) (fold install ns st) = (Ready (Inl c), st')"
    and "reporter st = None"
  shows "delivered (route_panic rq c st') = delivered (fold install ns st) @
       [(n, PanicReport \<lparr>pr_site = SiteRoute rq, pr_message = panic_message pl, pr_backtrace = Some bt\<rparr>)] \<and>
     last_backtrace st' = None"
proof -
  have "hook (fold install rest st0) = hook st0" if "reporter st0 \<noteq> None" for st0
    using that by (induction rest arbitrary: st0) (auto simp: install_def)
  moreover have "reporter (install n st) = Some n" "hook (install n st)"
    using assms(3) by (simp_all add: install_def)
  ultimately have "hook (fold install ns st)" using assms(1) by simp
  moreover have "reporter (fold install ns st) = Some n"
    using assms(1,3) by (simp only: install_first) simp
  ultimately show ?thesis
    using assms(2) by (auto simp: catch_poll_def caught_panic_of_def run_hook_def route_panic_eq)
qed

theorem panic_reported_with_backtrace_witness:
  "\<exists>c st'. catch_poll (Unwound (StaticStr ''boom'') ''bt'') (fold install [7, 8] reporting_new) =
       (Ready (Inl c), st') \<and> last_backtrace st' = (None :: string option)"
proof -
  obtain c st' where c: "catch_poll (Unwound (StaticStr ''boom'') ''bt'' :: unit polled) (fold install [7, 8] reporting_new) =
      (Ready (Inl c), st')"
    by (simp add: catch_poll_def caught_panic_of_def)
  from panic_reported_with_backtrace [OF refl this] show ?thesis
    by (auto simp: reporting_new_def catch_poll_def caught_panic_of_def)
qed

end
