(* ===== verification/Supervisor.thy ===== *)
theory Supervisor
  imports ErrorReporting
begin

text \<open>
  Worker supervision, \<^verbatim>\<open>crates/flatbed/src/supervisor.rs\<close>: the restart policy and its delays,
  the registry of worker states and the gauge calls that follow it, and \<open>supervise\<close> with
  \<open>terminate\<close> and \<open>fail\<close>, for any number of workers in one process. The workers' code, the
  shutdown signal, the clock and the hash that spreads the backoff are free.
\<close>

subsection \<open>States and policy\<close>

datatype worker_state = Running | BackingOff | Failed | Disabled

fun state_str :: "worker_state \<Rightarrow> string" where
  "state_str Running = ''running''"
| "state_str BackingOff = ''backing-off''"
| "state_str Failed = ''failed''"
| "state_str Disabled = ''disabled''"

definition ALL_STATES :: "worker_state list" where
  "ALL_STATES = [Running, BackingOff, Failed, Disabled]"

record restart_policy =
  min_backoff :: duration
  max_backoff :: duration
  max_restarts :: "32 word"

definition DEFAULT_MAX_RESTARTS :: "32 word" where
  "DEFAULT_MAX_RESTARTS = 10"

definition backoff :: "duration \<Rightarrow> duration \<Rightarrow> restart_policy" where
  "backoff mn mx = \<lparr>min_backoff = mn, max_backoff = mx, max_restarts = DEFAULT_MAX_RESTARTS\<rparr>"

definition with_max_restarts :: "32 word \<Rightarrow> restart_policy \<Rightarrow> restart_policy" where
  "with_max_restarts n p = p\<lparr>max_restarts := n\<rparr>"

definition cap :: "restart_policy \<Rightarrow> duration" where
  "cap p = (if max_backoff p > min_backoff p then max_backoff p else min_backoff p)"

definition delay :: "restart_policy \<Rightarrow> 32 word \<Rightarrow> duration" where
  "delay p attempt =
     (let doublings = min (saturating_dec attempt) 31
      in min (dur_saturating_mul (min_backoff p) (unat (push_bit (unat doublings) 1 :: 32 word))) (cap p))"

text \<open>The spread of a backoff; \<open>hash\<close> is the process's seeded hasher on the worker and attempt.\<close>

definition jittered :: "(string \<times> 32 word \<Rightarrow> 64 word) \<Rightarrow> duration \<Rightarrow> string \<Rightarrow> 32 word \<Rightarrow> duration" where
  "jittered hash d worker attempt =
     (let half = u64_clamp (as_millis d) div 2
      in if half = 0 then d
         else from_millis (half + unat (hash (worker, attempt)) mod (half + 1)))"

subsection \<open>The registry of states\<close>

text \<open>
  What the supervisors of a process share: the states by name, the calls made to the gauge when
  one is installed, the health and shutdown channels, and the reporting state.
\<close>

record world =
  states :: "(string \<times> worker_state) list"
  gauge :: "(string \<times> string \<times> nat) list option"
  healthz :: bool
  shutdown :: bool
  rep :: reporting

definition worker_states :: "world \<Rightarrow> (string \<times> worker_state) list" where
  "worker_states w = states w"

definition is_disabled :: "string \<Rightarrow> world \<Rightarrow> bool" where
  "is_disabled name w \<longleftrightarrow> map_of (states w) name = Some Disabled"

definition install_state_gauge :: "bool \<Rightarrow> world \<Rightarrow> world" where
  "install_state_gauge registered w =
     (if gauge w \<noteq> None then w else if registered then w\<lparr>gauge := Some []\<rparr> else w)"

definition publish_state :: "string \<Rightarrow> worker_state \<Rightarrow> world \<Rightarrow> world" where
  "publish_state name st w =
     (case gauge w of
        None \<Rightarrow> w
      | Some calls \<Rightarrow>
          w\<lparr>gauge := Some (calls @ map (\<lambda>c. (name, state_str c, if c = st then 1 else 0)) ALL_STATES)\<rparr>)"

definition set_state :: "string \<Rightarrow> worker_state \<Rightarrow> world \<Rightarrow> world" where
  "set_state name st w = publish_state name st (w\<lparr>states := bt_insert name st (states w)\<rparr>)"

subsection \<open>How a run ends\<close>

datatype exit = Completed | ExitErr string | Panicked caught_panic

definition exit_str :: "exit \<Rightarrow> string" where
  "exit_str e =
     (case e of
        Completed \<Rightarrow> ''returned Ok(())''
      | ExitErr s \<Rightarrow> ''returned Err: '' @ s
      | Panicked p \<Rightarrow> ''panicked: '' @ cp_message p)"

text \<open>
  The join of the worker's task: it finished, with what \<open>catch_panic\<close> made of it, or it was
  cancelled.
\<close>

datatype joined = Finished "caught_panic + (string + unit)" | Cancelled

definition run_once :: "joined \<Rightarrow> exit option" where
  "run_once j =
     (case j of
        Finished (Inr (Inr _)) \<Rightarrow> Some Completed
      | Finished (Inr (Inl e)) \<Rightarrow> Some (ExitErr e)
      | Finished (Inl p) \<Rightarrow> Some (Panicked p)
      | Cancelled \<Rightarrow> None)"

definition report_exit :: "string \<Rightarrow> exit \<Rightarrow> bool \<Rightarrow> world \<Rightarrow> bool \<times> world" where
  "report_exit name e exhausted w =
     (let failure = (\<lambda>err w. case report_worker_failure
               \<lparr>wf_worker = name, wf_error = err, wf_restarts_exhausted = exhausted\<rparr> (rep w) of
               (b, r) \<Rightarrow> (b, w\<lparr>rep := r\<rparr>))
      in case e of
           Completed \<Rightarrow> failure None w
         | ExitErr s \<Rightarrow> failure (Some s) w
         | Panicked p \<Rightarrow>
             (case report_panic (SiteWorker name) p (rep w) of
                (b, r) \<Rightarrow> if \<not> exhausted then (b, w\<lparr>rep := r\<rparr>) else failure None (w\<lparr>rep := r\<rparr>)))"

definition fail :: "string \<Rightarrow> bool \<Rightarrow> world \<Rightarrow> world" where
  "fail name stop w =
     (let w = set_state name Failed w;
          w = w\<lparr>healthz := False\<rparr>
      in if stop then w\<lparr>shutdown := True\<rparr> else w)"

definition terminate :: "string \<Rightarrow> exit \<Rightarrow> world \<Rightarrow> world" where
  "terminate name e w =
     (let w = snd (report_exit name e False w)
      in case e of
           Completed \<Rightarrow> fail name False w
         | ExitErr _ \<Rightarrow> fail name True w
         | Panicked _ \<Rightarrow> fail name True w)"

subsection \<open>One supervisor\<close>

record worker_info =
  wi_name :: string
  wi_restart :: "restart_policy option"
  wi_has_check :: bool

text \<open>
  Where a supervisor is: not started, awaiting its worker's run, sleeping before the next one,
  or returned, with the reason it did.
\<close>

datatype ended = WasDisabled | WasCancelled | InShutdown | Terminal exit

datatype sup_phase = NotStarted | Awaiting "32 word" | Sleeping "32 word" duration | Ended ended

definition check_enabled :: "worker_info \<Rightarrow> caught_panic + bool \<Rightarrow> caught_panic + bool" where
  "check_enabled info answer = (if wi_has_check info then answer else Inr True)"

text \<open>The head of the loop.\<close>

definition enter_run :: "worker_info \<Rightarrow> 32 word \<Rightarrow> world \<Rightarrow> sup_phase \<times> world" where
  "enter_run info attempt w = (Awaiting attempt, set_state (wi_name info) Running w)"

definition begin_supervise :: "worker_info \<Rightarrow> caught_panic + bool \<Rightarrow> world \<Rightarrow> sup_phase \<times> world" where
  "begin_supervise info answer w =
     (case check_enabled info answer of
        Inr True \<Rightarrow> enter_run info 0 w
      | Inr False \<Rightarrow> (Ended WasDisabled, set_state (wi_name info) Disabled w)
      | Inl p \<Rightarrow> (Ended (Terminal (Panicked p)), terminate (wi_name info) (Panicked p) w))"

text \<open>The rest of the loop's body, once the run has ended after \<open>elapsed\<close>.\<close>

definition after_run ::
  "(string \<times> 32 word \<Rightarrow> 64 word) \<Rightarrow> worker_info \<Rightarrow> 32 word \<Rightarrow> joined \<Rightarrow> duration \<Rightarrow> world \<Rightarrow> sup_phase \<times> world" where
  "after_run hash info attempt j elapsed w =
     (case run_once j of
        None \<Rightarrow> (Ended WasCancelled, w)
      | Some e \<Rightarrow>
          if shutdown w then (Ended InShutdown, w)
          else (case wi_restart info of
                  None \<Rightarrow> (Ended (Terminal e), terminate (wi_name info) e w)
                | Some policy \<Rightarrow>
                    (let attempt = (if elapsed \<ge> cap policy then 0 else attempt);
                         attempt = saturating_inc attempt
                     in if attempt > max_restarts policy then
                          (Ended (Terminal e), fail (wi_name info) True (snd (report_exit (wi_name info) e True w)))
                        else
                          (let d = jittered hash (delay policy attempt) (wi_name info) attempt;
                               w = snd (report_exit (wi_name info) e False w)
                           in (Sleeping attempt d, set_state (wi_name info) BackingOff w)))))"

subsection \<open>The process\<close>

record sup_sys =
  wd :: world
  phases :: "sup_phase list"

text \<open>
  \<open>infos\<close> are the registered workers; each of them has a supervisor. A step is one supervisor
  going from one await to the next, or the shutdown signal.
\<close>

inductive sup_step ::
  "worker_info list \<Rightarrow> (string \<times> 32 word \<Rightarrow> 64 word) \<Rightarrow> sup_sys \<Rightarrow> sup_sys \<Rightarrow> bool"
  for infos hash where
  begins: "i < length (phases s) \<Longrightarrow> phases s ! i = NotStarted \<Longrightarrow>
     begin_supervise (infos ! i) answer (wd s) = (ph, w) \<Longrightarrow>
     sup_step infos hash s \<lparr>wd = w, phases = (phases s)[i := ph]\<rparr>"
| run_ends: "i < length (phases s) \<Longrightarrow> phases s ! i = Awaiting attempt \<Longrightarrow>
     after_run hash (infos ! i) attempt j elapsed (wd s) = (ph, w) \<Longrightarrow>
     sup_step infos hash s \<lparr>wd = w, phases = (phases s)[i := ph]\<rparr>"
| slept: "i < length (phases s) \<Longrightarrow> phases s ! i = Sleeping attempt d \<Longrightarrow>
     enter_run (infos ! i) attempt (wd s) = (ph, w) \<Longrightarrow>
     sup_step infos hash s \<lparr>wd = w, phases = (phases s)[i := ph]\<rparr>"
| sees_shutdown: "i < length (phases s) \<Longrightarrow> phases s ! i = Sleeping attempt d \<Longrightarrow> shutdown (wd s) \<Longrightarrow>
     sup_step infos hash s (s\<lparr>phases := (phases s)[i := Ended InShutdown]\<rparr>)"
| signal: "sup_step infos hash s (s\<lparr>wd := (wd s)\<lparr>shutdown := True\<rparr>\<rparr>)"

definition sup_init :: "worker_info list \<Rightarrow> bool \<Rightarrow> reporting \<Rightarrow> sup_sys" where
  "sup_init infos gauged r =
     \<lparr>wd = install_state_gauge gauged
              \<lparr>states = [], gauge = None, healthz = True, shutdown = False, rep = r\<rparr>,
      phases = replicate (length infos) NotStarted\<rparr>"

inductive sup_reachable ::
  "worker_info list \<Rightarrow> (string \<times> 32 word \<Rightarrow> 64 word) \<Rightarrow> sup_sys \<Rightarrow> bool"
  for infos hash where
  init: "sup_reachable infos hash (sup_init infos gauged r)"
| step: "sup_reachable infos hash s \<Longrightarrow> sup_step infos hash s t \<Longrightarrow> sup_reachable infos hash t"

subsection \<open>Invariant\<close>

text \<open>The last value the gauge was given for a worker and a state's label.\<close>

definition gauge_value :: "(string \<times> string \<times> nat) list \<Rightarrow> string \<Rightarrow> string \<Rightarrow> nat option" where
  "gauge_value calls name label = map_of (rev (map (\<lambda>(n, l, v). ((n, l), v)) calls)) (name, label)"

definition world_ok :: "world \<Rightarrow> bool" where
  "world_ok w \<longleftrightarrow> bt_sorted (states w) \<and>
     (\<forall>calls name st. gauge w = Some calls \<and> map_of (states w) name = Some st \<longrightarrow>
        (\<forall>c. gauge_value calls name (state_str c) = Some (if c = st then 1 else 0)))"

text \<open>What a worker's phase says about the shared state.\<close>

definition phase_ok :: "worker_info \<Rightarrow> sup_phase \<Rightarrow> world \<Rightarrow> bool" where
  "phase_ok info ph w \<longleftrightarrow>
     (case ph of
        NotStarted \<Rightarrow> map_of (states w) (wi_name info) = None
      | Awaiting a \<Rightarrow> map_of (states w) (wi_name info) = Some Running \<and>
          (case wi_restart info of None \<Rightarrow> a = 0 | Some p \<Rightarrow> a \<le> max_restarts p)
      | Sleeping a d \<Rightarrow> map_of (states w) (wi_name info) = Some BackingOff \<and>
          (case wi_restart info of None \<Rightarrow> False | Some p \<Rightarrow> 0 < a \<and> a \<le> max_restarts p)
      | Ended WasDisabled \<Rightarrow> map_of (states w) (wi_name info) = Some Disabled
      | Ended WasCancelled \<Rightarrow> True
      | Ended InShutdown \<Rightarrow> shutdown w
      | Ended (Terminal e) \<Rightarrow> map_of (states w) (wi_name info) = Some Failed \<and> \<not> healthz w \<and>
          (e \<noteq> Completed \<or> wi_restart info \<noteq> None \<longrightarrow> shutdown w))"

text \<open>What one worker's step may do to the others: nothing but mark the process.\<close>

definition only_marks :: "string \<Rightarrow> world \<Rightarrow> world \<Rightarrow> bool" where
  "only_marks name w w' \<longleftrightarrow>
     (\<forall>n. n \<noteq> name \<longrightarrow> map_of (states w') n = map_of (states w) n) \<and>
     (healthz w' \<longrightarrow> healthz w) \<and> (shutdown w \<longrightarrow> shutdown w')"

lemma only_marks_refl: "only_marks name w w"
  by (simp add: only_marks_def)

lemma only_marks_trans: "only_marks name u v \<Longrightarrow> only_marks name v w \<Longrightarrow> only_marks name u w"
  by (simp add: only_marks_def)

lemma phase_ok_other:
  "phase_ok info ph w \<Longrightarrow> only_marks name w w' \<Longrightarrow> wi_name info \<noteq> name \<Longrightarrow> phase_ok info ph w'"
  by (auto simp: phase_ok_def only_marks_def split: sup_phase.splits ended.splits)

lemma state_str_inject [simp]: "state_str a = state_str b \<longleftrightarrow> a = b"
  by (cases a; cases b) simp_all

lemma set_state_sel [simp]:
  "states (set_state n st w) = bt_insert n st (states w)" "healthz (set_state n st w) = healthz w"
  "shutdown (set_state n st w) = shutdown w" "rep (set_state n st w) = rep w"
  by (simp_all add: set_state_def publish_state_def split: option.splits)

lemma gauge_set_state:
  "gauge (set_state n st w) = map_option (\<lambda>calls. calls @ map (\<lambda>c. (n, state_str c, if c = st then 1 else 0)) ALL_STATES) (gauge w)"
  by (simp add: set_state_def publish_state_def split: option.splits)

lemma gauge_value_append:
  "gauge_value (calls @ map (\<lambda>c. (n, state_str c, if c = st then 1 else 0)) ALL_STATES) name (state_str c) =
     (if name = n then Some (if c = st then 1 else 0) else gauge_value calls name (state_str c))"
  by (cases c) (auto simp: gauge_value_def ALL_STATES_def simp del: state_str.simps)

lemma world_ok_set_state: "world_ok w \<Longrightarrow> world_ok (set_state n st w)"
  by (auto simp: world_ok_def bt_sorted_insert gauge_set_state gauge_value_append)

lemma only_marks_set_state: "only_marks n w (set_state n st w)"
  by (simp add: only_marks_def)

lemma report_exit_sel [simp]:
  "states (snd (report_exit n e b w)) = states w" "gauge (snd (report_exit n e b w)) = gauge w"
  "healthz (snd (report_exit n e b w)) = healthz w" "shutdown (snd (report_exit n e b w)) = shutdown w"
  by (simp_all add: report_exit_def Let_def split: exit.splits prod.splits)

lemma world_ok_cong: "states w' = states w \<Longrightarrow> gauge w' = gauge w \<Longrightarrow> world_ok w' \<longleftrightarrow> world_ok w"
  by (simp add: world_ok_def)

lemma fail_sel [simp]:
  "states (fail n stop w) = bt_insert n Failed (states w)" "healthz (fail n stop w) = False"
  "shutdown (fail n stop w) \<longleftrightarrow> shutdown w \<or> stop" "rep (fail n stop w) = rep w"
  by (simp_all add: fail_def Let_def)

lemma world_ok_fail: "world_ok w \<Longrightarrow> world_ok (fail n stop w)"
  using world_ok_set_state [of w n Failed]
  by (subst world_ok_cong [of _ "set_state n Failed w"]) (simp_all add: fail_def Let_def)

lemma terminate_eq: "terminate n e w = fail n (e \<noteq> Completed) (snd (report_exit n e False w))"
  by (simp add: terminate_def Let_def split: exit.splits)

lemma world_ok_report: "world_ok w \<Longrightarrow> world_ok (snd (report_exit n e b w))"
  by (subst world_ok_cong [of _ w]) simp_all

lemmas world_oks = world_ok_set_state world_ok_fail world_ok_report

lemma begin_supervise_ok:
  assumes "begin_supervise info answer w = (ph, w')" "world_ok w"
  shows "world_ok w' \<and> phase_ok info ph w' \<and> only_marks (wi_name info) w w'"
  using assms
  by (auto simp: begin_supervise_def enter_run_def terminate_eq phase_ok_def only_marks_def world_oks
        split: sum.splits bool.splits option.splits)

lemma enter_run_ok:
  assumes "enter_run info a w = (ph, w')" "world_ok w" "phase_ok info (Sleeping a d) w"
  shows "world_ok w' \<and> phase_ok info ph w' \<and> only_marks (wi_name info) w w'"
  using assms by (auto simp: enter_run_def phase_ok_def only_marks_def world_oks split: option.splits)

lemma saturating_inc_pos: "0 < saturating_inc (a :: 32 word)"
  by (simp add: word_less_nat_alt unat_saturating_inc)

lemma after_run_ok:
  assumes "after_run hash info a j el w = (ph, w')" "world_ok w"
  shows "world_ok w' \<and> phase_ok info ph w' \<and> only_marks (wi_name info) w w'"
proof (cases "run_once j")
  case (Some e)
  show ?thesis
  proof (cases "wi_restart info")
    case None
    with Some assms show ?thesis
      by (auto simp: after_run_def terminate_eq phase_ok_def only_marks_def world_oks split: if_splits)
  next
    case (Some p)
    with \<open>run_once j = Some e\<close> assms saturating_inc_pos show ?thesis
      by (auto simp: after_run_def Let_def phase_ok_def only_marks_def world_oks not_less split: if_splits)
  qed
qed (use assms in \<open>auto simp: after_run_def phase_ok_def only_marks_def\<close>)

definition sup_inv :: "worker_info list \<Rightarrow> sup_sys \<Rightarrow> bool" where
  "sup_inv infos s \<longleftrightarrow> world_ok (wd s) \<and> length (phases s) = length infos \<and>
     (\<forall>i < length infos. phase_ok (infos ! i) (phases s ! i) (wd s))"

lemma sup_inv_update:
  assumes "sup_inv infos s" "distinct (map wi_name infos)" "i < length (phases s)"
    and "world_ok w \<and> phase_ok (infos ! i) ph w \<and> only_marks (wi_name (infos ! i)) (wd s) w"
  shows "sup_inv infos \<lparr>wd = w, phases = (phases s)[i := ph]\<rparr>"
  unfolding sup_inv_def
proof (intro conjI allI impI)
  fix j assume j: "j < length infos"
  show "phase_ok (infos ! j) (phases \<lparr>wd = w, phases = (phases s)[i := ph]\<rparr> ! j) (wd \<lparr>wd = w, phases = (phases s)[i := ph]\<rparr>)"
  proof (cases "j = i")
    case False
    then have "wi_name (infos ! j) \<noteq> wi_name (infos ! i)"
      using assms(1-3) j by (simp add: distinct_conv_nth sup_inv_def)
    with False j assms show ?thesis by (auto simp: sup_inv_def intro: phase_ok_other)
  qed (use assms in simp)
qed (use assms in \<open>simp_all add: sup_inv_def\<close>)

lemma sup_inv_step:
  assumes "sup_step infos hash s t" "sup_inv infos s" "distinct (map wi_name infos)"
  shows "sup_inv infos t"
  using assms(1)
proof cases
  case (begins i answer ph w)
  then show ?thesis
    using sup_inv_update [OF assms(2,3)] begin_supervise_ok assms(2) by (simp add: sup_inv_def)
next
  case (run_ends i attempt j elapsed ph w)
  then show ?thesis
    using sup_inv_update [OF assms(2,3)] after_run_ok assms(2) by (simp add: sup_inv_def)
next
  case (slept i attempt d ph w)
  have "phase_ok (infos ! i) (Sleeping attempt d) (wd s)"
    using slept assms(2) by (auto simp: sup_inv_def)
  with slept show ?thesis
    using sup_inv_update [OF assms(2,3)] enter_run_ok assms(2) by (simp add: sup_inv_def)
next
  case (sees_shutdown i attempt d)
  then show ?thesis
    using sup_inv_update [OF assms(2,3), of i "wd s" "Ended InShutdown"] assms(2)
    by (simp add: sup_inv_def phase_ok_def only_marks_def)
next
  case signal
  have "only_marks n (wd s) ((wd s)\<lparr>shutdown := True\<rparr>)" "phase_ok i p (wd s) \<Longrightarrow> phase_ok i p ((wd s)\<lparr>shutdown := True\<rparr>)"
    for n i p by (auto simp: only_marks_def phase_ok_def split: sup_phase.splits ended.splits)
  with signal assms(2) show ?thesis by (simp add: sup_inv_def world_ok_def)
qed

lemma sup_inv_reachable:
  assumes "sup_reachable infos hash s" "distinct (map wi_name infos)"
  shows "sup_inv infos s"
  using assms(1)
proof induction
  case (init gauged r)
  show ?case
    by (simp add: sup_init_def install_state_gauge_def sup_inv_def world_ok_def phase_ok_def)
next
  case (step s t)
  then show ?case using sup_inv_step assms(2) by blast
qed

text \<open>Only a worker that ended terminally makes the process unhealthy.\<close>

definition blame_inv :: "sup_sys \<Rightarrow> bool" where
  "blame_inv s \<longleftrightarrow> (\<not> healthz (wd s) \<longrightarrow> (\<exists>e. Ended (Terminal e) \<in> set (phases s)))"

lemma healthz_kept:
  "begin_supervise info answer w = (ph, w') \<Longrightarrow> healthz w' = healthz w \<or> (\<exists>e. ph = Ended (Terminal e))"
  "enter_run info a w = (ph, w') \<Longrightarrow> healthz w' = healthz w"
  "after_run hash info a j el w = (ph, w') \<Longrightarrow> healthz w' = healthz w \<or> (\<exists>e. ph = Ended (Terminal e))"
  by (auto simp: begin_supervise_def enter_run_def after_run_def Let_def
        split: sum.splits bool.splits option.splits if_splits)

lemma terminal_stays:
  "Ended x \<in> set ps \<Longrightarrow> i < length ps \<Longrightarrow> (\<forall>y. ps ! i \<noteq> Ended y) \<Longrightarrow> Ended x \<in> set (ps[i := ph])"
  by (metis in_set_conv_nth length_list_update nth_list_update_neq)

lemma blame_inv_update:
  assumes "blame_inv s" "i < length (phases s)" "\<And>y. phases s ! i \<noteq> Ended y"
    and "healthz w = healthz (wd s) \<or> (\<exists>e. ph = Ended (Terminal e))"
  shows "blame_inv \<lparr>wd = w, phases = (phases s)[i := ph]\<rparr>"
proof (cases "\<exists>e. ph = Ended (Terminal e)")
  case True
  then show ?thesis using set_update_memI [OF assms(2)] by (auto simp: blame_inv_def)
next
  case False
  then show ?thesis
    using assms(1,4) terminal_stays [OF _ assms(2)] assms(3) by (auto simp: blame_inv_def)
qed

lemma blame_inv_step:
  assumes "sup_step infos hash s t" "blame_inv s"
  shows "blame_inv t"
  using assms(1)
proof cases
  case (begins i answer ph w)
  then show ?thesis using blame_inv_update [OF assms(2)] healthz_kept(1) by simp
next
  case (run_ends i attempt j elapsed ph w)
  then show ?thesis using blame_inv_update [OF assms(2)] healthz_kept(3) by simp
next
  case (slept i attempt d ph w)
  then show ?thesis using blame_inv_update [OF assms(2)] healthz_kept(2) by simp
next
  case (sees_shutdown i attempt d)
  then show ?thesis using blame_inv_update [OF assms(2), of i "wd s"] by (cases s) simp
qed (use assms(2) in \<open>simp add: blame_inv_def\<close>)

lemma blame_inv_reachable: "sup_reachable infos hash s \<Longrightarrow> blame_inv s"
proof (induction rule: sup_reachable.induct)
  case (init gauged r)
  show ?case by (simp add: blame_inv_def sup_init_def install_state_gauge_def)
next
  case (step s t)
  then show ?case using blame_inv_step by blast
qed

subsection \<open>Consecutive failures\<close>

text \<open>The supervisor's next await, when every run of its worker ends the same way.\<close>

definition relapse ::
  "(string \<times> 32 word \<Rightarrow> 64 word) \<Rightarrow> worker_info \<Rightarrow> joined \<Rightarrow> duration \<Rightarrow> sup_phase \<times> world \<Rightarrow> sup_phase \<times> world" where
  "relapse hash info j elapsed = (\<lambda>(ph, w).
     (case ph of
        Awaiting a \<Rightarrow> after_run hash info a j elapsed w
      | Sleeping a d \<Rightarrow> enter_run info a w
      | _ \<Rightarrow> (ph, w)))"

lemma relapse_run:
  assumes "wi_restart info = Some p" "run_once j = Some e" "elapsed < cap p" "\<not> shutdown w"
    and "Suc n \<le> unat (max_restarts p)"
  shows "\<exists>d w'. relapse hash info j elapsed (Awaiting (of_nat n), w) = (Sleeping (of_nat (Suc n)) d, w') \<and>
     \<not> shutdown w' \<and> healthz w' = healthz w \<and> map_of (states w') (wi_name info) = Some BackingOff"
proof -
  have lt: "Suc n < 2 ^ 32"
    using assms(5) unsigned_less [of "max_restarts p", where 'a = nat] by simp
  then have inc: "saturating_inc (of_nat n :: 32 word) = of_nat (Suc n)"
    by (simp add: saturating_inc_of_nat del: of_nat_Suc)
  moreover have "(of_nat (Suc n) :: 32 word) \<le> max_restarts p"
    using lt assms(5) by (simp add: word_le_nat_alt unat_of_nat take_bit_nat_eq_self del: of_nat_Suc)
  ultimately show ?thesis
    using assms(1-4) by (simp add: relapse_def after_run_def Let_def not_less)
qed

lemma relapse_wake:
  "\<exists>w'. relapse hash info j elapsed (Sleeping a d, w) = (Awaiting a, w') \<and>
     shutdown w' = shutdown w \<and> healthz w' = healthz w"
  by (simp add: relapse_def enter_run_def)

lemma relapse_many:
  assumes "wi_restart info = Some p" "run_once j = Some e" "elapsed < cap p" "\<not> shutdown w"
  shows "n \<le> unat (max_restarts p) \<Longrightarrow>
     \<exists>w'. (relapse hash info j elapsed ^^ (2 * n)) (Awaiting 0, w) = (Awaiting (of_nat n), w') \<and>
       \<not> shutdown w' \<and> healthz w' = healthz w"
proof (induction n)
  case (Suc n)
  then obtain w1 where w1: "(relapse hash info j elapsed ^^ (2 * n)) (Awaiting 0, w) = (Awaiting (of_nat n), w1)"
    "\<not> shutdown w1" "healthz w1 = healthz w" by auto
  obtain d w2 where w2: "relapse hash info j elapsed (Awaiting (of_nat n), w1) = (Sleeping (of_nat (Suc n)) d, w2)"
    "\<not> shutdown w2" "healthz w2 = healthz w1"
    using relapse_run [OF assms(1-3) w1(2) Suc.prems, of hash] by blast
  obtain w3 where w3: "relapse hash info j elapsed (Sleeping (of_nat (Suc n)) d, w2) = (Awaiting (of_nat (Suc n)), w3)"
    "shutdown w3 = shutdown w2" "healthz w3 = healthz w2"
    using relapse_wake by blast
  have "2 * Suc n = Suc (Suc (2 * n))" by simp
  then have "(relapse hash info j elapsed ^^ (2 * Suc n)) (Awaiting 0, w) = (Awaiting (of_nat (Suc n)), w3)"
    by (simp only: funpow.simps comp_def w1(1) w2(1) w3(1))
  with w1 w2 w3 show ?case by blast
qed (use assms(4) in simp)

subsection \<open>The backoff\<close>

lemma delay_eq:
  "delay p a = min (min (min_backoff p * 2 ^ min (unat a - 1) 31) duration_max) (cap p)"
proof -
  let ?d = "min (saturating_dec a) 31 :: 32 word"
  have d: "unat ?d = min (unat a - 1) 31"
    by (auto simp: min_def word_le_nat_alt unat_saturating_dec)
  then have "unat ?d < 32" by simp
  then have "(2::nat) ^ unat ?d < 2 ^ 32" by (rule power_strict_increasing) simp
  then have "unat (of_nat (2 ^ unat ?d) :: 32 word) = 2 ^ unat ?d"
    by (simp add: unat_of_nat take_bit_nat_eq_self del: of_nat_power)
  then have "unat (push_bit (unat ?d) 1 :: 32 word) = 2 ^ unat ?d" by (simp add: push_bit_eq_mult)
  then show ?thesis unfolding d by (simp add: delay_def Let_def dur_saturating_mul_def d)
qed

lemma jittered_eq:
  "jittered hash d n a =
     (let half = min (d div 1000000) u64_max div 2
      in if half = 0 then d else (half + unat (hash (n, a)) mod (half + 1)) * 1000000)"
  by (simp add: jittered_def Let_def from_millis_def as_millis_def u64_clamp_def min_def)

lemma half_arith:
  fixes q h D :: nat
  assumes "j = (h + q) * k" "q \<le> h" "2 * h \<le> D" "D \<le> 2 * h + 1" "D * k \<le> d" "d < (D + 1) * k"
  shows "j \<le> d \<and> d < 2 * (j + 1 * k)"
proof
  have "(h + q) * k \<le> D * k" using assms(2,3) by (intro mult_right_mono) simp_all
  then show "j \<le> d" unfolding assms(1) using assms(5) by (rule order_trans)
  have "(D + 1) * k \<le> (2 * (h + q) + 2) * k" using assms(4) by (intro mult_right_mono) simp_all
  with assms(6) have "d < (2 * (h + q) + 2) * k" by (rule less_le_trans)
  then show "d < 2 * (j + 1 * k)" unfolding assms(1) by (simp add: algebra_simps)
qed

subsection \<open>Properties\<close>

text \<open>
  C15. The process never looks healthy with a dead worker in it: in every reachable state a
  supervisor that has returned was disabled by its check, was cancelled, gave up because
  shutdown had begun, or has left its worker recorded as failed with health down, and with
  shutdown begun too unless the worker simply returned and had no restart policy. Conversely
  health is down only when some worker ended terminally.
\<close>

theorem no_silent_death:
  assumes "sup_reachable infos hash s" "distinct (map wi_name infos)" "i < length infos"
  shows "(\<forall>x. phases s ! i = Ended x \<longrightarrow>
       (case x of
          WasDisabled \<Rightarrow> is_disabled (wi_name (infos ! i)) (wd s)
        | WasCancelled \<Rightarrow> True
        | InShutdown \<Rightarrow> shutdown (wd s)
        | Terminal e \<Rightarrow> map_of (worker_states (wd s)) (wi_name (infos ! i)) = Some Failed \<and> \<not> healthz (wd s) \<and>
            (shutdown (wd s) \<or> e = Completed \<and> wi_restart (infos ! i) = None))) \<and>
     (\<not> healthz (wd s) \<longrightarrow> (\<exists>k < length infos. \<exists>e. phases s ! k = Ended (Terminal e)))"
proof -
  have inv: "sup_inv infos s" by (rule sup_inv_reachable [OF assms(1,2)])
  then have "phase_ok (infos ! i) (phases s ! i) (wd s)" using assms(3) by (simp add: sup_inv_def)
  then show ?thesis
    using blame_inv_reachable [OF assms(1)] inv
    by (auto simp: phase_ok_def is_disabled_def worker_states_def blame_inv_def in_set_conv_nth sup_inv_def
          split: ended.splits)
qed

definition demo_info :: worker_info where
  "demo_info = \<lparr>wi_name = ''w'', wi_restart = None, wi_has_check = False\<rparr>"

definition demo_dead :: sup_sys where
  "demo_dead = (let s = sup_init [demo_info] True reporting_new;
      w1 = snd (begin_supervise demo_info (Inr True) (wd s));
      r = after_run (\<lambda>_. 0) demo_info 0 (Finished (Inr (Inl ''boom''))) 0 w1
    in \<lparr>wd = snd r, phases = [fst r]\<rparr>)"

lemma demo_dead_reachable: "sup_reachable [demo_info] (\<lambda>_. 0) demo_dead"
proof -
  let ?s = "sup_init [demo_info] True reporting_new"
  let ?b = "begin_supervise demo_info (Inr True) (wd ?s)"
  let ?t = "\<lparr>wd = snd ?b, phases = [fst ?b]\<rparr>"
  have aw: "fst ?b = Awaiting 0"
    by (simp add: begin_supervise_def check_enabled_def demo_info_def enter_run_def)
  have "sup_reachable [demo_info] (\<lambda>_. 0) ?t"
    by (rule sup_reachable.step [OF sup_reachable.init [where gauged = True and r = reporting_new]])
       (use sup_step.begins [where i = 0 and infos = "[demo_info]" and answer = "Inr True" and s = ?s
          and ph = "fst ?b" and w = "snd ?b" and hash = "\<lambda>_. 0"] in \<open>simp add: sup_init_def\<close>)
  then show ?thesis
    by (rule sup_reachable.step)
       (use sup_step.run_ends [where i = 0 and infos = "[demo_info]" and s = ?t and attempt = 0
          and j = "Finished (Inr (Inl ''boom''))" and elapsed = 0 and hash = "\<lambda>_. 0"] aw
        in \<open>simp add: demo_dead_def Let_def\<close>)
qed

lemma demo_dead_phase: "phases demo_dead = [Ended (Terminal (ExitErr ''boom''))]"
  by (simp add: demo_dead_def Let_def after_run_def run_once_def demo_info_def begin_supervise_def
      check_enabled_def enter_run_def sup_init_def install_state_gauge_def)

theorem no_silent_death_witness:
  "\<not> healthz (wd demo_dead) \<and> map_of (worker_states (wd demo_dead)) ''w'' = Some Failed"
  using no_silent_death [OF demo_dead_reachable, of 0] by (simp add: demo_dead_phase) (simp add: demo_info_def)

text \<open>
  C39. What \<open>/healthz\<close> and the metric show is where the workers are: in every reachable state the
  recorded states are in ascending order of name without duplicates, a worker being awaited is
  recorded as running, one waiting out a backoff as backing off, and the last values given to
  an installed gauge are one for the recorded state of each worker and zero for the others.
\<close>

theorem states_and_gauge_true:
  assumes "sup_reachable infos hash s" "distinct (map wi_name infos)" "i < length infos"
  shows "sorted_wrt (<) (map fst (worker_states (wd s))) \<and>
     (\<forall>a. phases s ! i = Awaiting a \<longrightarrow> map_of (worker_states (wd s)) (wi_name (infos ! i)) = Some Running) \<and>
     (\<forall>a d. phases s ! i = Sleeping a d \<longrightarrow> map_of (worker_states (wd s)) (wi_name (infos ! i)) = Some BackingOff) \<and>
     (\<forall>calls name st c. gauge (wd s) = Some calls \<and> map_of (worker_states (wd s)) name = Some st \<longrightarrow>
        gauge_value calls name (state_str c) = Some (if c = st then 1 else 0))"
proof -
  have inv: "world_ok (wd s)" "phase_ok (infos ! i) (phases s ! i) (wd s)"
    using sup_inv_reachable [OF assms(1,2)] assms(3) by (simp_all add: sup_inv_def)
  show ?thesis
    using inv(1) by (intro conjI allI impI)
      (use inv(2) in \<open>simp_all add: world_ok_def phase_ok_def worker_states_def bt_sorted_def\<close>)
qed

theorem states_and_gauge_true_witness:
  "\<exists>calls. gauge (wd demo_dead) = Some calls \<and> gauge_value calls ''w'' ''failed'' = Some 1"
proof -
  have "map_of (worker_states (wd demo_dead)) ''w'' = Some Failed" "\<exists>calls. gauge (wd demo_dead) = Some calls"
    by (simp_all add: demo_dead_def Let_def after_run_def run_once_def demo_info_def terminate_eq fail_def
        begin_supervise_def check_enabled_def enter_run_def sup_init_def install_state_gauge_def worker_states_def
        gauge_set_state)
  moreover have "gauge_value calls ''w'' (state_str Failed) = Some 1"
    if "gauge (wd demo_dead) = Some calls" "map_of (worker_states (wd demo_dead)) ''w'' = Some Failed" for calls
  proof -
    have "gauge_value calls ''w'' (state_str Failed) = Some (if Failed = Failed then 1 else 0)"
      using states_and_gauge_true [OF demo_dead_reachable, of 0] that by (simp del: state_str.simps)
    then show ?thesis by simp
  qed
  ultimately show ?thesis by auto
qed

text \<open>
  C16. The restart bound measures consecutive rapid failures: a worker whose every run ends within
  the policy's cap is restarted exactly \<open>max_restarts\<close> times, with health untouched until then,
  and its next end is terminal, marks it failed, takes health down and begins shutdown. A run
  that lasts as long as the cap puts the count back to the first restart.
\<close>

theorem restarts_bounded:
  assumes "wi_restart info = Some p" "run_once j = Some e" "elapsed < cap p" "\<not> shutdown w"
    and "max_restarts p \<noteq> - 1"
  shows "(\<forall>n \<le> unat (max_restarts p). \<exists>w'.
        (relapse hash info j elapsed ^^ (2 * n)) (Awaiting 0, w) = (Awaiting (of_nat n), w') \<and> healthz w' = healthz w) \<and>
     (\<exists>w'. (relapse hash info j elapsed ^^ (2 * unat (max_restarts p) + 1)) (Awaiting 0, w) = (Ended (Terminal e), w') \<and>
        map_of (worker_states w') (wi_name info) = Some Failed \<and> \<not> healthz w' \<and> shutdown w') \<and>
     (\<forall>a long. cap p \<le> long \<and> 0 < max_restarts p \<longrightarrow> (\<exists>d w'. after_run hash info a j long w = (Sleeping 1 d, w')))"
proof (intro conjI allI impI)
  let ?N = "unat (max_restarts p)"
  fix n assume "n \<le> ?N"
  then show "\<exists>w'. (relapse hash info j elapsed ^^ (2 * n)) (Awaiting 0, w) = (Awaiting (of_nat n), w') \<and> healthz w' = healthz w"
    using relapse_many [OF assms(1-4), of n hash] by blast
next
  let ?N = "unat (max_restarts p)"
  obtain w1 where w1: "(relapse hash info j elapsed ^^ (2 * ?N)) (Awaiting 0, w) = (Awaiting (max_restarts p), w1)"
    "\<not> shutdown w1"
    using relapse_many [OF assms(1-4), of ?N hash] by auto
  have "saturating_inc (max_restarts p) > max_restarts p"
    by (rule saturating_inc_greater [OF assms(5)])
  then show "\<exists>w'. (relapse hash info j elapsed ^^ (2 * ?N + 1)) (Awaiting 0, w) = (Ended (Terminal e), w') \<and>
        map_of (worker_states w') (wi_name info) = Some Failed \<and> \<not> healthz w' \<and> shutdown w'"
    using assms(1-3) w1
    by (simp add: relapse_def after_run_def Let_def worker_states_def not_le)
next
  fix a long assume "cap p \<le> long \<and> 0 < max_restarts p"
  then have "1 \<le> max_restarts p" by (simp add: word_le_nat_alt word_less_nat_alt)
  then show "\<exists>d w'. after_run hash info a j long w = (Sleeping 1 d, w')"
    using assms(1,2,4) \<open>cap p \<le> long \<and> 0 < max_restarts p\<close>
    by (auto simp: after_run_def Let_def saturating_inc_def not_less)
qed

definition demo_policy :: restart_policy where
  "demo_policy = with_max_restarts 2 (backoff (from_secs 1) (from_secs 60))"

theorem restarts_bounded_witness:
  "\<exists>w'. (relapse (\<lambda>_. 0) (demo_info\<lparr>wi_restart := Some demo_policy\<rparr>) (Finished (Inr (Inr ()))) (from_secs 3) ^^ 5)
       (Awaiting 0, wd (sup_init [] False reporting_new)) = (Ended (Terminal Completed), w') \<and> shutdown w'"
  using restarts_bounded [of "demo_info\<lparr>wi_restart := Some demo_policy\<rparr>" demo_policy "Finished (Inr (Inr ()))" Completed
      "from_secs 3" "wd (sup_init [] False reporting_new)" "\<lambda>_. 0"]
  by (auto simp: run_once_def demo_policy_def with_max_restarts_def backoff_def cap_def from_secs_def
      sup_init_def install_state_gauge_def)

text \<open>
  The backoff: the delay before restart \<open>a\<close> is the minimum doubled \<open>a - 1\<close> times, at most 31,
  and capped; it never exceeds the cap, is never below the minimum and grows with the
  attempt; and the delay slept is it again or at most a millisecond less than between its half
  and itself, whatever the hash.
\<close>

theorem backoff_bounds:
  assumes "cap p \<le> duration_max" "as_millis (delay p a) \<le> u64_max" "a \<le> b"
  shows "delay p a = min (min_backoff p * 2 ^ min (unat a - 1) 31) (cap p) \<and>
     min_backoff p \<le> delay p a \<and> delay p a \<le> cap p \<and> delay p a \<le> delay p b \<and>
     jittered hash (delay p a) n a \<le> delay p a \<and>
     delay p a < 2 * (jittered hash (delay p a) n a + from_millis 1)"
proof -
  have m: "min_backoff p \<le> cap p" by (simp add: cap_def)
  have eq: "delay p c = min (min_backoff p * 2 ^ min (unat c - 1) 31) (cap p)" for c
    using assms(1) by (simp add: delay_eq min_def)
  have "unat a \<le> unat b" using assms(3) by (simp add: word_le_nat_alt)
  then have "(2::nat) ^ min (unat a - 1) 31 \<le> 2 ^ min (unat b - 1) 31"
    by (intro power_increasing min.mono diff_le_mono) simp_all
  then have mono: "delay p a \<le> delay p b"
    unfolding eq by (intro min.mono mult_le_mono2 order_refl)
  have low: "min_backoff p \<le> delay p a" unfolding eq using m by simp
  have jit: "jittered hash d n a \<le> d \<and> d < 2 * (jittered hash d n a + from_millis 1)"
    if "as_millis d \<le> u64_max" for d
  proof -
    let ?h = "d div 1000000 div 2" and ?o = "unat (hash (n, a))"
    define q where "q = ?o mod (?h + 1)"
    have q: "q \<le> ?h" using mod_less_divisor [of "?h + 1" ?o] by (simp add: q_def)
    have h: "2 * ?h \<le> d div 1000000" "d div 1000000 \<le> 2 * ?h + 1"
      "d div 1000000 * 1000000 \<le> d" "d < (d div 1000000 + 1) * 1000000"
      by (simp_all add: dividend_less_times_div)
    have jit: "jittered hash d n a = (if ?h = 0 then d else (?h + q) * 1000000)"
      using that by (simp add: jittered_eq Let_def as_millis_def min_def q_def)
    show ?thesis
    proof (cases "?h = 0")
      case False
      then have "jittered hash d n a = (?h + q) * 1000000" using jit by (simp only: if_False)
      then show ?thesis unfolding from_millis_def by (intro half_arith [OF _ q h])
    qed (use jit in \<open>simp add: from_millis_def\<close>)
  qed
  show ?thesis using eq low mono jit [OF assms(2)] by simp
qed

theorem backoff_bounds_witness:
  "delay demo_policy 3 = from_secs 4 \<and> jittered (\<lambda>_. 5) (delay demo_policy 3) ''w'' 3 \<le> from_secs 4"
  using backoff_bounds [of demo_policy 3 4 "\<lambda>_. 5" "''w''"]
  by (simp add: delay_eq demo_policy_def with_max_restarts_def backoff_def cap_def from_secs_def duration_max_def
      as_millis_def u64_max_def)

text \<open>
  The spread is not quite the documented interval from half the delay to the delay: it works
  in whole milliseconds and rounds the half down, so a delay of three milliseconds may be
  slept as one.
\<close>

theorem jitter_below_half:
  "2 * jittered (\<lambda>_. 0) (from_millis 3) ''w'' 1 < from_millis 3"
  by (simp add: jittered_eq Let_def from_millis_def u64_max_def)

end
