(* ===== verification/StaticFiles.thy ===== *)
theory StaticFiles
  imports HttpTypes
begin

text \<open>
  Static mounts, \<^verbatim>\<open>crates/flatbed/src/hyper/static_files.rs\<close>: stripping the mount, resolving the
  request path without leaving the directory, reading, the fallback and its exclusions, and
  the headers by file extension. The file system is a map from paths to contents; a directory
  embedded in the binary is its own lookup. Paths follow \<open>std::path\<close> on Unix.
\<close>

subsection \<open>Paths\<close>

datatype component = Normal string | CurDir | ParentDir | RootDir

text \<open>
  \<open>Path::components\<close>: a leading separator is the root, repeated separators count once, and a
  lone dot is seen only at the start of a relative path.
\<close>

fun segment_components :: "string list \<Rightarrow> component list" where
  "segment_components [] = []"
| "segment_components (s # ss) =
     (if s = [] \<or> s = ''.'' then segment_components ss
      else if s = ''..'' then ParentDir # segment_components ss
      else Normal s # segment_components ss)"

definition components :: "string \<Rightarrow> component list" where
  "components p =
     (case split_on CHR ''/'' p of
        [] \<Rightarrow> []
      | s # ss \<Rightarrow>
          (if s = [] \<and> p \<noteq> [] then RootDir # segment_components ss
           else if s = ''.'' then CurDir # segment_components ss
           else segment_components (s # ss)))"

text \<open>\<open>Path::join\<close> and \<open>PathBuf::push\<close>: an absolute path replaces what it is joined to.\<close>

definition path_join :: "string \<Rightarrow> string \<Rightarrow> string" where
  "path_join d p =
     (if prefix ''/'' p then p
      else if d = [] \<or> suffix ''/'' d then d @ p
      else d @ ''/'' @ p)"

text \<open>\<open>Path::extension\<close>, lower-cased: what follows the last dot of the file name, unless it begins it.\<close>

definition file_name :: "string \<Rightarrow> string option" where
  "file_name p = (case rev (components p) of Normal s # _ \<Rightarrow> Some s | _ \<Rightarrow> None)"

definition extension :: "string \<Rightarrow> string option" where
  "extension p =
     (case file_name p of
        None \<Rightarrow> None
      | Some s \<Rightarrow>
          (let after = takeWhile (\<lambda>c. c \<noteq> CHR ''.'') (rev s)
           in if length after + 1 \<ge> length s then None else Some (to_lowercase (rev after))))"

subsection \<open>Headers by extension\<close>

definition cache_control :: "string \<Rightarrow> string" where
  "cache_control p =
     (case extension p of
        None \<Rightarrow> ''no-cache''
      | Some e \<Rightarrow>
          if e \<in> {''html'', ''json'', ''txt'', ''ico'', ''xml'', ''webmanifest''} then ''no-cache''
          else ''public, max-age=31536000, immutable'')"

definition media_types :: "(string \<times> string) list" where
  "media_types =
     [(''html'', ''text/html; charset=utf-8''), (''js'', ''text/javascript; charset=utf-8''),
      (''mjs'', ''text/javascript; charset=utf-8''), (''css'', ''text/css; charset=utf-8''),
      (''json'', ''application/json''), (''map'', ''application/json''), (''xml'', ''application/xml''),
      (''webmanifest'', ''application/manifest+json''), (''svg'', ''image/svg+xml''), (''png'', ''image/png''),
      (''jpg'', ''image/jpeg''), (''jpeg'', ''image/jpeg''), (''gif'', ''image/gif''), (''webp'', ''image/webp''),
      (''ico'', ''image/x-icon''), (''woff2'', ''font/woff2''), (''woff'', ''font/woff''), (''ttf'', ''font/ttf''),
      (''wasm'', ''application/wasm''), (''txt'', ''text/plain; charset=utf-8'')]"

definition content_type :: "string \<Rightarrow> string" where
  "content_type p =
     (case Option.bind (extension p) (map_of media_types) of
        Some t \<Rightarrow> t
      | None \<Rightarrow> ''application/octet-stream'')"

definition is_known_asset :: "string \<Rightarrow> bool" where
  "is_known_asset p \<longleftrightarrow> content_type p \<noteq> ''application/octet-stream''"

subsection \<open>Mounts\<close>

datatype static_source = Dir string | Embedded "string \<Rightarrow> bytes option"

record static_route_info =
  mount :: string
  source :: static_source
  fallback :: "string option"
  no_fallback :: "string list"

definition strip_mount :: "string \<Rightarrow> string \<Rightarrow> string option" where
  "strip_mount m path =
     (let m = trim_end_matches CHR ''/'' m
      in if m = [] then Some (trim_start_matches CHR ''/'' path)
         else if path = m then Some []
         else Option.bind (strip_prefix m path) (strip_prefix ''/''))"

fun push_components :: "component list \<Rightarrow> string \<Rightarrow> string option" where
  "push_components [] out = Some out"
| "push_components (Normal s # cs) out = push_components cs (path_join out s)"
| "push_components (CurDir # cs) out = push_components cs out"
| "push_components (ParentDir # cs) out = None"
| "push_components (RootDir # cs) out = None"

definition sanitize :: "string \<Rightarrow> string option" where
  "sanitize rel = push_components (components rel) []"

definition read_source :: "(string \<Rightarrow> bytes option) \<Rightarrow> static_source \<Rightarrow> string \<Rightarrow> bytes option" where
  "read_source fs src rel =
     (case src of Dir d \<Rightarrow> fs (path_join d rel) | Embedded get_file \<Rightarrow> get_file rel)"

definition build :: "'h http_lib \<Rightarrow> bytes \<Rightarrow> string \<Rightarrow> 'h response_parts" where
  "build L bs p =
     (let parts = response_parts_ok L bs (content_type p)
      in parts\<lparr>sp_headers := hm_insert L ''cache-control'' (cache_control p) (sp_headers parts)\<rparr>)"

definition excluded :: "static_route_info \<Rightarrow> string \<Rightarrow> bool" where
  "excluded r rel \<longleftrightarrow> list_ex (\<lambda>p. prefix (trim_start_matches CHR ''/'' p) rel) (no_fallback r)"

definition serve_fallback ::
  "'h http_lib \<Rightarrow> (string \<Rightarrow> bytes option) \<Rightarrow> static_route_info \<Rightarrow> string \<Rightarrow> 'h response_parts option" where
  "serve_fallback L fs r rel =
     (if excluded r rel then None
      else (case fallback r of
              None \<Rightarrow> None
            | Some f \<Rightarrow> map_option (\<lambda>bs. build L bs f) (read_source fs (source r) f)))"

definition serve_one ::
  "'h http_lib \<Rightarrow> (string \<Rightarrow> bytes option) \<Rightarrow> static_route_info \<Rightarrow> string \<Rightarrow> 'h response_parts option" where
  "serve_one L fs r path =
     (case strip_mount (mount r) path of
        None \<Rightarrow> None
      | Some rel \<Rightarrow>
          (case sanitize rel of
             None \<Rightarrow> None
           | Some relative \<Rightarrow>
               if relative \<noteq> [] then
                 (case read_source fs (source r) relative of
                    Some bs \<Rightarrow> Some (build L bs relative)
                  | None \<Rightarrow> if is_known_asset relative then None else serve_fallback L fs r rel)
               else serve_fallback L fs r rel))"

fun serve ::
  "'h http_lib \<Rightarrow> (string \<Rightarrow> bytes option) \<Rightarrow> static_route_info list \<Rightarrow> string \<Rightarrow> 'h response_parts option" where
  "serve L fs [] path = None"
| "serve L fs (r # rs) path =
     (case serve_one L fs r path of Some parts \<Rightarrow> Some parts | None \<Rightarrow> serve L fs rs path)"

subsection \<open>Confinement\<close>

text \<open>A name that stays in the directory it is looked up in.\<close>

definition clean :: "string \<Rightarrow> bool" where
  "clean s \<longleftrightarrow> s \<noteq> [] \<and> s \<noteq> ''.'' \<and> s \<noteq> ''..'' \<and> CHR ''/'' \<notin> set s"

fun names :: "component list \<Rightarrow> string list" where
  "names [] = []"
| "names (Normal s # cs) = s # names cs"
| "names (_ # cs) = names cs"

lemma join_with_snoc:
  "join_with sep (xs @ [x]) = (if xs = [] then x else join_with sep xs @ sep @ x)"
  by (induction sep xs rule: join_with.induct) auto

lemma clean_join_no_slash_end:
  assumes "list_all clean xs" "xs \<noteq> []"
  shows "join_with ''/'' xs \<noteq> [] \<and> \<not> suffix ''/'' (join_with ''/'' xs)"
proof -
  obtain ys y where xs: "xs = ys @ [y]" using assms(2) rev_exhaust by blast
  with assms(1) have y: "y \<noteq> []" "CHR ''/'' \<notin> set y" by (auto simp: clean_def)
  then obtain z c where "y = z @ [c]" "c \<noteq> CHR ''/''" by (cases y rule: rev_cases) auto
  then show ?thesis by (simp add: xs join_with_snoc suffix_def)
qed

lemma path_join_clean:
  assumes "list_all clean xs" "clean s"
  shows "path_join (join_with ''/'' xs) s = join_with ''/'' (xs @ [s])"
proof -
  have "\<not> prefix ''/'' s" using assms(2) by (cases s) (auto simp: clean_def)
  then show ?thesis
    using clean_join_no_slash_end [OF assms(1)] by (auto simp: path_join_def join_with_snoc)
qed

lemma push_components_join:
  assumes "list_all clean (names cs)" "list_all clean xs" "push_components cs (join_with ''/'' xs) = Some p"
  shows "p = join_with ''/'' (xs @ names cs)"
  using assms
proof (induction cs arbitrary: xs)
  case (Cons c cs)
  then show ?case
    using path_join_clean [OF Cons.prems(2)] Cons.IH [of "xs @ [s]" for s]
    by (cases c) simp_all
qed simp

lemma names_segments: "\<forall>s \<in> set ss. CHR ''/'' \<notin> set s \<Longrightarrow> list_all clean (names (segment_components ss))"
  by (induction ss) (auto simp: clean_def)

lemma names_components: "list_all clean (names (components p))"
proof -
  have "\<forall>s \<in> set (split_on CHR ''/'' p). CHR ''/'' \<notin> set s" using split_on_no_sep by blast
  then show ?thesis
    by (cases "split_on CHR ''/'' p") (auto simp: components_def names_segments clean_def)
qed

lemma sanitize_confined: "sanitize rel = Some p \<Longrightarrow> \<exists>cs. list_all clean cs \<and> p = join_with ''/'' cs"
  using push_components_join [of "components rel" "[]" p] names_components [of rel]
  by (auto simp: sanitize_def)

lemma push_parent: "ParentDir \<in> set cs \<Longrightarrow> push_components cs out = None"
  by (induction cs out rule: push_components.induct) auto

lemma sanitize_parent: "''..'' \<in> set (split_on CHR ''/'' rel) \<Longrightarrow> sanitize rel = None"
proof -
  have seg: "''..'' \<in> set ss \<Longrightarrow> ParentDir \<in> set (segment_components ss)" for ss
    by (induction ss) auto
  assume "''..'' \<in> set (split_on CHR ''/'' rel)"
  moreover obtain s ss where sp: "split_on CHR ''/'' rel = s # ss"
    using split_on_nonempty neq_Nil_conv by metis
  ultimately have "ParentDir \<in> set (segment_components (s # ss))" using seg by metis
  then have "ParentDir \<in> set (components rel)"
    by (simp add: components_def sp split: if_splits)
  then show ?thesis by (simp add: sanitize_def push_parent)
qed

text \<open>The paths of the file system a mount may read: clean names under its directory, and the fallback.\<close>

definition may_read :: "static_route_info \<Rightarrow> string \<Rightarrow> bool" where
  "may_read r p \<longleftrightarrow>
     (case source r of
        Embedded _ \<Rightarrow> False
      | Dir d \<Rightarrow> (\<exists>cs. cs \<noteq> [] \<and> list_all clean cs \<and> p = path_join d (join_with ''/'' cs)) \<or>
                 (\<exists>f. fallback r = Some f \<and> p = path_join d f))"

lemma read_source_agree:
  assumes "\<forall>p. may_read r p \<longrightarrow> fs p = fs' p" "(\<exists>cs. cs \<noteq> [] \<and> list_all clean cs \<and> q = join_with ''/'' cs) \<or> fallback r = Some q"
  shows "read_source fs (source r) q = read_source fs' (source r) q"
proof (cases "source r")
  case (Dir d)
  then have "may_read r (path_join d q)" using assms(2) unfolding may_read_def by auto
  then show ?thesis using assms(1) by (simp add: read_source_def Dir)
qed (simp add: read_source_def)

lemma serve_one_agree:
  assumes "\<forall>p. may_read r p \<longrightarrow> fs p = fs' p"
  shows "serve_one L fs r path = serve_one L fs' r path"
proof -
  have f: "serve_fallback L fs r rel = serve_fallback L fs' r rel" for rel
  proof (cases "fallback r")
    case (Some q)
    then have "read_source fs (source r) q = read_source fs' (source r) q"
      by (intro read_source_agree [OF assms] disjI2)
    then show ?thesis by (simp add: serve_fallback_def Some)
  qed (simp add: serve_fallback_def)
  have r: "read_source fs (source r) q = read_source fs' (source r) q" if q: "sanitize rel = Some q" "q \<noteq> []" for rel q
  proof -
    obtain cs where "list_all clean cs" "q = join_with ''/'' cs" using sanitize_confined [OF q(1)] by blast
    moreover from this have "cs \<noteq> []" using q(2) by auto
    ultimately show ?thesis by (intro read_source_agree [OF assms] disjI1) blast
  qed
  show ?thesis
  proof (cases "strip_mount (mount r) path")
    case (Some rel)
    show ?thesis
    proof (cases "sanitize rel")
      case (Some q)
      then show ?thesis using r [OF Some] \<open>strip_mount (mount r) path = Some rel\<close>
        by (cases "q = []") (simp_all add: serve_one_def f split: option.split)
    qed (simp add: serve_one_def Some)
  qed (simp add: serve_one_def)
qed

subsection \<open>Properties\<close>


definition demo_mount :: static_route_info where
  "demo_mount = \<lparr>mount = ''/app/'', source = Dir ''/srv/dist'', fallback = Some ''index.html'', no_fallback = [''/api/'']\<rparr>"


text \<open>
  What a mount answers below its prefix: the file itself when it is there; nothing when a
  recognised asset is missing or the path is excluded from the fallback; otherwise the
  fallback file. An answer is a 200 with the file's bytes, the media type of its extension
  and a cache policy that never pins a page.
\<close>

theorem static_answers:
  assumes "http_ok L" "strip_mount (mount r) path = Some rel" "sanitize rel = Some q"
  shows "(q \<noteq> [] \<and> read_source fs (source r) q = Some bs \<longrightarrow> serve_one L fs r path = Some (build L bs q)) \<and>
     (q \<noteq> [] \<and> read_source fs (source r) q = None \<and> is_known_asset q \<longrightarrow> serve_one L fs r path = None) \<and>
     ((q = [] \<or> read_source fs (source r) q = None) \<and> excluded r rel \<longrightarrow> serve_one L fs r path = None) \<and>
     ((q = [] \<or> read_source fs (source r) q = None \<and> \<not> is_known_asset q) \<and> \<not> excluded r rel \<longrightarrow>
        serve_one L fs r path =
          Option.bind (fallback r) (\<lambda>f. map_option (\<lambda>bs. build L bs f) (read_source fs (source r) f))) \<and>
     (\<forall>p. sp_status (build L bs p) = 200 \<and> sp_body (build L bs p) = bs \<and> sp_content_type (build L bs p) = content_type p \<and>
        hm_all L (sp_headers (build L bs p)) ''cache-control'' = [cache_control p] \<and>
        (content_type p = ''text/html; charset=utf-8'' \<longrightarrow> cache_control p = ''no-cache''))"
proof -
  have b: "sp_status (build L bs p) = 200 \<and> sp_body (build L bs p) = bs \<and> sp_content_type (build L bs p) = content_type p \<and>
      hm_all L (sp_headers (build L bs p)) ''cache-control'' = [cache_control p]" for p
    using assms(1) by (simp add: build_def Let_def response_parts_ok_def response_parts_with_status_def literal_headers)
  have html: "content_type p = ''text/html; charset=utf-8'' \<longrightarrow> cache_control p = ''no-cache''" for p
    by (auto simp: content_type_def cache_control_def media_types_def split: option.splits if_splits)
  show ?thesis
    using assms(2,3) b html by (simp add: serve_one_def serve_fallback_def split: option.split)
qed

theorem static_answers_witness:
  "serve_one list_lib (\<lambda>p. if p = ''/srv/dist/index.html'' then Some [7] else None) demo_mount ''/app/users/7'' =
     Some (build list_lib [7] ''index.html'')"
proof -
  let ?fs = "\<lambda>p. if p = ''/srv/dist/index.html'' then Some [7] else None"
  have "strip_mount (mount demo_mount) ''/app/users/7'' = Some ''users/7''" by code_simp
  moreover have "sanitize ''users/7'' = Some ''users/7''" by code_simp
  moreover have "read_source ?fs (source demo_mount) ''users/7'' = None" by code_simp
  moreover have "read_source ?fs (source demo_mount) ''index.html'' = Some [7]" by code_simp
  moreover have "\<not> is_known_asset ''users/7''" "\<not> excluded demo_mount ''users/7''" by code_simp+
  moreover have "fallback demo_mount = Some ''index.html''" by (simp add: demo_mount_def)
  ultimately show ?thesis
    using static_answers [of list_lib demo_mount "''/app/users/7''" "''users/7''" "''users/7''" ?fs "[]"] by simp
qed

text \<open>
  The exclusion looks at the path before it is resolved: with \<open>/api/\<close> excluded, the mistyped
  path \<open>/app/./api/x\<close> is answered with the page shell while \<open>/app/api/x\<close> is not.
\<close>

theorem exclusion_bypassed:
  "serve_one list_lib (\<lambda>p. if p = ''/srv/dist/index.html'' then Some [7] else None) demo_mount ''/app/api/x'' = None \<and>
   serve_one list_lib (\<lambda>p. if p = ''/srv/dist/index.html'' then Some [7] else None) demo_mount ''/app/./api/x'' =
     Some (build list_lib [7] ''index.html'')"
  by (simp add: serve_one_def serve_fallback_def demo_mount_def strip_mount_def trim_end_matches_def strip_prefix_def
      sanitize_def components_def path_join_def read_source_def is_known_asset_def content_type_def extension_def
      file_name_def excluded_def trim_start_matches_def suffix_to_prefix)

end
