(* ===== verification/RouteWrapper.thy ===== *)
theory RouteWrapper
  imports HttpTypes ErrorReporting
begin

text \<open>
  The handler that \<open>#[route]\<close> generates around a user's function,
  \<^verbatim>\<open>crates/flatbed_macros/src/lib.rs\<close>: decode the body by its content type, extract the context,
  call the function, and encode the response or the error in the codec the request asked for.
  The encoders and decoders of the body types are generated code and serde: parameters.
\<close>

record ('t, 'r, 'd) body_codecs =
  from_json :: "bytes \<Rightarrow> string + 't"
  from_flatbuffer :: "bytes \<Rightarrow> string + 't"
  to_json :: "'r \<Rightarrow> string + bytes"
  to_flatbuffer :: "'r \<Rightarrow> bytes"
  error_to_json :: "string \<Rightarrow> string \<Rightarrow> 'd option \<Rightarrow> string + bytes"
  details_to_flatbuffer :: "'d \<Rightarrow> bytes"

text \<open>How a call of user code ends: with a value, or unwinding, with the backtrace at the panic.\<close>

datatype 'a outcome = Returns 'a | Panics payload string

definition respond_json :: "'h http_lib \<Rightarrow> 'h \<Rightarrow> string \<Rightarrow> bool" where
  "respond_json L h ct =
     (case accepted_codec L h of Some Json \<Rightarrow> True | Some FlatBuffer \<Rightarrow> False | None \<Rightarrow> is_json ct)"

definition respond_flatbuffer :: "'h http_lib \<Rightarrow> 'h \<Rightarrow> string \<Rightarrow> bool" where
  "respond_flatbuffer L h ct =
     (case accepted_codec L h of Some Json \<Rightarrow> False | Some FlatBuffer \<Rightarrow> True | None \<Rightarrow> is_flatbuffer ct)"

definition decode_body :: "('t, 'r, 'd) body_codecs \<Rightarrow> string \<Rightarrow> bytes \<Rightarrow> error + 't" where
  "decode_body cd ct body =
     (if is_json ct then
        (case from_json cd body of
           Inr b \<Rightarrow> Inr b
         | Inl e \<Rightarrow> Inl (DeserializationError (''JSON deserialization error: '' @ e)))
      else if is_flatbuffer ct then
        (case from_flatbuffer cd body of
           Inr b \<Rightarrow> Inr b
         | Inl e \<Rightarrow> Inl (DeserializationError (''FlatBuffer deserialization error: '' @ e)))
      else
        (case from_json cd (str_bytes ''{}'') of
           Inr b \<Rightarrow> Inr b
         | Inl e \<Rightarrow> Inl (DeserializationError (''Empty body deserialization error: '' @ e))))"

text \<open>The loop that copies a header map into another with \<open>insert\<close>.\<close>

definition copy_headers :: "'h http_lib \<Rightarrow> 'h \<Rightarrow> 'h \<Rightarrow> 'h" where
  "copy_headers L from into = fold (\<lambda>(k, v). hm_insert L k v) (hm_iter L from) into"

definition encode_response ::
  "'h http_lib \<Rightarrow> ('t, 'r, 'd) body_codecs \<Rightarrow> bool \<Rightarrow> string \<Rightarrow> ('r, 'h) response \<Rightarrow> error + 'h response_parts" where
  "encode_response L cd json request_id response =
     (let (raw, response) = take_raw response;
          encoded = (case raw of
             Some (bs, ct) \<Rightarrow> Inr (bs, ct)
           | None \<Rightarrow>
               if json then
                 (case to_json cd (rs_body response) of
                    Inr b \<Rightarrow> Inr (b, ''application/json'')
                  | Inl e \<Rightarrow> Inl (SerializationError (''JSON serialization error: '' @ e)))
               else Inr (to_flatbuffer cd (rs_body response), ''application/x-flatbuffers''))
      in case encoded of
           Inl e \<Rightarrow> Inl e
         | Inr (bs, ct) \<Rightarrow>
             (let parts = with_request_id L request_id (response_parts_with_status L bs (rs_status response) ct)
              in Inr (parts\<lparr>sp_headers := copy_headers L (rs_headers response) (sp_headers parts)\<rparr>)))"

text \<open>Insert a header of a fixed name when its value is one a header can carry.\<close>

definition insert_if_valid :: "'h http_lib \<Rightarrow> string \<Rightarrow> string \<Rightarrow> 'h \<Rightarrow> 'h" where
  "insert_if_valid L name value h =
     (case header_value L value of Some v \<Rightarrow> hm_insert L name v h | None \<Rightarrow> h)"

definition encode_error ::
  "'h http_lib \<Rightarrow> ('t, 'r, 'd) body_codecs \<Rightarrow> bool \<Rightarrow> string \<Rightarrow> ('d, 'h) route_error \<Rightarrow> 'h response_parts" where
  "encode_error L cd flatbuffer request_id err =
     (let code = wire_code err;
          h = insert_if_valid L ''x-request-id'' request_id (hm_new L);
          h = copy_headers L (re_headers err) h
      in if flatbuffer then
           \<lparr>sp_body = (case re_details err of Some d \<Rightarrow> details_to_flatbuffer cd d | None \<Rightarrow> []),
            sp_status = re_status err,
            sp_headers = insert_if_valid L ''x-error-message'' (re_message err)
                           (insert_if_valid L ''x-error-code'' code h),
            sp_content_type = ''application/x-flatbuffers''\<rparr>
         else
           \<lparr>sp_body = (case error_to_json cd code (re_message err) (re_details err) of Inr b \<Rightarrow> b | Inl _ \<Rightarrow> []),
            sp_status = re_status err, sp_headers = h, sp_content_type = ''application/json''\<rparr>)"

text \<open>
  The wrapper of the function \<open>f\<close> declared at \<open>route\<close>. \<open>ctx\<close> is the downcast context, or the
  name of the expected type. The reporting state is threaded, since the wrapper reports.
\<close>

definition hyper_handler ::
  "'h http_lib \<Rightarrow> ('t, 'r, 'd) body_codecs \<Rightarrow> string
   \<Rightarrow> (('t, 'c, 'h) request \<Rightarrow> (('d, 'h) route_error + ('r, 'h) response) outcome)
   \<Rightarrow> string + 'c \<Rightarrow> 'h request_parts \<Rightarrow> bytes \<Rightarrow> string \<Rightarrow> reporting
   \<Rightarrow> (error + 'h response_parts) outcome \<times> reporting" where
  "hyper_handler L cd route f ctx parts body ct st =
     (case decode_body cd ct body of
        Inl e \<Rightarrow> (Returns (Inl e), st)
      | Inr b \<Rightarrow>
          (case ctx of
             Inl inner \<Rightarrow> (Returns (Inl (Custom (''Route context type mismatch: expected '' @ inner))), st)
           | Inr c \<Rightarrow>
               (case f \<lparr>rq_body = b, rq_ctx = c, rq_headers = rp_headers parts, rq_method = rp_method parts,
                        rq_path = rp_path parts, rq_path_params = rp_path_params parts,
                        rq_query_params = rp_query_params parts, rq_request_id = rp_request_id parts\<rparr> of
                  Panics p bt \<Rightarrow> (Panics p bt, st)
                | Returns (Inr response) \<Rightarrow>
                    (Returns (encode_response L cd (respond_json L (rp_headers parts) ct) (rp_request_id parts) response), st)
                | Returns (Inl err) \<Rightarrow>
                    (Returns (Inr (encode_error L cd (respond_flatbuffer L (rp_headers parts) ct) (rp_request_id parts) err)),
                     report_http_route_error (rp_method parts) route (rp_path parts) (rp_request_id parts)
                       (re_status err) (wire_code err) (re_message err) st))))"

subsection \<open>Facts\<close>

lemma encode_response_parts:
  "encode_response L cd json rid r = Inr p \<Longrightarrow> sp_status p = rs_status r \<and>
     sp_content_type p = (case rs_raw r of Some (_, ct) \<Rightarrow> ct | None \<Rightarrow>
       if json then ''application/json'' else ''application/x-flatbuffers'')"
  by (auto simp: encode_response_def take_raw_def Let_def with_request_id_def response_parts_with_status_def
      split: option.splits sum.splits if_splits prod.splits)

lemma encode_error_parts:
  "sp_status (encode_error L cd fb rid e) = re_status e"
  "sp_content_type (encode_error L cd fb rid e) = (if fb then ''application/x-flatbuffers'' else ''application/json'')"
  by (simp_all add: encode_error_def Let_def)

text \<open>A wrapper's answer is the encoding of what its function returned.\<close>

lemma hyper_handler_answer:
  assumes "hyper_handler L cd route f ctx parts body ct st = (Returns (Inr p), st')"
  obtains q resp where "f q = Returns (Inr resp)"
      "encode_response L cd (respond_json L (rp_headers parts) ct) (rp_request_id parts) resp = Inr p" "st' = st"
  | q e where "f q = Returns (Inl e)"
      "p = encode_error L cd (respond_flatbuffer L (rp_headers parts) ct) (rp_request_id parts) e"
  using assms by (auto simp: hyper_handler_def split: sum.splits outcome.splits)

text \<open>
  The wrapper's \<open>Ok\<close> branch is taken: the body decodes, the context has its type, the function
  returns \<open>Ok\<close> and the response is encoded.
\<close>

definition wrapper_ok ::
  "'h http_lib \<Rightarrow> ('t, 'r, 'd) body_codecs
   \<Rightarrow> (('t, 'c, 'h) request \<Rightarrow> (('d, 'h) route_error + ('r, 'h) response) outcome)
   \<Rightarrow> string + 'c \<Rightarrow> 'h request_parts \<Rightarrow> bytes \<Rightarrow> string \<Rightarrow> bool" where
  "wrapper_ok L cd f ctx parts body ct =
     (case (decode_body cd ct body, ctx) of
        (Inr b, Inr c) \<Rightarrow>
          (case f \<lparr>rq_body = b, rq_ctx = c, rq_headers = rp_headers parts, rq_method = rp_method parts,
                   rq_path = rp_path parts, rq_path_params = rp_path_params parts,
                   rq_query_params = rp_query_params parts, rq_request_id = rp_request_id parts\<rparr> of
             Returns (Inr response) \<Rightarrow>
               (case encode_response L cd (respond_json L (rp_headers parts) ct) (rp_request_id parts) response of
                  Inr _ \<Rightarrow> True | Inl _ \<Rightarrow> False)
           | _ \<Rightarrow> False)
      | _ \<Rightarrow> False)"

text \<open>What the wrapper's reports amount to: none for an \<open>Ok\<close> answer, one for a returned server error.\<close>

lemma hyper_handler_reports:
  assumes "hyper_handler L cd route f ctx parts body ct st = (res, st')" "reporter st = Some n" "http_ok L"
  shows "reporter st' = Some n \<and>
     (if wrapper_ok L cd f ctx parts body ct then \<exists>p. res = Returns (Inr p) \<and> st' = st
      else case res of
        Returns (Inr p) \<Rightarrow> header_value L (sp_content_type p) = Some (sp_content_type p) \<and>
          (\<exists>reps. delivered st' = delivered st @ map (Pair n) reps \<and>
             length reps = (if is_server_error (sp_status p) then 1 else 0))
      | _ \<Rightarrow> st' = st)"
proof (cases "\<exists>b c. decode_body cd ct body = Inr b \<and> ctx = Inr c")
  case False
  then show ?thesis using assms(1,2) by (auto simp: hyper_handler_def wrapper_ok_def split: sum.splits)
next
  case True
  then obtain b c where bc: "decode_body cd ct body = Inr b" "ctx = Inr c" by blast
  let ?q = "\<lparr>rq_body = b, rq_ctx = c, rq_headers = rp_headers parts, rq_method = rp_method parts,
              rq_path = rp_path parts, rq_path_params = rp_path_params parts,
              rq_query_params = rp_query_params parts, rq_request_id = rp_request_id parts\<rparr>"
  consider (panics) p bt where "f ?q = Panics p bt" | (fine) resp where "f ?q = Returns (Inr resp)"
    | (err) e where "f ?q = Returns (Inl e)"
    by (metis outcome.exhaust sum.exhaust)
  then show ?thesis
  proof cases
    case panics
    then show ?thesis using assms(1,2) bc by (auto simp: hyper_handler_def wrapper_ok_def)
  next
    case fine
    with assms(1,2) bc show ?thesis
      by (cases "encode_response L cd (respond_json L (rp_headers parts) ct) (rp_request_id parts) resp")
         (auto simp: hyper_handler_def wrapper_ok_def)
  next
    case err
    with assms(1) bc have res: "res = Returns (Inr (encode_error L cd (respond_flatbuffer L (rp_headers parts) ct) (rp_request_id parts) e))"
      "st' = report_http_route_error (rp_method parts) route (rp_path parts) (rp_request_id parts)
                     (re_status e) (wire_code e) (re_message e) st" by (auto simp: hyper_handler_def)
    have "\<exists>reps. delivered st' = delivered st @ map (Pair n) reps \<and> length reps = (if is_server_error (re_status e) then 1 else 0)"
    proof (cases "is_server_error (re_status e)")
      case True
      then show ?thesis
        by (intro exI [of _ "[_]"]) (simp add: res(2) report_http_route_error_def route_error_eq assms(2))
    qed (simp add: res(2) report_http_route_error_def)
    moreover have "reporter st' = Some n"
      by (simp add: res(2) report_http_route_error_def route_error_eq assms(2))
    ultimately show ?thesis
      using assms(3) err bc by (simp add: res(1) encode_error_parts literal_headers wrapper_ok_def)
  qed
qed

lemma hm_all_copy:
  assumes "http_ok L"
  shows "hm_all L (copy_headers L from into) k =
     (if hm_all L from k = [] then hm_all L into k else [last (hm_all L from k)])"
proof -
  have "hm_all L (fold (\<lambda>(k, v). hm_insert L k v) xs into) k =
     (if filter (\<lambda>p. fst p = k) xs = [] then hm_all L into k else [snd (last (filter (\<lambda>p. fst p = k) xs))])"
    if "\<forall>(n, v) \<in> set xs. header_name L n = Some n" for xs
    using that by (induction xs arbitrary: into) (auto simp: assms)
  moreover have "\<forall>(n, v) \<in> set (hm_iter L from). header_name L n = Some n"
    using header_name_iter [OF assms] by auto
  ultimately show ?thesis unfolding copy_headers_def hm_all_def by (simp add: last_map)
qed

lemma hm_all_insert_if_valid:
  "http_ok L \<Longrightarrow> header_name L n = Some n \<Longrightarrow> hm_all L (insert_if_valid L n v h) k =
     (case header_value L v of Some w \<Rightarrow> if k = n then [w] else hm_all L h k | None \<Rightarrow> hm_all L h k)"
  by (simp add: insert_if_valid_def split: option.splits)

end
