(* ===== verification/Service.thy ===== *)
theory Service
  imports Router Readiness Supervisor StaticFiles RouteWrapper
begin

text \<open>
  The request service, \<^verbatim>\<open>crates/flatbed/src/hyper/service.rs\<close>: the built-in endpoints, the
  readiness guard, dispatch to a route with everything around its handler, and the response
  builders. A response is an option: \<open>None\<close> is a panic of an \<open>unwrap\<close> in a builder.
\<close>

subsection \<open>Responses\<close>

record 'h http_response =
  hr_status :: status
  hr_headers :: 'h
  hr_body :: bytes

type_synonym 'h reply = "'h http_response option"

text \<open>\<open>http::response::Builder\<close>: a bad header name or value fails the whole build.\<close>

definition builder_header :: "'h http_lib \<Rightarrow> string \<Rightarrow> string \<Rightarrow> 'h option \<Rightarrow> 'h option" where
  "builder_header L k v b =
     (case b of
        None \<Rightarrow> None
      | Some h \<Rightarrow>
          (case (header_name L k, header_value L v) of
             (Some n, Some w) \<Rightarrow> Some (hm_append L n w h)
           | _ \<Rightarrow> None))"

definition builder_body :: "status \<Rightarrow> bytes \<Rightarrow> 'h option \<Rightarrow> 'h reply" where
  "builder_body s bs b = map_option (\<lambda>h. \<lparr>hr_status = s, hr_headers = h, hr_body = bs\<rparr>) b"

definition failed_to_build :: "'h http_lib \<Rightarrow> 'h reply" where
  "failed_to_build L = builder_body 500 (str_bytes ''Failed to build response'') (Some (hm_new L))"

text \<open>The loop that copies the headers whose values are text into a builder.\<close>

definition builder_copy :: "'h http_lib \<Rightarrow> 'h \<Rightarrow> 'h option \<Rightarrow> 'h option" where
  "builder_copy L h b =
     fold (\<lambda>(k, v) b. case header_str L v of Some s \<Rightarrow> builder_header L k s b | None \<Rightarrow> b) (hm_iter L h) b"

definition build_success_response :: "'h http_lib \<Rightarrow> 'h response_parts \<Rightarrow> 'h reply" where
  "build_success_response L p =
     (case builder_body (sp_status p) (sp_body p)
             (builder_copy L (sp_headers p) (builder_header L ''content-type'' (sp_content_type p) (Some (hm_new L)))) of
        Some r \<Rightarrow> Some r
      | None \<Rightarrow> failed_to_build L)"

definition build_plain :: "'h http_lib \<Rightarrow> status \<Rightarrow> string \<Rightarrow> bytes \<Rightarrow> 'h reply" where
  "build_plain L s ct bs = builder_body s bs (builder_header L ''content-type'' ct (Some (hm_new L)))"

definition build_not_found :: "'h http_lib \<Rightarrow> 'h reply" where
  "build_not_found L = build_plain L 404 ''text/plain'' (str_bytes ''Not Found'')"

definition build_method_not_allowed :: "'h http_lib \<Rightarrow> string list \<Rightarrow> 'h reply" where
  "build_method_not_allowed L allowed =
     builder_body 405 (str_bytes ''Method Not Allowed'')
       (builder_header L ''allow'' (join_with '', '' allowed)
         (builder_header L ''content-type'' ''text/plain'' (Some (hm_new L))))"

definition build_unsupported_media_type :: "'h http_lib \<Rightarrow> 'h reply" where
  "build_unsupported_media_type L =
     build_plain L 415 ''text/plain'' (str_bytes ''Content-Type must be application/json or application/x-flatbuffers'')"

definition build_route_error_response :: "'h http_lib \<Rightarrow> ('d, 'h) route_error \<Rightarrow> bool \<Rightarrow> string \<Rightarrow> 'h reply" where
  "build_route_error_response L err flatbuffer request_id =
     (let code = wire_code err;
          h = insert_if_valid L ''x-request-id'' request_id (hm_new L);
          h = copy_headers L (re_headers err) h;
          (h, body, ct) =
            (if flatbuffer then
               (insert_if_valid L ''x-error-message'' (re_message err) (insert_if_valid L ''x-error-code'' code h),
                [], ''application/x-flatbuffers'')
             else (h, json_error L code (re_message err), ''application/json''))
      in case builder_body (re_status err) body
                (builder_copy L h (builder_header L ''content-type'' ct (Some (hm_new L)))) of
           Some r \<Rightarrow> Some r
         | None \<Rightarrow> failed_to_build L)"

definition build_error_response :: "'h http_lib \<Rightarrow> status \<Rightarrow> string \<Rightarrow> string \<Rightarrow> 'h reply" where
  "build_error_response L s code message = build_plain L s ''application/json'' (json_error L code message)"

definition build_text_response :: "'h http_lib \<Rightarrow> status \<Rightarrow> string \<Rightarrow> 'h reply" where
  "build_text_response L s body = build_plain L s ''text/plain'' (str_bytes body)"

definition build_metrics_response :: "'h http_lib \<Rightarrow> string \<Rightarrow> 'h reply" where
  "build_metrics_response L metrics = build_plain L 200 ''text/plain; version=0.0.4; charset=utf-8'' (str_bytes metrics)"

definition build_json_response :: "'h http_lib \<Rightarrow> string \<Rightarrow> 'h reply" where
  "build_json_response L json = build_plain L 200 ''application/json'' (str_bytes json)"

subsection \<open>The context\<close>

record ('c, 'h) route_entry =
  entry_path :: string
  entry_handler :: "'h request_parts \<Rightarrow> bytes \<Rightarrow> string \<Rightarrow> 'c option \<Rightarrow> reporting
    \<Rightarrow> (error + 'h response_parts) outcome \<times> reporting"

text \<open>
  \<open>sc_telemetry\<close> is the metrics feed's answer when telemetry is configured; the OpenAPI
  functions and the baked-in schema are other modules'; \<open>sc_fs\<close> is the file system the static
  mounts read.
\<close>

record ('c, 'h) service_ctx =
  sc_router :: "('c, 'h) route_entry router_node"
  sc_healthz :: bool
  sc_booted :: bool
  sc_context :: "'c option"
  sc_readiness :: readiness
  sc_splash :: "string option"
  sc_telemetry :: "(string + string) option"
  sc_states :: "(string \<times> worker_state) list"
  sc_before_request :: "('h request_parts \<Rightarrow> (unit, 'h) route_error option) option"
  sc_static :: "static_route_info list"
  sc_fs :: "string \<Rightarrow> bytes option"
  sc_latest_version :: string
  sc_versions :: "string list"
  sc_openapi_json :: "string \<Rightarrow> string"
  sc_bfbs :: "bytes option"

definition sc_is_ready :: "('c, 'h) service_ctx \<Rightarrow> bool" where
  "sc_is_ready cx \<longleftrightarrow> sc_booted cx \<and> is_ready (sc_readiness cx)"

definition blocked_gates :: "('c, 'h) service_ctx \<Rightarrow> string option" where
  "blocked_gates cx =
     (if \<not> sc_booted cx then None
      else (let blocked = blocked_on (sc_readiness cx)
            in if blocked = [] then None else Some (join_with '', '' blocked)))"

subsection \<open>Built-in endpoints\<close>

definition is_get_or_head :: "string \<Rightarrow> bool" where
  "is_get_or_head m \<longleftrightarrow> eq_ignore_ascii_case m ''GET'' \<or> eq_ignore_ascii_case m ''HEAD''"

definition handle_splash_endpoint :: "'h http_lib \<Rightarrow> ('c, 'h) service_ctx \<Rightarrow> string \<Rightarrow> string \<Rightarrow> 'h reply option" where
  "handle_splash_endpoint L cx m path =
     (if \<not> is_get_or_head m \<or> path \<noteq> ''/'' then None
      else map_option (\<lambda>s. build_plain L 200 ''text/plain; charset=utf-8'' (str_bytes s)) (sc_splash cx))"

definition health_body :: "string \<Rightarrow> (string \<times> worker_state) list \<Rightarrow> string" where
  "health_body verdict sts =
     fold (\<lambda>(name, st) body. if st = Running then body else body @ [CHR 10] @ name @ '': '' @ state_str st) sts verdict"

definition handle_telemetry_endpoint :: "'h http_lib \<Rightarrow> ('c, 'h) service_ctx \<Rightarrow> string \<Rightarrow> string \<Rightarrow> 'h reply option" where
  "handle_telemetry_endpoint L cx m path =
     (if \<not> is_get_or_head m then None
      else (case sc_telemetry cx of
              None \<Rightarrow> None
            | Some feed \<Rightarrow>
                if path = ''/healthz'' then
                  (let (s, verdict) = (if sc_healthz cx then (200, ''OK'') else (503, ''Not Healthy''))
                   in Some (build_text_response L s (health_body verdict (sc_states cx))))
                else if path = ''/readyz'' then
                  (if sc_is_ready cx then Some (build_text_response L 200 ''Ready'')
                   else Some (build_text_response L 503
                     (case blocked_gates cx of Some gs \<Rightarrow> ''Not Ready: '' @ gs | None \<Rightarrow> ''Not Ready'')))
                else if path = ''/metrics'' then
                  (case feed of
                     Inr f \<Rightarrow> Some (build_metrics_response L f)
                   | Inl e \<Rightarrow> Some (build_error_response L 500 ''METRICS_ERROR'' e))
                else None))"

definition handle_openapi_endpoint :: "'h http_lib \<Rightarrow> ('c, 'h) service_ctx \<Rightarrow> string \<Rightarrow> string \<Rightarrow> 'h reply option" where
  "handle_openapi_endpoint L cx m path =
     (if \<not> is_get_or_head m then None
      else if path = ''/openapi.json'' then Some (build_json_response L (sc_openapi_json cx (sc_latest_version cx)))
      else map_option (\<lambda>v. build_json_response L (sc_openapi_json cx v))
             (List.find (\<lambda>v. path = ''/'' @ v @ ''/openapi.json'') (sc_versions cx)))"

definition handle_schema_endpoint :: "'h http_lib \<Rightarrow> ('c, 'h) service_ctx \<Rightarrow> string \<Rightarrow> string \<Rightarrow> 'h reply option" where
  "handle_schema_endpoint L cx m path =
     (if \<not> is_get_or_head m \<or> path \<noteq> ''/schema.bfbs'' then None
      else (case sc_bfbs cx of
              None \<Rightarrow> Some (build_not_found L)
            | Some bs \<Rightarrow> Some (build_plain L 200 ''application/octet-stream'' bs)))"

text \<open>The endpoints in the order they are tried.\<close>

definition builtin_endpoint :: "'h http_lib \<Rightarrow> ('c, 'h) service_ctx \<Rightarrow> string \<Rightarrow> string \<Rightarrow> 'h reply option" where
  "builtin_endpoint L cx m path =
     (case handle_splash_endpoint L cx m path of
        Some r \<Rightarrow> Some r
      | None \<Rightarrow>
          (case (if sc_telemetry cx \<noteq> None then handle_telemetry_endpoint L cx m path else None) of
             Some r \<Rightarrow> Some r
           | None \<Rightarrow>
               (case handle_openapi_endpoint L cx m path of
                  Some r \<Rightarrow> Some r
                | None \<Rightarrow> handle_schema_endpoint L cx m path)))"

subsection \<open>Dispatch\<close>

record 'h http_request =
  hq_method :: string
  hq_path :: string
  hq_query :: "string option"
  hq_headers :: 'h
  hq_body :: "string + bytes"

definition not_ready_response :: "'h http_lib \<Rightarrow> ('c, 'h) service_ctx \<Rightarrow> 'h reply" where
  "not_ready_response L cx =
     (case blocked_gates cx of
        Some gs \<Rightarrow> build_error_response L 503 ''NOT_READY'' (''Waiting on '' @ gs)
      | None \<Rightarrow> build_error_response L 503 ''BOOTING'' ''Server is starting up, please retry shortly'')"

definition no_route_response :: "'h http_lib \<Rightarrow> ('c, 'h) service_ctx \<Rightarrow> string \<Rightarrow> string \<Rightarrow> 'h reply" where
  "no_route_response L cx m path =
     (let allowed = get_allowed_methods (sc_router cx) path
      in if allowed \<noteq> [] then build_method_not_allowed L allowed
         else if is_get_or_head m \<and> sc_static cx \<noteq> [] then
           (case serve L (sc_fs cx) (sc_static cx) path of
              Some parts \<Rightarrow> build_success_response L parts
            | None \<Rightarrow> build_not_found L)
         else build_not_found L)"

text \<open>A pair of the query string: the key up to the first equals sign, pairs without a key dropped.\<close>

definition query_pair :: "string \<Rightarrow> (string \<times> string) option" where
  "query_pair pair =
     (let k = takeWhile (\<lambda>c. c \<noteq> CHR ''='') pair
      in if k = [] then None else Some (k, drop (Suc (length k)) pair))"

definition parse_query :: "string \<Rightarrow> (string \<rightharpoonup> string)" where
  "parse_query q = fold (\<lambda>(k, v) m. m(k \<mapsto> v)) (List.map_filter query_pair (split_on CHR ''&'' q)) Map.empty"

definition copy_request_headers :: "'h http_lib \<Rightarrow> 'h \<Rightarrow> 'h" where
  "copy_request_headers L from =
     fold (\<lambda>(k, v) h. case (header_value L v, header_name L k) of (Some w, Some n) \<Rightarrow> hm_insert L n w h | _ \<Rightarrow> h)
       (hm_iter L from) (hm_new L)"

definition content_type_of :: "'h http_lib \<Rightarrow> 'h http_request \<Rightarrow> string" where
  "content_type_of L rq =
     (case Option.bind (hm_get L (hq_headers rq) ''content-type'') (header_str L) of Some s \<Rightarrow> s | None \<Rightarrow> [])"

definition build_parts :: "'h http_lib \<Rightarrow> string \<Rightarrow> 'h http_request \<Rightarrow> (string \<rightharpoonup> string) \<Rightarrow> 'h request_parts" where
  "build_parts L uuid rq params =
     (let p = request_parts_new L uuid (hq_method rq) (hq_path rq);
          p = p\<lparr>rp_headers := copy_request_headers L (hq_headers rq), rp_path_params := params\<rparr>;
          p = (case hq_query rq of Some q \<Rightarrow> p\<lparr>rp_query_params := parse_query q\<rparr> | None \<Rightarrow> p)
      in with_request_id_from_header L p)"

definition error_status :: "error \<Rightarrow> status \<times> string" where
  "error_status e =
     (case e of
        DeserializationError _ \<Rightarrow> (400, ''BAD_REQUEST'')
      | SerializationError _ \<Rightarrow> (500, ''SERIALIZATION_ERROR'')
      | HandlerError _ \<Rightarrow> (500, ''HANDLER_ERROR'')
      | Custom _ \<Rightarrow> (500, ''INTERNAL_ERROR''))"

definition needs_body :: "string \<Rightarrow> bool" where
  "needs_body m \<longleftrightarrow> to_uppercase m \<in> {''POST'', ''PUT'', ''PATCH''}"

definition route_failure_of :: "route_request \<Rightarrow> status \<Rightarrow> string \<Rightarrow> string \<Rightarrow> route_failure" where
  "route_failure_of route s code message =
     \<lparr>rf_request = route, rf_status = s, rf_code = Some code, rf_message = message\<rparr>"

text \<open>What is made of the handler's end.\<close>

definition after_handler ::
  "'h http_lib \<Rightarrow> route_request \<Rightarrow> bool \<Rightarrow> string \<Rightarrow> (error + 'h response_parts) outcome \<Rightarrow> reporting
   \<Rightarrow> 'h reply \<times> reporting" where
  "after_handler L route fb request_id res st =
     (case catch_poll (case res of Returns r \<Rightarrow> Ready r | Panics p bt \<Rightarrow> Unwound p bt) st of
        (Ready (Inr (Inr parts)), st) \<Rightarrow> (build_success_response L parts, st)
      | (Ready (Inl panic), st) \<Rightarrow>
          (build_route_error_response L (with_code PANIC_CODE (internal L ''handler panicked'') :: (unit, 'h) route_error)
             fb request_id, route_panic route panic st)
      | (Ready (Inr (Inl e)), st) \<Rightarrow>
          (let (s, code) = error_status e;
               err = with_code code (re_with_status L s (error_str e)) :: (unit, 'h) route_error
           in (build_route_error_response L err fb request_id,
               if is_server_error s then route_error (route_failure_of route s code (re_message err)) st else st))
      | (Pending, st) \<Rightarrow> (None, st))"

definition answer_route ::
  "'h http_lib \<Rightarrow> ('c, 'h) service_ctx \<Rightarrow> string \<Rightarrow> 'h http_request \<Rightarrow> ('c, 'h) route_entry
   \<Rightarrow> (string \<rightharpoonup> string) \<Rightarrow> reporting \<Rightarrow> 'h reply \<times> reporting" where
  "answer_route L cx uuid rq entry params st =
     (let ct = content_type_of L rq;
          parts = build_parts L uuid rq params;
          fb = respond_flatbuffer L (rp_headers parts) ct;
          route = \<lparr>rr_transport = Http, rr_method = Some (hq_method rq), rr_route = entry_path entry,
                   rr_path = hq_path rq, rr_request_id = rp_request_id parts\<rparr>
      in case (case sc_before_request cx of None \<Rightarrow> None | Some before \<Rightarrow> before parts) of
           Some err \<Rightarrow>
             (build_route_error_response L err fb (rp_request_id parts),
              if is_server_error (re_status err)
              then route_error (route_failure_of route (re_status err) (wire_code err) (re_message err)) st else st)
         | None \<Rightarrow>
             if needs_body (hq_method rq) \<and> \<not> is_json ct \<and> \<not> is_flatbuffer ct
             then (build_unsupported_media_type L, st)
             else (case hq_body rq of
                     Inl e \<Rightarrow>
                       (build_route_error_response L
                          (with_code ''BODY_READ_ERROR'' (bad_request L (''Failed to read request body: '' @ e))
                             :: (unit, 'h) route_error) fb (rp_request_id parts), st)
                   | Inr body \<Rightarrow>
                       (case entry_handler entry parts body ct (sc_context cx) st of
                          (res, st) \<Rightarrow> after_handler L route fb (rp_request_id parts) res st)))"

definition dispatch ::
  "'h http_lib \<Rightarrow> ('c, 'h) service_ctx \<Rightarrow> string \<Rightarrow> 'h http_request \<Rightarrow> reporting \<Rightarrow> 'h reply \<times> reporting" where
  "dispatch L cx uuid rq st =
     (case builtin_endpoint L cx (hq_method rq) (hq_path rq) of
        Some r \<Rightarrow> (r, st)
      | None \<Rightarrow>
          if \<not> sc_is_ready cx then (not_ready_response L cx, st)
          else (case match_route (sc_router cx) (hq_path rq) (hq_method rq) of
                  None \<Rightarrow> (no_route_response L cx (hq_method rq) (hq_path rq), st)
                | Some (entry, params) \<Rightarrow> answer_route L cx uuid rq entry params st))"

definition strip_body_for_head :: "'h http_lib \<Rightarrow> 'h http_response \<Rightarrow> 'h http_response" where
  "strip_body_for_head L r =
     r\<lparr>hr_headers := hm_insert L ''content-length'' (show_nat (length (hr_body r))) (hr_headers r), hr_body := []\<rparr>"

definition handle_request ::
  "'h http_lib \<Rightarrow> ('c, 'h) service_ctx \<Rightarrow> string \<Rightarrow> 'h http_request \<Rightarrow> reporting \<Rightarrow> 'h reply \<times> reporting" where
  "handle_request L cx uuid rq st =
     (case dispatch L cx uuid rq st of
        (r, st) \<Rightarrow> (if hq_method rq = ''HEAD'' then map_option (strip_body_for_head L) r else r, st))"

text \<open>The route that \<open>#[route]\<close> registers for a function: its wrapper, with the context downcast.\<close>

definition generated_entry ::
  "'h http_lib \<Rightarrow> ('t, 'r, 'd) body_codecs \<Rightarrow> string \<Rightarrow> string
   \<Rightarrow> (('t, 'c, 'h) request \<Rightarrow> (('d, 'h) HttpTypes.route_error + ('r, 'h) response) outcome) \<Rightarrow> ('c, 'h) route_entry" where
  "generated_entry L cd route inner f =
     \<lparr>entry_path = route,
      entry_handler = (\<lambda>parts body ct c st.
        hyper_handler L cd route f (case c of Some c \<Rightarrow> Inr c | None \<Rightarrow> Inl inner) parts body ct st)\<rparr>"

subsection \<open>Facts on the builders\<close>

lemma builder_header_ok:
  "http_ok L \<Longrightarrow> header_name L k = Some k \<Longrightarrow> header_value L v = Some v \<Longrightarrow>
     builder_header L k v (Some h) = Some (hm_append L k v h)"
  by (simp add: builder_header_def)

text \<open>The values of a header that are text, as a copy carries them over.\<close>

definition text_values :: "'h http_lib \<Rightarrow> 'h \<Rightarrow> string \<Rightarrow> string list" where
  "text_values L h k = filter (\<lambda>v. header_str L v \<noteq> None) (hm_all L h k)"

lemma builder_copy_ok:
  assumes "http_ok L"
  shows "\<exists>h'. builder_copy L h (Some h0) = Some h' \<and> (\<forall>k. hm_all L h' k = hm_all L h0 k @ text_values L h k)"
proof -
  let ?f = "\<lambda>(k, v) b. case header_str L v of Some s \<Rightarrow> builder_header L k s b | None \<Rightarrow> b"
  have "\<exists>h'. fold ?f xs (Some h0) = Some h' \<and>
      (\<forall>k. hm_all L h' k = hm_all L h0 k @ filter (\<lambda>v. header_str L v \<noteq> None) (map snd (filter (\<lambda>p. fst p = k) xs)))"
    if "\<forall>(n, v) \<in> set xs. header_name L n = Some n" for xs
    using that
  proof (induction xs arbitrary: h0)
    case (Cons p xs)
    obtain n v where p: "p = (n, v)" by fastforce
    show ?case
    proof (cases "header_str L v")
      case None
      then show ?thesis using Cons.IH [of h0] Cons.prems by (simp add: p)
    next
      case (Some s)
      then have sv: "s = v" "header_value L v = Some v" using header_str_SomeD [OF assms] by auto
      have n: "header_name L n = Some n" using Cons.prems by (simp add: p)
      have step: "?f p (Some h0) = Some (hm_append L n v h0)"
        using Some sv n by (simp add: p builder_header_ok [OF assms])
      have tl: "\<forall>(n, v) \<in> set xs. header_name L n = Some n" using Cons.prems by simp
      obtain h' where h': "fold ?f xs (Some (hm_append L n v h0)) = Some h'"
        "\<And>k. hm_all L h' k = hm_all L (hm_append L n v h0) k @ filter (\<lambda>v. header_str L v \<noteq> None) (map snd (filter (\<lambda>p. fst p = k) xs))"
        using Cons.IH [OF tl] by blast
      show ?thesis
      proof (intro exI conjI allI)
        show "fold ?f (p # xs) (Some h0) = Some h'" using h'(1) step by simp
        show "hm_all L h' k = hm_all L h0 k @ filter (\<lambda>v. header_str L v \<noteq> None) (map snd (filter (\<lambda>p. fst p = k) (p # xs)))" for k
          using Some sv n by (simp add: h'(2) assms p)
      qed
    qed
  qed simp
  moreover have "\<forall>(n, v) \<in> set (hm_iter L h). header_name L n = Some n"
    using header_name_iter [OF assms] by auto
  ultimately show ?thesis unfolding builder_copy_def text_values_def hm_all_def by blast
qed

lemma build_plain_ok:
  assumes "http_ok L" "list_all visible ct"
  shows "\<exists>h. build_plain L s ct bs = Some \<lparr>hr_status = s, hr_headers = h, hr_body = bs\<rparr> \<and> hm_all L h ''content-type'' = [ct]"
  using assms by (simp add: build_plain_def builder_body_def builder_header_ok literal_headers)

lemma build_success_ok:
  assumes "http_ok L" "header_value L (sp_content_type p) = Some (sp_content_type p)"
  shows "\<exists>h. build_success_response L p = Some \<lparr>hr_status = sp_status p, hr_headers = h, hr_body = sp_body p\<rparr> \<and>
     (\<forall>k. hm_all L h k = (if k = ''content-type'' then [sp_content_type p] else []) @ text_values L (sp_headers p) k)"
proof -
  have n: "header_name L ''content-type'' = Some ''content-type''" using assms(1) by (simp add: literal_headers)
  show ?thesis
    using builder_copy_ok [OF assms(1), of "sp_headers p" "hm_append L ''content-type'' (sp_content_type p) (hm_new L)"]
    by (auto simp: build_success_response_def builder_header_ok [OF assms(1) n assms(2)] builder_body_def assms(1) n)
qed

lemma build_success_total: "http_ok L \<Longrightarrow> \<exists>r. build_success_response L p = Some r"
  by (simp add: build_success_response_def failed_to_build_def builder_body_def split: option.split)

definition error_headers :: "'h http_lib \<Rightarrow> ('d, 'h) route_error \<Rightarrow> bool \<Rightarrow> string \<Rightarrow> 'h" where
  "error_headers L err fb request_id =
     (let h = copy_headers L (re_headers err) (insert_if_valid L ''x-request-id'' request_id (hm_new L))
      in if fb then insert_if_valid L ''x-error-message'' (re_message err) (insert_if_valid L ''x-error-code'' (wire_code err) h)
         else h)"

lemma build_route_error_ok:
  assumes "http_ok L"
  shows "\<exists>h. build_route_error_response L err fb rid =
       Some \<lparr>hr_status = re_status err, hr_headers = h, hr_body = (if fb then [] else json_error L (wire_code err) (re_message err))\<rparr> \<and>
     (\<forall>k. hm_all L h k = (if k = ''content-type'' then [if fb then ''application/x-flatbuffers'' else ''application/json''] else [])
        @ text_values L (error_headers L err fb rid) k)"
proof -
  let ?ct = "if fb then ''application/x-flatbuffers'' else ''application/json''"
  have n: "header_name L ''content-type'' = Some ''content-type''" using assms by (simp add: literal_headers)
  have v: "header_value L ?ct = Some ?ct" using assms by (simp add: literal_headers)
  obtain h where h: "builder_copy L (error_headers L err fb rid) (Some (hm_append L ''content-type'' ?ct (hm_new L))) = Some h"
    "\<And>k. hm_all L h k = hm_all L (hm_append L ''content-type'' ?ct (hm_new L)) k @ text_values L (error_headers L err fb rid) k"
    using builder_copy_ok [OF assms] by blast
  have "build_route_error_response L err fb rid =
      Some \<lparr>hr_status = re_status err, hr_headers = h, hr_body = (if fb then [] else json_error L (wire_code err) (re_message err))\<rparr>"
    using h(1) builder_header_ok [OF assms n v, of "hm_new L"]
    by (cases fb) (simp_all add: build_route_error_response_def error_headers_def Let_def builder_body_def)
  then show ?thesis using h(2) by (auto simp: assms n)
qed

lemma build_route_error_total: "http_ok L \<Longrightarrow> \<exists>r. build_route_error_response L err fb rid = Some r"
  using build_route_error_ok by blast

lemma after_handler_total: "http_ok L \<Longrightarrow> \<exists>r. fst (after_handler L route fb rid res st) = Some r"
  by (cases res) (auto simp: after_handler_def catch_poll_def caught_panic_of_def case_prod_unfold Let_def
      build_success_total build_route_error_total split: sum.split)

lemma text_values_visible:
  "http_ok L \<Longrightarrow> list_all (list_all visible) (hm_all L h k) \<Longrightarrow> text_values L h k = hm_all L h k"
  by (auto simp: text_values_def list_all_iff intro!: filter_True)

subsection \<open>Properties\<close>

text \<open>
  C33. Until the server is ready no route runs: whatever the router, the hook and the handlers
  are, a request that is not for a built-in endpoint gets a 503 and nothing is reported. The
  503 says \<open>NOT_READY\<close> and names the gates that are down, in registration order, when the boot
  is over and some gate is down; otherwise it says \<open>BOOTING\<close>.
\<close>

theorem not_ready_shields:
  assumes "http_ok L" "\<not> sc_is_ready cx" "builtin_endpoint L cx (hq_method rq) (hq_path rq) = None"
  shows "\<exists>h code msg. dispatch L cx uuid rq st =
       (Some \<lparr>hr_status = 503, hr_headers = h, hr_body = json_error L code msg\<rparr>, st) \<and>
     hm_all L h ''content-type'' = [''application/json''] \<and>
     (if sc_booted cx \<and> blocked_on (sc_readiness cx) \<noteq> []
      then code = ''NOT_READY'' \<and> msg = ''Waiting on '' @ join_with '', '' (blocked_on (sc_readiness cx))
      else code = ''BOOTING'')"
proof -
  have ct: "list_all visible ''application/json''" by (simp add: literal_headers)
  have r: "\<exists>h. build_error_response L 503 code msg = Some \<lparr>hr_status = 503, hr_headers = h, hr_body = json_error L code msg\<rparr> \<and>
      hm_all L h ''content-type'' = [''application/json'']" for code msg
    using build_plain_ok [OF assms(1) ct, of 503] by (simp add: build_error_response_def)
  have d: "dispatch L cx uuid rq st = (not_ready_response L cx, st)"
    using assms(2,3) by (simp add: dispatch_def)
  show ?thesis
  proof (cases "sc_booted cx \<and> blocked_on (sc_readiness cx) \<noteq> []")
    case True
    then show ?thesis
      using r [of "''NOT_READY''" "''Waiting on '' @ join_with '', '' (blocked_on (sc_readiness cx))"]
      by (auto simp: d not_ready_response_def blocked_gates_def Let_def)
  next
    case False
    then show ?thesis
      using r [of "''BOOTING''" "''Server is starting up, please retry shortly''"]
      by (auto simp: d not_ready_response_def blocked_gates_def Let_def)
  qed
qed

definition demo_ctx :: "(unit, (string \<times> string) list) service_ctx" where
  "demo_ctx = \<lparr>sc_router = build_router [(''/ping'', ''POST'', \<lparr>entry_path = ''/ping'',
       entry_handler = \<lambda>parts body ct c st. (Panics (StaticStr ''boom'') ''bt'', st)\<rparr>)],
     sc_healthz = True, sc_booted = False, sc_context = None, sc_readiness = readiness_new, sc_splash = None,
     sc_telemetry = None, sc_states = [], sc_before_request = None, sc_static = [], sc_fs = (\<lambda>_. None),
     sc_latest_version = ''v1'', sc_versions = [], sc_openapi_json = (\<lambda>_. []), sc_bfbs = None\<rparr>"

definition demo_request :: "string \<Rightarrow> string \<Rightarrow> (string \<times> string) list http_request" where
  "demo_request m path = \<lparr>hq_method = m, hq_path = path, hq_query = None,
     hq_headers = [(''content-type'', ''application/json'')], hq_body = Inr []\<rparr>"

lemma demo_no_builtin: "builtin_endpoint list_lib demo_ctx ''POST'' ''/ping'' = None"
  by (simp add: builtin_endpoint_def handle_splash_endpoint_def handle_openapi_endpoint_def handle_schema_endpoint_def
      is_get_or_head_def eq_ignore_ascii_case_def to_lowercase_def ascii_lower_def demo_ctx_def)

theorem not_ready_shields_witness:
  "\<exists>r. dispatch list_lib demo_ctx ''id'' (demo_request ''POST'' ''/ping'') reporting_new = (Some r, reporting_new) \<and>
     hr_status r = 503"
proof -
  have "\<not> sc_is_ready demo_ctx" by (simp add: sc_is_ready_def demo_ctx_def)
  from not_ready_shields [OF list_lib_ok this, of "demo_request ''POST'' ''/ping''" "''id''" reporting_new]
  show ?thesis using demo_no_builtin by (auto simp: demo_request_def)
qed

text \<open>
  C34. Every request is answered: no builder ever panics, whatever the handler does, panicking
  included, for a router built from routes registered with the framework's methods.
\<close>

theorem every_request_answered:
  assumes "http_ok L" "sc_router cx = build_router routes"
    and "\<forall>(path, m, e) \<in> set routes. \<exists>k. m = method_str k"
  shows "\<exists>r. fst (handle_request L cx uuid rq st) = Some r"
proof -
  have plain: "\<exists>r. build_plain L s ct bs = Some r" if "list_all visible ct" for s ct bs
    using build_plain_ok [OF assms(1) that] by blast
  have builtin: "\<exists>x. r = Some x" if "builtin_endpoint L cx m p = Some r" for m p r
    using that plain
    by (auto simp: builtin_endpoint_def handle_splash_endpoint_def handle_telemetry_endpoint_def handle_openapi_endpoint_def
        handle_schema_endpoint_def build_text_response_def build_error_response_def build_metrics_response_def
        build_json_response_def build_not_found_def literal_headers Let_def split: option.splits if_splits sum.splits)
  have vis: "list_all visible (to_uppercase (method_str k))" for k
    by (cases k) (simp_all add: to_uppercase_def ascii_upper_def visible_def)
  have "list_all (list_all visible) (get_allowed_methods (build_router routes) p)" for p
    unfolding list_all_iff [of "list_all visible"] using allowed_methods_registered assms(3) vis by fastforce
  moreover have "list_all visible (join_with '', '' ms)" if "list_all (list_all visible) ms" for ms
    using that by (induction "'', ''" ms rule: join_with.induct) (simp_all add: visible_def)
  ultimately have allow: "list_all visible (join_with '', '' (get_allowed_methods (build_router routes) p))" for p by blast
  have none: "\<exists>r. no_route_response L cx m p = Some r" for m p
    using plain build_success_total [OF assms(1)] allow assms(1,2)
    by (auto simp: no_route_response_def build_not_found_def build_method_not_allowed_def builder_body_def
        builder_header_ok literal_headers Let_def split: option.split)
  note err = build_route_error_total [OF assms(1)]
  have "\<exists>r. fst (answer_route L cx uuid rq entry params st) = Some r" for entry params
    using err plain after_handler_total [OF assms(1)]
    by (auto simp: answer_route_def Let_def build_unsupported_media_type_def literal_headers split: option.split sum.split prod.split)
  then have "\<exists>r. fst (dispatch L cx uuid rq st) = Some r"
    using builtin none plain
    by (auto simp: dispatch_def not_ready_response_def build_error_response_def literal_headers split: option.split)
  then show ?thesis by (auto simp: handle_request_def split: prod.split)
qed

theorem every_request_answered_witness:
  "\<exists>r. fst (handle_request list_lib demo_ctx ''id'' (demo_request ''POST'' ''/ping'') reporting_new) = Some r"
  by (rule every_request_answered [OF list_lib_ok, where routes = "[(''/ping'', ''POST'', \<lparr>entry_path = ''/ping'',
       entry_handler = \<lambda>parts body ct c st. (Panics (StaticStr ''boom'') ''bt'', st)\<rparr>)]"])
     (simp_all add: demo_ctx_def exI [of _ Post])

text \<open>
  The answer is the route function's own \<open>Ok\<close>: no hook refused the request, its media type and body
  were accepted, and the wrapper took its \<open>Ok\<close> branch.
\<close>

definition answers_ok ::
  "'h http_lib \<Rightarrow> ('c, 'h) service_ctx \<Rightarrow> string \<Rightarrow> 'h http_request \<Rightarrow> ('t, 'r, 'd) body_codecs
   \<Rightarrow> (('t, 'c, 'h) request \<Rightarrow> (('d, 'h) HttpTypes.route_error + ('r, 'h) response) outcome) \<Rightarrow> (string \<rightharpoonup> string) \<Rightarrow> bool" where
  "answers_ok L cx uuid rq cd f params =
     (let parts = build_parts L uuid rq params; ct = content_type_of L rq
      in (case sc_before_request cx of None \<Rightarrow> True | Some before \<Rightarrow> before parts = None) \<and>
         (needs_body (hq_method rq) \<longrightarrow> is_json ct \<or> is_flatbuffer ct) \<and>
         (case (hq_body rq, sc_context cx) of
            (Inr body, Some c) \<Rightarrow> wrapper_ok L cd f (Inr c) parts body ct
          | _ \<Rightarrow> False))"

text \<open>One report when the answer is a server error that is not an \<open>Ok\<close> of the function, none otherwise.\<close>

definition reported_once :: "nat \<Rightarrow> reporting \<Rightarrow> bool \<Rightarrow> 'h reply \<times> reporting \<Rightarrow> bool" where
  "reported_once n st own_ok res \<longleftrightarrow>
     (\<exists>r reps. fst res = Some r \<and> delivered (snd res) = delivered st @ map (Pair n) reps \<and>
        length reps = (if is_server_error (hr_status r) \<and> \<not> own_ok then 1 else 0))"

lemma reported_onceI:
  "x = Some r \<Longrightarrow> delivered st' = delivered st @ map (Pair n) reps \<Longrightarrow>
     length reps = (if is_server_error (hr_status r) \<and> \<not> own_ok then 1 else 0) \<Longrightarrow> reported_once n st own_ok (x, st')"
  by (auto simp: reported_once_def)

lemma error_reported_once:
  assumes "http_ok L" "reporter st = Some n" "rf_status f = re_status err"
  shows "reported_once n st False
     (build_route_error_response L err fb rid, if is_server_error (re_status err) then route_error f st else st)"
proof -
  obtain r where r: "build_route_error_response L err fb rid = Some r" "hr_status r = re_status err"
    using build_route_error_ok [OF assms(1), of err fb rid] by auto
  show ?thesis
    by (rule reported_onceI [OF r(1), where reps = "if is_server_error (re_status err) then [RouteErrorReport f] else []"])
       (simp_all add: route_error_eq assms(2) r(2))
qed

lemma after_handler_reported_once:
  assumes "http_ok L" "reporter st' = Some n"
    and "if own_ok then \<exists>p. res = Returns (Inr p) \<and> st' = st
      else case res of
        Returns (Inr p) \<Rightarrow> header_value L (sp_content_type p) = Some (sp_content_type p) \<and>
          (\<exists>reps. delivered st' = delivered st @ map (Pair n) reps \<and>
             length reps = (if is_server_error (sp_status p) then 1 else 0))
      | _ \<Rightarrow> st' = st"
  shows "reported_once n st own_ok (after_handler L route fb rid res st')"
proof (cases own_ok)
  case True
  then obtain p where p: "res = Returns (Inr p)" "st' = st" using assms(3) by auto
  obtain r where r: "build_success_response L p = Some r" using build_success_total [OF assms(1)] by blast
  show ?thesis
    using True reported_onceI [OF r, where st' = st and st = st and reps = "[]" and own_ok = own_ok]
    by (simp add: p after_handler_def catch_poll_def)
next
  case own: False
  consider (ok) p where "res = Returns (Inr p)" | (err) e where "res = Returns (Inl e)" | (panics) pl bt where "res = Panics pl bt"
    by (metis outcome.exhaust sum.exhaust)
  then show ?thesis
  proof cases
    case ok
    then obtain reps where p: "header_value L (sp_content_type p) = Some (sp_content_type p)"
      "delivered st' = delivered st @ map (Pair n) reps" "length reps = (if is_server_error (sp_status p) then 1 else 0)"
      using assms(3) own by auto
    obtain r where r: "build_success_response L p = Some r" "hr_status r = sp_status p"
      using build_success_ok [OF assms(1) p(1)] by auto
    show ?thesis
      using reported_onceI [OF r(1) p(2)] p(3) r(2) own by (simp add: ok after_handler_def catch_poll_def)
  next
    case err
    let ?s = "fst (error_status e)" and ?c = "snd (error_status e)"
    let ?e = "with_code ?c (re_with_status L ?s (error_str e)) :: (unit, 'a) HttpTypes.route_error"
    have "st' = st" using assms(3) err own by simp
    then show ?thesis
      using error_reported_once [OF assms(1,2), of "route_failure_of route ?s ?c (re_message ?e)" ?e fb rid]
      by (cases "is_server_error ?s") (simp_all add: own err after_handler_def catch_poll_def case_prod_unfold Let_def
          route_failure_of_def with_code_def re_with_status_def)
  next
    case panics
    let ?e = "with_code PANIC_CODE (internal L ''handler panicked'') :: (unit, 'a) HttpTypes.route_error"
    have st: "st' = st" using assms(3) panics own by simp
    obtain r where r: "build_route_error_response L ?e fb rid = Some r" "hr_status r = 500"
      using build_route_error_ok [OF assms(1), of ?e fb rid] by (auto simp: with_code_def internal_def re_with_status_def)
    let ?p = "fst (caught_panic_of pl (run_hook bt st))" and ?st = "snd (caught_panic_of pl (run_hook bt st))"
    have d: "delivered (route_panic route ?p ?st) = delivered st @ map (Pair n)
        [PanicReport \<lparr>pr_site = SiteRoute route, pr_message = cp_message ?p, pr_backtrace = cp_backtrace ?p\<rparr>]"
      using assms(2) st by (simp add: route_panic_eq caught_panic_of_def run_hook_def)
    show ?thesis
      using reported_onceI [OF r(1) d] r(2)
      by (simp add: own panics st after_handler_def catch_poll_def case_prod_unfold is_server_error_def)
  qed
qed

lemma answer_route_reported_once:
  assumes "http_ok L" "reporter st = Some n"
  shows "reported_once n st (answers_ok L cx uuid rq cd f params)
     (answer_route L cx uuid rq (generated_entry L cd route inner f) params st)"
proof -
  let ?entry = "generated_entry L cd route inner f"
  let ?parts = "build_parts L uuid rq params" and ?ct = "content_type_of L rq"
  let ?fb = "respond_flatbuffer L (rp_headers ?parts) ?ct" and ?ok = "answers_ok L cx uuid rq cd f params"
  have quiet: "reported_once n st ok (x, st)" if "x = Some r" "\<not> is_server_error (hr_status r)" for x :: "'a reply" and r ok
    by (rule reported_onceI [OF that(1), where reps = "[]"]) (simp_all add: that(2))
  have ct: "list_all visible ''text/plain''" by (simp add: visible_def)
  show ?thesis
  proof (cases "case sc_before_request cx of None \<Rightarrow> None | Some before \<Rightarrow> before ?parts")
    case (Some err)
    then have "\<not> ?ok" by (auto simp: answers_ok_def Let_def split: option.splits)
    then show ?thesis
      using Some error_reported_once [OF assms(1,2), of "route_failure_of r (re_status err) (wire_code err) (re_message err)" err for r]
      by (simp add: answer_route_def Let_def route_failure_of_def)
  next
    case None
    show ?thesis
    proof (cases "needs_body (hq_method rq) \<and> \<not> is_json ?ct \<and> \<not> is_flatbuffer ?ct")
      case True
      obtain r where "build_unsupported_media_type L = Some r" "hr_status r = 415"
        using build_plain_ok [OF assms(1) ct, of 415] by (fastforce simp: build_unsupported_media_type_def)
      then show ?thesis using True None quiet [of "Some r" r]
        by (simp add: answer_route_def Let_def is_server_error_def)
    next
      case False
      show ?thesis
      proof (cases "hq_body rq")
        case (Inl e)
        let ?e = "with_code ''BODY_READ_ERROR'' (bad_request L (''Failed to read request body: '' @ e)) :: (unit, 'a) HttpTypes.route_error"
        obtain r where r: "build_route_error_response L ?e ?fb (rp_request_id ?parts) = Some r" "hr_status r = re_status ?e"
          using build_route_error_ok [OF assms(1), of ?e ?fb "rp_request_id ?parts"] by auto
        have "re_status ?e = 400" by (simp add: with_code_def bad_request_def re_with_status_def)
        with r have "reported_once n st ?ok (build_route_error_response L ?e ?fb (rp_request_id ?parts), st)"
          by (intro quiet [OF r(1)]) (simp add: is_server_error_def)
        then show ?thesis using False None Inl by (simp add: answer_route_def Let_def del: de_Morgan_conj)
      next
        case (Inr body)
        let ?ctx = "case sc_context cx of Some c \<Rightarrow> Inr c | None \<Rightarrow> Inl inner"
        have ok: "?ok = wrapper_ok L cd f ?ctx ?parts body ?ct"
          using None False Inr by (auto simp: answers_ok_def wrapper_ok_def Let_def split: option.splits sum.splits)
        obtain res st' where h: "entry_handler ?entry ?parts body ?ct (sc_context cx) st = (res, st')" by fastforce
        then have hh: "hyper_handler L cd route f ?ctx ?parts body ?ct st = (res, st')"
          by (simp add: generated_entry_def)
        note rep = hyper_handler_reports [OF hh assms(2,1), folded ok]
        show ?thesis
          using after_handler_reported_once [OF assms(1) conjunct1 [OF rep] conjunct2 [OF rep]] False None Inr h
          by (simp add: answer_route_def Let_def del: de_Morgan_conj)
      qed
    qed
  qed
qed

text \<open>
  C35. Which answers of a route are reported, exactly: for a request dispatched to a generated
  wrapper, whatever its function does, the installed reporter receives one report when the
  answer is a 5xx that is not the function's own \<open>Ok\<close>, so one that comes from the hook, an \<open>Err\<close>
  of the function, a missing context, a decoding or an encoding failure or a panic, and none
  otherwise. An \<open>Ok\<close> of the function is never reported, also when its status is a 5xx and when its
  raw content type cannot be a header and the answer is a 500; the documentation of
  \<open>route_error\<close> promises a report for every route answered with a 5xx.
\<close>

theorem server_errors_reported_once:
  assumes "http_ok L" "reporter st = Some n" "sc_is_ready cx"
    and "builtin_endpoint L cx (hq_method rq) (hq_path rq) = None"
    and "match_route (sc_router cx) (hq_path rq) (hq_method rq) = Some (generated_entry L cd route inner f, params)"
  shows "\<exists>r reps. fst (dispatch L cx uuid rq st) = Some r \<and>
     delivered (snd (dispatch L cx uuid rq st)) = delivered st @ map (Pair n) reps \<and>
     length reps = (if is_server_error (hr_status r) \<and> \<not> answers_ok L cx uuid rq cd f params then 1 else 0)"
  using answer_route_reported_once [OF assms(1,2), where cx = cx and uuid = uuid and rq = rq and cd = cd and f = f and route = route and inner = inner and params = params] assms(3-5)
  by (simp add: dispatch_def reported_once_def)

definition demo_codecs :: "(unit, unit, unit) body_codecs" where
  "demo_codecs = \<lparr>from_json = (\<lambda>_. Inr ()), from_flatbuffer = (\<lambda>_. Inr ()), to_json = (\<lambda>_. Inr [123, 125]),
     to_flatbuffer = (\<lambda>_. [0]), error_to_json = (\<lambda>c m d. Inr (str_bytes (c @ m))), details_to_flatbuffer = (\<lambda>_. [])\<rparr>"

definition demo_live ::
  "((unit, unit, (string \<times> string) list) request \<Rightarrow>
      ((unit, (string \<times> string) list) HttpTypes.route_error + (unit, (string \<times> string) list) response) outcome)
   \<Rightarrow> (unit, (string \<times> string) list) service_ctx" where
  "demo_live f = demo_ctx\<lparr>sc_booted := True, sc_context := Some (),
     sc_router := build_router [(''/ping'', ''POST'', generated_entry list_lib demo_codecs ''/ping'' [] f)]\<rparr>"

lemma demo_live_ready:
  "sc_is_ready (demo_live f)" "builtin_endpoint list_lib (demo_live f) ''POST'' ''/ping'' = None"
  "match_route (sc_router (demo_live f)) ''/ping'' ''POST'' =
     Some (generated_entry list_lib demo_codecs ''/ping'' [] f, Map.empty)"
  using demo_no_builtin
  by (simp_all add: demo_live_def sc_is_ready_def demo_ctx_def is_ready_def readiness_new_def builtin_endpoint_def
      handle_splash_endpoint_def handle_openapi_endpoint_def handle_schema_endpoint_def is_get_or_head_def
      eq_ignore_ascii_case_def to_lowercase_def ascii_lower_def build_router_def add_route_def path_segments_def
      router_node_new_def match_route_def is_param_segment_def to_uppercase_def ascii_upper_def)

lemma demo_request_sel [simp]:
  "hq_method (demo_request m p) = m" "hq_path (demo_request m p) = p" "hq_query (demo_request m p) = None"
  "hq_body (demo_request m p) = Inr []" "hq_headers (demo_request m p) = [(''content-type'', ''application/json'')]"
  by (simp_all add: demo_request_def)

lemma panics_not_ok: "\<not> wrapper_ok L cd (\<lambda>_. Panics pl bt) ctx parts body ct"
  by (simp add: wrapper_ok_def split: sum.split)

lemma demo_not_ok: "\<not> answers_ok L cx uuid rq cd (\<lambda>_. Panics pl bt) params"
  by (auto simp: answers_ok_def panics_not_ok Let_def split: option.splits sum.splits)

theorem server_errors_reported_once_witness:
  "\<exists>r reps. fst (dispatch list_lib (demo_live (\<lambda>_. Panics (StaticStr ''boom'') ''bt'')) ''id'' (demo_request ''POST'' ''/ping'')
         (install 1 reporting_new)) = Some r \<and>
     delivered (snd (dispatch list_lib (demo_live (\<lambda>_. Panics (StaticStr ''boom'') ''bt'')) ''id'' (demo_request ''POST'' ''/ping'')
         (install 1 reporting_new))) = map (Pair 1) reps \<and>
     length reps = (if is_server_error (hr_status r) then 1 else 0)"
proof -
  let ?f = "\<lambda>_. Panics (StaticStr ''boom'') ''bt''"
  have "reporter (install 1 reporting_new) = Some 1" by (simp add: install_def reporting_new_def)
  from server_errors_reported_once [OF list_lib_ok this demo_live_ready(1), where rq = "demo_request ''POST'' ''/ping''"
      and uuid = "''id''" and f = ?f and cd = demo_codecs and route = "''/ping''"
      and inner = "[]" and params = Map.empty]
  show ?thesis using demo_live_ready(2,3) by (simp add: install_def reporting_new_def demo_not_ok)
qed

text \<open>
  A function that answers \<open>Ok\<close> with a server-error status is not reported, although the reporter
  is documented to be called for every route answered with a 5xx.
\<close>

lemma ok_answers_unreported:
  "(\<And>q. f q = Returns (Inr resp)) \<Longrightarrow> snd (hyper_handler L cd route f ctx parts body ct st) = st"
  by (simp add: hyper_handler_def split: sum.split)

text \<open>
  A HEAD answer is the answer without its body: the same status, no bytes, every header but
  \<open>content-length\<close> as it was, and \<open>content-length\<close> the number of bytes withheld; and on the
  built-in endpoints, when not ready and on static files the answer it is made from is the
  one a GET of the path gets.
\<close>

theorem head_matches_get:
  assumes "http_ok L" "hq_method rq = ''HEAD''" "dispatch L cx uuid rq st = (Some r, st')"
  shows "\<exists>h. handle_request L cx uuid rq st = (Some \<lparr>hr_status = hr_status r, hr_headers = h, hr_body = []\<rparr>, st') \<and>
     (\<forall>k. hm_all L h k = (if k = ''content-length'' then [show_nat (length (hr_body r))] else hm_all L (hr_headers r) k)) \<and>
     (match_route (sc_router cx) (hq_path rq) ''HEAD'' = None \<and> match_route (sc_router cx) (hq_path rq) ''GET'' = None \<or>
        \<not> sc_is_ready cx \<or> builtin_endpoint L cx ''GET'' (hq_path rq) \<noteq> None \<longrightarrow>
      dispatch L cx uuid (rq\<lparr>hq_method := ''GET''\<rparr>) st = (Some r, st'))"
proof -
  have gh: "is_get_or_head ''GET''" "is_get_or_head ''HEAD''"
    by (simp_all add: is_get_or_head_def eq_ignore_ascii_case_def)
  have "handle_splash_endpoint L cx ''HEAD'' p = handle_splash_endpoint L cx ''GET'' p"
    "handle_telemetry_endpoint L cx ''HEAD'' p = handle_telemetry_endpoint L cx ''GET'' p"
    "handle_openapi_endpoint L cx ''HEAD'' p = handle_openapi_endpoint L cx ''GET'' p"
    "handle_schema_endpoint L cx ''HEAD'' p = handle_schema_endpoint L cx ''GET'' p" for p
    by (simp_all only: handle_splash_endpoint_def handle_telemetry_endpoint_def handle_openapi_endpoint_def
        handle_schema_endpoint_def gh)
  then have b: "builtin_endpoint L cx ''HEAD'' p = builtin_endpoint L cx ''GET'' p" for p
    by (simp only: builtin_endpoint_def)
  have n: "no_route_response L cx ''HEAD'' p = no_route_response L cx ''GET'' p" for p
    by (simp add: no_route_response_def gh)
  have get: "dispatch L cx uuid (rq\<lparr>hq_method := ''GET''\<rparr>) st = (Some r, st')"
    if "match_route (sc_router cx) (hq_path rq) ''HEAD'' = None \<and> match_route (sc_router cx) (hq_path rq) ''GET'' = None \<or>
        \<not> sc_is_ready cx \<or> builtin_endpoint L cx ''GET'' (hq_path rq) \<noteq> None"
    using that assms(2,3) b n by (auto simp: dispatch_def split: option.splits if_splits)
  have name: "header_name L ''content-length'' = Some ''content-length''"
    using assms(1) by (simp add: literal_headers)
  have "handle_request L cx uuid rq st = (Some \<lparr>hr_status = hr_status r,
      hr_headers = hm_insert L ''content-length'' (show_nat (length (hr_body r))) (hr_headers r), hr_body = []\<rparr>, st')"
    using assms(2,3) by (cases r) (simp add: handle_request_def strip_body_for_head_def)
  then show ?thesis
    by (intro exI [of _ "hm_insert L ''content-length'' (show_nat (length (hr_body r))) (hr_headers r)"] conjI allI impI)
      (assumption | rule hm_all_insert [OF assms(1) name] get)+
qed

theorem head_matches_get_witness:
  "\<exists>h. fst (handle_request list_lib demo_ctx ''id'' (demo_request ''HEAD'' ''/schema.bfbs'') reporting_new) =
     Some \<lparr>hr_status = 404, hr_headers = h, hr_body = []\<rparr> \<and> hm_all list_lib h ''content-length'' = [''9'']"
proof -
  have ct: "list_all visible ''text/plain''" by (simp add: visible_def)
  obtain h where h: "build_not_found list_lib = Some \<lparr>hr_status = 404, hr_headers = h, hr_body = str_bytes ''Not Found''\<rparr>"
    using build_plain_ok [OF list_lib_ok ct, of 404] by (auto simp: build_not_found_def)
  have "dispatch list_lib demo_ctx ''id'' (demo_request ''HEAD'' ''/schema.bfbs'') reporting_new =
      (Some \<lparr>hr_status = 404, hr_headers = h, hr_body = str_bytes ''Not Found''\<rparr>, reporting_new)"
    by (simp add: dispatch_def builtin_endpoint_def handle_splash_endpoint_def handle_openapi_endpoint_def
        handle_schema_endpoint_def is_get_or_head_def eq_ignore_ascii_case_def demo_ctx_def h)
  from head_matches_get [OF list_lib_ok _ this] obtain h' where
    "handle_request list_lib demo_ctx ''id'' (demo_request ''HEAD'' ''/schema.bfbs'') reporting_new =
       (Some \<lparr>hr_status = 404, hr_headers = h', hr_body = []\<rparr>, reporting_new)"
    "hm_all list_lib h' ''content-length'' = [show_nat (length (str_bytes ''Not Found''))]"
    by auto
  moreover have "show_nat (length (str_bytes ''Not Found'')) = ''9''" by code_simp
  ultimately show ?thesis by simp
qed

subsection \<open>Request identifiers\<close>

lemma header_str_value: "http_ok L \<Longrightarrow> header_str L v = Some v \<Longrightarrow> header_value L v = Some v"
  using header_str_SomeD by blast

lemma hm_all_copy_request:
  assumes "http_ok L"
  shows "hm_all L (copy_request_headers L from) k =
     (let ws = List.map_filter (header_value L) (hm_all L from k) in if ws = [] then [] else [last ws])"
proof -
  let ?f = "\<lambda>(k, v) h. case (header_value L v, header_name L k) of (Some w, Some n) \<Rightarrow> hm_insert L n w h | _ \<Rightarrow> h"
  have "hm_all L (fold ?f xs h) k =
     (let ws = List.map_filter (header_value L) (map snd (filter (\<lambda>p. fst p = k) xs)) in if ws = [] then hm_all L h k else [last ws])"
    if "\<forall>(n, v) \<in> set xs. header_name L n = Some n" for xs h
    using that
    by (induction xs arbitrary: h) (auto simp: assms Let_def List.map_filter_simps split: option.split)
  moreover have "\<forall>(n, v) \<in> set (hm_iter L from). header_name L n = Some n"
    using header_name_iter [OF assms] by auto
  ultimately show ?thesis
    unfolding copy_request_headers_def hm_all_def [of L "from"] by (simp add: assms Let_def)
qed

text \<open>The identifier a request runs under: the one it carries, or the generated one.\<close>

definition runs_under :: "'h http_lib \<Rightarrow> 'h http_request \<Rightarrow> string \<Rightarrow> string \<Rightarrow> bool" where
  "runs_under L rq uuid rid \<longleftrightarrow> header_str L rid = Some rid \<and>
     (hm_all L (hq_headers rq) ''x-request-id'' = [rid] \<or> hm_all L (hq_headers rq) ''x-request-id'' = [] \<and> rid = uuid)"

lemma rp_request_id_build:
  assumes "http_ok L" "runs_under L rq uuid rid"
  shows "rp_request_id (build_parts L uuid rq params) = rid"
proof -
  have "hm_all L (copy_request_headers L (hq_headers rq)) ''x-request-id'' =
      (if hm_all L (hq_headers rq) ''x-request-id'' = [] then [] else [rid])"
    using assms header_str_value [OF assms(1)]
    by (auto simp: runs_under_def hm_all_copy_request Let_def List.map_filter_simps)
  then have g: "hm_get L (copy_request_headers L (hq_headers rq)) ''x-request-id'' =
      (if hm_all L (hq_headers rq) ''x-request-id'' = [] then None else Some rid)"
    by (simp add: hm_get_all [OF assms(1)])
  show ?thesis
    using assms(2) g
    by (auto simp: build_parts_def Let_def with_request_id_from_header_def request_parts_new_def runs_under_def
        split: option.split)
qed

lemma text_values_one: "hm_all L h k = [v] \<Longrightarrow> header_str L v = Some v \<Longrightarrow> text_values L h k = [v]"
  by (simp add: text_values_def)

lemma request_id_name: "http_ok L \<Longrightarrow> header_name L ''x-request-id'' = Some ''x-request-id''"
  "http_ok L \<Longrightarrow> header_name L ''x-error-code'' = Some ''x-error-code''"
  "http_ok L \<Longrightarrow> header_name L ''x-error-message'' = Some ''x-error-message''"
  by (simp_all add: literal_headers)

lemma error_echoes_id:
  assumes "http_ok L" "header_str L rid = Some rid" "hm_all L (re_headers err) ''x-request-id'' = []"
  shows "\<exists>r. build_route_error_response L err fb rid = Some r \<and> hm_all L (hr_headers r) ''x-request-id'' = [rid]"
proof -
  have "hm_all L (error_headers L err fb rid) ''x-request-id'' = [rid]"
    using assms header_str_value [OF assms(1,2)]
    by (simp add: error_headers_def Let_def hm_all_insert_if_valid request_id_name hm_all_copy split: option.split)
  then show ?thesis
    using build_route_error_ok [OF assms(1), of err fb rid] text_values_one [OF _ assms(2)] by force
qed

lemma success_echoes_id:
  assumes "http_ok L" "header_str L rid = Some rid" "hm_all L (sp_headers p) ''x-request-id'' = [rid]"
    and "header_value L (sp_content_type p) = Some (sp_content_type p)"
  shows "\<exists>r. build_success_response L p = Some r \<and> hm_all L (hr_headers r) ''x-request-id'' = [rid]"
  using build_success_ok [OF assms(1,4)] text_values_one [OF assms(3,2)] by force

lemma encode_response_id:
  assumes "http_ok L" "header_str L rid = Some rid" "hm_all L (rs_headers r) ''x-request-id'' = []"
    and "encode_response L cd json rid r = Inr p"
  shows "hm_all L (sp_headers p) ''x-request-id'' = [rid]"
  using assms header_str_value [OF assms(1,2)]
  by (auto simp: encode_response_def Let_def with_request_id_def response_parts_with_status_def hm_all_copy request_id_name take_raw_def
      split: option.splits prod.splits sum.splits if_splits)

lemma encode_error_id:
  assumes "http_ok L" "header_str L rid = Some rid" "hm_all L (re_headers e) ''x-request-id'' = []"
  shows "hm_all L (sp_headers (encode_error L cd fb rid e)) ''x-request-id'' = [rid]"
  using assms header_str_value [OF assms(1,2)]
  by (simp add: encode_error_def Let_def hm_all_insert_if_valid hm_all_copy request_id_name split: option.split)

text \<open>An answer that carries the identifier.\<close>

definition echoes :: "'h http_lib \<Rightarrow> string \<Rightarrow> 'h reply \<Rightarrow> bool" where
  "echoes L rid x \<longleftrightarrow> (\<exists>r. x = Some r \<and> hm_all L (hr_headers r) ''x-request-id'' = [rid])"

lemma plain_error_echoes:
  assumes "http_ok L" "header_str L rid = Some rid" "re_headers e = hm_new L"
  shows "echoes L rid (build_route_error_response L e fb rid)"
  using error_echoes_id [OF assms(1,2), of e fb] assms(1,3) by (simp add: echoes_def)

lemma after_handler_echoes:
  assumes "http_ok L" "header_str L rid = Some rid" "rp_request_id parts = rid"
    and "hyper_handler L cd route f c parts body ct st = (res, st')"
    and "\<And>q err. f q = Returns (Inl err) \<Longrightarrow> hm_all L (re_headers err) ''x-request-id'' = []"
    and "\<And>q resp. f q = Returns (Inr resp) \<Longrightarrow> hm_all L (rs_headers resp) ''x-request-id'' = [] \<and>
       (case rs_raw resp of Some (_, t) \<Rightarrow> header_value L t = Some t | None \<Rightarrow> True)"
  shows "echoes L rid (fst (after_handler L rt fb rid res st'))"
proof -
  note plain = plain_error_echoes [OF assms(1,2)]
  have vis: "header_value L ''application/json'' = Some ''application/json''"
    "header_value L ''application/x-flatbuffers'' = Some ''application/x-flatbuffers''"
    using assms(1) by (simp_all add: literal_headers)
  consider (panics) p bt where "res = Panics p bt" | (err) e where "res = Returns (Inl e)" | (ok) p where "res = Returns (Inr p)"
    by (metis outcome.exhaust sum.exhaust)
  then show ?thesis
  proof cases
    case panics
    then show ?thesis using plain [of "with_code PANIC_CODE (internal L ''handler panicked'')" fb]
      by (simp add: after_handler_def catch_poll_def caught_panic_of_def with_code_def internal_def re_with_status_def)
  next
    case err
    then show ?thesis using plain [of "with_code (snd (error_status e)) (re_with_status L (fst (error_status e)) (error_str e))" fb]
      by (simp add: after_handler_def catch_poll_def with_code_def re_with_status_def case_prod_unfold Let_def)
  next
    case ok
    have "hm_all L (sp_headers p) ''x-request-id'' = [rid] \<and> header_value L (sp_content_type p) = Some (sp_content_type p)"
      using assms(4) [unfolded ok]
    proof (cases rule: hyper_handler_answer)
      case (1 q resp)
      then show ?thesis
        using assms(6) [OF 1(1)] encode_response_id [OF assms(1,2) _ 1(2) [unfolded assms(3)]] encode_response_parts [OF 1(2)] vis
        by (auto split: option.splits)
    next
      case (2 q e)
      then show ?thesis
        using vis by (simp add: assms(3) encode_error_parts encode_error_id [OF assms(1,2) assms(5) [OF 2(1)]])
    qed
    then show ?thesis
      using success_echoes_id [OF assms(1,2)] ok by (simp add: after_handler_def catch_poll_def echoes_def)
  qed
qed

text \<open>
  C35. The request identifier: a request that reaches its handler runs under the \<open>x-request-id\<close> it
  carries, or under the generated one when it carries none, and whether the hook rejects it,
  the function answers, fails or panics, or a body cannot be decoded or encoded, the answer
  carries exactly that identifier, provided the service's own headers do not set another.
\<close>

theorem request_id_echoed:
  assumes "http_ok L" "runs_under L rq uuid rid" "sc_is_ready cx"
    and "builtin_endpoint L cx (hq_method rq) (hq_path rq) = None"
    and "match_route (sc_router cx) (hq_path rq) (hq_method rq) = Some (generated_entry L cd route inner f, params)"
    and "needs_body (hq_method rq) \<Longrightarrow> is_json (content_type_of L rq) \<or> is_flatbuffer (content_type_of L rq)"
    and "\<And>before err. sc_before_request cx = Some before \<Longrightarrow> before (build_parts L uuid rq params) = Some err \<Longrightarrow>
       hm_all L (re_headers err) ''x-request-id'' = []"
    and "\<And>q err. f q = Returns (Inl err) \<Longrightarrow> hm_all L (re_headers err) ''x-request-id'' = []"
    and "\<And>q resp. f q = Returns (Inr resp) \<Longrightarrow> hm_all L (rs_headers resp) ''x-request-id'' = [] \<and>
       (case rs_raw resp of Some (_, t) \<Rightarrow> header_value L t = Some t | None \<Rightarrow> True)"
  shows "rp_request_id (build_parts L uuid rq params) = rid \<and>
     (\<exists>r. fst (dispatch L cx uuid rq st) = Some r \<and> hm_all L (hr_headers r) ''x-request-id'' = [rid])"
proof -
  let ?parts = "build_parts L uuid rq params" and ?ct = "content_type_of L rq"
  have rid: "rp_request_id ?parts = rid" by (rule rp_request_id_build [OF assms(1,2)])
  have str: "header_str L rid = Some rid" using assms(2) by (simp add: runs_under_def)
  have "echoes L rid (fst (answer_route L cx uuid rq (generated_entry L cd route inner f) params st))"
  proof (cases "case sc_before_request cx of None \<Rightarrow> None | Some before \<Rightarrow> before ?parts")
    case (Some err)
    then have "hm_all L (re_headers err) ''x-request-id'' = []" using assms(7) by (auto split: option.splits)
    with Some show ?thesis
      using error_echoes_id [OF assms(1) str] by (simp add: answer_route_def Let_def rid echoes_def)
  next
    case None
    have nb: "\<not> (needs_body (hq_method rq) \<and> \<not> is_json ?ct \<and> \<not> is_flatbuffer ?ct)" using assms(6) by blast
    show ?thesis
    proof (cases "hq_body rq")
      case (Inl e)
      with None nb show ?thesis
        using plain_error_echoes [OF assms(1) str, of "with_code ''BODY_READ_ERROR'' (bad_request L (''Failed to read request body: '' @ e))"]
        by (simp add: answer_route_def Let_def rid with_code_def bad_request_def re_with_status_def del: de_Morgan_conj)
    next
      case (Inr body)
      with None nb show ?thesis
        using after_handler_echoes [OF assms(1) str rid prod.collapse [symmetric], where f = f, OF assms(8,9)]
        by (simp add: answer_route_def Let_def rid generated_entry_def case_prod_unfold del: de_Morgan_conj)
    qed
  qed
  then show ?thesis using assms(3-5) rid by (simp add: dispatch_def echoes_def)
qed

theorem request_id_echoed_witness:
  "\<exists>r. fst (dispatch list_lib (demo_live (\<lambda>_. Panics (StaticStr ''boom'') ''bt'')) ''id-1'' (demo_request ''POST'' ''/ping'')
         reporting_new) = Some r \<and> hm_all list_lib (hr_headers r) ''x-request-id'' = [''id-1'']"
proof -
  have "runs_under list_lib (demo_request ''POST'' ''/ping'') ''id-1'' ''id-1''"
    by (simp add: runs_under_def hm_all_def list_lib_def list_iter_def visible_def)
  moreover have "is_json (content_type_of list_lib (demo_request ''POST'' ''/ping''))"
    by code_simp
  moreover have "sc_before_request (demo_live f) = None" for f by (simp add: demo_live_def demo_ctx_def)
  ultimately show ?thesis
    using request_id_echoed [OF list_lib_ok _ demo_live_ready(1), where rq = "demo_request ''POST'' ''/ping''"
      and uuid = "''id-1''" and rid = "''id-1''" and f = "\<lambda>_. Panics (StaticStr ''boom'') ''bt''" and cd = demo_codecs
      and route = "''/ping''" and inner = "[]" and params = Map.empty and st = reporting_new] demo_live_ready(2,3)
    by simp
qed

text \<open>The media type of a codec.\<close>

fun codec_type :: "codec \<Rightarrow> string" where
  "codec_type Json = ''application/json''"
| "codec_type FlatBuffer = ''application/x-flatbuffers''"

text \<open>What a wrapper makes of what its function returned, in a codec.\<close>

definition answer_in ::
  "'h http_lib \<Rightarrow> ('t, 'r, 'd) body_codecs \<Rightarrow> codec \<Rightarrow> (('d, 'h) HttpTypes.route_error + ('r, 'h) response) outcome
   \<Rightarrow> 'h response_parts \<Rightarrow> bool" where
  "answer_in L cd c res p \<longleftrightarrow>
     (case res of
        Returns (Inr resp) \<Rightarrow> sp_status p = rs_status resp \<and>
          (case rs_raw resp of
             Some (bs, t) \<Rightarrow> sp_body p = bs \<and> sp_content_type p = t
           | None \<Rightarrow> sp_content_type p = codec_type c \<and>
               (if c = Json then to_json cd (rs_body resp) = Inr (sp_body p) else sp_body p = to_flatbuffer cd (rs_body resp)))
      | Returns (Inl e) \<Rightarrow> sp_status p = re_status e \<and> sp_content_type p = codec_type c \<and>
          (if c = Json
           then (\<forall>b. error_to_json cd (wire_code e) (re_message e) (re_details e) = Inr b \<longrightarrow> sp_body p = b)
           else (\<forall>v. header_value L (wire_code e) = Some v \<longrightarrow> hm_all L (sp_headers p) ''x-error-code'' = [v]) \<and>
             (\<forall>v. header_value L (re_message e) = Some v \<longrightarrow> hm_all L (sp_headers p) ''x-error-message'' = [v]))
      | Panics _ _ \<Rightarrow> False)"

lemma encode_response_in:
  "encode_response L cd (c = Json) rid resp = Inr p \<Longrightarrow> answer_in L cd c (Returns (Inr resp)) p"
  by (cases c; cases "rs_raw resp")
     (auto simp: answer_in_def encode_response_def take_raw_def Let_def with_request_id_def response_parts_with_status_def
        split: option.splits sum.splits)

lemma encode_error_in:
  "http_ok L \<Longrightarrow> answer_in L cd c (Returns (Inl e)) (encode_error L cd (c = FlatBuffer) rid e)"
  by (cases c) (simp_all add: answer_in_def encode_error_def Let_def hm_all_insert_if_valid request_id_name split: option.split)

lemma hyper_handler_question:
  assumes "hyper_handler L cd route f ctx parts body ct st = (Returns (Inr p), st')"
  obtains q where "decode_body cd ct body = Inr (rq_body q)" "rq_headers q = rp_headers parts"
    "rq_path_params q = rp_path_params parts"
    "(\<exists>resp. f q = Returns (Inr resp) \<and> encode_response L cd (respond_json L (rp_headers parts) ct) (rp_request_id parts) resp = Inr p) \<or>
     (\<exists>e. f q = Returns (Inl e) \<and> p = encode_error L cd (respond_flatbuffer L (rp_headers parts) ct) (rp_request_id parts) e)"
proof -
  obtain b cx where bc: "decode_body cd ct body = Inr b" "ctx = Inr cx"
    using assms by (auto simp: hyper_handler_def split: sum.splits)
  show thesis
    by (rule that [of "\<lparr>rq_body = b, rq_ctx = cx, rq_headers = rp_headers parts, rq_method = rp_method parts,
              rq_path = rp_path parts, rq_path_params = rp_path_params parts,
              rq_query_params = rp_query_params parts, rq_request_id = rp_request_id parts\<rparr>"])
       (use assms bc in \<open>auto simp: hyper_handler_def split: outcome.splits sum.splits\<close>)
qed

text \<open>
  C37. Content negotiation: when the \<open>accept\<close> header names a codec, or names none and the content
  type names exactly one, a route's answer is in that codec, success and error alike: the
  body encoded by it under its media type, an error's code and message in the JSON body or in
  the \<open>x-error-code\<close> and \<open>x-error-message\<close> headers; and the request's body is always decoded
  by its content type.
\<close>

theorem answers_in_codec:
  assumes "http_ok L" "case accepted_codec L (rp_headers parts) of Some c' \<Rightarrow> c' = c
       | None \<Rightarrow> if c = Json then is_json ct \<and> \<not> is_flatbuffer ct else is_flatbuffer ct \<and> \<not> is_json ct"
    and "hyper_handler L cd route f ctx parts body ct st = (Returns (Inr p), st')"
  shows "\<exists>q. decode_body cd ct body = Inr (rq_body q) \<and> rq_headers q = rp_headers parts \<and>
     rq_path_params q = rp_path_params parts \<and> answer_in L cd c (f q) p"
proof -
  have codec: "respond_json L (rp_headers parts) ct \<longleftrightarrow> c = Json"
    "respond_flatbuffer L (rp_headers parts) ct \<longleftrightarrow> c = FlatBuffer"
    using assms(2) by (cases c; auto simp: respond_json_def respond_flatbuffer_def split: option.splits codec.splits)+
  obtain q where q: "decode_body cd ct body = Inr (rq_body q)" "rq_headers q = rp_headers parts"
    "rq_path_params q = rp_path_params parts"
    "(\<exists>resp. f q = Returns (Inr resp) \<and> encode_response L cd (c = Json) (rp_request_id parts) resp = Inr p) \<or>
     (\<exists>e. f q = Returns (Inl e) \<and> p = encode_error L cd (c = FlatBuffer) (rp_request_id parts) e)"
    using hyper_handler_question [OF assms(3)] unfolding codec by blast
  then have "answer_in L cd c (f q) p"
    using encode_response_in encode_error_in [OF assms(1)] by metis
  with q(1-3) show ?thesis by blast
qed

theorem answers_in_codec_witness:
  "\<exists>p. fst (hyper_handler list_lib demo_codecs ''/ping'' (\<lambda>_. Returns (Inr (rs_ok list_lib ()))) (Inr ())
       (request_parts_new list_lib ''id'' ''POST'' ''/ping'') [] ''application/json'' reporting_new) = Returns (Inr p) \<and>
     sp_content_type p = ''application/json'' \<and> sp_status p = 200"
proof -
  let ?parts = "request_parts_new list_lib ''id'' ''POST'' ''/ping''"
  let ?h = "hyper_handler list_lib demo_codecs ''/ping'' (\<lambda>_. Returns (Inr (rs_ok list_lib ()))) (Inr ()) ?parts []
     ''application/json'' reporting_new"
  have json: "is_json ''application/json''" "\<not> is_flatbuffer ''application/json''" by code_simp+
  have acc: "accepted_codec list_lib (rp_headers ?parts) = None"
    by (simp add: accepted_codec_def request_parts_new_def list_lib_def list_iter_def)
  have "\<exists>p st'. ?h = (Returns (Inr p), st')"
    by (simp add: hyper_handler_def decode_body_def json demo_codecs_def encode_response_def take_raw_def rs_ok_def
        rs_with_status_def Let_def respond_json_def acc)
  then obtain p st' where h: "?h = (Returns (Inr p), st')" by blast
  from answers_in_codec [OF list_lib_ok _ h, of Json] show ?thesis
    using acc json h by (auto simp: rs_ok_def rs_with_status_def answer_in_def)
qed

text \<open>
  Without a content type and without \<open>accept\<close> the two sides of a route disagree: a success is
  FlatBuffers, an error is JSON.
\<close>

theorem neither_codec_named:
  "accepted_codec L (rp_headers parts) = None \<Longrightarrow>
     \<not> respond_json L (rp_headers parts) [] \<and> \<not> respond_flatbuffer L (rp_headers parts) []"
  by (simp add: respond_json_def respond_flatbuffer_def is_json_def is_flatbuffer_def contains_str_def)

end
