(* ===== verification/OpenApi.thy ===== *)
theory OpenApi
  imports Registry Service
begin

text \<open>
  The OpenAPI document, module \<open>openapi_generation\<close> of \<^verbatim>\<open>crates/flatbed/src/lib.rs\<close>: one
  component schema per generated table, enum and union, one operation per route of the asked
  version. The builders of the utoipa crate are values: \<open>schema\<close> is its \<open>RefOr<Schema>\<close>, with
  the fields this code sets, and its maps (properties, components, paths) are association
  lists in which adding a key again replaces its value.
\<close>

subsection \<open>Versions\<close>

definition route_version :: "'f route_info \<Rightarrow> string" where
  "route_version r = (case oi_version (ri_openapi r) of Some v \<Rightarrow> v | None \<Rightarrow> ''v1'')"

text \<open>A \<open>BTreeSet\<close> of strings iterates in the lexicographic order of their bytes.\<close>

definition get_route_versions :: "'f route_info list \<Rightarrow> string list" where
  "get_route_versions regs =
     (let versions = sort (remdups (map (route_version \<circ> snd) (get_routes regs)))
      in if versions = [] then [''v1''] else versions)"

definition get_latest_version :: "'f route_info list \<Rightarrow> string" where
  "get_latest_version regs =
     (case rev (get_route_versions regs) of v # _ \<Rightarrow> v | [] \<Rightarrow> ''v1'')"

subsection \<open>Schemas\<close>

datatype schema_type = TBoolean | TString | TInteger | TNumber | TObject

datatype schema_format = Int32 | Int64 | Float | Double | CustomFormat string

datatype extension = ExtString string | ExtNumber nat

type_synonym extensions = "(string \<times> extension) list"

text \<open>
  \<open>Ref\<close> holds the reference's location. An \<open>Obj\<close> has its type, format, properties, required
  names, enum values, description and extensions; an \<open>Arr\<close> its items and extensions.
\<close>

datatype schema =
    Ref string
  | Obj schema_type "schema_format option" "(string \<times> schema) list" "string list"
      "string list option" "string option" "extensions option"
  | Arr schema "extensions option"
  | AllOf "schema list" "extensions option"
  | OneOf "schema list"

definition from_schema_name :: "string \<Rightarrow> schema" where
  "from_schema_name n = Ref (''#/components/schemas/'' @ n)"

definition generate_fbs_schema_text :: "schema_info \<Rightarrow> string" where
  "generate_fbs_schema_text s =
     ''table '' @ trim_end_str ''Json'' (si_name s) @ '' {'' @ [CHR 0x0A] @
     concat (map (\<lambda>f. ''  '' @ fi_name f @ '': '' @ fi_fbs_type f @ '';'' @ [CHR 0x0A]) (si_fields s)) @ ''}''"

text \<open>The sets of names, as the lists they were collected from.\<close>

definition type_names :: "type_registry \<Rightarrow> string list" where
  "type_names R = map ty_name (reg_types R)"

definition enum_names :: "type_registry \<Rightarrow> string list" where
  "enum_names R = map en_name (reg_enums R) @ map un_name (reg_unions R)"

definition registered :: "type_registry \<Rightarrow> string \<Rightarrow> bool" where
  "registered R n \<longleftrightarrow> List.member (type_names R) n \<or> List.member (enum_names R) n"

definition int32_names :: "string list" where
  "int32_names = [''int8'', ''byte'', ''uint8'', ''ubyte'', ''int16'', ''short'', ''uint16'', ''ushort'',
     ''int32'', ''int'', ''uint32'', ''uint'']"

definition int64_names :: "string list" where
  "int64_names = [''int64'', ''long'', ''uint64'', ''ulong'']"

definition scalar_type :: "string \<Rightarrow> schema_type \<times> schema_format option" where
  "scalar_type t =
     (if t = ''bool'' then (TBoolean, None)
      else if t = ''string'' then (TString, None)
      else if List.member int32_names t then (TInteger, Some Int32)
      else if List.member int64_names t then (TInteger, Some Int64)
      else if t = ''float32'' \<or> t = ''float'' then (TNumber, Some Float)
      else if t = ''float64'' \<or> t = ''double'' then (TNumber, Some Double)
      else (TString, None))"

definition scalar_schema :: "string \<Rightarrow> extensions option \<Rightarrow> schema" where
  "scalar_schema t ext = (case scalar_type t of (ty, fmt) \<Rightarrow> Obj ty fmt [] [] None None ext)"

text \<open>\<open>strip_prefix('[').and_then(strip_suffix(']'))\<close>: the element type of a vector type.\<close>

definition vector_of :: "string \<Rightarrow> string option" where
  "vector_of t = Option.bind (strip_prefix ''['' t) (strip_suffix '']'')"

lemma vector_of_Some: "vector_of t = Some u \<longleftrightarrow> t = ''['' @ u @ '']''"
  by (auto simp: vector_of_def bind_eq_Some_conv strip_prefix_Some strip_suffix_Some)

function schema_for_fbs_type :: "type_registry \<Rightarrow> string \<Rightarrow> schema" where
  "schema_for_fbs_type R t =
     (case vector_of t of
        Some inner \<Rightarrow> Arr (schema_for_fbs_type R inner) None
      | None \<Rightarrow> if registered R t then from_schema_name t else scalar_schema t None)"
  by auto
termination
  by (relation "measure (length \<circ> snd)") (auto simp: vector_of_Some)

declare schema_for_fbs_type.simps [simp del]

definition field_extensions :: "type_field_info \<Rightarrow> extensions" where
  "field_extensions f = [(''x-fbs-type'', ExtString (tf_fbs_type f)), (''x-fbs-id'', ExtNumber (unat (tf_field_id f)))]"

definition property_schema :: "type_registry \<Rightarrow> type_field_info \<Rightarrow> schema" where
  "property_schema R f =
     (case vector_of (tf_fbs_type f) of
        Some inner \<Rightarrow> Arr (schema_for_fbs_type R inner) (Some (field_extensions f))
      | None \<Rightarrow>
          if registered R (tf_fbs_type f) then
            AllOf [from_schema_name (tf_fbs_type f)] (Some (field_extensions f))
          else scalar_schema (tf_fbs_type f) (Some (field_extensions f)))"

definition union_type_property :: "union_schema \<Rightarrow> type_field_info \<Rightarrow> schema" where
  "union_type_property u f =
     Obj TString None [] [] (Some (map fst (un_variants u))) None
       (Some [(''x-fbs-type'', ExtString (un_name u @ ''_type'')),
              (''x-fbs-id'', ExtNumber (unat (saturating_dec (tf_field_id f))))])"

subsection \<open>Components\<close>

text \<open>The object under construction: its properties and its required names.\<close>

type_synonym object_builder = "(string \<times> schema) list \<times> string list"

definition add_field :: "type_registry \<Rightarrow> (string \<times> union_schema) list \<Rightarrow> type_field_info \<Rightarrow> object_builder \<Rightarrow> object_builder" where
  "add_field R unions f ob =
     (let props = (case map_of unions (tf_fbs_type f) of
                     Some u \<Rightarrow> AList.update (tf_name f @ ''_type'') (union_type_property u f) (fst ob)
                   | None \<Rightarrow> fst ob);
          props = AList.update (tf_name f) (property_schema R f) props
      in (props, if tf_required f then snd ob @ [tf_name f] else snd ob))"

definition table_schema :: "type_registry \<Rightarrow> (string \<times> union_schema) list \<Rightarrow> type_schema \<Rightarrow> schema" where
  "table_schema R unions ty =
     (case fold (add_field R unions) (ty_fields ty) ([], []) of
        (props, required) \<Rightarrow> Obj TObject None props required None None None)"

definition enum_component :: "enum_schema \<Rightarrow> schema" where
  "enum_component en =
     (let names = Obj TString None [] [] (Some (en_variants en)) None None
      in if en_bit_flags en then Arr names None else names)"

definition union_component :: "union_schema \<Rightarrow> schema" where
  "union_component u = OneOf (map (from_schema_name \<circ> snd) (un_variants u))"

text \<open>\<open>collect()\<close> into a map: a later union of the same name replaces the earlier one.\<close>

definition union_map :: "type_registry \<Rightarrow> (string \<times> union_schema) list" where
  "union_map R = fold (\<lambda>u m. AList.update (un_name u) u m) (reg_unions R) []"

type_synonym components = "(string \<times> schema) list"

definition add_type_components :: "type_registry \<Rightarrow> components \<Rightarrow> components" where
  "add_type_components R cs =
     (let unions = union_map R;
          cs = fold (\<lambda>ty. AList.update (ty_name ty) (table_schema R unions ty)) (reg_types R) cs;
          cs = fold (\<lambda>en. AList.update (en_name en) (enum_component en)) (reg_enums R) cs
      in fold (\<lambda>p. AList.update (un_name (snd p)) (union_component (snd p))) unions cs)"

subsection \<open>Operations\<close>

text \<open>A body's contents by media type; a content without a schema is \<open>None\<close>.\<close>

type_synonym contents = "(string \<times> schema option) list"

definition flatbuffers_content :: "schema_info option \<Rightarrow> schema option" where
  "flatbuffers_content s =
     Some (Obj TString (Some (CustomFormat ''binary'')) [] [] None
       (Some (''FlatBuffers binary data.'' @ [CHR 0x0A, CHR 0x0A] @ ''Schema:'' @ [CHR 0x0A] @
              replicate 3 (CHR 0x60) @ ''fbs'' @ [CHR 0x0A] @
              (case s of Some i \<Rightarrow> generate_fbs_schema_text i | None \<Rightarrow> []) @
              [CHR 0x0A] @ replicate 3 (CHR 0x60))) None)"

definition add_inline_field :: "type_registry \<Rightarrow> field_info \<Rightarrow> object_builder \<Rightarrow> object_builder" where
  "add_inline_field R f ob =
     (AList.update (fi_name f) (schema_for_fbs_type R (fi_fbs_type f)) (fst ob),
      if fi_required f then snd ob @ [fi_name f] else snd ob)"

definition inline_schema :: "type_registry \<Rightarrow> schema_info \<Rightarrow> schema" where
  "inline_schema R s =
     (case fold (add_inline_field R) (si_fields s) ([], []) of
        (props, required) \<Rightarrow> Obj TObject None props required None None None)"

definition json_ref_content :: "type_registry \<Rightarrow> schema_info option \<Rightarrow> schema option" where
  "json_ref_content R s =
     (case s of
        Some i \<Rightarrow> Some (if List.member (type_names R) (si_name i) then from_schema_name (si_name i) else inline_schema R i)
      | None \<Rightarrow> None)"

definition body_contents :: "type_registry \<Rightarrow> schema_info option \<Rightarrow> contents" where
  "body_contents R s =
     [(''application/json'', json_ref_content R s),
      (''application/x-flatbuffers'', flatbuffers_content s)]"

record operation =
  op_tags :: "string list"
  op_summary :: "string option"
  op_operation_id :: "string option"
  op_deprecated :: bool
  op_request_body :: "contents \<times> bool"
  op_responses :: "(string \<times> string \<times> contents) list"

definition build_operation :: "type_registry \<Rightarrow> 'f route_info \<Rightarrow> operation" where
  "build_operation R r =
     (let oi = ri_openapi r in
      \<lparr>op_tags = (case oi_tag oi of Some t \<Rightarrow> [t] | None \<Rightarrow> []),
       op_summary = oi_summary oi,
       op_operation_id = oi_operation_id oi,
       op_deprecated = oi_deprecated oi,
       op_request_body = (body_contents R (oi_request_schema oi), True),
       op_responses = [(''200'', ''Successful response'', body_contents R (oi_response_schema oi))]\<rparr>)"

subsection \<open>The document\<close>

record openapi_config =
  oc_title :: string
  oc_description :: "string option"
  oc_external_url :: "string option"

type_synonym path_item = "(http_method \<times> operation) list"

record openapi =
  oa_title :: string
  oa_version :: string
  oa_description :: "string option"
  oa_paths :: "(string \<times> path_item) list"
  oa_components :: components
  oa_servers :: "string list option"

definition routes_of_version :: "'f route_info list \<Rightarrow> string \<Rightarrow> 'f route_info list" where
  "routes_of_version regs v = filter (\<lambda>r. route_version r = v) (map snd (get_routes regs))"

text \<open>\<open>entry(path).or_default().push(route)\<close> on a \<open>BTreeMap\<close>, which iterates in key order.\<close>

definition group_push :: "'f route_info \<Rightarrow> (string \<times> 'f route_info list) list \<Rightarrow> (string \<times> 'f route_info list) list" where
  "group_push r g =
     AList.update (ri_path r) ((case map_of g (ri_path r) of Some rs \<Rightarrow> rs | None \<Rightarrow> []) @ [r]) g"

definition path_groups :: "'f route_info list \<Rightarrow> (string \<times> 'f route_info list) list" where
  "path_groups rs = sort_key fst (fold group_push rs [])"

definition build_path_item :: "type_registry \<Rightarrow> 'f route_info list \<Rightarrow> path_item" where
  "build_path_item R rs = fold (\<lambda>r. AList.update (ri_method r) (build_operation R r)) rs []"

definition generate_openapi_spec ::
  "type_registry \<Rightarrow> 'f route_info list \<Rightarrow> openapi_config \<Rightarrow> string \<Rightarrow> openapi" where
  "generate_openapi_spec R regs config version =
     \<lparr>oa_title = oc_title config, oa_version = version, oa_description = oc_description config,
      oa_paths = fold (\<lambda>g. AList.update (fst g) (build_path_item R (snd g)))
                   (path_groups (routes_of_version regs version)) [],
      oa_components = add_type_components R [],
      oa_servers = map_option (\<lambda>u. [u]) (oc_external_url config)\<rparr>"

text \<open>\<open>to_string_pretty\<close> is serde_json's, which may refuse.\<close>

definition get_openapi_json_for_version ::
  "(openapi \<Rightarrow> string option) \<Rightarrow> type_registry \<Rightarrow> 'f route_info list \<Rightarrow> openapi_config \<Rightarrow> string \<Rightarrow> string" where
  "get_openapi_json_for_version pretty R regs config version =
     (case pretty (generate_openapi_spec R regs config version) of Some s \<Rightarrow> s | None \<Rightarrow> ''{}'')"

subsection \<open>The built-in endpoints of \<^verbatim>\<open>hyper/endpoints.rs\<close>\<close>

definition plain_parts :: "'h http_lib \<Rightarrow> string \<Rightarrow> string \<Rightarrow> 'h response_parts" where
  "plain_parts L body ct =
     \<lparr>sp_body = str_bytes body, sp_status = 200, sp_headers = hm_new L, sp_content_type = ct\<rparr>"

definition health_response :: "'h http_lib \<Rightarrow> 'h response_parts" where
  "health_response L = plain_parts L ''OK'' ''text/plain''"

definition ready_response :: "'h http_lib \<Rightarrow> 'h response_parts" where
  "ready_response L = plain_parts L ''Ready'' ''text/plain''"

definition metrics_response :: "'h http_lib \<Rightarrow> string \<Rightarrow> 'h response_parts" where
  "metrics_response L metrics = plain_parts L metrics ''text/plain; version=0.0.4; charset=utf-8''"

definition openapi_response ::
  "'h http_lib \<Rightarrow> (string \<Rightarrow> string) \<Rightarrow> 'f route_info list \<Rightarrow> string option \<Rightarrow> 'h response_parts" where
  "openapi_response L document regs version =
     plain_parts L (document (case version of Some v \<Rightarrow> v | None \<Rightarrow> get_latest_version regs)) ''application/json''"

definition is_telemetry_endpoint :: "string \<Rightarrow> bool" where
  "is_telemetry_endpoint path \<longleftrightarrow> path = ''/healthz'' \<or> path = ''/readyz'' \<or> path = ''/metrics''"

definition versioned_path :: "string \<Rightarrow> string" where
  "versioned_path v = ''/'' @ v @ ''/openapi.json''"

definition is_openapi_endpoint :: "'f route_info list \<Rightarrow> string \<Rightarrow> bool" where
  "is_openapi_endpoint regs path \<longleftrightarrow>
     path = ''/openapi.json'' \<or> list_ex (\<lambda>v. path = versioned_path v) (get_route_versions regs)"

definition extract_openapi_version :: "'f route_info list \<Rightarrow> string \<Rightarrow> string option" where
  "extract_openapi_version regs path =
     (if path = ''/openapi.json'' then Some (get_latest_version regs)
      else List.find (\<lambda>v. path = versioned_path v) (get_route_versions regs))"

text \<open>The service's context as boot fills in its OpenAPI functions.\<close>

definition serves_registry ::
  "(openapi \<Rightarrow> string option) \<Rightarrow> type_registry \<Rightarrow> 'f route_info list \<Rightarrow> openapi_config \<Rightarrow> ('c, 'h) service_ctx \<Rightarrow> bool" where
  "serves_registry pretty R regs config cx \<longleftrightarrow>
     sc_latest_version cx = get_latest_version regs \<and> sc_versions cx = get_route_versions regs \<and>
     sc_openapi_json cx = get_openapi_json_for_version pretty R regs config"

subsection \<open>Every reference resolves\<close>

text \<open>The locations a schema refers to.\<close>

fun refs :: "schema \<Rightarrow> string list" where
  "refs (Ref l) = [l]"
| "refs (Obj _ _ props _ _ _ _) = concat (map (\<lambda>p. refs (snd p)) props)"
| "refs (Arr items _) = refs items"
| "refs (AllOf xs _) = concat (map refs xs)"
| "refs (OneOf xs) = concat (map refs xs)"

definition content_refs :: "contents \<Rightarrow> string list" where
  "content_refs cs = concat (map (\<lambda>(_, s). case s of Some s \<Rightarrow> refs s | None \<Rightarrow> []) cs)"

definition operation_refs :: "operation \<Rightarrow> string list" where
  "operation_refs oper =
     content_refs (fst (op_request_body oper)) @
     concat (map (\<lambda>(_, _, cs). content_refs cs) (op_responses oper))"

definition spec_refs :: "openapi \<Rightarrow> string list" where
  "spec_refs D =
     concat (map (\<lambda>(_, s). refs s) (oa_components D)) @
     concat (map (\<lambda>(_, item). concat (map (\<lambda>(_, oper). operation_refs oper) item)) (oa_paths D))"

definition resolves :: "openapi \<Rightarrow> string \<Rightarrow> bool" where
  "resolves D l \<longleftrightarrow>
     (case strip_prefix ''#/components/schemas/'' l of
        Some n \<Rightarrow> map_of (oa_components D) n \<noteq> None
      | None \<Rightarrow> False)"

text \<open>The tables the variants of a union name are generated with it, so they are registered.\<close>

definition variants_registered :: "type_registry \<Rightarrow> bool" where
  "variants_registered R \<longleftrightarrow>
     list_all (\<lambda>u. list_all (\<lambda>v. registered R (snd v)) (un_variants u)) (reg_unions R)"

lemma fold_update_dom:
  "map_of (fold (\<lambda>x. AList.update (k x) (v x)) xs m) n \<noteq> None \<longleftrightarrow> n \<in> k ` set xs \<or> map_of m n \<noteq> None"
  by (induction xs arbitrary: m) (auto split: if_splits)

lemma set_update_subset: "set (AList.update k v m) \<subseteq> insert (k, v) (set m)"
  by (induction m) auto

lemma update_all: "Q v \<Longrightarrow> \<forall>p \<in> set m. Q (snd p) \<Longrightarrow> \<forall>p \<in> set (AList.update k v m). Q (snd p)"
  using set_update_subset [of k v m] by auto

lemma fold_update_all:
  assumes "\<forall>x \<in> set xs. Q (v x)" "\<forall>p \<in> set m. Q (snd p)"
  shows "\<forall>p \<in> set (fold (\<lambda>x. AList.update (k x) (v x)) xs m). Q (snd p)"
  using assms
proof (induction xs arbitrary: m)
  case (Cons x xs)
  then have "\<forall>p \<in> set (AList.update (k x) (v x) m). Q (snd p)" by (intro update_all) auto
  then show ?case using Cons by simp
qed simp

definition closed :: "type_registry \<Rightarrow> schema \<Rightarrow> bool" where
  "closed R s \<longleftrightarrow> (\<forall>l \<in> set (refs s). \<exists>n. l = ''#/components/schemas/'' @ n \<and> registered R n)"

lemma closed_simps [simp]:
  "closed R (Obj a b props c d e f) \<longleftrightarrow> (\<forall>p \<in> set props. closed R (snd p))"
  "closed R (Arr s x) \<longleftrightarrow> closed R s"
  "closed R (AllOf ss x) \<longleftrightarrow> (\<forall>s \<in> set ss. closed R s)"
  "closed R (OneOf ss) \<longleftrightarrow> (\<forall>s \<in> set ss. closed R s)"
  by (simp_all add: closed_def)

lemma closed_name [simp]: "closed R (from_schema_name n) \<longleftrightarrow> registered R n"
  by (simp add: closed_def from_schema_name_def)

lemma closed_scalar [simp]: "closed R (scalar_schema t x)"
  by (simp add: scalar_schema_def split: prod.split)

lemma closed_fbs_type [simp]: "closed R (schema_for_fbs_type R t)"
proof (induction R t rule: schema_for_fbs_type.induct)
  case (1 R t)
  then show ?case by (subst schema_for_fbs_type.simps) (simp split: option.split)
qed

lemma closed_property [simp]: "closed R (property_schema R f)"
  by (simp add: property_schema_def split: option.split)

lemma closed_union_property [simp]: "closed R (union_type_property u f)"
  by (simp add: union_type_property_def)

lemma closed_add_field:
  "\<forall>p \<in> set (fst ob). closed R (snd p) \<Longrightarrow> \<forall>p \<in> set (fst (add_field R unions f ob)). closed R (snd p)"
  unfolding add_field_def Let_def fst_conv
  by (cases "map_of unions (tf_fbs_type f)") (intro update_all closed_property; simp add: update_all)+

lemma closed_fold:
  assumes "\<And>f ob. \<forall>p \<in> set (fst ob). closed R (snd p) \<Longrightarrow> \<forall>p \<in> set (fst (step f ob)). closed R (snd p)"
    and "\<forall>p \<in> set (fst ob). closed R (snd p)"
  shows "\<forall>p \<in> set (fst (fold step fs ob)). closed R (snd p)"
  using assms(2)
proof (induction fs arbitrary: ob)
  case (Cons f fs)
  have "\<forall>p \<in> set (fst (fold step fs (step f ob))). closed R (snd p)"
    by (rule Cons.IH, rule assms(1), rule Cons.prems)
  then show ?case by simp
qed simp

lemma closed_table [simp]: "closed R (table_schema R unions ty)"
  using closed_fold [of R "add_field R unions", OF closed_add_field, of "([], [])" "ty_fields ty"]
  by (simp add: table_schema_def split: prod.split)

lemma closed_inline [simp]: "closed R (inline_schema R s)"
proof -
  have "\<forall>p \<in> set (fst ob). closed R (snd p) \<Longrightarrow> \<forall>p \<in> set (fst (add_inline_field R f ob)). closed R (snd p)" for f ob
    unfolding add_inline_field_def fst_conv by (intro update_all closed_fbs_type)
  from closed_fold [of R "add_inline_field R", OF this, of "([], [])" "si_fields s"]
  show ?thesis by (simp add: inline_schema_def split: prod.split)
qed

lemma closed_enum [simp]: "closed R (enum_component en)"
  by (simp add: enum_component_def Let_def)

lemma closed_json: "json_ref_content R i = Some s \<Longrightarrow> closed R s"
  by (cases i) (auto simp: json_ref_content_def registered_def split: if_splits)

lemma closed_flatbuffers: "flatbuffers_content i = Some s \<Longrightarrow> closed R s"
  unfolding flatbuffers_content_def option.inject by (drule sym) simp

lemma closed_body: "(t, Some s) \<in> set (body_contents R i) \<Longrightarrow> closed R s"
  unfolding body_contents_def using closed_json closed_flatbuffers by fastforce

lemma union_map_from: "\<forall>p \<in> set (union_map R). snd p \<in> set (reg_unions R) \<and> fst p = un_name (snd p)"
proof -
  have "\<forall>p \<in> set (fold (\<lambda>u. AList.update (un_name u) u) us m). snd p \<in> U \<and> fst p = un_name (snd p)"
    if "set us \<subseteq> U" "\<forall>p \<in> set m. snd p \<in> U \<and> fst p = un_name (snd p)" for us m U
    using that
  proof (induction us arbitrary: m)
    case (Cons u us)
    have step: "\<forall>p \<in> set (AList.update (un_name u) u m). snd p \<in> U \<and> fst p = un_name (snd p)"
      using Cons.prems set_update_subset [of "un_name u" u m] by auto
    show ?case using Cons.IH [OF _ step] Cons.prems(1) by simp
  qed simp
  from this [of "reg_unions R" "set (reg_unions R)" "[]"]
  show ?thesis by (simp add: union_map_def)
qed

lemma union_map_has: "u \<in> set (reg_unions R) \<Longrightarrow> \<exists>u'. (un_name u, u') \<in> set (union_map R)"
  using fold_update_dom [of un_name "\<lambda>u. u" "reg_unions R" "[]" "un_name u"]
  by (auto simp: union_map_def dest: map_of_SomeD)

lemma components_dom: "map_of (add_type_components R []) n \<noteq> None \<longleftrightarrow> registered R n"
proof -
  have "(\<lambda>p. un_name (snd p)) ` set (union_map R) = un_name ` set (reg_unions R)"
    using union_map_from [of R] union_map_has [of _ R] by (force simp: image_iff)
  then show ?thesis unfolding add_type_components_def Let_def fold_update_dom
    by (auto simp: registered_def type_names_def enum_names_def)
qed

lemma components_closed:
  assumes "variants_registered R"
  shows "\<forall>p \<in> set (add_type_components R []). closed R (snd p)"
proof -
  have u: "\<forall>p \<in> set (union_map R). closed R (union_component (snd p))"
    using union_map_from [of R] assms by (auto simp: union_component_def variants_registered_def list_all_iff)
  show ?thesis unfolding add_type_components_def Let_def
    by (intro fold_update_all) (simp_all add: u)
qed

subsection \<open>The operations of a version\<close>

definition spec_operation :: "openapi \<Rightarrow> string \<Rightarrow> http_method \<Rightarrow> operation option" where
  "spec_operation D p m = Option.bind (map_of (oa_paths D) p) (\<lambda>item. map_of item m)"

lemma group_fold:
  "map_of (fold group_push rs g) p =
     (case map_of g p of
        Some gs \<Rightarrow> Some (gs @ filter (\<lambda>r. ri_path r = p) rs)
      | None \<Rightarrow> if filter (\<lambda>r. ri_path r = p) rs = [] then None else Some (filter (\<lambda>r. ri_path r = p) rs))"
proof (induction rs arbitrary: g)
  case (Cons r rs)
  then show ?case by (simp add: group_push_def split: option.splits)
qed (simp split: option.split)

lemma distinct_group_fold: "distinct (map fst g) \<Longrightarrow> distinct (map fst (fold group_push rs g))"
  by (induction rs arbitrary: g) (simp_all add: group_push_def distinct_update)

lemma distinct_sort_key: "distinct (map fst g) \<Longrightarrow> distinct (map fst (sort_key (fst :: _ \<Rightarrow> 'k::linorder) g))"
proof -
  assume "distinct (map fst g)"
  moreover have "mset (map fst (sort_key fst g)) = mset (map fst g)" by simp
  ultimately show ?thesis by (metis mset_eq_imp_distinct_iff)
qed

lemma map_of_sort_key:
  assumes "distinct (map fst g)"
  shows "map_of (sort_key fst g) p = map_of g (p :: 'k::linorder)"
  by (rule map_of_inject_set [THEN iffD2, THEN fun_cong])
    (use assms distinct_sort_key [OF assms] in simp_all)

lemma map_of_fold_update:
  "distinct (map k xs) \<Longrightarrow>
     map_of (fold (\<lambda>x. AList.update (k x) (v x)) xs m) n =
       (case List.find (\<lambda>x. k x = n) xs of Some x \<Rightarrow> Some (v x) | None \<Rightarrow> map_of m n)"
proof (induction xs arbitrary: m)
  case (Cons x xs)
  show ?case
  proof (cases "k x = n")
    case True
    then have "List.find (\<lambda>x. k x = n) xs = None"
      using Cons.prems by (auto simp: find_None_iff image_iff)
    with True Cons show ?thesis by simp
  qed (use Cons in \<open>simp split: option.split\<close>)
qed simp

lemma find_fst: "List.find (\<lambda>x. fst x = n) xs = map_option (Pair n) (map_of xs n)"
  by (induction xs) auto

lemma oa_paths_lookup:
  "map_of (oa_paths (generate_openapi_spec R regs c v)) p =
     (case filter (\<lambda>r. ri_path r = p) (routes_of_version regs v) of
        [] \<Rightarrow> None | r # rs \<Rightarrow> Some (build_path_item R (r # rs)))"
proof -
  let ?g = "fold group_push (routes_of_version regs v) []"
  have d: "distinct (map fst ?g)" by (rule distinct_group_fold) simp
  have "distinct (map fst (path_groups (routes_of_version regs v)))"
    unfolding path_groups_def using d by (rule distinct_sort_key)
  from map_of_fold_update [OF this, of "\<lambda>g. build_path_item R (snd g)" "[]" p]
  have "map_of (oa_paths (generate_openapi_spec R regs c v)) p =
      map_option (build_path_item R) (map_of ?g p)"
    unfolding generate_openapi_spec_def path_groups_def find_fst map_of_sort_key [OF d]
    by (simp add: option.case_eq_if map_option_case)
  then show ?thesis
    by (cases "filter (\<lambda>r. ri_path r = p) (routes_of_version regs v)") (simp_all add: group_fold)
qed

lemma routes_of_version_key:
  "distinct (map route_key (routes_of_version regs v))"
proof -
  have "map fst (get_routes regs) = map route_key (map snd (get_routes regs))"
    using get_routes_key by force
  then have "distinct (map route_key (map snd (get_routes regs)))" by (metis distinct_get_routes)
  then show ?thesis unfolding routes_of_version_def by (rule distinct_map_filter)
qed

lemma routes_of_version_iff:
  "r \<in> set (routes_of_version regs v) \<longleftrightarrow> map_of (get_routes regs) (route_key r) = Some r \<and> route_version r = v"
  by (auto simp: routes_of_version_def image_iff dest: get_routes_key)
    (metis get_routes_key snd_conv distinct_get_routes map_of_is_SomeI, metis map_of_SomeD snd_conv)

lemma find_unique:
  assumes "\<And>a. a \<in> set xs \<Longrightarrow> P a \<Longrightarrow> a = x"
  shows "List.find P xs = (if x \<in> set xs \<and> P x then Some x else None)"
  using assms by (induction xs) auto

lemma path_item_lookup:
  assumes "rs = filter (\<lambda>r. ri_path r = p) (routes_of_version regs v)"
  shows "map_of (build_path_item R rs) m =
     (case map_of (get_routes regs) (p, m) of
        Some r \<Rightarrow> if route_version r = v then Some (build_operation R r) else None
      | None \<Rightarrow> None)"
proof -
  have "distinct (map route_key rs)"
    unfolding assms by (rule distinct_map_filter) (rule routes_of_version_key)
  then have d: "distinct (map ri_method rs)"
    by (auto simp: distinct_map inj_on_def assms route_key_def)
  have mem: "x \<in> set rs \<and> ri_method x = m \<longleftrightarrow> map_of (get_routes regs) (p, m) = Some x \<and> route_version x = v" for x
    using routes_of_version_iff [of x regs v] get_routes_key [of "(p, m)" x regs]
    by (auto simp: assms route_key_def dest: map_of_SomeD)
  have "List.find (\<lambda>r. ri_method r = m) rs =
      (case map_of (get_routes regs) (p, m) of
         Some r \<Rightarrow> if route_version r = v then Some r else None | None \<Rightarrow> None)"
  proof (cases "\<exists>x. x \<in> set rs \<and> ri_method x = m")
    case True
    then obtain x where x: "x \<in> set rs \<and> ri_method x = m" by blast
    have u: "a = x" if "a \<in> set rs" "ri_method a = m" for a
      using mem [of a] mem [of x] x that by (metis option.inject)
    have "List.find (\<lambda>r. ri_method r = m) rs = Some x"
      using find_unique [of rs "\<lambda>r. ri_method r = m" x, OF u] x by simp
    moreover have "map_of (get_routes regs) (p, m) = Some x" "route_version x = v"
      using mem [of x] x by blast+
    ultimately show ?thesis by (simp only: option.case simp_thms if_True)
  next
    case False
    then have "List.find (\<lambda>r. ri_method r = m) rs = None" by (auto simp: find_None_iff)
    with False mem show ?thesis by (auto split: option.split)
  qed
  then show ?thesis
    unfolding build_path_item_def by (simp add: map_of_fold_update [OF d] split: option.split)
qed

text \<open>
  The document of a version has, under each path and method, the operation built from the
  route registered there when that route is of the version, and nothing elsewhere.
\<close>

theorem spec_lists_routes:
  "spec_operation (generate_openapi_spec R regs c v) p m =
     (case map_of (get_routes regs) (p, m) of
        Some r \<Rightarrow> if route_version r = v then Some (build_operation R r) else None
      | None \<Rightarrow> None)"
proof (cases "filter (\<lambda>r. ri_path r = p) (routes_of_version regs v)")
  case Nil
  then have "r \<notin> set (routes_of_version regs v) \<or> ri_path r \<noteq> p" for r by (auto simp: filter_empty_conv)
  then show ?thesis using Nil get_routes_key [of "(p, m)" _ regs]
    by (auto simp: spec_operation_def oa_paths_lookup routes_of_version_iff route_key_def
        dest!: map_of_SomeD split: option.split)
next
  case (Cons r rs)
  then show ?thesis
    using path_item_lookup [OF Cons [symmetric], of R m]
    by (simp add: spec_operation_def oa_paths_lookup)
qed

lemma closed_operation: "l \<in> set (operation_refs (build_operation R r)) \<Longrightarrow> \<exists>s. closed R s \<and> l \<in> set (refs s)"
proof -
  have content: "\<exists>s. closed R s \<and> l \<in> set (refs s)" if "l \<in> set (content_refs (body_contents R i))" for i
    using that closed_body [of _ _ R i] unfolding content_refs_def by (auto split: option.splits)
  assume "l \<in> set (operation_refs (build_operation R r))"
  then show ?thesis
    unfolding operation_refs_def build_operation_def Let_def using content by auto
qed

lemma paths_from:
  fixes regs :: "'f route_info list"
  assumes "(p, item) \<in> set (oa_paths (generate_openapi_spec R regs c v))" "(m, oper) \<in> set item"
  shows "\<exists>r :: 'f route_info. oper = build_operation R r"
proof -
  have "\<forall>q \<in> set (build_path_item R rs). \<exists>r :: 'f route_info. snd q = build_operation R r" for rs :: "'f route_info list"
    unfolding build_path_item_def by (rule fold_update_all) auto
  then have "\<forall>q \<in> set (oa_paths (generate_openapi_spec R regs c v)). \<forall>x \<in> set (snd q).
      \<exists>r :: 'f route_info. snd x = build_operation R r"
    unfolding generate_openapi_spec_def openapi.simps by (intro fold_update_all) auto
  with assms show ?thesis by fastforce
qed

text \<open>
  C25. Every reference of a version's document, in its components and in its operations, points
  to a component of the document, once the tables that union variants carry are registered;
  hand-written body types and unknown field types are inlined.
\<close>

theorem spec_refs_resolve:
  assumes "variants_registered R"
  shows "list_all (resolves (generate_openapi_spec R regs c v)) (spec_refs (generate_openapi_spec R regs c v))"
proof -
  let ?D = "generate_openapi_spec R regs c v"
  have comps: "oa_components ?D = add_type_components R []" by (simp add: generate_openapi_spec_def)
  have closed: "resolves ?D l" if s: "closed R s" "l \<in> set (refs s)" for s l
  proof -
    obtain n where n: "l = ''#/components/schemas/'' @ n" "registered R n"
      using s unfolding closed_def by blast
    then have "strip_prefix ''#/components/schemas/'' l = Some n" by (simp only: strip_prefix_Some)
    then show ?thesis using n(2) by (simp add: resolves_def comps components_dom [unfolded not_None_eq])
  qed
  have "resolves ?D l" if l: "l \<in> set (spec_refs ?D)" for l
  proof -
    consider s n where "(n, s) \<in> set (oa_components ?D)" "l \<in> set (refs s)"
      | p item m oper where "(p, item) \<in> set (oa_paths ?D)" "(m, oper) \<in> set item" "l \<in> set (operation_refs oper)"
      using l unfolding spec_refs_def by auto
    then show ?thesis
    proof cases
      case 1
      then show ?thesis using components_closed [OF assms] closed unfolding comps by fastforce
    next
      case 2
      then show ?thesis using paths_from [OF 2(1) 2(2)] closed_operation closed by blast
    qed
  qed
  then show ?thesis by (simp add: list_all_iff)
qed

theorem spec_refs_resolve_witness:
  "let R = \<lparr>reg_types = [\<lparr>ty_name = ''A'', ty_namespace = ''n'',
                ty_fields = [\<lparr>tf_name = ''u'', tf_fbs_type = ''U'', tf_field_id = 1, tf_required = False\<rparr>]\<rparr>],
            reg_enums = [], reg_unions = [\<lparr>un_name = ''U'', un_namespace = ''n'', un_variants = [(''A'', ''A'')]\<rparr>]\<rparr>;
       D = generate_openapi_spec R ([] :: unit route_info list)
             \<lparr>oc_title = ''t'', oc_description = None, oc_external_url = None\<rparr> ''v1''
   in list_all (resolves D) (spec_refs D)"
  unfolding Let_def
  by (rule spec_refs_resolve) (simp add: variants_registered_def registered_def type_names_def)

text \<open>
  The predicates of the endpoints module and the service agree: a GET of a path gets a
  document from the service just when \<open>is_openapi_endpoint\<close> holds of it, and the document is that
  of the version \<open>extract_openapi_version\<close> names.
\<close>

theorem openapi_endpoint_agrees:
  assumes "serves_registry pretty R regs config cx" "is_get_or_head m"
  shows "(handle_openapi_endpoint L cx m path \<noteq> None \<longleftrightarrow> is_openapi_endpoint regs path) \<and>
    handle_openapi_endpoint L cx m path =
      map_option (\<lambda>v. build_json_response L (get_openapi_json_for_version pretty R regs config v))
        (extract_openapi_version regs path)"
proof -
  have "List.find (\<lambda>v. path = versioned_path v) vs = None \<longleftrightarrow> \<not> list_ex (\<lambda>v. path = versioned_path v) vs" for vs
    by (auto simp: find_None_iff list_ex_iff)
  then have ex: "extract_openapi_version regs path \<noteq> None \<longleftrightarrow> is_openapi_endpoint regs path"
    by (simp add: extract_openapi_version_def is_openapi_endpoint_def del: not_None_eq)
  have "handle_openapi_endpoint L cx m path =
      map_option (\<lambda>v. build_json_response L (get_openapi_json_for_version pretty R regs config v))
        (extract_openapi_version regs path)"
    using assms
    by (simp add: handle_openapi_endpoint_def extract_openapi_version_def serves_registry_def versioned_path_def)
  with ex show ?thesis by simp
qed

lemma latest_version_max:
  assumes "r \<in> set regs" "map_of (get_routes regs) (route_key r) = Some r"
  shows "route_version r \<le> get_latest_version regs"
proof -
  let ?vs = "sort (remdups (map (route_version \<circ> snd) (get_routes regs)))"
  have mem: "route_version r \<in> set ?vs"
    using map_of_SomeD [OF assms(2)] by (force simp: image_iff)
  then have ne: "?vs \<noteq> []" by force
  have "\<forall>x \<in> set ?vs. x \<le> last ?vs"
  proof -
    have "sorted (butlast ?vs @ [last ?vs])" using ne by simp
    then have "\<forall>x \<in> set (butlast ?vs @ [last ?vs]). x \<le> last ?vs" unfolding sorted_append by simp
    then show ?thesis using ne by simp
  qed
  moreover have "get_latest_version regs = last ?vs"
    using ne by (simp add: get_latest_version_def get_route_versions_def Let_def last_rev [symmetric] hd_rev
        split: list.split)
  ultimately show ?thesis using mem by metis
qed

text \<open>A service with one route of version \<open>v2\<close>.\<close>

definition ping_route :: "unit route_info" where
  "ping_route =
     \<lparr>ri_path = ''/ping'', ri_method = Get, ri_request_type = ''P'', ri_response_type = ''P'', ri_handlers = (),
      ri_openapi = \<lparr>oi_version = Some ''v2'', oi_tag = None, oi_summary = None, oi_operation_id = None,
        oi_deprecated = False, oi_request_schema = None, oi_response_schema = None\<rparr>\<rparr>"

definition ping_config :: openapi_config where
  "ping_config = \<lparr>oc_title = ''t'', oc_description = None, oc_external_url = None\<rparr>"

definition no_types :: type_registry where
  "no_types = \<lparr>reg_types = [], reg_enums = [], reg_unions = []\<rparr>"

definition ping_ctx :: "(unit, (string \<times> string) list) service_ctx" where
  "ping_ctx =
     \<lparr>sc_router = router_node_new, sc_healthz = True, sc_booted = True, sc_context = Some (),
      sc_readiness = readiness_new, sc_splash = None, sc_telemetry = None, sc_states = [],
      sc_before_request = None, sc_static = [], sc_fs = Map.empty,
      sc_latest_version = get_latest_version [ping_route], sc_versions = get_route_versions [ping_route],
      sc_openapi_json = get_openapi_json_for_version (\<lambda>_. None) no_types [ping_route] ping_config,
      sc_bfbs = None\<rparr>"

theorem openapi_endpoint_agrees_witness:
  "handle_openapi_endpoint list_lib ping_ctx ''GET'' ''/v2/openapi.json'' =
     Some (build_json_response list_lib ''{}'')"
proof -
  have "serves_registry (\<lambda>_. None) no_types [ping_route] ping_config ping_ctx"
    by (simp add: serves_registry_def ping_ctx_def)
  moreover have "is_get_or_head ''GET''" by code_simp
  moreover have "extract_openapi_version [ping_route] ''/v2/openapi.json'' = Some ''v2''" by code_simp
  ultimately show ?thesis
    using openapi_endpoint_agrees [of "\<lambda>_. None" no_types "[ping_route]" ping_config ping_ctx "''GET''" list_lib
        "''/v2/openapi.json''"]
    by (simp add: get_openapi_json_for_version_def)
qed

end
