(* ===== verification/Pagination.thy ===== *)
theory Pagination
  imports HttpTypes
begin

text \<open>
  Cursor pagination, \<^verbatim>\<open>crates/flatbed/src/pagination.rs\<close>: page sizes, the cursor with its tag,
  and one page of a list. HMAC, base64, the key's JSON and the request's FlatBuffer encoding
  are other code: the fields of \<open>page_lib\<close>, with the laws \<open>page_lib_ok\<close>.
\<close>

subsection \<open>Parameters\<close>

record ('q, 'k) page_lib =
  hmac :: "bytes \<Rightarrow> bytes \<Rightarrow> bytes"
  b64_encode :: "bytes \<Rightarrow> string"
  b64_decode :: "string \<Rightarrow> bytes option"
  key_to_json :: "'k \<Rightarrow> string + bytes"
  key_from_json :: "bytes \<Rightarrow> 'k option"
  filters_to_fb :: "'q \<Rightarrow> bytes"
  filters_from_fb :: "bytes \<Rightarrow> 'q option"
  take_page :: "'q \<Rightarrow> (string option \<times> 32 word) \<times> 'q"
  set_page_size :: "32 word \<Rightarrow> 'q \<Rightarrow> 'q"
  default_request :: 'q

text \<open>An HMAC-SHA256 has 32 bytes; decoding undoes encoding; only nothing is encoded as the empty string.\<close>

definition page_lib_ok :: "('q, 'k) page_lib \<Rightarrow> bool" where
  "page_lib_ok P \<longleftrightarrow>
     (\<forall>s m. length (hmac P s m) = 32) \<and>
     (\<forall>bs. b64_decode P (b64_encode P bs) = Some bs) \<and>
     (\<forall>bs. bs \<noteq> [] \<longrightarrow> b64_encode P bs \<noteq> []) \<and>
     (\<forall>k bs. key_to_json P k = Inr bs \<longrightarrow> key_from_json P bs = Some k) \<and>
     (\<forall>q. filters_from_fb P (filters_to_fb P q) = Some q)"

subsection \<open>Pager\<close>

definition VERSION :: "8 word" where "VERSION = 1"

definition LABEL :: bytes where "LABEL = str_bytes ''flatbed.page-cursor''"

definition TAG_LEN :: nat where "TAG_LEN = 16"

definition HEADER_LEN :: nat where "HEADER_LEN = 4"

definition MAX_CURSOR_CHARS :: nat where "MAX_CURSOR_CHARS = 4096"

definition INVALID_CURSOR :: string where "INVALID_CURSOR = ''INVALID_CURSOR''"

definition CURSOR_WITH_FILTERS :: string where "CURSOR_WITH_FILTERS = ''CURSOR_WITH_FILTERS''"

datatype direction = Forward | Backward

fun direction_byte :: "direction \<Rightarrow> 8 word" where
  "direction_byte Forward = 0"
| "direction_byte Backward = 1"

record ('q, 'k) list_query =
  lq_request :: 'q
  lq_direction :: direction
  lq_after :: "'k option"
  lq_limit :: "32 word"

record pager =
  pg_secret :: bytes
  pg_default :: "32 word"
  pg_max :: "32 word"

definition pager_new :: "bytes \<Rightarrow> pager" where
  "pager_new secret = \<lparr>pg_secret = secret, pg_default = 50, pg_max = 200\<rparr>"

definition default_page_size :: "32 word \<Rightarrow> pager \<Rightarrow> pager" where
  "default_page_size n pg = pg\<lparr>pg_default := n\<rparr>"

definition max_page_size :: "32 word \<Rightarrow> pager \<Rightarrow> pager" where
  "max_page_size n pg = pg\<lparr>pg_max := n\<rparr>"

definition effective_page_size :: "pager \<Rightarrow> 32 word \<Rightarrow> 32 word" where
  "effective_page_size pg requested =
     (let size = (if requested = 0 then pg_default pg else requested) in min size (pg_max pg))"

subsection \<open>Cursors\<close>

record binding =
  bd_method :: bytes
  bd_path :: bytes
  bd_caller :: bytes

text \<open>\<open>to_be_bytes\<close> of a \<open>k\<close>-byte integer, and back.\<close>

primrec be_bytes :: "nat \<Rightarrow> nat \<Rightarrow> bytes" where
  "be_bytes 0 n = []"
| "be_bytes (Suc k) n = of_nat (n div 256 ^ k) # be_bytes k n"

definition from_be_bytes :: "bytes \<Rightarrow> nat" where
  "from_be_bytes bs = foldl (\<lambda>n b. n * 256 + unat b) 0 bs"

text \<open>What the tag authenticates.\<close>

definition tag_message :: "binding \<Rightarrow> bytes \<Rightarrow> bytes" where
  "tag_message b payload =
     LABEL @ concat (map (\<lambda>part. be_bytes 8 (length part) @ part) [bd_method b, bd_path b, bd_caller b, payload])"

definition tag :: "('q, 'k) page_lib \<Rightarrow> pager \<Rightarrow> binding \<Rightarrow> bytes \<Rightarrow> bytes" where
  "tag P pg b payload = hmac P (pg_secret pg) (tag_message b payload)"

definition mint ::
  "'h http_lib \<Rightarrow> ('q, 'k) page_lib \<Rightarrow> pager \<Rightarrow> direction \<Rightarrow> 'k \<Rightarrow> 'q \<Rightarrow> binding \<Rightarrow> (unit, 'h) route_error + string" where
  "mint L P pg d k filters b =
     (case key_to_json P k of
        Inl e \<Rightarrow> Inl (internal L (''page key does not serialize: '' @ e))
      | Inr key \<Rightarrow>
          if length key > 65535 then Inl (internal L ''page key exceeds 65535 bytes'')
          else
            (let payload = [VERSION, direction_byte d] @ be_bytes 2 (length key) @ key @ filters_to_fb P filters;
                 t = tag P pg b payload
             in Inr (b64_encode P (payload @ take TAG_LEN t))))"

definition invalid :: "'h http_lib \<Rightarrow> (unit, 'h) route_error" where
  "invalid L = with_code INVALID_CURSOR (bad_request L ''invalid page cursor'')"

text \<open>The header of a payload: version, direction, key length, and the rest.\<close>

definition open_payload :: "('q, 'k) page_lib \<Rightarrow> bytes \<Rightarrow> ('q \<times> direction \<times> 'k) option" where
  "open_payload P payload =
     (case payload of
        version # dir # len_hi # len_lo # rest \<Rightarrow>
          (case (if version = VERSION then (if dir = 0 then Some Forward else if dir = 1 then Some Backward else None) else None) of
             None \<Rightarrow> None
           | Some d \<Rightarrow>
               (let key_len = from_be_bytes [len_hi, len_lo]
                in if length rest < key_len then None
                   else (case key_from_json P (take key_len rest) of
                           None \<Rightarrow> None
                         | Some k \<Rightarrow>
                             (case filters_from_fb P (drop key_len rest) of
                                None \<Rightarrow> None
                              | Some q \<Rightarrow> Some (q, d, k)))))
      | _ \<Rightarrow> None)"

definition open_cursor ::
  "'h http_lib \<Rightarrow> ('q, 'k) page_lib \<Rightarrow> pager \<Rightarrow> string \<Rightarrow> binding \<Rightarrow> (unit, 'h) route_error + ('q \<times> direction \<times> 'k)" where
  "open_cursor L P pg cursor b =
     (if length cursor > MAX_CURSOR_CHARS then Inl (invalid L)
      else (case b64_decode P cursor of
              None \<Rightarrow> Inl (invalid L)
            | Some bs \<Rightarrow>
                if length bs < TAG_LEN \<or> length bs - TAG_LEN < HEADER_LEN then Inl (invalid L)
                else
                  (let split = length bs - TAG_LEN; payload = take split bs; t = drop split bs
                   in if take (length t) (tag P pg b payload) \<noteq> t then Inl (invalid L)
                      else (case open_payload P payload of None \<Rightarrow> Inl (invalid L) | Some x \<Rightarrow> Inr x))))"

subsection \<open>A page\<close>

record ('q, 'i) page_out =
  po_items :: "'i list"
  po_next :: "string option"
  po_previous :: "string option"
  po_applied :: 'q

text \<open>A cursor for a row, when there is one and it is wanted.\<close>

definition mint_row ::
  "'h http_lib \<Rightarrow> ('q, 'k) page_lib \<Rightarrow> pager \<Rightarrow> 'q \<Rightarrow> binding \<Rightarrow> direction \<Rightarrow> ('i \<times> 'k) option \<Rightarrow> bool
   \<Rightarrow> (unit, 'h) route_error + string option" where
  "mint_row L P pg filters b d row wanted =
     (case row of
        None \<Rightarrow> Inr None
      | Some (_, k) \<Rightarrow>
          if \<not> wanted then Inr None
          else (case mint L P pg d k filters b of Inl e \<Rightarrow> Inl e | Inr c \<Rightarrow> Inr (Some c)))"

definition first_row :: "'a list \<Rightarrow> 'a option" where
  "first_row xs = (case xs of [] \<Rightarrow> None | x # _ \<Rightarrow> Some x)"

definition last_row :: "'a list \<Rightarrow> 'a option" where
  "last_row xs = (if xs = [] then None else Some (last xs))"

definition serve_page ::
  "'h http_lib \<Rightarrow> ('q, 'k) page_lib \<Rightarrow> pager \<Rightarrow> binding \<Rightarrow> (('q, 'k) list_query \<Rightarrow> (unit, 'h) route_error + ('i \<times> 'k) list)
   \<Rightarrow> 32 word \<Rightarrow> 'q \<Rightarrow> direction \<Rightarrow> 'k option \<Rightarrow> (unit, 'h) route_error + ('q, 'i) page_out" where
  "serve_page L P pg b fetch page_size filters d after =
     (let from_cursor = (after \<noteq> None);
          applied = set_page_size P page_size filters
      in case fetch \<lparr>lq_request = applied, lq_direction = d, lq_after = after, lq_limit = saturating_inc page_size\<rparr> of
           Inl e \<Rightarrow> Inl e
         | Inr rows \<Rightarrow>
             (let has_more = (length rows > unat page_size);
                  rows = take (unat page_size) rows;
                  rows = (if d = Backward then rev rows else rows);
                  (has_previous, has_next) = (case d of Forward \<Rightarrow> (from_cursor, has_more) | Backward \<Rightarrow> (has_more, True))
              in case mint_row L P pg filters b Backward (first_row rows) has_previous of
                   Inl e \<Rightarrow> Inl e
                 | Inr previous \<Rightarrow>
                     (case mint_row L P pg filters b Forward (last_row rows) has_next of
                        Inl e \<Rightarrow> Inl e
                      | Inr nxt \<Rightarrow>
                          Inr \<lparr>po_items = map fst rows, po_next = nxt, po_previous = previous, po_applied = applied\<rparr>)))"

definition page ::
  "'h http_lib \<Rightarrow> ('q, 'k) page_lib \<Rightarrow> pager \<Rightarrow> ('q, 'c, 'h) request \<Rightarrow> bytes
   \<Rightarrow> (('q, 'k) list_query \<Rightarrow> (unit, 'h) route_error + ('i \<times> 'k) list) \<Rightarrow> (unit, 'h) route_error + ('q, 'i) page_out" where
  "page L P pg rq caller fetch =
     (let b = \<lparr>bd_method = str_bytes (rq_method rq), bd_path = str_bytes (rq_path rq), bd_caller = caller\<rparr>;
          ((cursor, requested), filters) = take_page P (rq_body rq);
          page_size = effective_page_size pg requested
      in case (case cursor of Some c \<Rightarrow> if c = [] then None else Some c | None \<Rightarrow> None) of
           None \<Rightarrow> serve_page L P pg b fetch page_size filters Forward None
         | Some c \<Rightarrow>
             if filters \<noteq> default_request P then
               Inl (with_code CURSOR_WITH_FILTERS
                      (bad_request L ''a cursor already carries its filters; drop page to change them''))
             else (case open_cursor L P pg c b of
                     Inl e \<Rightarrow> Inl e
                   | Inr (q, d, k) \<Rightarrow> serve_page L P pg b fetch page_size q d (Some k)))"

subsection \<open>Cursors round trip and are bound\<close>

lemma length_be_bytes [simp]: "length (be_bytes k n) = k"
  by (induction k) simp_all

lemma from_be_bytes_be:
  "foldl (\<lambda>n b. n * 256 + unat b) m (be_bytes k n) = m * 256 ^ k + n mod 256 ^ k"
proof (induction k arbitrary: m)
  case (Suc k)
  have u: "unat (of_nat (n div 256 ^ k) :: 8 word) = n div 256 ^ k mod 256"
    by (simp add: unat_of_nat take_bit_eq_mod del: of_nat_div)
  have "n mod (256 ^ k * 256) = 256 ^ k * (n div 256 ^ k mod 256) + n mod 256 ^ k"
    by (rule mod_mult2_eq)
  then show ?case
    unfolding be_bytes.simps foldl_Cons u Suc.IH by (simp add: algebra_simps)
qed simp

lemma from_be_bytes_2: "n \<le> 65535 \<Longrightarrow> from_be_bytes (be_bytes 2 n) = n"
  unfolding from_be_bytes_def from_be_bytes_be by simp

lemma be_bytes_inject:
  assumes "be_bytes k m = be_bytes k n" "m < 256 ^ k" "n < 256 ^ k"
  shows "m = n"
  using from_be_bytes_be [of 0 k m] from_be_bytes_be [of 0 k n] assms by (metis add_0 mod_less mult_0)

lemma part_inject:
  assumes "be_bytes 8 (length x) @ x @ r = be_bytes 8 (length y) @ y @ s"
    and "length x < 256 ^ 8" "length y < 256 ^ 8"
  shows "x = y \<and> r = s"
proof -
  have "length (be_bytes 8 (length x)) = length (be_bytes 8 (length y))"
    by (simp only: length_be_bytes)
  then have split: "be_bytes 8 (length x) = be_bytes 8 (length y) \<and> x @ r = y @ s"
    using assms(1) by (metis append_eq_append_conv)
  then have "length x = length y" using assms(2,3) be_bytes_inject by blast
  with split show ?thesis by (metis append_eq_append_conv)
qed

definition short :: "bytes \<Rightarrow> bool" where
  "short bs \<longleftrightarrow> length bs < 256 ^ 8"

lemma tag_message_inject:
  assumes "tag_message b p = tag_message b' p'"
    and "short (bd_method b)" "short (bd_path b)" "short (bd_caller b)" "short p"
    and "short (bd_method b')" "short (bd_path b')" "short (bd_caller b')" "short p'"
  shows "b = b' \<and> p = p'"
proof -
  have "be_bytes 8 (length (bd_method b)) @ bd_method b @ be_bytes 8 (length (bd_path b)) @ bd_path b @
        be_bytes 8 (length (bd_caller b)) @ bd_caller b @ be_bytes 8 (length p) @ p @ [] =
      be_bytes 8 (length (bd_method b')) @ bd_method b' @ be_bytes 8 (length (bd_path b')) @ bd_path b' @
        be_bytes 8 (length (bd_caller b')) @ bd_caller b' @ be_bytes 8 (length p') @ p' @ []"
    using assms(1) unfolding tag_message_def list.map concat.simps append_assoc same_append_eq .
  note same_method = part_inject [OF this assms(2) [unfolded short_def] assms(6) [unfolded short_def]]
  note same_path = part_inject [OF same_method [THEN conjunct2] assms(3) [unfolded short_def] assms(7) [unfolded short_def]]
  note caller = part_inject [OF same_path [THEN conjunct2] assms(4) [unfolded short_def] assms(8) [unfolded short_def]]
  note payload = part_inject [OF caller [THEN conjunct2] assms(5) [unfolded short_def] assms(9) [unfolded short_def]]
  show ?thesis
    using same_method same_path caller payload by (cases b, cases b') simp
qed

lemma page_libD:
  assumes "page_lib_ok P"
  shows "length (hmac P s m) = 32" "b64_decode P (b64_encode P bs) = Some bs"
    and "key_to_json P k = Inr js \<Longrightarrow> key_from_json P js = Some k"
    and "filters_from_fb P (filters_to_fb P q) = Some q"
    and "bs \<noteq> [] \<Longrightarrow> b64_encode P bs \<noteq> []"
  using assms unfolding page_lib_ok_def by blast+

text \<open>The payload of a minted cursor.\<close>

definition payload_of :: "('q, 'k) page_lib \<Rightarrow> direction \<Rightarrow> bytes \<Rightarrow> 'q \<Rightarrow> bytes" where
  "payload_of P d key q = [VERSION, direction_byte d] @ be_bytes 2 (length key) @ key @ filters_to_fb P q"

lemma mint_cases:
  assumes "mint L P pg d k q b = Inr c"
  obtains key where "key_to_json P k = Inr key" "length key \<le> 65535"
    and "c = b64_encode P (payload_of P d key q @ take TAG_LEN (tag P pg b (payload_of P d key q)))"
  using assms
  by (auto simp: mint_def payload_of_def Let_def split: sum.splits if_splits)

lemma minted_decodes:
  assumes ok: "page_lib_ok P" and minted: "mint L P pg d k q b = Inr c"
  obtains key t where "key_to_json P k = Inr key" "length key \<le> 65535" "c \<noteq> []"
    and "b64_decode P c = Some (payload_of P d key q @ t)" "length t = 16"
    and "t = take TAG_LEN (tag P pg b (payload_of P d key q))"
  using minted
  by (rule mint_cases) (simp add: page_libD [OF ok] tag_def TAG_LEN_def payload_of_def)

lemma be_bytes_2: "be_bytes 2 n = [of_nat (n div 256), of_nat n]"
  by (simp add: numeral_2_eq_2)

lemma open_payload_of:
  assumes "page_lib_ok P" "key_to_json P k = Inr key" "length key \<le> 65535"
  shows "open_payload P (payload_of P d key q) = Some (q, d, k)"
proof -
  have len: "from_be_bytes [of_nat (length key div 256), of_nat (length key)] = length key"
    using from_be_bytes_2 [OF assms(3)] by (simp only: be_bytes_2)
  show ?thesis
    using page_libD(3) [OF assms(1,2)] page_libD(4) [OF assms(1), of q] len
    by (cases d) (simp_all add: open_payload_def payload_of_def be_bytes_2 VERSION_def)
qed

lemma open_minted:
  assumes ok: "page_lib_ok P" and minted: "mint L P pg d k q b = Inr c" and len: "length c \<le> MAX_CURSOR_CHARS"
  shows "open_cursor L P pg c b' =
      (if take TAG_LEN (tag P pg b' (the (map_option (\<lambda>bs. take (length bs - TAG_LEN) bs) (b64_decode P c)))) =
          take TAG_LEN (tag P pg b (the (map_option (\<lambda>bs. take (length bs - TAG_LEN) bs) (b64_decode P c))))
       then Inr (q, d, k) else Inl (invalid L))"
  using minted
proof (rule minted_decodes [OF ok])
  fix key t
  let ?p = "payload_of P d key q"
  assume key: "key_to_json P k = Inr key" "length key \<le> 65535"
    and c: "b64_decode P c = Some (?p @ t)" "length t = 16" and t: "t = take TAG_LEN (tag P pg b ?p)"
  have "length ?p \<ge> 4" by (simp add: payload_of_def)
  with c open_payload_of [OF ok key] len t show ?thesis
    by (simp add: open_cursor_def Let_def HEADER_LEN_def TAG_LEN_def not_less)
qed

lemma cursor_opens:
  assumes "page_lib_ok P" "mint L P pg d k q b = Inr c" "length c \<le> MAX_CURSOR_CHARS"
  shows "open_cursor L P pg c b = Inr (q, d, k)"
  using open_minted [OF assms, of b] by simp

text \<open>
  A cursor opens to what it was minted from: the filters, the direction and the key of the row.
\<close>

theorem cursor_roundtrip:
  assumes "page_lib_ok P" "mint L P pg d k q b = Inr c" "length c \<le> MAX_CURSOR_CHARS"
  shows "open_cursor L P pg c b = Inr (q, d, k)"
  using assms by (rule cursor_opens)

text \<open>
  A cursor is bound to the method, the path and the caller it was minted for: presented under another
  binding it is refused with \<open>INVALID_CURSOR\<close>, unless the truncated HMACs of two different
  messages collide. The messages frame every part with its length, so that no two bindings share one.
\<close>

theorem cursor_bound:
  assumes "page_lib_ok P" "mint L P pg d k q b = Inr c" "b64_decode P c = Some bs" "b \<noteq> b'"
    and "short (bd_method b)" "short (bd_path b)" "short (bd_caller b)"
    and "short (bd_method b')" "short (bd_path b')" "short (bd_caller b')" "short bs"
    and "p = take (length bs - TAG_LEN) bs"
  shows "tag_message b p \<noteq> tag_message b' p \<and>
    (open_cursor L P pg c b' = Inl (invalid L) \<or> take TAG_LEN (tag P pg b p) = take TAG_LEN (tag P pg b' p))"
proof
  have "short p" using assms(11,12) unfolding short_def by simp
  then show "tag_message b p \<noteq> tag_message b' p"
    using tag_message_inject [of b p b' p] assms(4-10) by blast
  show "open_cursor L P pg c b' = Inl (invalid L) \<or> take TAG_LEN (tag P pg b p) = take TAG_LEN (tag P pg b' p)"
  proof (cases "length c \<le> MAX_CURSOR_CHARS")
    case True
    show ?thesis using open_minted [OF assms(1,2) True, of b'] assms(3,12) by simp
  qed (simp add: open_cursor_def)
qed

subsection \<open>A client that follows the next cursors sees every row\<close>

text \<open>
  The contract of \<open>fetch\<close> in the module's documentation, on a list: the rows strictly after the key, in
  the direction asked for, at most \<open>limit\<close> of them.
\<close>

definition list_fetch :: "('q \<Rightarrow> ('i \<times> 'k) list) \<Rightarrow> ('q, 'k) list_query \<Rightarrow> (unit, 'h) route_error + ('i \<times> 'k) list" where
  "list_fetch rows lq =
     (let all = rows (lq_request lq);
          wanted = (case lq_after lq of
              None \<Rightarrow> (case lq_direction lq of Forward \<Rightarrow> all | Backward \<Rightarrow> rev all)
            | Some k \<Rightarrow>
                (case lq_direction lq of
                   Forward \<Rightarrow> drop 1 (dropWhile (\<lambda>r. snd r \<noteq> k) all)
                 | Backward \<Rightarrow> rev (takeWhile (\<lambda>r. snd r \<noteq> k) all)))
      in Inr (take (unat (lq_limit lq)) wanted))"

text \<open>A client: it sends a body, and while the answer has a next cursor, a body with that cursor alone.\<close>

primrec walk ::
  "'h http_lib \<Rightarrow> ('q, 'k) page_lib \<Rightarrow> pager \<Rightarrow> ('q, 'c, 'h) request \<Rightarrow> bytes
   \<Rightarrow> (('q, 'k) list_query \<Rightarrow> (unit, 'h) route_error + ('i \<times> 'k) list) \<Rightarrow> (string \<Rightarrow> 'q) \<Rightarrow> nat \<Rightarrow> 'q \<Rightarrow> 'i list list option" where
  "walk L P pg rq caller fetch follow 0 body = None"
| "walk L P pg rq caller fetch follow (Suc fuel) body =
     (case page L P pg (rq\<lparr>rq_body := body\<rparr>) caller fetch of
        Inl e \<Rightarrow> None
      | Inr out \<Rightarrow>
          (case po_next out of
             None \<Rightarrow> Some [po_items out]
           | Some c \<Rightarrow> map_option ((#) (po_items out)) (walk L P pg rq caller fetch follow fuel (follow c))))"

text \<open>The cursors of a list can all be minted, and are short enough to be opened.\<close>

definition mintable ::
  "'h http_lib \<Rightarrow> ('q, 'k) page_lib \<Rightarrow> pager \<Rightarrow> 'q \<Rightarrow> binding \<Rightarrow> ('i \<times> 'k) list \<Rightarrow> bool" where
  "mintable L P pg q b rows \<longleftrightarrow>
     (\<forall>r\<in>set rows. \<forall>d. case mint L P pg d (snd r) q b of Inl _ \<Rightarrow> False | Inr c \<Rightarrow> length c \<le> MAX_CURSOR_CHARS)"

lemma mintableD:
  assumes "mintable L P pg q b rows" "r \<in> set rows"
  obtains c where "mint L P pg d (snd r) q b = Inr c" "length c \<le> MAX_CURSOR_CHARS"
  using assms unfolding mintable_def
  by (cases "mint L P pg d (snd r) q b") (metis sum.case)+

lemma after_key:
  assumes "distinct (map snd rows)" "i < length rows"
  shows "drop 1 (dropWhile (\<lambda>r. snd r \<noteq> snd (rows ! i)) rows) = drop (Suc i) rows"
  using assms
proof (induction rows arbitrary: i)
  case (Cons r rows)
  show ?case
  proof (cases i)
    case (Suc j)
    with Cons.prems have "rows ! j \<in> set rows" by simp
    then have "snd r \<noteq> snd (rows ! j)" using Cons.prems(1) by auto
    with Suc Cons show ?thesis by simp
  qed simp
qed simp

text \<open>The query that starts after the first \<open>i\<close> rows.\<close>

definition key_before :: "('i \<times> 'k) list \<Rightarrow> nat \<Rightarrow> 'k option" where
  "key_before rows i = (if i = 0 then None else Some (snd (rows ! (i - 1))))"

lemma list_fetch_forward:
  assumes "distinct (map snd (rows q'))" "i \<le> length (rows q')"
  shows "list_fetch rows \<lparr>lq_request = q', lq_direction = Forward, lq_after = key_before (rows q') i, lq_limit = n\<rparr> =
    Inr (take (unat n) (drop i (rows q')))"
  using after_key [of "rows q'" "i - 1"] assms
  by (cases i) (simp_all add: list_fetch_def key_before_def Let_def)

lemma mint_row_minted:
  assumes "mintable L P pg q b rows" "case row of None \<Rightarrow> True | Some r \<Rightarrow> r \<in> set rows"
  obtains c where "mint_row L P pg q b d row wanted = Inr c"
    and "c = None \<longleftrightarrow> row = None \<or> \<not> wanted"
    and "\<forall>s. c = Some s \<longrightarrow> row \<noteq> None \<and> mint L P pg d (snd (the row)) q b = Inr s \<and> length s \<le> MAX_CURSOR_CHARS"
proof (cases row)
  case None
  then show ?thesis using that [of None] by (simp add: mint_row_def)
next
  case (Some r)
  with assms obtain c where c: "mint L P pg d (snd r) q b = Inr c" "length c \<le> MAX_CURSOR_CHARS"
    by (elim mintableD) simp
  show ?thesis
  proof (cases wanted)
    case True
    with c Some show ?thesis using that [of "Some c"] by (cases r) (simp add: mint_row_def)
  next
    case False
    with Some show ?thesis using that [of None] by (cases r) (simp add: mint_row_def)
  qed
qed

lemma first_row_in: "set xs \<subseteq> S \<Longrightarrow> case first_row xs of None \<Rightarrow> True | Some r \<Rightarrow> r \<in> S"
  by (cases xs) (simp_all add: first_row_def)

lemma last_row_in: "set xs \<subseteq> S \<Longrightarrow> case last_row xs of None \<Rightarrow> True | Some r \<Rightarrow> r \<in> S"
  using last_in_set [of xs] by (auto simp: last_row_def)

lemma serve_forward:
  assumes "distinct (map snd (rows q'))" "i \<le> length (rows q')" "q' = set_page_size P s q"
    and "mintable L P pg q b (rows q')" "0 < unat s" "s \<noteq> - 1"
  obtains out where "serve_page L P pg b (list_fetch rows) s q Forward (key_before (rows q') i) = Inr out"
    and "po_items out = map fst (take (unat s) (drop i (rows q')))"
    and "po_next out = None \<longrightarrow> length (rows q') \<le> i + unat s"
    and "\<forall>c. po_next out = Some c \<longrightarrow> i + unat s < length (rows q') \<and>
           mint L P pg Forward (snd (rows q' ! (i + unat s - 1))) q b = Inr c \<and> length c \<le> MAX_CURSOR_CHARS"
proof -
  let ?all = "rows q'" and ?n = "unat s"
  let ?rows = "take ?n (drop i ?all)"
  have limit: "unat (saturating_inc s) = Suc ?n"
    using assms(6) by (rule unat_saturating_inc_exact)
  have fetched: "list_fetch rows \<lparr>lq_request = q', lq_direction = Forward, lq_after = key_before ?all i, lq_limit = saturating_inc s\<rparr> =
      Inr (take (Suc ?n) (drop i ?all))"
    using list_fetch_forward [of rows q' i "saturating_inc s", OF assms(1,2)] limit by simp
  have more: "length (take (Suc ?n) (drop i ?all)) > ?n \<longleftrightarrow> i + ?n < length ?all" by auto
  have sub: "set ?rows \<subseteq> set ?all" by (meson set_drop_subset set_take_subset subset_trans)
  obtain prev where prev: "mint_row L P pg q b Backward (first_row ?rows) (key_before ?all i \<noteq> None) = Inr prev"
    by (rule mint_row_minted [where d = Backward, OF assms(4) first_row_in [OF sub]])
  obtain nxt where nxt: "mint_row L P pg q b Forward (last_row ?rows) (i + ?n < length ?all) = Inr nxt"
    and none: "nxt = None \<longleftrightarrow> last_row ?rows = None \<or> \<not> i + ?n < length ?all"
    and some: "\<forall>c. nxt = Some c \<longrightarrow> last_row ?rows \<noteq> None \<and>
      mint L P pg Forward (snd (the (last_row ?rows))) q b = Inr c \<and> length c \<le> MAX_CURSOR_CHARS"
    by (rule mint_row_minted [where d = Forward and wanted = "i + ?n < length ?all", OF assms(4) last_row_in [OF sub]])
  have served: "serve_page L P pg b (list_fetch rows) s q Forward (key_before ?all i) =
      Inr \<lparr>po_items = map fst ?rows, po_next = nxt, po_previous = prev, po_applied = q'\<rparr>"
    unfolding serve_page_def Let_def assms(3) [symmetric] fetched sum.case more
    using prev nxt by (simp add: min_def)
  have last: "i + ?n < length ?all \<Longrightarrow> last_row ?rows = Some (?all ! (i + ?n - 1))"
    using assms(5) by (simp add: last_row_def last_conv_nth min_def)
  show ?thesis
  proof (rule that [OF served])
    show "\<forall>c. po_next \<lparr>po_items = map fst ?rows, po_next = nxt, po_previous = prev, po_applied = q'\<rparr> = Some c \<longrightarrow>
        i + ?n < length ?all \<and> mint L P pg Forward (snd (?all ! (i + ?n - 1))) q b = Inr c \<and> length c \<le> MAX_CURSOR_CHARS"
      using some none last by auto
    show "po_next \<lparr>po_items = map fst ?rows, po_next = nxt, po_previous = prev, po_applied = q'\<rparr> = None \<longrightarrow>
        length ?all \<le> i + ?n"
      using none last by (cases "i + ?n < length ?all") simp_all
  qed simp
qed

text \<open>The body the client has when \<open>i\<close> rows are behind it.\<close>

definition at_row ::
  "'h http_lib \<Rightarrow> ('q, 'k) page_lib \<Rightarrow> pager \<Rightarrow> 'q \<Rightarrow> binding \<Rightarrow> ('i \<times> 'k) list \<Rightarrow> 32 word \<Rightarrow> nat \<Rightarrow> 'q \<Rightarrow> bool" where
  "at_row L P pg q b rows n i body \<longleftrightarrow>
     (if i = 0 then take_page P body = ((None, n), q)
      else (\<exists>c. mint L P pg Forward (snd (rows ! (i - 1))) q b = Inr c \<and> length c \<le> MAX_CURSOR_CHARS \<and>
              take_page P body = ((Some c, n), default_request P)))"

lemma page_at_row:
  assumes ok: "page_lib_ok P" and row: "at_row L P pg q b rows n i body"
    and b: "b = \<lparr>bd_method = str_bytes (rq_method rq), bd_path = str_bytes (rq_path rq), bd_caller = caller\<rparr>"
  shows "page L P pg (rq\<lparr>rq_body := body\<rparr>) caller fetch =
    serve_page L P pg b fetch (effective_page_size pg n) q Forward (key_before rows i)"
proof (cases "i = 0")
  case True
  with row show ?thesis by (simp add: at_row_def page_def key_before_def b Let_def)
next
  case False
  with row obtain c where c: "mint L P pg Forward (snd (rows ! (i - 1))) q b = Inr c" "length c \<le> MAX_CURSOR_CHARS"
    and body: "take_page P body = ((Some c, n), default_request P)"
    by (auto simp: at_row_def)
  have "c \<noteq> []" using c(1) by (rule minted_decodes [OF ok])
  with cursor_opens [OF ok c] body False show ?thesis
    by (simp add: page_def key_before_def b [symmetric] Let_def)
qed

lemma walk_from:
  assumes "page_lib_ok P" "distinct (map snd (rows q'))" "q' = set_page_size P s q" "s = effective_page_size pg n"
    and "mintable L P pg q b (rows q')" "0 < unat s" "s \<noteq> - 1"
    and "\<And>c. take_page P (follow c) = ((Some c, n), default_request P)"
    and b: "b = \<lparr>bd_method = str_bytes (rq_method rq), bd_path = str_bytes (rq_path rq), bd_caller = caller\<rparr>"
  shows "i \<le> length (rows q') \<Longrightarrow> length (rows q') - i < fuel \<Longrightarrow> at_row L P pg q b (rows q') n i body \<Longrightarrow>
    \<exists>pages. walk L P pg rq caller (list_fetch rows) follow fuel body = Some pages \<and>
      concat pages = map fst (drop i (rows q')) \<and> list_all (\<lambda>items. length items \<le> unat s) pages"
proof (induction fuel arbitrary: i body)
  case (Suc fuel)
  obtain out where out: "serve_page L P pg b (list_fetch rows) s q Forward (key_before (rows q') i) = Inr out"
    and items: "po_items out = map fst (take (unat s) (drop i (rows q')))"
    and none: "po_next out = None \<longrightarrow> length (rows q') \<le> i + unat s"
    and some: "\<forall>c. po_next out = Some c \<longrightarrow> i + unat s < length (rows q') \<and>
           mint L P pg Forward (snd (rows q' ! (i + unat s - 1))) q b = Inr c \<and> length c \<le> MAX_CURSOR_CHARS"
    by (rule serve_forward [of rows q' i P s q L pg b, OF assms(2) Suc.prems(1) assms(3,5,6,7)])
  have page: "page L P pg (rq\<lparr>rq_body := body\<rparr>) caller (list_fetch rows) = Inr out"
    using page_at_row [OF assms(1) Suc.prems(3) b, where fetch = "list_fetch rows"] out assms(4) by simp
  have short: "length (po_items out) \<le> unat s" using items by simp
  show ?case
  proof (cases "po_next out")
    case None
    then show ?thesis using page items none short by simp
  next
    case (Some c)
    note c = some [rule_format, OF Some]
    let ?j = "i + unat s"
    have "at_row L P pg q b (rows q') n ?j (follow c)"
      using c assms(6,8) by (simp add: at_row_def)
    moreover have "?j \<le> length (rows q')" "length (rows q') - ?j < fuel"
      using c Suc.prems(2) assms(6) by auto
    ultimately obtain pages where rest: "walk L P pg rq caller (list_fetch rows) follow fuel (follow c) = Some pages"
      "concat pages = map fst (drop ?j (rows q'))" "list_all (\<lambda>items. length items \<le> unat s) pages"
      using Suc.IH by blast
    have "map fst (drop i (rows q')) = po_items out @ concat pages"
      unfolding items rest(2) by (metis add.commute append_take_drop_id drop_drop map_append)
    with page Some rest(1,3) short show ?thesis by simp
  qed
qed simp


subsection \<open>Witnesses\<close>

text \<open>
  A small instance: the tag is the length of the message, cursors are the bytes themselves, a key is one
  byte, and a request is its cursor and its page size.
\<close>

definition byte_char :: "8 word \<Rightarrow> char" where
  "byte_char w = char_of (unat w)"

lemma of_byte_char [simp]: "of_char (byte_char w) = w"
proof -
  have "(of_char (char_of (unat w)) :: 8 word) = of_nat (of_char (char_of (unat w)))"
    by (simp only: of_nat_of_char)
  also have "\<dots> = w"
    using unsigned_less [of w, where 'a = nat] by (simp del: of_nat_of_char)
  finally show ?thesis by (simp only: byte_char_def)
qed

lemma byte_char_of [simp]: "byte_char (of_char c) = c"
proof -
  have "(of_char c :: nat) = of_char c mod 256" by (rule of_char_mod_256 [symmetric])
  also have "\<dots> < 256" by simp
  finally have "unat (of_nat (of_char c) :: 8 word) = of_char c"
    by (simp add: unat_of_nat take_bit_nat_eq_self del: of_nat_of_char)
  then show ?thesis by (simp only: byte_char_def of_nat_of_char char_of_char)
qed

definition toy_lib :: "(string option \<times> 32 word, 8 word) page_lib" where
  "toy_lib =
     \<lparr>hmac = (\<lambda>s m. be_bytes 16 (length m) @ replicate 16 0),
      b64_encode = map byte_char, b64_decode = (\<lambda>c. Some (map of_char c)),
      key_to_json = (\<lambda>k. Inr [k]), key_from_json = (\<lambda>bs. case bs of [k] \<Rightarrow> Some k | _ \<Rightarrow> None),
      filters_to_fb = (\<lambda>(c, n). be_bytes 4 (unat n) @ (case c of None \<Rightarrow> [] | Some s \<Rightarrow> 0 # str_bytes s)),
      filters_from_fb = (\<lambda>bs. Some ((case drop 4 bs of [] \<Rightarrow> None | _ # s \<Rightarrow> Some (map byte_char s)), of_nat (from_be_bytes (take 4 bs)))),
      take_page = (\<lambda>q. (q, (None, 0))), set_page_size = (\<lambda>n q. (fst q, n)), default_request = (None, 0)\<rparr>"

lemma toy_filters: "filters_from_fb toy_lib (filters_to_fb toy_lib q) = Some q"
proof (cases q)
  case (Pair c n)
  have "unat n < 256 ^ 4" using unsigned_less [of n, where 'a = nat] by simp
  then have "from_be_bytes (be_bytes 4 (unat n)) = unat n"
    unfolding from_be_bytes_def from_be_bytes_be by simp
  with Pair show ?thesis by (cases c) (simp_all add: toy_lib_def str_bytes_def comp_def)
qed

lemma toy_lib_ok: "page_lib_ok toy_lib"
  using toy_filters unfolding page_lib_ok_def by (simp add: toy_lib_def comp_def)

definition toy_pager :: pager where
  "toy_pager = max_page_size 2 (pager_new [])"

definition toy_binding :: binding where
  "toy_binding = \<lparr>bd_method = str_bytes ''GET'', bd_path = str_bytes ''/notes'', bd_caller = []\<rparr>"

definition toy_cursor :: string where
  "toy_cursor = (case mint list_lib toy_lib toy_pager Forward 7 (None, 0) toy_binding of Inl _ \<Rightarrow> [] | Inr c \<Rightarrow> c)"

lemma toy_minted: "mint list_lib toy_lib toy_pager Forward 7 (None, 0) toy_binding = Inr toy_cursor"
  by (simp add: toy_cursor_def mint_def toy_lib_def)

lemma toy_cursor_length: "length toy_cursor = 25"
  by (simp add: toy_cursor_def mint_def toy_lib_def Let_def tag_def TAG_LEN_def)

theorem cursor_roundtrip_witness:
  "open_cursor list_lib toy_lib toy_pager toy_cursor toy_binding = Inr ((None, 0), Forward, 7)"
  by (rule cursor_roundtrip [OF toy_lib_ok toy_minted]) (simp add: toy_cursor_length MAX_CURSOR_CHARS_def)

definition other_binding :: binding where
  "other_binding = \<lparr>bd_method = str_bytes ''GET'', bd_path = str_bytes ''/tasks/7'', bd_caller = []\<rparr>"

definition toy_payload :: bytes where
  "toy_payload = take (length toy_cursor - TAG_LEN) (map of_char toy_cursor)"

lemma toy_tags: "take TAG_LEN (tag toy_lib toy_pager toy_binding toy_payload) \<noteq> take TAG_LEN (tag toy_lib toy_pager other_binding toy_payload)"
proof -
  have "length (tag_message b p) = length (tag_message b [] @ p)" for b p
    by (simp add: tag_message_def)
  then have "length (tag_message toy_binding toy_payload) = 69" "length (tag_message other_binding toy_payload) = 71"
    by (simp_all add: toy_payload_def toy_cursor_length TAG_LEN_def tag_message_def toy_binding_def other_binding_def
          LABEL_def str_bytes_def)
  then have "tag toy_lib toy_pager toy_binding toy_payload = be_bytes 16 69 @ replicate 16 0"
    "tag toy_lib toy_pager other_binding toy_payload = be_bytes 16 71 @ replicate 16 0"
    by (simp_all add: tag_def toy_lib_def)
  moreover have "be_bytes 16 69 \<noteq> be_bytes 16 71"
    using be_bytes_inject [of 16 69 71] by auto
  ultimately show ?thesis by (simp add: TAG_LEN_def)
qed

theorem cursor_bound_witness:
  "open_cursor list_lib toy_lib toy_pager toy_cursor other_binding = Inl (invalid list_lib)"
proof -
  have decoded: "b64_decode toy_lib toy_cursor = Some (map of_char toy_cursor)" by (simp add: toy_lib_def)
  have short: "short (str_bytes s)" if "length s < 100" for s
    using that unfolding short_def str_bytes_def by simp
  have "open_cursor list_lib toy_lib toy_pager toy_cursor other_binding = Inl (invalid list_lib) \<or>
      take TAG_LEN (tag toy_lib toy_pager toy_binding toy_payload) = take TAG_LEN (tag toy_lib toy_pager other_binding toy_payload)"
    by (rule cursor_bound [OF toy_lib_ok toy_minted decoded, THEN conjunct2])
      (simp_all add: toy_binding_def other_binding_def toy_payload_def short short_def toy_cursor_length str_bytes_def)
  with toy_tags show ?thesis by blast
qed

definition toy_list :: "string option \<times> 32 word \<Rightarrow> (nat \<times> 8 word) list" where
  "toy_list q = [(10, 1), (20, 2), (30, 3)]"

definition toy_list_request :: "(string option \<times> 32 word, unit, (string \<times> string) list) request" where
  "toy_list_request =
     \<lparr>rq_body = (None, 0), rq_ctx = (), rq_headers = [], rq_method = ''GET'', rq_path = ''/notes'',
      rq_path_params = Map.empty, rq_query_params = Map.empty, rq_request_id = ''r''\<rparr>"

lemma toy_mintable: "mintable list_lib toy_lib toy_pager (None, 0) b rows"
  unfolding mintable_def
  by (simp add: mint_def toy_lib_def Let_def tag_def TAG_LEN_def MAX_CURSOR_CHARS_def)


end
