(* ===== verification/NatsSubjects.thy ===== *)
theory NatsSubjects
  imports Prelude
begin

text \<open>
  Subjects of \<open>#[nats_route]\<close> responders: the pattern parser of
  \<^verbatim>\<open>crates/flatbed_macros/src/nats_route.rs\<close>, and the overlap check and the captured
  parameters of \<^verbatim>\<open>crates/flatbed/src/nats_route.rs\<close>. A subject is UTF-8; \<open>char\<close> tests are
  written out on its bytes.
\<close>

subsection \<open>The pattern parser\<close>

text \<open>\<open>is_whitespace\<close> or \<open>is_control\<close> of the character a UTF-8 text starts with.\<close>

fun blank_lead :: "nat list \<Rightarrow> bool" where
  "blank_lead [] = False"
| "blank_lead (b # bs) =
     (b \<le> 32 \<or> b = 127 \<or>
      (b = 0xC2 \<and> (case bs of c # _ \<Rightarrow> 0x80 \<le> c \<and> c \<le> 0xA0 | [] \<Rightarrow> False)) \<or>
      (case bs of
         c # d # _ \<Rightarrow>
           (b = 0xE1 \<and> c = 0x9A \<and> d = 0x80) \<or>
           (b = 0xE2 \<and> c = 0x80 \<and> ((0x80 \<le> d \<and> d \<le> 0x8A) \<or> d = 0xA8 \<or> d = 0xA9 \<or> d = 0xAF)) \<or>
           (b = 0xE2 \<and> c = 0x81 \<and> d = 0x9F) \<or>
           (b = 0xE3 \<and> c = 0x80 \<and> d = 0x80)
       | _ \<Rightarrow> False))"

fun has_blank :: "nat list \<Rightarrow> bool" where
  "has_blank [] = False"
| "has_blank (b # bs) \<longleftrightarrow> blank_lead (b # bs) \<or> has_blank bs"

definition is_param_char :: "char \<Rightarrow> bool" where
  "is_param_char c \<longleftrightarrow>
     (CHR ''0'' \<le> c \<and> c \<le> CHR ''9'') \<or> (CHR ''A'' \<le> c \<and> c \<le> CHR ''Z'') \<or>
     (CHR ''a'' \<le> c \<and> c \<le> CHR ''z'') \<or> c = CHR ''_''"

definition capture_name :: "string \<Rightarrow> string option" where
  "capture_name token = Option.bind (strip_prefix ''{'' token) (strip_suffix ''}'')"

definition quoted :: "string \<Rightarrow> string" where
  "quoted s = CHR 0x27 # s @ [CHR 0x27]"

record subject_pattern =
  sp_wire :: string
  sp_params :: "(string \<times> nat) list"

text \<open>One turn of the loop: the wire token and the captures so far, the token's own included.\<close>

definition parse_token ::
  "string \<Rightarrow> nat \<Rightarrow> string \<Rightarrow> (string \<times> nat) list \<Rightarrow> string + (string \<times> (string \<times> nat) list)" where
  "parse_token pattern index token params =
     (if token = [] then Inl (''subject '' @ quoted pattern @ '' has an empty token'')
      else if token = ''*'' \<or> token = ''>'' then
        Inl (''subject '' @ quoted pattern @ '' uses a raw '' @ quoted token @ '' wildcard; name the segment as '' @
             quoted ''{token}'' @ '' instead'')
      else case capture_name token of
        None \<Rightarrow>
          if list_ex (\<lambda>c. c \<in> set ''{}*>'') token then
            Inl (''subject '' @ quoted pattern @ '' is neither a literal nor a whole '' @ quoted ''{token}'' @
                 '' segment at '' @ quoted token)
          else if has_blank (map of_char token) then
            Inl (''subject '' @ quoted pattern @ '' token '' @ quoted token @ '' contains whitespace'')
          else Inr (token, params)
      | Some name \<Rightarrow>
          if name = [] \<or> \<not> list_all is_param_char name then
            Inl (''subject '' @ quoted pattern @ '' token '' @ quoted token @
                 '' must name a parameter using letters, digits, or underscores'')
          else if list_ex (\<lambda>p. fst p = name) params then
            Inl (''subject '' @ quoted pattern @ '' declares the parameter '' @ quoted name @ '' twice'')
          else Inr (''*'', params @ [(name, index)]))"

primrec parse_tokens ::
  "string \<Rightarrow> nat \<Rightarrow> string list \<Rightarrow> string list \<Rightarrow> (string \<times> nat) list \<Rightarrow> string + subject_pattern" where
  "parse_tokens pattern index [] wire params = Inr \<lparr>sp_wire = join_with ''.'' wire, sp_params = params\<rparr>"
| "parse_tokens pattern index (token # tokens) wire params =
     (case parse_token pattern index token params of
        Inl message \<Rightarrow> Inl message
      | Inr (w, params') \<Rightarrow> parse_tokens pattern (Suc index) tokens (wire @ [w]) params')"

definition parse_subject :: "string \<Rightarrow> string + subject_pattern" where
  "parse_subject pattern =
     (if pattern = [] then Inl ''subject must not be empty''
      else parse_tokens pattern 0 (split_on CHR ''.'' pattern) [] [])"

subsection \<open>Responders\<close>

text \<open>What the overlap check and the dispatch read of a registered responder.\<close>

record nats_route_info =
  nr_subject :: string
  nr_wire :: string
  nr_params :: "(string \<times> nat) list"
  nr_queue :: "string option"

text \<open>The macro registers a responder only for a pattern that parses, and a queue group only when it has a name.\<close>

definition nats_route :: "string \<Rightarrow> string option \<Rightarrow> string + nats_route_info" where
  "nats_route subject queue =
     (case parse_subject subject of
        Inl message \<Rightarrow> Inl message
      | Inr pattern \<Rightarrow>
          if queue = Some [] then Inl ''queue group must not be empty; drop the `queue` key to subscribe without one''
          else Inr \<lparr>nr_subject = subject, nr_wire = sp_wire pattern, nr_params = sp_params pattern, nr_queue = queue\<rparr>)"

record nats_route_conflict =
  first_subject :: string
  second_subject :: string

definition nats_route_conflict_str :: "nats_route_conflict \<Rightarrow> string" where
  "nats_route_conflict_str c =
     ''subjects '' @ quoted (first_subject c) @ '' and '' @ quoted (second_subject c) @
     '' overlap: a message matching both is answered twice''"

definition subjects_overlap :: "string \<Rightarrow> string \<Rightarrow> bool" where
  "subjects_overlap first second =
     (let first = split_on CHR ''.'' first; second = split_on CHR ''.'' second
      in length first = length second \<and>
         list_all (\<lambda>(a, b). a = ''*'' \<or> b = ''*'' \<or> a = b) (zip first second))"

text \<open>Every responder with each later one, in order.\<close>

fun later_pairs :: "'a list \<Rightarrow> ('a \<times> 'a) list" where
  "later_pairs [] = []"
| "later_pairs (first # rest) = map (Pair first) rest @ later_pairs rest"

definition find_conflict :: "nats_route_info list \<Rightarrow> nats_route_conflict option" where
  "find_conflict routes =
     map_option (\<lambda>(first, second). \<lparr>first_subject = nr_subject first, second_subject = nr_subject second\<rparr>)
       (List.find (\<lambda>(first, second). subjects_overlap (nr_wire first) (nr_wire second)) (later_pairs routes))"

definition validate_nats_routes :: "nats_route_info list \<Rightarrow> nats_route_conflict + unit" where
  "validate_nats_routes routes = (case find_conflict routes of Some c \<Rightarrow> Inl c | None \<Rightarrow> Inr ())"

definition extract_params :: "(string \<times> nat) list \<Rightarrow> string \<Rightarrow> (string \<rightharpoonup> string)" where
  "extract_params params subject =
     (if params = [] then Map.empty
      else (let tokens = split_on CHR ''.'' subject
            in fold (\<lambda>(name, index) m. if index < length tokens then m(name \<mapsto> tokens ! index) else m) params Map.empty))"

subsection \<open>What the broker delivers\<close>

text \<open>
  The documented subject matching of NATS for the patterns subscribed to here: tokens are separated by
  dots, a \<open>*\<close> stands for one token, and a message is published on tokens that are not empty and not
  wildcards.
\<close>

definition delivers :: "string \<Rightarrow> string \<Rightarrow> bool" where
  "delivers wire subject \<longleftrightarrow>
     list_all2 (\<lambda>w t. w = ''*'' \<or> w = t) (split_on CHR ''.'' wire) (split_on CHR ''.'' subject)"

definition publishable :: "string \<Rightarrow> bool" where
  "publishable subject \<longleftrightarrow> list_all (\<lambda>t. t \<noteq> [] \<and> t \<noteq> ''*'' \<and> t \<noteq> ''>'') (split_on CHR ''.'' subject)"

definition wire_ok :: "string \<Rightarrow> bool" where
  "wire_ok wire \<longleftrightarrow> list_all (\<lambda>t. t \<noteq> [] \<and> t \<noteq> ''>'') (split_on CHR ''.'' wire)"

subsection \<open>Facts about the parser\<close>

text \<open>What the parser makes of a token, and the captures of a list of tokens.\<close>

definition wire_token :: "string \<Rightarrow> string" where
  "wire_token token = (case capture_name token of Some _ \<Rightarrow> ''*'' | None \<Rightarrow> token)"

definition captures :: "nat \<Rightarrow> string list \<Rightarrow> (string \<times> nat) list" where
  "captures index tokens =
     List.map_filter (\<lambda>(j, t). map_option (\<lambda>n. (n, j)) (capture_name t)) (enumerate index tokens)"

lemma captures_simps [simp]:
  "captures i [] = []"
  "captures i (t # ts) = (case capture_name t of Some n \<Rightarrow> (n, i) # captures (Suc i) ts | None \<Rightarrow> captures (Suc i) ts)"
  by (simp_all add: captures_def map_filter_simps split: option.splits)

lemma captures_mem: "(n, j) \<in> set (captures i ts) \<longleftrightarrow> i \<le> j \<and> j < i + length ts \<and> capture_name (ts ! (j - i)) = Some n"
proof (induction ts arbitrary: i)
  case (Cons t ts)
  have "j - i = Suc (j - Suc i)" if "Suc i \<le> j" using that by simp
  with Cons.IH [of "Suc i"] show ?case
    by (cases "j = i") (auto simp: nth_Cons' not_less split: option.splits)
qed simp

lemma parse_token_Inr:
  assumes "parse_token pattern i t params = Inr (w, params')"
  shows "w = wire_token t \<and> params' = params @ captures i [t] \<and> t \<noteq> [] \<and> t \<noteq> ''*'' \<and> t \<noteq> ''>'' \<and>
    (distinct (map fst params) \<longrightarrow> distinct (map fst params'))"
proof (cases "capture_name t")
  case None
  with assms show ?thesis by (simp add: parse_token_def wire_token_def split: if_splits)
next
  case (Some n)
  with assms show ?thesis
    by (auto simp: parse_token_def wire_token_def list_ex_iff split: if_splits)
qed

lemma captures_Cons: "captures i (t # ts) = captures i [t] @ captures (Suc i) ts"
  by (simp split: option.splits)

lemma parse_tokens_Cons:
  assumes "parse_tokens pattern i (t # ts) wire params = Inr p"
  obtains "parse_tokens pattern (Suc i) ts (wire @ [wire_token t]) (params @ captures i [t]) = Inr p"
    and "t \<noteq> []" "t \<noteq> ''*''" "t \<noteq> ''>''" "distinct (map fst params) \<longrightarrow> distinct (map fst (params @ captures i [t]))"
proof -
  obtain w params' where token: "parse_token pattern i t params = Inr (w, params')"
    and rest: "parse_tokens pattern (Suc i) ts (wire @ [w]) params' = Inr p"
    using assms by (auto split: sum.splits)
  with parse_token_Inr [OF token] that show ?thesis by blast
qed

lemma parse_tokens_Inr:
  "parse_tokens pattern i tokens wire params = Inr p \<Longrightarrow>
    sp_wire p = join_with ''.'' (wire @ map wire_token tokens) \<and> sp_params p = params @ captures i tokens \<and>
    list_all (\<lambda>t. t \<noteq> [] \<and> t \<noteq> ''*'' \<and> t \<noteq> ''>'') tokens"
proof (induction tokens arbitrary: i wire params)
  case (Cons t ts)
  from Cons.prems show ?case
    by (rule parse_tokens_Cons) (drule Cons.IH, simp add: captures_Cons [of i t ts] del: captures_simps(2))
qed auto

lemma parse_tokens_distinct:
  "parse_tokens pattern i tokens wire params = Inr p \<Longrightarrow> distinct (map fst params) \<Longrightarrow> distinct (map fst (sp_params p))"
proof (induction tokens arbitrary: i wire params)
  case (Cons t ts)
  from Cons.prems(1) show ?case
    by (rule parse_tokens_Cons) (rule Cons.IH, assumption, use Cons.prems(2) in blast)
qed auto

lemma wire_token_no_dot:
  assumes "t \<in> set (split_on CHR ''.'' s)"
  shows "CHR ''.'' \<notin> set (wire_token t)"
  using split_on_no_sep [OF assms] by (cases "capture_name t") (simp_all add: wire_token_def)

lemma parse_subject_Inr:
  assumes "parse_subject pattern = Inr p"
  shows "split_on CHR ''.'' (sp_wire p) = map wire_token (split_on CHR ''.'' pattern)"
    and "sp_params p = captures 0 (split_on CHR ''.'' pattern)" and "distinct (map fst (sp_params p))"
    and "list_all (\<lambda>t. t \<noteq> [] \<and> t \<noteq> ''*'' \<and> t \<noteq> ''>'') (split_on CHR ''.'' pattern)"
proof -
  have parsed: "parse_tokens pattern 0 (split_on CHR ''.'' pattern) [] [] = Inr p"
    using assms by (simp add: parse_subject_def split: if_splits)
  note eqs = parse_tokens_Inr [OF this]
  show "sp_params p = captures 0 (split_on CHR ''.'' pattern)"
    "list_all (\<lambda>t. t \<noteq> [] \<and> t \<noteq> ''*'' \<and> t \<noteq> ''>'') (split_on CHR ''.'' pattern)"
    using eqs by simp_all
  show "distinct (map fst (sp_params p))"
    using parse_tokens_distinct [OF parsed] by simp
  have "split_on CHR ''.'' (join_with ''.'' (map wire_token (split_on CHR ''.'' pattern))) =
      map wire_token (split_on CHR ''.'' pattern)"
    by (rule split_on_join) (auto dest: wire_token_no_dot)
  then show "split_on CHR ''.'' (sp_wire p) = map wire_token (split_on CHR ''.'' pattern)"
    using eqs by simp
qed

lemma wire_token_ok: "t \<noteq> [] \<Longrightarrow> t \<noteq> ''>'' \<Longrightarrow> wire_token t \<noteq> [] \<and> wire_token t \<noteq> ''>''"
  by (cases "capture_name t") (simp_all add: wire_token_def)

lemma parse_subject_wire_ok:
  assumes "parse_subject pattern = Inr p"
  shows "wire_ok (sp_wire p)"
  using parse_subject_Inr(4) [OF assms] wire_token_ok
  unfolding wire_ok_def parse_subject_Inr(1) [OF assms] list_all_iff by simp

subsection \<open>Overlap and delivery\<close>

definition overlap_token :: "string \<Rightarrow> string \<Rightarrow> bool" where
  "overlap_token a b \<longleftrightarrow> a = ''*'' \<or> b = ''*'' \<or> a = b"

lemma subjects_overlap_tokens:
  "subjects_overlap a b \<longleftrightarrow> list_all2 overlap_token (split_on CHR ''.'' a) (split_on CHR ''.'' b)"
  by (auto simp: subjects_overlap_def Let_def list_all2_iff list_all_iff overlap_token_def)

text \<open>A token both patterns accept, and the subject made of them.\<close>

definition common_token :: "string \<Rightarrow> string \<Rightarrow> string" where
  "common_token a b = (if a \<noteq> ''*'' then a else if b \<noteq> ''*'' then b else ''x'')"

lemma common_token:
  assumes "overlap_token a b" "a \<noteq> [] \<and> a \<noteq> ''>''" "b \<noteq> [] \<and> b \<noteq> ''>''" "CHR ''.'' \<notin> set a" "CHR ''.'' \<notin> set b"
  shows "(a = ''*'' \<or> a = common_token a b) \<and> (b = ''*'' \<or> b = common_token a b) \<and>
    common_token a b \<noteq> [] \<and> common_token a b \<noteq> ''*'' \<and> common_token a b \<noteq> ''>'' \<and> CHR ''.'' \<notin> set (common_token a b)"
  using assms by (auto simp: overlap_token_def common_token_def)

lemma list_all2_common:
  assumes "list_all2 overlap_token as bs"
    and "list_all (\<lambda>t. (t \<noteq> [] \<and> t \<noteq> ''>'') \<and> CHR ''.'' \<notin> set t) as" "list_all (\<lambda>t. (t \<noteq> [] \<and> t \<noteq> ''>'') \<and> CHR ''.'' \<notin> set t) bs"
  shows "list_all2 (\<lambda>w t. w = ''*'' \<or> w = t) as (map2 common_token as bs) \<and>
    list_all2 (\<lambda>w t. w = ''*'' \<or> w = t) bs (map2 common_token as bs) \<and>
    list_all (\<lambda>t. t \<noteq> [] \<and> t \<noteq> ''*'' \<and> t \<noteq> ''>'') (map2 common_token as bs) \<and>
    list_all (\<lambda>t. CHR ''.'' \<notin> set t) (map2 common_token as bs)"
  using assms
proof (induction rule: list_all2_induct)
  case (Cons a as b bs)
  from Cons.prems have "a \<noteq> [] \<and> a \<noteq> ''>''" "b \<noteq> [] \<and> b \<noteq> ''>''" "CHR ''.'' \<notin> set a" "CHR ''.'' \<notin> set b"
    by simp_all
  from common_token [OF Cons.hyps(1) this] Cons.IH Cons.prems show ?case by simp
qed simp

lemma wire_ok_tokens:
  "wire_ok w \<Longrightarrow> list_all (\<lambda>t. (t \<noteq> [] \<and> t \<noteq> ''>'') \<and> CHR ''.'' \<notin> set t) (split_on CHR ''.'' w)"
  unfolding wire_ok_def list_all_iff using split_on_no_sep by blast

lemma overlap_delivers:
  assumes "wire_ok a" "wire_ok b"
  shows "subjects_overlap a b \<longleftrightarrow> (\<exists>s. publishable s \<and> delivers a s \<and> delivers b s)"
proof
  let ?as = "split_on CHR ''.'' a" and ?bs = "split_on CHR ''.'' b"
  assume overlap: "subjects_overlap a b"
  let ?ts = "map2 common_token ?as ?bs"
  note common = list_all2_common [OF overlap [unfolded subjects_overlap_tokens] wire_ok_tokens [OF assms(1)] wire_ok_tokens [OF assms(2)]]
  have "?ts \<noteq> []" using overlap by (auto simp: subjects_overlap_def Let_def)
  then have "split_on CHR ''.'' (join_with ''.'' ?ts) = ?ts"
    using common by (intro split_on_join) (auto simp only: list_all_iff)
  then show "\<exists>s. publishable s \<and> delivers a s \<and> delivers b s"
    using common unfolding publishable_def delivers_def by (intro exI [of _ "join_with ''.'' ?ts"]) simp
next
  assume "\<exists>s. publishable s \<and> delivers a s \<and> delivers b s"
  then obtain s where "delivers a s" "delivers b s" by blast
  then have "list_all2 overlap_token (split_on CHR ''.'' a) (split_on CHR ''.'' b)"
    unfolding delivers_def list_all2_conv_all_nth overlap_token_def by metis
  then show "subjects_overlap a b" by (simp only: subjects_overlap_tokens)
qed

lemma nats_route_Inr:
  assumes "nats_route subject queue = Inr r"
  obtains p where "parse_subject subject = Inr p" "nr_wire r = sp_wire p" "nr_params r = sp_params p" "nr_subject r = subject"
  using assms by (auto simp: nats_route_def split: sum.splits if_splits)

lemma later_pairs_find:
  "List.find Q (later_pairs xs) = None \<longleftrightarrow> sorted_wrt (\<lambda>x y. \<not> Q (x, y)) xs"
proof -
  have "(\<forall>p \<in> set (later_pairs xs). \<not> Q p) \<longleftrightarrow> sorted_wrt (\<lambda>x y. \<not> Q (x, y)) xs"
    by (induction xs) (simp_all add: ball_Un)
  then show ?thesis unfolding find_None_iff by (simp add: Ball_def)
qed

lemma later_pairs_sublist: "(x, y) \<in> set (later_pairs xs) \<Longrightarrow> \<exists>as bs cs. xs = as @ x # bs @ y # cs"
proof (induction xs)
  case (Cons z xs)
  then consider "x = z" "y \<in> set xs" | "(x, y) \<in> set (later_pairs xs)" by auto
  then show ?case
  proof cases
    case 1
    then show ?thesis by (metis append_Nil split_list)
  next
    case 2
    then show ?thesis using Cons.IH by (metis append_Cons)
  qed
qed simp

lemma sorted_wrt_filter_length:
  "sorted_wrt (\<lambda>x y. \<not> (P x \<and> P y)) xs \<Longrightarrow> length (filter P xs) \<le> 1"
proof (induction xs)
  case (Cons x xs)
  then show ?case by (cases "P x") auto
qed simp

text \<open>
  C40. The boot check for responders is exact. When it passes, every message the broker can deliver is answered
  by at most one responder; when it rejects, there is a message that two responders would both answer, and the
  conflict names the two declared patterns.
\<close>

theorem responders_disjoint:
  assumes "list_all (\<lambda>r. nats_route (nr_subject r) (nr_queue r) = Inr r) routes"
  shows "case validate_nats_routes routes of
      Inr _ \<Rightarrow> (\<forall>s. publishable s \<longrightarrow> length (filter (\<lambda>r. delivers (nr_wire r) s) routes) \<le> 1)
    | Inl c \<Rightarrow> (\<exists>as r bs r' cs s. routes = as @ r # bs @ r' # cs \<and> publishable s \<and> delivers (nr_wire r) s \<and>
        delivers (nr_wire r') s \<and> first_subject c = nr_subject r \<and> second_subject c = nr_subject r')"
proof -
  have ok: "wire_ok (nr_wire r)" if "r \<in> set routes" for r
  proof -
    have "nats_route (nr_subject r) (nr_queue r) = Inr r" using assms that by (simp add: list_all_iff)
    then obtain p where "parse_subject (nr_subject r) = Inr p" "nr_wire r = sp_wire p"
      using nats_route_Inr by metis
    then show ?thesis using parse_subject_wire_ok by simp
  qed
  let ?Q = "\<lambda>(x, y). subjects_overlap (nr_wire x) (nr_wire y)"
  show ?thesis
  proof (cases "List.find ?Q (later_pairs routes)")
    case None
    have "length (filter (\<lambda>r. delivers (nr_wire r) s) routes) \<le> 1" if "publishable s" for s
    proof (rule sorted_wrt_filter_length)
      show "sorted_wrt (\<lambda>x y. \<not> (delivers (nr_wire x) s \<and> delivers (nr_wire y) s)) routes"
        using None [unfolded later_pairs_find]
        by (rule sorted_wrt_mono_rel [rotated]) (use ok overlap_delivers that in auto)
    qed
    with None show ?thesis by (simp add: validate_nats_routes_def find_conflict_def)
  next
    case (Some rr)
    obtain r r' where rr: "rr = (r, r')" by (cases rr)
    have "?Q (r, r')" and "(r, r') \<in> set (later_pairs routes)"
      using Some unfolding rr find_Some_iff by (auto simp: in_set_conv_nth)
    then obtain as bs cs where split: "routes = as @ r # bs @ r' # cs" using later_pairs_sublist by fast
    then obtain s where "publishable s" "delivers (nr_wire r) s" "delivers (nr_wire r') s"
      using \<open>?Q (r, r')\<close> ok [of r] ok [of r'] overlap_delivers [of "nr_wire r" "nr_wire r'"] by auto
    with Some rr split show ?thesis
      by (simp add: validate_nats_routes_def find_conflict_def) metis
  qed
qed

theorem responders_disjoint_witness:
  "\<exists>as r bs r' cs s. [\<lparr>nr_subject = ''a.{x}'', nr_wire = ''a.*'', nr_params = [(''x'', 1)], nr_queue = None\<rparr>,
      \<lparr>nr_subject = ''a.b'', nr_wire = ''a.b'', nr_params = [], nr_queue = None\<rparr>] = as @ r # bs @ r' # cs \<and>
    publishable s \<and> delivers (nr_wire r) s \<and> delivers (nr_wire r') s"
proof -
  let ?routes = "[\<lparr>nr_subject = ''a.{x}'', nr_wire = ''a.*'', nr_params = [(''x'', 1)], nr_queue = None\<rparr>,
      \<lparr>nr_subject = ''a.b'', nr_wire = ''a.b'', nr_params = [], nr_queue = None\<rparr>]"
  have "list_all (\<lambda>r. nats_route (nr_subject r) (nr_queue r) = Inr r) ?routes" by code_simp
  note checked = responders_disjoint [OF this]
  have "validate_nats_routes ?routes = Inl \<lparr>first_subject = ''a.{x}'', second_subject = ''a.b''\<rparr>" by code_simp
  with checked show ?thesis by simp blast
qed

subsection \<open>Captures\<close>

lemma fold_captures:
  assumes "distinct (map fst params)" "(n, j) \<in> set params" "j < length tokens"
  shows "fold (\<lambda>(name, index) m. if index < length tokens then m(name \<mapsto> tokens ! index) else m) params m n = Some (tokens ! j)"
  using assms
proof (induction params arbitrary: m)
  case (Cons p params)
  have skip: "fold (\<lambda>(name, index) m. if index < length tokens then m(name \<mapsto> tokens ! index) else m) ps m n = m n"
    if "n \<notin> fst ` set ps" for ps m
    using that by (induction ps arbitrary: m) auto
  show ?case
  proof (cases "p = (n, j)")
    case True
    with Cons.prems show ?thesis by (simp add: skip)
  next
    case False
    with Cons show ?thesis by simp
  qed
qed simp

lemma fold_captures_dom:
  "dom (fold (\<lambda>(name, index) m. if index < length tokens then m(name \<mapsto> tokens ! index) else m) params m) =
    dom m \<union> fst ` {p \<in> set params. snd p < length tokens}"
proof (induction params arbitrary: m)
  case (Cons q params)
  have "{p \<in> set (q # params). snd p < length tokens} =
      (if snd q < length tokens then {q} else {}) \<union> {p \<in> set params. snd p < length tokens}"
    by auto
  with Cons.IH show ?case by (cases q) (auto split: if_splits)
qed simp

lemma fst_image_less: "fst ` {q \<in> S. snd q < k} = {n. \<exists>j. (n, j) \<in> S \<and> j < (k :: nat)}"
  by force

text \<open>
  C40. A handler's parameters are the subject it was called on: the names captured are those the pattern
  declares, and writing the captured values back into the pattern gives the concrete subject.
\<close>

theorem params_rebuild_subject:
  assumes "nats_route pattern queue = Inr r" "delivers (nr_wire r) s"
  shows "join_with ''.'' (map (\<lambda>t. case capture_name t of Some n \<Rightarrow> the (extract_params (nr_params r) s n) | None \<Rightarrow> t)
      (split_on CHR ''.'' pattern)) = s \<and>
    dom (extract_params (nr_params r) s) = {n. \<exists>t \<in> set (split_on CHR ''.'' pattern). capture_name t = Some n}"
proof -
  let ?ts = "split_on CHR ''.'' pattern" and ?ss = "split_on CHR ''.'' s"
  obtain p where p: "parse_subject pattern = Inr p" "nr_wire r = sp_wire p" "nr_params r = sp_params p"
    using assms(1) by (rule nats_route_Inr)
  note parsed = parse_subject_Inr [OF p(1)]
  have match: "list_all2 (\<lambda>w t. w = ''*'' \<or> w = t) (map wire_token ?ts) ?ss"
    using assms(2) by (simp add: delivers_def p(2) parsed(1))
  then have len: "length ?ss = length ?ts" by (simp add: list_all2_iff)
  let ?fold = "fold (\<lambda>(name, index) m. if index < length ?ss then m(name \<mapsto> ?ss ! index) else m) (sp_params p) Map.empty"
  have ext: "extract_params (nr_params r) s = ?fold"
    by (simp add: extract_params_def p(3) Let_def)
  have token: "(case capture_name (?ts ! j) of Some n \<Rightarrow> the (?fold n) | None \<Rightarrow> ?ts ! j) = ?ss ! j" if j: "j < length ?ts" for j
  proof (cases "capture_name (?ts ! j)")
    case None
    have "?ts ! j \<noteq> ''*''" using parsed(4) j by (simp add: list_all_length)
    moreover have "wire_token (?ts ! j) = ''*'' \<or> wire_token (?ts ! j) = ?ss ! j"
      using list_all2_nthD [OF match] j by simp
    ultimately show ?thesis using None by (simp add: wire_token_def)
  next
    case (Some n)
    then have "(n, j) \<in> set (sp_params p)" using j by (simp add: parsed(2) captures_mem)
    moreover have "j < length ?ss" using j len by simp
    ultimately have "?fold n = Some (?ss ! j)" by (rule fold_captures [OF parsed(3)])
    then show ?thesis unfolding Some by (simp only: option.case option.sel)
  qed
  then have "map (\<lambda>t. case capture_name t of Some n \<Rightarrow> the (?fold n) | None \<Rightarrow> t) ?ts = ?ss"
    by (intro nth_equalityI) (simp_all only: len length_map nth_map)
  moreover have "fst ` {q \<in> set (sp_params p). snd q < length ?ss} = {n. \<exists>t \<in> set ?ts. capture_name t = Some n}"
    unfolding fst_image_less parsed(2) captures_mem by (auto simp: in_set_conv_nth len) (metis nth_mem)
  ultimately show ?thesis unfolding ext by (simp add: join_split_on fold_captures_dom)
qed

theorem params_rebuild_subject_witness:
  "extract_params [(''id'', 1)] ''sat.x07.call'' ''id'' = Some ''x07'' \<and>
    dom (extract_params [(''id'', 1)] ''sat.x07.call'') =
      {n. list_ex (\<lambda>t. capture_name t = Some n) (split_on CHR ''.'' ''sat.{id}.call'')}"
proof -
  have route: "nats_route ''sat.{id}.call'' None =
      Inr \<lparr>nr_subject = ''sat.{id}.call'', nr_wire = ''sat.*.call'', nr_params = [(''id'', 1)], nr_queue = None\<rparr>"
    by code_simp
  have "delivers (nr_wire \<lparr>nr_subject = ''sat.{id}.call'', nr_wire = ''sat.*.call'', nr_params = [(''id'', 1)], nr_queue = None\<rparr>)
      ''sat.x07.call''"
    by code_simp
  note rebuilt = params_rebuild_subject [OF route this]
  have "extract_params [(''id'', 1)] ''sat.x07.call'' ''id'' = Some ''x07''" by (simp add: extract_params_def Let_def)
  with rebuilt show ?thesis by (simp add: list_ex_iff)
qed

end
