(* ===== verification/NatsRoute.thy ===== *)
theory NatsRoute
  imports RouteWrapper NatsSubjects
begin

text \<open>
  Core-NATS responders, \<^verbatim>\<open>crates/flatbed/src/nats_route.rs\<close>, and the wrapper \<open>#[nats_route]\<close> generates,
  \<^verbatim>\<open>crates/flatbed_macros/src/nats_route.rs\<close>: the encoding a request names, the replies, the headers on
  their way from and to NATS, the dispatch of one message and the responder's loop. The header map of
  \<open>async_nats\<close> is an interface, \<open>nats_lib\<close>.
\<close>

definition REQUEST_ID_HEADER :: string where "REQUEST_ID_HEADER = ''x-request-id''"
definition ERROR_CODE_HEADER :: string where "ERROR_CODE_HEADER = ''x-error-code''"
definition ERROR_MESSAGE_HEADER :: string where "ERROR_MESSAGE_HEADER = ''x-error-message''"
definition ERROR_STATUS_HEADER :: string where "ERROR_STATUS_HEADER = ''x-error-status''"
definition CONTENT_TYPE_HEADER :: string where "CONTENT_TYPE_HEADER = ''content-type''"
definition JSON_CONTENT_TYPE :: string where "JSON_CONTENT_TYPE = ''application/json''"
definition FLATBUFFER_CONTENT_TYPE :: string where "FLATBUFFER_CONTENT_TYPE = ''application/x-flatbuffers''"

lemmas header_constants = REQUEST_ID_HEADER_def ERROR_CODE_HEADER_def ERROR_MESSAGE_HEADER_def ERROR_STATUS_HEADER_def
  CONTENT_TYPE_HEADER_def

subsection \<open>Encodings\<close>

datatype nats_encoding = NatsJson | NatsFlatBuffer

definition from_content_type :: "string option \<Rightarrow> nats_encoding" where
  "from_content_type ct =
     (case ct of
        Some ct \<Rightarrow> if contains_str ct JSON_CONTENT_TYPE then NatsJson else NatsFlatBuffer
      | None \<Rightarrow> NatsFlatBuffer)"

fun nats_content_type :: "nats_encoding \<Rightarrow> string" where
  "nats_content_type NatsJson = JSON_CONTENT_TYPE"
| "nats_content_type NatsFlatBuffer = FLATBUFFER_CONTENT_TYPE"

subsection \<open>Headers\<close>

text \<open>
  The header map of \<open>async_nats\<close>: each name with its values, as iteration lists them. Appending adds a value to
  one name and touches no other.
\<close>

record 'n nats_lib =
  nh_new :: 'n
  nh_append :: "string \<Rightarrow> string \<Rightarrow> 'n \<Rightarrow> 'n"
  nh_iter :: "'n \<Rightarrow> (string \<times> string list) list"

definition nh_values :: "'n nats_lib \<Rightarrow> 'n \<Rightarrow> string \<Rightarrow> string list" where
  "nh_values N h k = concat (map snd (filter (\<lambda>p. fst p = k) (nh_iter N h)))"

definition nats_ok :: "'n nats_lib \<Rightarrow> bool" where
  "nats_ok N \<longleftrightarrow>
     nh_iter N (nh_new N) = [] \<and>
     (\<forall>h n v k. nh_values N (nh_append N n v h) k = nh_values N h k @ (if k = n then [v] else [])) \<and>
     (\<forall>h n v. fst ` set (nh_iter N (nh_append N n v h)) \<subseteq> insert n (fst ` set (nh_iter N h)))"

text \<open>\<open>char::is_control\<close> characters become spaces; those outside ASCII have two bytes.\<close>

fun flatten_controls :: "string \<Rightarrow> string" where
  "flatten_controls [] = []"
| "flatten_controls (c # cs) =
     (if (of_char c :: nat) < 32 \<or> (of_char c :: nat) = 127 then CHR '' '' # flatten_controls cs
      else (case cs of
              d # ds \<Rightarrow>
                if (of_char c :: nat) = 0xC2 \<and> 0x80 \<le> (of_char d :: nat) \<and> (of_char d :: nat) \<le> 0x9F
                then CHR '' '' # flatten_controls ds
                else c # flatten_controls cs
            | [] \<Rightarrow> [c]))"

definition set_header :: "'h http_lib \<Rightarrow> string \<Rightarrow> string \<Rightarrow> 'h \<Rightarrow> 'h" where
  "set_header L name value h = checked_insert L name (flatten_controls value) h"

definition copy_reply_headers :: "'h http_lib \<Rightarrow> 'h \<Rightarrow> 'h" where
  "copy_reply_headers L source = fold (\<lambda>(n, v). hm_append L n v) (hm_iter L source) (hm_new L)"

definition append_values :: "'h http_lib \<Rightarrow> string \<Rightarrow> string list \<Rightarrow> 'h \<Rightarrow> 'h" where
  "append_values L n vs h =
     fold (\<lambda>v m. case header_value L v of None \<Rightarrow> m | Some w \<Rightarrow> hm_append L n w m) vs h"

definition from_nats_headers :: "'h http_lib \<Rightarrow> 'n nats_lib \<Rightarrow> 'n option \<Rightarrow> 'h" where
  "from_nats_headers L N source =
     (case source of
        None \<Rightarrow> hm_new L
      | Some h \<Rightarrow>
          fold (\<lambda>(name, vs) m. case header_name L name of None \<Rightarrow> m | Some n \<Rightarrow> append_values L n vs m)
            (nh_iter N h) (hm_new L))"

definition to_nats_headers :: "'h http_lib \<Rightarrow> 'n nats_lib \<Rightarrow> 'h \<Rightarrow> 'n" where
  "to_nats_headers L N source =
     fold (\<lambda>(n, v) m. case header_str L v of None \<Rightarrow> m | Some s \<Rightarrow> nh_append N n s m) (hm_iter L source) (nh_new N)"

definition header_text :: "'h http_lib \<Rightarrow> 'h \<Rightarrow> string \<Rightarrow> string option" where
  "header_text L h name = Option.bind (hm_get L h name) (header_str L)"

subsection \<open>Replies\<close>

record 'h nats_reply =
  np_payload :: bytes
  np_headers :: 'h

text \<open>\<open>StatusCode::as_str\<close>: a status has three digits.\<close>

definition status_str :: "status \<Rightarrow> string" where
  "status_str s = show_nat (unat s)"

text \<open>\<open>reply_err\<close>, with the encoders of the error's details.\<close>

definition reply_err ::
  "'h http_lib \<Rightarrow> (string \<Rightarrow> string \<Rightarrow> 'd option \<Rightarrow> string + bytes) \<Rightarrow> ('d \<Rightarrow> bytes) \<Rightarrow> nats_encoding \<Rightarrow> string
   \<Rightarrow> ('d, 'h) route_error \<Rightarrow> 'h nats_reply" where
  "reply_err L error_json details_fb encoding request_id err =
     (let code = wire_code err;
          payload = (case encoding of
             NatsJson \<Rightarrow> (case error_json code (re_message err) (re_details err) of Inr bs \<Rightarrow> bs | Inl _ \<Rightarrow> [])
           | NatsFlatBuffer \<Rightarrow> (case re_details err of Some d \<Rightarrow> details_fb d | None \<Rightarrow> []));
          headers = copy_reply_headers L (re_headers err);
          headers = set_header L CONTENT_TYPE_HEADER (nats_content_type encoding) headers;
          headers = set_header L REQUEST_ID_HEADER request_id headers;
          headers = set_header L ERROR_CODE_HEADER code headers;
          headers = set_header L ERROR_MESSAGE_HEADER (re_message err) headers;
          headers = set_header L ERROR_STATUS_HEADER (status_str (re_status err)) headers
      in \<lparr>np_payload = payload, np_headers = headers\<rparr>)"

text \<open>An error of the framework's own: it has no details.\<close>

definition reply_plain :: "'h http_lib \<Rightarrow> nats_encoding \<Rightarrow> string \<Rightarrow> (unit, 'h) route_error \<Rightarrow> 'h nats_reply" where
  "reply_plain L = reply_err L (\<lambda>code message _. Inr (json_error L code message)) (\<lambda>_. [])"

definition reply_ok ::
  "'h http_lib \<Rightarrow> ('t, 'r, 'd) body_codecs \<Rightarrow> nats_encoding \<Rightarrow> string \<Rightarrow> ('r, 'h) response \<Rightarrow> 'h nats_reply" where
  "reply_ok L cd encoding request_id response =
     (let (raw, response) = take_raw response;
          encoded = (case raw of
             Some (bs, raw_content_type) \<Rightarrow> Inr (bs, raw_content_type)
           | None \<Rightarrow>
               if encoding = NatsJson then
                 (case to_json cd (rs_body response) of
                    Inr bs \<Rightarrow> Inr (bs, nats_content_type encoding)
                  | Inl e \<Rightarrow> Inl (''JSON serialization error: '' @ e))
               else Inr (to_flatbuffer cd (rs_body response), nats_content_type encoding))
      in case encoded of
           Inl message \<Rightarrow>
             reply_plain L encoding request_id (with_code ''SERIALIZATION_ERROR'' (internal L message))
         | Inr (payload, ct) \<Rightarrow>
             (let headers = fold (hm_remove L) [ERROR_CODE_HEADER, ERROR_MESSAGE_HEADER, ERROR_STATUS_HEADER]
                              (copy_reply_headers L (rs_headers response));
                  headers = set_header L CONTENT_TYPE_HEADER ct headers;
                  headers = set_header L REQUEST_ID_HEADER request_id headers
              in \<lparr>np_payload = payload, np_headers = headers\<rparr>))"

subsection \<open>The generated handler\<close>

record 'h nats_request_parts =
  nq_subject :: string
  nq_headers :: 'h
  nq_params :: "string \<rightharpoonup> string"
  nq_request_id :: string
  nq_encoding :: nats_encoding

definition nats_decode_body :: "('t, 'r, 'd) body_codecs \<Rightarrow> nats_encoding \<Rightarrow> bytes \<Rightarrow> string + 't" where
  "nats_decode_body cd encoding payload =
     (case encoding of
        NatsJson \<Rightarrow>
          (case from_json cd payload of Inr b \<Rightarrow> Inr b | Inl e \<Rightarrow> Inl (''JSON deserialization error: '' @ e))
      | NatsFlatBuffer \<Rightarrow>
          (case from_flatbuffer cd payload of Inr b \<Rightarrow> Inr b | Inl e \<Rightarrow> Inl (''FlatBuffer deserialization error: '' @ e)))"

definition nats_handler ::
  "'h http_lib \<Rightarrow> ('t, 'r, 'd) body_codecs \<Rightarrow> (('t, 'c, 'h) request \<Rightarrow> (('d, 'h) route_error + ('r, 'h) response) outcome)
   \<Rightarrow> string + 'c \<Rightarrow> 'h nats_request_parts \<Rightarrow> bytes \<Rightarrow> 'h nats_reply outcome" where
  "nats_handler L cd f ctx parts payload =
     (let encoding = nq_encoding parts; request_id = nq_request_id parts
      in case nats_decode_body cd encoding payload of
           Inl message \<Rightarrow>
             Returns (reply_plain L encoding request_id (with_code ''DESERIALIZATION_ERROR'' (bad_request L message)))
         | Inr body \<Rightarrow>
             (case ctx of
                Inl inner \<Rightarrow>
                  Returns (reply_plain L encoding request_id
                    (with_code ''CONTEXT_TYPE_MISMATCH'' (internal L (''nats_route context type mismatch: expected '' @ inner))))
              | Inr c \<Rightarrow>
                  (case f \<lparr>rq_body = body, rq_ctx = c, rq_headers = nq_headers parts, rq_method = method_str Post,
                           rq_path = nq_subject parts, rq_path_params = nq_params parts, rq_query_params = Map.empty,
                           rq_request_id = nq_request_id parts\<rparr> of
                     Panics p bt \<Rightarrow> Panics p bt
                   | Returns (Inr response) \<Rightarrow> Returns (reply_ok L cd encoding request_id response)
                   | Returns (Inl err) \<Rightarrow>
                       Returns (reply_err L (error_to_json cd) (details_to_flatbuffer cd) encoding request_id err))))"

subsection \<open>Dispatch\<close>

record 'n nats_message =
  nm_subject :: string
  nm_headers :: "'n option"
  nm_payload :: bytes
  nm_reply :: "string option"

text \<open>The parts of a message, with \<open>uuid\<close> for a request that brings no identifier.\<close>

definition message_parts ::
  "'h http_lib \<Rightarrow> 'n nats_lib \<Rightarrow> nats_route_info \<Rightarrow> string \<Rightarrow> 'n nats_message \<Rightarrow> 'h nats_request_parts" where
  "message_parts L N route uuid message =
     (let headers = from_nats_headers L N (nm_headers message)
      in \<lparr>nq_subject = nm_subject message, nq_headers = headers,
          nq_params = extract_params (nr_params route) (nm_subject message),
          nq_request_id = (case header_text L headers REQUEST_ID_HEADER of Some i \<Rightarrow> i | None \<Rightarrow> uuid),
          nq_encoding = from_content_type (header_text L headers CONTENT_TYPE_HEADER)\<rparr>)"

definition reply_status :: "'h http_lib \<Rightarrow> 'h nats_reply \<Rightarrow> status option" where
  "reply_status L reply =
     (case Option.bind (header_text L (np_headers reply) ERROR_STATUS_HEADER) parse_unsigned of
        Some n \<Rightarrow> if n < 65536 \<and> 500 \<le> n then Some (of_nat n) else None
      | None \<Rightarrow> None)"

definition nats_dispatch ::
  "'h http_lib \<Rightarrow> 'n nats_lib \<Rightarrow> nats_route_info \<Rightarrow> ('h nats_request_parts \<Rightarrow> bytes \<Rightarrow> 'h nats_reply outcome) \<Rightarrow> string
   \<Rightarrow> 'n nats_message \<Rightarrow> reporting \<Rightarrow> 'h nats_reply option \<times> reporting" where
  "nats_dispatch L N route handler uuid message st =
     (let parts = message_parts L N route uuid message;
          request = \<lparr>rr_transport = Nats, rr_method = None, rr_route = nr_subject route, rr_path = nm_subject message,
                     rr_request_id = nq_request_id parts\<rparr>
      in case catch_poll (case handler parts (nm_payload message) of Returns r \<Rightarrow> Ready r | Panics p bt \<Rightarrow> Unwound p bt) st of
           (Ready (Inl panic), st) \<Rightarrow>
             (Some (reply_plain L (nq_encoding parts) (nq_request_id parts)
                (with_code PANIC_CODE (internal L ''handler panicked''))), route_panic request panic st)
         | (Ready (Inr reply), st) \<Rightarrow>
             (Some reply,
              (case reply_status L reply of
                 None \<Rightarrow> st
               | Some s \<Rightarrow>
                   route_error
                     \<lparr>rf_request = request, rf_status = s, rf_code = header_text L (np_headers reply) ERROR_CODE_HEADER,
                      rf_message = (case header_text L (np_headers reply) ERROR_MESSAGE_HEADER of Some m \<Rightarrow> m | None \<Rightarrow> [])\<rparr> st))
         | (_, st) \<Rightarrow> (None, st))"

text \<open>
  The responder's loop: the messages that name a reply subject are dispatched, each on its own task; when the
  subscription ends, or could not be made, the worker fails.
\<close>

definition run_nats_route ::
  "nats_route_info \<Rightarrow> bool \<Rightarrow> (string \<Rightarrow> string option \<Rightarrow> string + 'n nats_message list)
   \<Rightarrow> (string \<times> 'n nats_message) list \<times> worker_error" where
  "run_nats_route route downcast_ok subscribe =
     (if \<not> downcast_ok then
        ([], \<lparr>we_code = ''nats_route_context'',
              we_message = ''['' @ nr_subject route @ ''] context type mismatch: the service booted with a different context''\<rparr>)
      else case subscribe (nr_wire route) (nr_queue route) of
        Inl e \<Rightarrow> ([], \<lparr>we_code = ''nats_route_subscribe'', we_message = ''['' @ nr_subject route @ ''] subscribe failed: '' @ e\<rparr>)
      | Inr messages \<Rightarrow>
          (List.map_filter (\<lambda>message. map_option (\<lambda>reply. (reply, message)) (nm_reply message)) messages,
           \<lparr>we_code = ''nats_route_subscription_ended'',
            we_message = ''['' @ nr_subject route @ ''] subscription ended; the subject is no longer answered''\<rparr>))"

text \<open>What a task publishes: the reply subject, the headers and the payload.\<close>

definition nats_answer ::
  "'h http_lib \<Rightarrow> 'n nats_lib \<Rightarrow> nats_route_info \<Rightarrow> ('h nats_request_parts \<Rightarrow> bytes \<Rightarrow> 'h nats_reply outcome) \<Rightarrow> string
   \<Rightarrow> string \<times> 'n nats_message \<Rightarrow> reporting \<Rightarrow> (string \<times> 'n \<times> bytes) option \<times> reporting" where
  "nats_answer L N route handler uuid task st =
     (case task of (reply_subject, message) \<Rightarrow>
        (case nats_dispatch L N route handler uuid message st of
           (Some reply, st) \<Rightarrow> (Some (reply_subject, to_nats_headers L N (np_headers reply), np_payload reply), st)
         | (None, st) \<Rightarrow> (None, st)))"

subsection \<open>Facts about headers\<close>

lemma hm_all_copy_reply [simp]:
  assumes "http_ok L"
  shows "hm_all L (copy_reply_headers L h) k = hm_all L h k"
proof -
  have "hm_all L (fold (\<lambda>(n, v). hm_append L n v) xs m) k = hm_all L m k @ map snd (filter (\<lambda>p. fst p = k) xs)"
    if "\<forall>(n, v) \<in> set xs. header_name L n = Some n" for xs m
    using that by (induction xs arbitrary: m) (auto simp: assms)
  moreover have "\<forall>(n, v) \<in> set (hm_iter L h). header_name L n = Some n"
    using header_name_iter [OF assms] by auto
  ultimately show ?thesis by (simp add: copy_reply_headers_def assms flip: hm_all_def)
qed

lemma hm_all_set_header [simp]:
  "http_ok L \<Longrightarrow> header_name L n = Some n \<Longrightarrow> hm_all L (set_header L n v h) k =
     (case header_value L (flatten_controls v) of
        Some w \<Rightarrow> if k = n then [w] else hm_all L h k
      | None \<Rightarrow> hm_all L h k)"
  by (simp add: set_header_def checked_insert_def split: option.splits)

lemma flatten_visible [simp]: "list_all visible v \<Longrightarrow> flatten_controls v = v"
proof (induction v rule: flatten_controls.induct)
  case (2 c cs)
  then have c: "\<not> (of_char c :: nat) < 32" "(of_char c :: nat) \<noteq> 127" "(of_char c :: nat) \<noteq> 0xC2"
    by (simp_all add: visible_def)
  show ?case
  proof (cases cs)
    case (Cons d ds)
    have "flatten_controls (c # d # ds) = c # flatten_controls (d # ds)"
      by (subst flatten_controls.simps(2)) (simp only: c list.case if_False simp_thms)
    with c 2 Cons show ?thesis by (simp del: flatten_controls.simps)
  qed (use c in simp)
qed simp

lemma header_text_all: "http_ok L \<Longrightarrow> header_text L h n = (case hm_all L h n of [] \<Rightarrow> None | v # _ \<Rightarrow> header_str L v)"
  by (simp add: header_text_def hm_get_all split: list.splits)

end
