(* ===== verification/NatsRequest.thy ===== *)
theory NatsRequest
  imports NatsRoute
begin

text \<open>
  Typed core-NATS requests, \<^verbatim>\<open>crates/flatbed/src/nats_request.rs\<close>: the client side of a responder. The broker
  and the \<open>async_nats\<close> client are a function from what is published to what comes back.
\<close>

definition DEFAULT_TIMEOUT :: duration where "DEFAULT_TIMEOUT = from_secs 5"

datatype 'h nats_request_error =
  Encode string string
| NoResponders string
| Timeout string duration
| Transport string string
| Reply string "(unit, 'h) route_error"
| Decode string string

text \<open>\<open>Display\<close>; \<open>debug\<close> is the \<open>Debug\<close> text of a duration.\<close>

definition nats_request_error_str :: "(duration \<Rightarrow> string) \<Rightarrow> 'h nats_request_error \<Rightarrow> string" where
  "nats_request_error_str debug err =
     (case err of
        Encode subject message \<Rightarrow> ''request to '' @ quoted subject @ '' could not be encoded: '' @ message
      | NoResponders subject \<Rightarrow> ''no responder is subscribed to '' @ quoted subject
      | Timeout subject timeout \<Rightarrow> ''no reply on '' @ quoted subject @ '' within '' @ debug timeout
      | Transport subject message \<Rightarrow> ''request to '' @ quoted subject @ '' failed: '' @ message
      | Reply subject e \<Rightarrow> quoted subject @ '' rejected the request: '' @ route_error_str e
      | Decode subject message \<Rightarrow> ''reply on '' @ quoted subject @ '' could not be decoded: '' @ message)"

definition into_route_error :: "'h http_lib \<Rightarrow> (duration \<Rightarrow> string) \<Rightarrow> 'h nats_request_error \<Rightarrow> (unit, 'h) route_error" where
  "into_route_error L debug err =
     (let failed = (\<lambda>status code. with_code code (re_with_status L status (nats_request_error_str debug err)))
      in case err of
           Reply _ e \<Rightarrow> e
         | Encode _ _ \<Rightarrow> failed 500 ''NATS_ENCODE_ERROR''
         | NoResponders _ \<Rightarrow> failed 502 ''NATS_NO_RESPONDERS''
         | Timeout _ _ \<Rightarrow> failed 504 ''NATS_TIMEOUT''
         | Transport _ _ \<Rightarrow> failed 502 ''NATS_TRANSPORT_ERROR''
         | Decode _ _ \<Rightarrow> failed 502 ''NATS_DECODE_ERROR'')"

subsection \<open>Building a request\<close>

record ('q, 'h) nats_request =
  nrq_subject :: string
  nrq_body :: 'q
  nrq_encoding :: nats_encoding
  nrq_timeout :: duration
  nrq_headers :: 'h

definition typed_request :: "'h http_lib \<Rightarrow> string \<Rightarrow> 'q \<Rightarrow> ('q, 'h) nats_request" where
  "typed_request L subject body =
     \<lparr>nrq_subject = subject, nrq_body = body, nrq_encoding = NatsFlatBuffer, nrq_timeout = DEFAULT_TIMEOUT,
      nrq_headers = hm_new L\<rparr>"

definition with_encoding :: "nats_encoding \<Rightarrow> ('q, 'h) nats_request \<Rightarrow> ('q, 'h) nats_request" where
  "with_encoding e rq = rq\<lparr>nrq_encoding := e\<rparr>"

definition with_timeout :: "duration \<Rightarrow> ('q, 'h) nats_request \<Rightarrow> ('q, 'h) nats_request" where
  "with_timeout t rq = rq\<lparr>nrq_timeout := t\<rparr>"

definition with_header :: "'h http_lib \<Rightarrow> string \<Rightarrow> string \<Rightarrow> ('q, 'h) nats_request \<Rightarrow> ('q, 'h) nats_request" where
  "with_header L name value rq = rq\<lparr>nrq_headers := set_header L name value (nrq_headers rq)\<rparr>"

subsection \<open>Sending it\<close>

text \<open>The encoders of the request type and the decoders of the response type.\<close>

record ('q, 'r) client_codecs =
  rq_to_json :: "'q \<Rightarrow> string + bytes"
  rq_to_flatbuffer :: "'q \<Rightarrow> bytes"
  rs_from_json :: "bytes \<Rightarrow> string + 'r"
  rs_from_flatbuffer :: "bytes \<Rightarrow> string + 'r"

definition FRAMEWORK_HEADERS :: "string list" where
  "FRAMEWORK_HEADERS =
     [CONTENT_TYPE_HEADER, REQUEST_ID_HEADER, ERROR_CODE_HEADER, ERROR_MESSAGE_HEADER, ERROR_STATUS_HEADER]"

definition request_headers :: "'h http_lib \<Rightarrow> string \<Rightarrow> nats_encoding \<Rightarrow> 'h \<Rightarrow> 'h" where
  "request_headers L uuid encoding headers =
     (let headers = (if header_text L headers REQUEST_ID_HEADER = None
                     then set_header L REQUEST_ID_HEADER uuid headers else headers)
      in set_header L CONTENT_TYPE_HEADER (nats_content_type encoding) headers)"

definition nats_encode :: "('q, 'r) client_codecs \<Rightarrow> nats_encoding \<Rightarrow> 'q \<Rightarrow> string + bytes" where
  "nats_encode cc encoding body =
     (case encoding of NatsJson \<Rightarrow> rq_to_json cc body | NatsFlatBuffer \<Rightarrow> Inr (rq_to_flatbuffer cc body))"

definition nats_decode :: "('q, 'r) client_codecs \<Rightarrow> nats_encoding \<Rightarrow> bytes \<Rightarrow> string + 'r" where
  "nats_decode cc encoding payload =
     (case encoding of NatsJson \<Rightarrow> rs_from_json cc payload | NatsFlatBuffer \<Rightarrow> rs_from_flatbuffer cc payload)"

text \<open>How the \<open>async_nats\<close> client fails, with its message.\<close>

datatype request_error = TimedOut | NobodyThere | OtherFailure string

fun transport_error :: "string \<Rightarrow> duration \<Rightarrow> request_error \<Rightarrow> 'h nats_request_error" where
  "transport_error subject timeout TimedOut = Timeout subject timeout"
| "transport_error subject timeout NobodyThere = NoResponders subject"
| "transport_error subject timeout (OtherFailure message) = Transport subject message"

text \<open>\<open>StatusCode::from_bytes\<close>: three digits, the first not zero.\<close>

definition status_from_bytes :: "string \<Rightarrow> status option" where
  "status_from_bytes s =
     (if length s = 3 \<and> list_all is_digit s \<and> hd s \<noteq> CHR ''0'' then Some (of_nat (digits_value s)) else None)"

definition rejection :: "'h http_lib \<Rightarrow> 'h \<Rightarrow> (unit, 'h) route_error" where
  "rejection L headers =
     \<lparr>re_status = (case Option.bind (header_text L headers ERROR_STATUS_HEADER) status_from_bytes of Some s \<Rightarrow> s | None \<Rightarrow> 500),
      re_code = (case header_text L headers ERROR_CODE_HEADER of Some c \<Rightarrow> c | None \<Rightarrow> ''ERROR''),
      re_message = (case header_text L headers ERROR_MESSAGE_HEADER of Some m \<Rightarrow> m | None \<Rightarrow> []),
      re_headers = fold (hm_remove L) FRAMEWORK_HEADERS headers,
      re_details = None\<rparr>"

definition send_request ::
  "'h http_lib \<Rightarrow> 'n nats_lib \<Rightarrow> ('q, 'r) client_codecs \<Rightarrow> string
   \<Rightarrow> (string \<Rightarrow> bytes \<Rightarrow> 'n \<Rightarrow> duration \<Rightarrow> request_error + 'n nats_message) \<Rightarrow> ('q, 'h) nats_request
   \<Rightarrow> 'h nats_request_error + 'r" where
  "send_request L N cc uuid client rq =
     (let subject = nrq_subject rq; headers = request_headers L uuid (nrq_encoding rq) (nrq_headers rq)
      in case nats_encode cc (nrq_encoding rq) (nrq_body rq) of
           Inl message \<Rightarrow> Inl (Encode subject message)
         | Inr payload \<Rightarrow>
             (case client subject payload (to_nats_headers L N headers) (nrq_timeout rq) of
                Inl e \<Rightarrow> Inl (transport_error subject (nrq_timeout rq) e)
              | Inr reply \<Rightarrow>
                  (let reply_headers = from_nats_headers L N (nm_headers reply)
                   in if header_text L reply_headers ERROR_CODE_HEADER \<noteq> None
                      then Inl (Reply subject (rejection L reply_headers))
                      else (case nats_decode cc (nrq_encoding rq) (nm_payload reply) of
                              Inl message \<Rightarrow> Inl (Decode subject message)
                            | Inr r \<Rightarrow> Inr r))))"

subsection \<open>Headers across the wire\<close>

definition readable :: "'h http_lib \<Rightarrow> string \<Rightarrow> bool" where
  "readable L v \<longleftrightarrow> header_str L v \<noteq> None"

lemma readable_str: "http_ok L \<Longrightarrow> readable L v \<longleftrightarrow> header_str L v = Some v"
  using header_str_SomeD unfolding readable_def by blast

lemma readable_value: "http_ok L \<Longrightarrow> readable L v \<Longrightarrow> header_value L v = Some v"
  using header_str_SomeD [of L v v] by (simp add: readable_str)

lemma nats_okD:
  assumes "nats_ok N"
  shows "nh_iter N (nh_new N) = []"
    and "nh_values N (nh_append N n v h) k = nh_values N h k @ (if k = n then [v] else [])"
    and "fst ` set (nh_iter N (nh_append N n v h)) \<subseteq> insert n (fst ` set (nh_iter N h))"
  using assms unfolding nats_ok_def by blast+

lemma to_nats_values:
  assumes "http_ok L" "nats_ok N"
  shows "nh_values N (to_nats_headers L N h) k = filter (readable L) (hm_all L h k)"
proof -
  have "nh_values N (fold (\<lambda>(n, v) m. case header_str L v of None \<Rightarrow> m | Some s \<Rightarrow> nh_append N n s m) xs m) k =
      nh_values N m k @ filter (readable L) (map snd (filter (\<lambda>p. fst p = k) xs))" for xs m
  proof (induction xs arbitrary: m)
    case (Cons p xs)
    then show ?case
      using header_str_SomeD [OF assms(1), of "snd p"]
      by (cases p) (auto simp: readable_def nats_okD(2) [OF assms(2)] split: option.splits)
  qed simp
  then show ?thesis
    by (simp add: to_nats_headers_def hm_all_def nh_values_def [of N "nh_new N"] nats_okD(1) [OF assms(2)])
qed

lemma to_nats_names:
  assumes "http_ok L" "nats_ok N" "n \<in> fst ` set (nh_iter N (to_nats_headers L N h))"
  shows "header_name L n = Some n"
proof -
  have "fst ` set (nh_iter N (fold (\<lambda>(n, v) m. case header_str L v of None \<Rightarrow> m | Some s \<Rightarrow> nh_append N n s m) xs m))
      \<subseteq> fst ` set xs \<union> fst ` set (nh_iter N m)" for xs m
  proof (induction xs arbitrary: m)
    case (Cons p xs)
    obtain n v where p: "p = (n, v)" by (cases p)
    show ?case
    proof (cases "header_str L v")
      case None
      then show ?thesis using Cons.IH [of m] by (auto simp: p)
    next
      case (Some s)
      have "fst ` set xs \<union> fst ` set (nh_iter N (nh_append N n s m)) \<subseteq> fst ` set (p # xs) \<union> fst ` set (nh_iter N m)"
        using nats_okD(3) [OF assms(2), of n s m] by (auto simp: p)
      from subset_trans [OF Cons.IH this] Some show ?thesis by (simp add: p)
    qed
  qed simp
  from this [of "hm_iter L h" "nh_new N"] assms(3) have "n \<in> fst ` set (hm_iter L h)"
    by (auto simp: to_nats_headers_def nats_okD(1) [OF assms(2)])
  then show ?thesis using header_name_iter [OF assms(1)] by auto
qed

lemma hm_all_append_values:
  assumes "http_ok L" "header_name L n = Some n"
  shows "hm_all L (append_values L n vs m) k =
    hm_all L m k @ (if k = n then List.map_filter (header_value L) vs else [])"
  by (induction vs arbitrary: m)
    (auto simp: append_values_def map_filter_simps assms split: option.split)

lemma from_nats_all:
  assumes "http_ok L" "\<And>n. n \<in> fst ` set (nh_iter N h) \<Longrightarrow> header_name L n = Some n"
  shows "hm_all L (from_nats_headers L N (Some h)) k = List.map_filter (header_value L) (nh_values N h k)"
proof -
  have "hm_all L (fold (\<lambda>(name, vs) m. case header_name L name of None \<Rightarrow> m | Some n \<Rightarrow> append_values L n vs m) xs m) k =
      hm_all L m k @ List.map_filter (header_value L) (concat (map snd (filter (\<lambda>p. fst p = k) xs)))"
    if "\<forall>n \<in> fst ` set xs. header_name L n = Some n" for xs m
    using that
  proof (induction xs arbitrary: m)
    case (Cons p xs)
    then show ?case by (cases p) (auto simp: hm_all_append_values assms(1) map_filter_def)
  qed (simp add: map_filter_simps)
  from this [of "nh_iter N h" "hm_new L"] assms(2) show ?thesis
    by (simp add: from_nats_headers_def nh_values_def assms(1))
qed

text \<open>What one end puts into its header map the other end reads, as far as it is readable text.\<close>

lemma headers_across:
  assumes "http_ok L" "nats_ok N"
  shows "hm_all L (from_nats_headers L N (Some (to_nats_headers L N h))) k = filter (readable L) (hm_all L h k)"
proof -
  have "List.map_filter (header_value L) (filter (readable L) vs) = filter (readable L) vs" for vs
    by (induction vs) (simp_all add: map_filter_simps readable_value [OF assms(1)])
  then show ?thesis
    using from_nats_all [of L N "to_nats_headers L N h", OF assms(1) to_nats_names [OF assms], where k = k]
    by (simp add: to_nats_values [OF assms])
qed

lemma header_text_across:
  assumes "http_ok L" "nats_ok N"
  shows "header_text L (from_nats_headers L N (Some (to_nats_headers L N h))) k =
    (case filter (readable L) (hm_all L h k) of [] \<Rightarrow> None | v # _ \<Rightarrow> Some v)"
proof (cases "filter (readable L) (hm_all L h k)")
  case (Cons v vs)
  then have "readable L v" using Cons_eq_filterD [OF Cons [symmetric]] by blast
  with Cons show ?thesis
    by (simp add: header_text_all [OF assms(1)] headers_across [OF assms] readable_str [OF assms(1)])
qed (simp add: header_text_all [OF assms(1)] headers_across [OF assms])

subsection \<open>A request and its responder\<close>

text \<open>
  The broker between a request and a responder: the responder's task runs on the message as it was published,
  and what it publishes comes back. A responder that never answers is a timeout.
\<close>

definition responder_client ::
  "'h http_lib \<Rightarrow> 'n nats_lib \<Rightarrow> nats_route_info \<Rightarrow> ('h nats_request_parts \<Rightarrow> bytes \<Rightarrow> 'h nats_reply outcome) \<Rightarrow> string
   \<Rightarrow> reporting \<Rightarrow> string \<Rightarrow> bytes \<Rightarrow> 'n \<Rightarrow> duration \<Rightarrow> request_error + 'n nats_message" where
  "responder_client L N route handler uuid st subject payload headers timeout =
     (case nats_answer L N route handler uuid
         (''_INBOX.1'', \<lparr>nm_subject = subject, nm_headers = Some headers, nm_payload = payload, nm_reply = Some ''_INBOX.1''\<rparr>) st of
        (None, _) \<Rightarrow> Inl TimedOut
      | (Some (reply_subject, hdrs, pl), _) \<Rightarrow>
          Inr \<lparr>nm_subject = reply_subject, nm_headers = Some hdrs, nm_payload = pl, nm_reply = None\<rparr>)"

text \<open>Both ends' codecs were generated from one schema.\<close>

definition codecs_agree :: "('q, 'r) client_codecs \<Rightarrow> ('q, 'r, 'd) body_codecs \<Rightarrow> bool" where
  "codecs_agree cc cd \<longleftrightarrow>
     (\<forall>q. \<exists>bs. rq_to_json cc q = Inr bs \<and> from_json cd bs = Inr q) \<and>
     (\<forall>q. from_flatbuffer cd (rq_to_flatbuffer cc q) = Inr q) \<and>
     (\<forall>r. \<exists>bs. to_json cd r = Inr bs \<and> rs_from_json cc bs = Inr r) \<and>
     (\<forall>r. rs_from_flatbuffer cc (to_flatbuffer cd r) = Inr r)"

lemma encoded_body:
  assumes "codecs_agree cc cd"
  obtains payload where "nats_encode cc e q = Inr payload" "nats_decode_body cd e payload = Inr q"
proof (cases e)
  case NatsJson
  obtain bs where "rq_to_json cc q = Inr bs" "from_json cd bs = Inr q"
    using assms unfolding codecs_agree_def by blast
  with NatsJson that show ?thesis by (simp add: nats_encode_def nats_decode_body_def)
next
  case NatsFlatBuffer
  have "from_flatbuffer cd (rq_to_flatbuffer cc q) = Inr q"
    using assms unfolding codecs_agree_def by blast
  with NatsFlatBuffer that show ?thesis by (simp add: nats_encode_def nats_decode_body_def)
qed

lemma header_constants_ok [simp]:
  assumes "http_ok L"
  shows "header_name L REQUEST_ID_HEADER = Some REQUEST_ID_HEADER" "header_name L ERROR_CODE_HEADER = Some ERROR_CODE_HEADER"
    "header_name L ERROR_MESSAGE_HEADER = Some ERROR_MESSAGE_HEADER" "header_name L ERROR_STATUS_HEADER = Some ERROR_STATUS_HEADER"
    "header_name L CONTENT_TYPE_HEADER = Some CONTENT_TYPE_HEADER"
  using assms by (simp_all add: header_constants literal_headers)

lemma header_constants_distinct [simp]:
  "REQUEST_ID_HEADER \<noteq> ERROR_CODE_HEADER" "REQUEST_ID_HEADER \<noteq> ERROR_MESSAGE_HEADER" "REQUEST_ID_HEADER \<noteq> ERROR_STATUS_HEADER"
  "REQUEST_ID_HEADER \<noteq> CONTENT_TYPE_HEADER" "ERROR_CODE_HEADER \<noteq> ERROR_MESSAGE_HEADER" "ERROR_CODE_HEADER \<noteq> ERROR_STATUS_HEADER"
  "ERROR_CODE_HEADER \<noteq> CONTENT_TYPE_HEADER" "ERROR_CODE_HEADER \<noteq> REQUEST_ID_HEADER" "ERROR_MESSAGE_HEADER \<noteq> ERROR_STATUS_HEADER"
  "ERROR_MESSAGE_HEADER \<noteq> CONTENT_TYPE_HEADER" "ERROR_STATUS_HEADER \<noteq> CONTENT_TYPE_HEADER" "CONTENT_TYPE_HEADER \<noteq> REQUEST_ID_HEADER"
  "CONTENT_TYPE_HEADER \<noteq> ERROR_CODE_HEADER" "ERROR_MESSAGE_HEADER \<noteq> ERROR_CODE_HEADER" "ERROR_STATUS_HEADER \<noteq> ERROR_CODE_HEADER"
  "ERROR_STATUS_HEADER \<noteq> ERROR_MESSAGE_HEADER" "CONTENT_TYPE_HEADER \<noteq> ERROR_MESSAGE_HEADER" "CONTENT_TYPE_HEADER \<noteq> ERROR_STATUS_HEADER"
  "ERROR_MESSAGE_HEADER \<noteq> REQUEST_ID_HEADER" "ERROR_STATUS_HEADER \<noteq> REQUEST_ID_HEADER"
  by (simp_all add: header_constants)

lemma visible_content_type [simp]: "list_all visible (nats_content_type e)"
  by (cases e) (simp_all add: JSON_CONTENT_TYPE_def FLATBUFFER_CONTENT_TYPE_def visible_def)

lemma from_content_type_of [simp]: "from_content_type (Some (nats_content_type e)) = e"
proof (cases e)
  case NatsJson
  have "contains_str JSON_CONTENT_TYPE JSON_CONTENT_TYPE" by (simp add: contains_str_iff)
  with NatsJson show ?thesis by (simp add: from_content_type_def)
next
  case NatsFlatBuffer
  have "\<not> contains_str FLATBUFFER_CONTENT_TYPE JSON_CONTENT_TYPE" by code_simp
  with NatsFlatBuffer show ?thesis by (simp add: from_content_type_def)
qed

lemma readable_visible [simp]: "http_ok L \<Longrightarrow> list_all visible v \<Longrightarrow> readable L v"
  by (simp add: readable_def)

text \<open>A header set last, as the other end reads it.\<close>

lemma set_header_across:
  assumes "http_ok L" "nats_ok N" "header_name L n = Some n" "list_all visible v"
  shows "header_text L (from_nats_headers L N (Some (to_nats_headers L N (set_header L n v h)))) n = Some v"
  using assms by (simp add: header_text_across)

lemma decoded_reply:
  assumes "codecs_agree cc cd" "http_ok L" "rs_raw resp = None"
  shows "nats_decode cc e (np_payload (reply_ok L cd e i resp)) = Inr (rs_body resp) \<and>
    hm_all L (np_headers (reply_ok L cd e i resp)) ERROR_CODE_HEADER = []"
proof (cases e)
  case NatsJson
  obtain bs where "to_json cd (rs_body resp) = Inr bs" "rs_from_json cc bs = Inr (rs_body resp)"
    using assms(1) unfolding codecs_agree_def by blast
  with NatsJson assms(2,3) show ?thesis
    by (simp add: reply_ok_def take_raw_def nats_decode_def Let_def split: option.split)
next
  case NatsFlatBuffer
  have "rs_from_flatbuffer cc (to_flatbuffer cd (rs_body resp)) = Inr (rs_body resp)"
    using assms(1) unfolding codecs_agree_def by blast
  with NatsFlatBuffer assms(2,3) show ?thesis
    by (simp add: reply_ok_def take_raw_def nats_decode_def Let_def split: option.split)
qed

lemma status_str_visible [simp]: "list_all visible (status_str s)"
proof -
  have "list_all is_digit (show_nat (unat s))" using show_nat_digits by blast
  then show ?thesis unfolding status_str_def by (rule list.pred_mono_strong) (simp add: is_digit_def visible_def)
qed

lemma reply_err_headers:
  assumes "http_ok L" "list_all visible (wire_code err)" "list_all visible (re_message err)"
  shows "hm_all L (np_headers (reply_err L ej df e i err)) ERROR_CODE_HEADER = [wire_code err]"
    and "hm_all L (np_headers (reply_err L ej df e i err)) ERROR_MESSAGE_HEADER = [re_message err]"
    and "hm_all L (np_headers (reply_err L ej df e i err)) ERROR_STATUS_HEADER = [status_str (re_status err)]"
  using assms by (simp_all add: reply_err_def Let_def)

lemma show_nat_three: "100 \<le> n \<Longrightarrow> n < 1000 \<Longrightarrow> length (show_nat n) = 3 \<and> hd (show_nat n) = char_of (48 + n div 100)"
proof -
  assume n: "100 \<le> n" "n < 1000"
  have "show_nat (n div 10 div 10) = [char_of (48 + n div 10 div 10)]"
    using n by (subst show_nat.simps) simp
  moreover have "show_nat (n div 10) = show_nat (n div 10 div 10) @ [char_of (48 + n div 10 mod 10)]"
    using n by (subst show_nat.simps) simp
  moreover have "show_nat n = show_nat (n div 10) @ [char_of (48 + n mod 10)]"
    using n by (subst show_nat.simps) simp
  moreover have "n div 10 div 10 = n div 100" by (simp flip: div_mult2_eq)
  ultimately show ?thesis by simp
qed

lemma status_from_bytes_str:
  assumes "100 \<le> s" "s < (1000 :: status)"
  shows "status_from_bytes (status_str s) = Some s"
proof -
  have n: "100 \<le> unat s" "unat s < 1000"
    using assms by (simp_all add: word_le_nat_alt word_less_nat_alt)
  have "1 \<le> unat s div 100" "unat s div 100 < 10" using n by auto
  then have "char_of (48 + unat s div 100) \<noteq> CHR ''0''"
    by (simp add: char_of_eq_iff take_bit_eq_mod)
  then show ?thesis
    using show_nat_three [OF n] show_nat_digits [of "unat s"]
    by (simp add: status_from_bytes_def status_str_def)
qed

text \<open>What the requester makes of an error reply and of a success.\<close>

definition read_reply ::
  "'h http_lib \<Rightarrow> 'n nats_lib \<Rightarrow> ('q, 'r) client_codecs \<Rightarrow> nats_encoding \<Rightarrow> string \<Rightarrow> 'h nats_reply \<Rightarrow> 'h nats_request_error + 'r" where
  "read_reply L N cc encoding subject reply =
     (let h = from_nats_headers L N (Some (to_nats_headers L N (np_headers reply)))
      in if header_text L h ERROR_CODE_HEADER \<noteq> None then Inl (Reply subject (rejection L h))
         else (case nats_decode cc encoding (np_payload reply) of Inl m \<Rightarrow> Inl (Decode subject m) | Inr r \<Rightarrow> Inr r))"

lemma read_reply_ok:
  assumes "http_ok L" "nats_ok N" "codecs_agree cc cd" "rs_raw resp = None"
  shows "read_reply L N cc e subject (reply_ok L cd e i resp) = Inr (rs_body resp)"
  using decoded_reply [OF assms(3,1,4), of e i]
  by (simp add: read_reply_def Let_def header_text_across [OF assms(1,2)])

lemma read_reply_err:
  assumes "http_ok L" "nats_ok N" "list_all visible (wire_code err)" "list_all visible (re_message err)"
    and "100 \<le> re_status err" "re_status err < 1000"
  shows "\<exists>e'. read_reply L N cc e subject (reply_err L ej df e i err) = Inl (Reply subject e') \<and>
    re_status e' = re_status err \<and> re_code e' = wire_code err \<and> re_message e' = re_message err"
  by (simp add: read_reply_def Let_def header_text_across [OF assms(1,2)] reply_err_headers [OF assms(1,3,4)]
      rejection_def assms status_from_bytes_str)

text \<open>The identifier a request runs under: the caller's, when it set a readable one, or a fresh one.\<close>

definition request_id_of :: "'h http_lib \<Rightarrow> string \<Rightarrow> ('q, 'h) nats_request \<Rightarrow> string" where
  "request_id_of L uuid rq = (case header_text L (nrq_headers rq) REQUEST_ID_HEADER of Some i \<Rightarrow> i | None \<Rightarrow> uuid)"

lemma header_text_Some: "http_ok L \<Longrightarrow> header_text L h n = Some v \<Longrightarrow> \<exists>vs. hm_all L h n = v # vs \<and> readable L v"
  using header_str_SomeD by (force simp: header_text_all readable_def split: list.splits)

lemma request_parts:
  assumes "http_ok L" "nats_ok N" "list_all visible uuid"
    and "h = from_nats_headers L N (Some (to_nats_headers L N (request_headers L uuid (nrq_encoding rq) (nrq_headers rq))))"
  shows "header_text L h CONTENT_TYPE_HEADER = Some (nats_content_type (nrq_encoding rq))"
    and "header_text L h REQUEST_ID_HEADER = Some (request_id_of L uuid rq)"
proof -
  show "header_text L h CONTENT_TYPE_HEADER = Some (nats_content_type (nrq_encoding rq))"
    using assms(1,2) by (simp add: assms(4) request_headers_def Let_def set_header_across)
  show "header_text L h REQUEST_ID_HEADER = Some (request_id_of L uuid rq)"
  proof (cases "header_text L (nrq_headers rq) REQUEST_ID_HEADER")
    case None
    with assms show ?thesis
      by (simp add: request_headers_def Let_def header_text_across request_id_of_def)
  next
    case (Some i)
    then obtain vs where "hm_all L (nrq_headers rq) REQUEST_ID_HEADER = i # vs" "readable L i"
      using header_text_Some [OF assms(1)] by blast
    with Some assms show ?thesis
      by (simp add: request_headers_def Let_def header_text_across request_id_of_def)
  qed
qed

definition panic_error :: "'h http_lib \<Rightarrow> (unit, 'h) route_error" where
  "panic_error L = with_code PANIC_CODE (internal L ''handler panicked'')"

lemma nats_dispatch_reply:
  "fst (nats_dispatch L N route handler uuid m st) =
    Some (case handler (message_parts L N route uuid m) (nm_payload m) of
            Returns reply \<Rightarrow> reply
          | Panics _ _ \<Rightarrow> reply_plain L (nq_encoding (message_parts L N route uuid m))
                           (nq_request_id (message_parts L N route uuid m)) (panic_error L))"
  by (simp add: nats_dispatch_def Let_def catch_poll_def panic_error_def split: outcome.split prod.split)

lemma send_to_responder:
  assumes "nats_encode cc (nrq_encoding rq) (nrq_body rq) = Inr payload"
    and "fst (nats_dispatch L N route handler uuid'
      \<lparr>nm_subject = nrq_subject rq, nm_headers = Some (to_nats_headers L N (request_headers L uuid (nrq_encoding rq) (nrq_headers rq))),
       nm_payload = payload, nm_reply = Some ''_INBOX.1''\<rparr> st) = Some reply"
  shows "send_request L N cc uuid (responder_client L N route handler uuid' st) rq =
    read_reply L N cc (nrq_encoding rq) (nrq_subject rq) reply"
proof -
  obtain st' where "nats_dispatch L N route handler uuid'
      \<lparr>nm_subject = nrq_subject rq, nm_headers = Some (to_nats_headers L N (request_headers L uuid (nrq_encoding rq) (nrq_headers rq))),
       nm_payload = payload, nm_reply = Some ''_INBOX.1''\<rparr> st = (Some reply, st')"
    using assms(2) by (metis prod.collapse)
  with assms(1) show ?thesis
    by (simp add: send_request_def responder_client_def nats_answer_def read_reply_def Let_def)
qed

lemma read_reply_panic:
  assumes "http_ok L" "nats_ok N"
  shows "\<exists>e'. read_reply L N cc e subject (reply_plain L e i (panic_error L)) = Inl (Reply subject e') \<and>
    re_status e' = 500 \<and> re_code e' = PANIC_CODE \<and> re_message e' = ''handler panicked''"
proof -
  have err: "re_status (panic_error L) = 500" "wire_code (panic_error L) = PANIC_CODE" "re_message (panic_error L) = ''handler panicked''"
    by (simp_all add: panic_error_def with_code_def internal_def re_with_status_def wire_code_def PANIC_CODE_def)
  have "list_all visible PANIC_CODE" "list_all visible ''handler panicked''"
    by (simp_all add: PANIC_CODE_def visible_def)
  then show ?thesis
    unfolding reply_plain_def using read_reply_err [OF assms, of "panic_error L"] by (simp add: err)
qed

text \<open>
  C22. A typed request is answered by its responder. The handler sees the body that was sent, the concrete subject
  with its captures and the caller's request id; and the caller holds the handler's response, or its rejection with the
  status, code and message the handler chose, or, for a handler that panicked, a \<open>500 PANIC\<close>: never a timeout or a
  decode error. Codes and messages are visible text here, which is what a NATS header carries unchanged.
\<close>

theorem typed_request_answered:
  assumes "http_ok L" "nats_ok N" "codecs_agree cc cd" "list_all visible uuid"
    and "result = send_request L N cc uuid (responder_client L N route (nats_handler L cd f (Inr c)) uuid' st) rq"
  shows "\<exists>q. rq_body q = nrq_body rq \<and> rq_ctx q = c \<and> rq_path q = nrq_subject rq \<and>
    rq_path_params q = extract_params (nr_params route) (nrq_subject rq) \<and> rq_request_id q = request_id_of L uuid rq \<and>
    (case f q of
       Returns (Inr resp) \<Rightarrow> rs_raw resp = None \<longrightarrow> result = Inr (rs_body resp)
     | Returns (Inl err) \<Rightarrow>
         list_all visible (wire_code err) \<and> list_all visible (re_message err) \<and> 100 \<le> re_status err \<and> re_status err < 1000 \<longrightarrow>
         (\<exists>e'. result = Inl (Reply (nrq_subject rq) e') \<and> re_status e' = re_status err \<and> re_code e' = wire_code err \<and>
            re_message e' = re_message err)
     | Panics _ _ \<Rightarrow>
         \<exists>e'. result = Inl (Reply (nrq_subject rq) e') \<and> re_status e' = 500 \<and> re_code e' = PANIC_CODE \<and>
           re_message e' = ''handler panicked'')"
proof -
  let ?e = "nrq_encoding rq" and ?s = "nrq_subject rq"
  obtain payload where payload: "nats_encode cc ?e (nrq_body rq) = Inr payload" "nats_decode_body cd ?e payload = Inr (nrq_body rq)"
    using encoded_body [OF assms(3)] by blast
  define h where "h = from_nats_headers L N (Some (to_nats_headers L N (request_headers L uuid ?e (nrq_headers rq))))"
  define m where "m = \<lparr>nm_subject = ?s, nm_headers = Some (to_nats_headers L N (request_headers L uuid ?e (nrq_headers rq))),
       nm_payload = payload, nm_reply = Some ''_INBOX.1''\<rparr>"
  define parts where "parts = message_parts L N route uuid' m"
  have parts: "parts = \<lparr>nq_subject = ?s, nq_headers = h, nq_params = extract_params (nr_params route) ?s,
      nq_request_id = request_id_of L uuid rq, nq_encoding = ?e\<rparr>"
    using request_parts [OF assms(1,2,4) h_def] by (simp add: parts_def message_parts_def m_def h_def Let_def)
  define q where "q = \<lparr>rq_body = nrq_body rq, rq_ctx = c, rq_headers = h, rq_method = method_str Post, rq_path = ?s,
      rq_path_params = extract_params (nr_params route) ?s, rq_query_params = Map.empty, rq_request_id = request_id_of L uuid rq\<rparr>"
  have "fst (nats_dispatch L N route (nats_handler L cd f (Inr c)) uuid' m st) = Some (case f q of
        Panics p bt \<Rightarrow> reply_plain L ?e (request_id_of L uuid rq) (panic_error L)
      | Returns (Inr response) \<Rightarrow> reply_ok L cd ?e (request_id_of L uuid rq) response
      | Returns (Inl err) \<Rightarrow> reply_err L (error_to_json cd) (details_to_flatbuffer cd) ?e (request_id_of L uuid rq) err)"
    unfolding nats_dispatch_reply parts_def [symmetric]
    by (simp add: m_def nats_handler_def parts payload(2) q_def Let_def split: outcome.split sum.split)
  from send_to_responder [OF payload(1) this [unfolded m_def]]
  have result: "result = read_reply L N cc ?e ?s (case f q of
        Panics p bt \<Rightarrow> reply_plain L ?e (request_id_of L uuid rq) (panic_error L)
      | Returns (Inr response) \<Rightarrow> reply_ok L cd ?e (request_id_of L uuid rq) response
      | Returns (Inl err) \<Rightarrow> reply_err L (error_to_json cd) (details_to_flatbuffer cd) ?e (request_id_of L uuid rq) err)"
    by (simp only: assms(5))
  show ?thesis
  proof (intro exI [of _ q] conjI)
    show "case f q of
       Returns (Inr resp) \<Rightarrow> rs_raw resp = None \<longrightarrow> result = Inr (rs_body resp)
     | Returns (Inl err) \<Rightarrow>
         list_all visible (wire_code err) \<and> list_all visible (re_message err) \<and> 100 \<le> re_status err \<and> re_status err < 1000 \<longrightarrow>
         (\<exists>e'. result = Inl (Reply ?s e') \<and> re_status e' = re_status err \<and> re_code e' = wire_code err \<and> re_message e' = re_message err)
     | Panics _ _ \<Rightarrow>
         \<exists>e'. result = Inl (Reply ?s e') \<and> re_status e' = 500 \<and> re_code e' = PANIC_CODE \<and> re_message e' = ''handler panicked''"
      unfolding result
      by (simp add: read_reply_ok [OF assms(1-3)] read_reply_err [OF assms(1,2)] read_reply_panic [OF assms(1,2)]
          split: outcome.split sum.split)
  qed (simp_all add: q_def)
qed

text \<open>
  A code outside ASCII is a header value the responder can set and the requester cannot read: the rejection arrives
  without its code and is taken for a success, here with the empty payload of an error without details.
\<close>

lemma unreadable_code_taken_for_success:
  assumes "http_ok L" "nats_ok N" "header_value L (flatten_controls (wire_code err)) = Some w" "\<not> readable L w"
    and "re_details err = None"
  shows "read_reply L N cc NatsFlatBuffer subject (reply_err L ej df NatsFlatBuffer i err) =
    (case rs_from_flatbuffer cc [] of Inl m \<Rightarrow> Inl (Decode subject m) | Inr r \<Rightarrow> Inr r)"
proof -
  have "filter (readable L) (hm_all L (np_headers (reply_err L ej df NatsFlatBuffer i err)) ERROR_CODE_HEADER) = []"
    using assms(1,3,4) by (simp add: reply_err_def Let_def split: option.split)
  moreover have "np_payload (reply_err L ej df NatsFlatBuffer i err) = []"
    using assms(5) by (simp add: reply_err_def Let_def)
  ultimately show ?thesis
    by (simp add: read_reply_def Let_def header_text_across [OF assms(1,2)] nats_decode_def)
qed

subsection \<open>Witness\<close>

definition list_nats :: "(string \<times> string) list nats_lib" where
  "list_nats = \<lparr>nh_new = [], nh_append = (\<lambda>n v h. h @ [(n, v)]), nh_iter = map (\<lambda>(n, v). (n, [v]))\<rparr>"

lemma list_nats_ok: "nats_ok list_nats"
proof -
  have "concat (map snd (filter (\<lambda>p. fst p = k) (map (\<lambda>(n, v). (n, [v])) h))) = map snd (filter (\<lambda>p. fst p = k) h)"
    for k :: string and h :: "(string \<times> string) list"
    by (induction h) auto
  then show ?thesis by (auto simp: nats_ok_def list_nats_def nh_values_def)
qed

definition byte_client :: "(bytes, bytes) client_codecs" where
  "byte_client = \<lparr>rq_to_json = Inr, rq_to_flatbuffer = id, rs_from_json = Inr, rs_from_flatbuffer = Inr\<rparr>"

definition byte_codecs :: "(bytes, bytes, unit) body_codecs" where
  "byte_codecs =
     \<lparr>from_json = Inr, from_flatbuffer = Inr, to_json = Inr, to_flatbuffer = id,
      error_to_json = (\<lambda>_ _ _. Inl ''''), details_to_flatbuffer = (\<lambda>_. [])\<rparr>"

lemma byte_codecs_agree: "codecs_agree byte_client byte_codecs"
  by (simp add: codecs_agree_def byte_client_def byte_codecs_def)

definition notes_route :: nats_route_info where
  "notes_route = \<lparr>nr_subject = ''notes.{id}'', nr_wire = ''notes.*'', nr_params = [(''id'', 1)], nr_queue = None\<rparr>"

definition notes_handler ::
  "(bytes, unit, (string \<times> string) list) request \<Rightarrow> ((unit, (string \<times> string) list) route_error + (bytes, (string \<times> string) list) response) outcome" where
  "notes_handler q = Returns (Inl (not_found list_lib ''no such note''))"

theorem typed_request_answered_witness:
  "\<exists>e'. send_request list_lib list_nats byte_client ''u1''
      (responder_client list_lib list_nats notes_route (nats_handler list_lib byte_codecs notes_handler (Inr ())) ''u2'' reporting_new)
      (typed_request list_lib ''notes.7'' [1, 2]) = Inl (Reply ''notes.7'' e') \<and>
    re_status e' = 404 \<and> re_code e' = ''ERROR'' \<and> re_message e' = ''no such note''"
proof -
  have "list_all visible ''u1''" by (simp add: visible_def)
  from typed_request_answered [OF list_lib_ok list_nats_ok byte_codecs_agree this refl, where rq = "typed_request list_lib ''notes.7'' [1, 2]" and route = notes_route and f = notes_handler and c = "()"
      and uuid' = "''u2''" and st = reporting_new]
  show ?thesis
    by (simp add: notes_handler_def not_found_def re_with_status_def wire_code_def visible_def typed_request_def) blast
qed

end
