(* ===== verification/NatsConnect.thy ===== *)
theory NatsConnect
  imports Readiness NatsSubjects
begin

text \<open>
  The managed NATS connection, \<^verbatim>\<open>crates/flatbed/src/nats_connect.rs\<close>: the builder, the retry loop of the first
  connect, the backoff of reconnects, and the readiness gate the connection's events drive. The clock, the dial
  (the \<open>async_nats\<close> client), the file system and the entropy of the spread are parameters.
\<close>

definition DEFAULT_MIN_BACKOFF :: duration where "DEFAULT_MIN_BACKOFF = from_millis 250"
definition DEFAULT_MAX_BACKOFF :: duration where "DEFAULT_MAX_BACKOFF = from_secs 10"
definition DEFAULT_CONNECT_DEADLINE :: duration where "DEFAULT_CONNECT_DEADLINE = from_secs 60"
definition DEFAULT_ATTEMPT_TIMEOUT :: duration where "DEFAULT_ATTEMPT_TIMEOUT = from_secs 5"
definition PING_INTERVAL :: duration where "PING_INTERVAL = from_secs 10"
definition MAX_BACKOFF_SHIFT :: "32 word" where "MAX_BACKOFF_SHIFT = 16"

datatype credentials = CredsFile string | CredsInline string

datatype connector_error =
  CredentialsUnreadable string string
| CredentialsInvalid string
| Unreachable string "32 word" duration "string option"

text \<open>\<open>Display\<close>; \<open>show_elapsed\<close> is \<open>{:.1?}\<close> of a duration.\<close>

definition connector_error_str :: "(duration \<Rightarrow> string) \<Rightarrow> connector_error \<Rightarrow> string" where
  "connector_error_str show_elapsed e =
     (case e of
        CredentialsUnreadable path source \<Rightarrow> ''cannot read NATS credentials at '' @ path @ '': '' @ source
      | CredentialsInvalid source \<Rightarrow> ''invalid NATS credentials: '' @ source
      | Unreachable url attempts elapsed source \<Rightarrow>
          ''NATS at '' @ url @ '' unreachable after '' @ show_nat (unat attempts) @ '' attempts over '' @ show_elapsed elapsed @
          (case source of Some s \<Rightarrow> '': '' @ s | None \<Rightarrow> '': every attempt timed out''))"

definition connector_error_source :: "connector_error \<Rightarrow> string option" where
  "connector_error_source e =
     (case e of
        CredentialsUnreadable _ source \<Rightarrow> Some source
      | CredentialsInvalid source \<Rightarrow> Some source
      | Unreachable _ _ _ source \<Rightarrow> source)"

subsection \<open>The builder\<close>

record connector =
  cn_url :: string
  cn_credentials :: "credentials option"
  cn_name :: "string option"
  cn_min_backoff :: duration
  cn_max_backoff :: duration
  cn_deadline :: duration
  cn_attempt_timeout :: duration
  cn_inbox_prefix :: "string option"
  cn_gate :: "nat option"

definition connector_new :: "string \<Rightarrow> connector" where
  "connector_new url =
     \<lparr>cn_url = url, cn_credentials = None, cn_name = None, cn_min_backoff = DEFAULT_MIN_BACKOFF,
      cn_max_backoff = DEFAULT_MAX_BACKOFF, cn_deadline = DEFAULT_CONNECT_DEADLINE,
      cn_attempt_timeout = DEFAULT_ATTEMPT_TIMEOUT, cn_inbox_prefix = None, cn_gate = None\<rparr>"

definition with_credentials :: "string \<Rightarrow> connector \<Rightarrow> connector" where
  "with_credentials creds c = c\<lparr>cn_credentials := Some (CredsInline creds)\<rparr>"

definition with_credentials_file :: "string \<Rightarrow> connector \<Rightarrow> connector" where
  "with_credentials_file path c = c\<lparr>cn_credentials := Some (CredsFile path)\<rparr>"

definition with_name :: "string \<Rightarrow> connector \<Rightarrow> connector" where
  "with_name name c = c\<lparr>cn_name := Some name\<rparr>"

definition with_inbox_prefix :: "string \<Rightarrow> connector \<Rightarrow> connector" where
  "with_inbox_prefix p c = c\<lparr>cn_inbox_prefix := Some p\<rparr>"

definition with_readiness :: "nat \<Rightarrow> connector \<Rightarrow> connector" where
  "with_readiness g c = c\<lparr>cn_gate := Some g\<rparr>"

definition with_backoff :: "duration \<Rightarrow> duration \<Rightarrow> connector \<Rightarrow> connector" where
  "with_backoff mn mx c = c\<lparr>cn_min_backoff := mn, cn_max_backoff := max mx mn\<rparr>"

definition with_connect_deadline :: "duration \<Rightarrow> connector \<Rightarrow> connector" where
  "with_connect_deadline d c = c\<lparr>cn_deadline := d\<rparr>"

definition with_attempt_timeout :: "duration \<Rightarrow> connector \<Rightarrow> connector" where
  "with_attempt_timeout d c = c\<lparr>cn_attempt_timeout := d\<rparr>"

subsection \<open>Backoff\<close>

definition spread :: "64 word \<Rightarrow> duration \<Rightarrow> duration" where
  "spread entropy span = (let nanos = u64_clamp span in if nanos = 0 then 0 else unat entropy mod nanos)"

definition backoff :: "64 word \<Rightarrow> duration \<Rightarrow> duration \<Rightarrow> 32 word \<Rightarrow> duration" where
  "backoff entropy mn mx attempt =
     (let step = min (saturating_dec attempt) MAX_BACKOFF_SHIFT;
          capped = min (dur_saturating_mul mn (unat (push_bit (unat step) (1 :: 32 word)))) mx;
          half = capped div 2
      in half + spread entropy half)"

text \<open>The delay the client asks for before its dial number \<open>attempts\<close> (a \<open>usize\<close>).\<close>

definition reconnect_delay :: "64 word \<Rightarrow> connector \<Rightarrow> nat \<Rightarrow> duration" where
  "reconnect_delay entropy c attempts =
     (if attempts \<le> 1 then 0
      else backoff entropy (cn_min_backoff c) (cn_max_backoff c)
             (if attempts - 1 \<le> u32_max then of_nat (attempts - 1) else - 1))"

subsection \<open>Events\<close>

datatype nats_event = EvConnected | EvDisconnected | EvDraining | EvClosed | EvOther string

definition set_gate :: "nat option \<Rightarrow> bool \<Rightarrow> readiness \<Rightarrow> readiness" where
  "set_gate g b r = (case g of Some i \<Rightarrow> set_ready i b r | None \<Rightarrow> r)"

fun on_event :: "nat option \<Rightarrow> nats_event \<Rightarrow> readiness \<Rightarrow> readiness" where
  "on_event g EvConnected r = set_gate g True r"
| "on_event g EvDisconnected r = set_gate g False r"
| "on_event g EvDraining r = set_gate g False r"
| "on_event g EvClosed r = set_gate g False r"
| "on_event g (EvOther e) r = r"

subsection \<open>The first connect\<close>

definition read_credentials :: "(string \<Rightarrow> string + string) \<Rightarrow> connector \<Rightarrow> connector_error + string option" where
  "read_credentials fs c =
     (case cn_credentials c of
        None \<Rightarrow> Inr None
      | Some (CredsInline creds) \<Rightarrow> Inr (Some creds)
      | Some (CredsFile path) \<Rightarrow>
          (case fs path of Inl source \<Rightarrow> Inl (CredentialsUnreadable path source) | Inr creds \<Rightarrow> Inr (Some creds)))"

text \<open>What the client is configured with; \<open>parse\<close> is its parser of credentials.\<close>

record connect_options =
  op_credentials :: "string option"
  op_name :: "string option"
  op_inbox_prefix :: "string option"
  op_ping_interval :: duration

definition options :: "(string \<Rightarrow> string + unit) \<Rightarrow> connector \<Rightarrow> string option \<Rightarrow> connector_error + connect_options" where
  "options parse c creds =
     (case (case creds of None \<Rightarrow> Inr () | Some s \<Rightarrow> parse s) of
        Inl source \<Rightarrow> Inl (CredentialsInvalid source)
      | Inr _ \<Rightarrow>
          Inr \<lparr>op_credentials = creds, op_name = cn_name c, op_inbox_prefix = cn_inbox_prefix c,
               op_ping_interval = PING_INTERVAL\<rparr>)"

text \<open>
  How the call ends. Adding two durations panics beyond the largest one.
\<close>

datatype 'cl connect_end = Connected 'cl | Failed connector_error | Overflowed

record 'cl connecting =
  ce_end :: "'cl connect_end"
  ce_elapsed :: duration
  ce_readiness :: readiness

text \<open>
  The outside of the loop: what dial number \<open>n\<close> does and how long it would take, and the entropy of the delay after it.
  A dial that would take longer than its limit is abandoned at the limit.
\<close>

record 'cl outside =
  ou_dial :: "nat \<Rightarrow> connect_options \<Rightarrow> duration \<times> (string + 'cl)"
  ou_entropy :: "nat \<Rightarrow> 64 word"

definition attempt :: "'cl outside \<Rightarrow> nat \<Rightarrow> connect_options \<Rightarrow> duration \<Rightarrow> duration \<times> (string + 'cl) option" where
  "attempt ou n opts limit =
     (case ou_dial ou n opts of (took, res) \<Rightarrow> if took \<le> limit then (took, Some res) else (limit, None))"

definition or_else :: "'a option \<Rightarrow> 'a option \<Rightarrow> 'a option" where
  "or_else a b = (case a of Some x \<Rightarrow> Some x | None \<Rightarrow> b)"

text \<open>
  The loop, with \<open>now\<close> the time since it started and \<open>n\<close> the dials so far; \<open>attempts\<close> is their \<open>u32\<close> count. The
  result is \<open>None\<close> when the fuel is spent.
\<close>

primrec connect_loop ::
  "nat \<Rightarrow> 'cl outside \<Rightarrow> (string \<Rightarrow> string + unit) \<Rightarrow> connector \<Rightarrow> string option \<Rightarrow> readiness
   \<Rightarrow> nat \<Rightarrow> duration \<Rightarrow> 32 word \<Rightarrow> string option \<Rightarrow> 'cl connecting option" where
  "connect_loop 0 ou parse c creds r n now attempts last_error = None"
| "connect_loop (Suc fuel) ou parse c creds r n now attempts last_error =
     (let remaining = cn_deadline c - now
      in if remaining = 0 then
           Some \<lparr>ce_end = Failed (Unreachable (cn_url c) attempts now last_error), ce_elapsed = now, ce_readiness = r\<rparr>
         else case options parse c creds of
           Inl e \<Rightarrow> Some \<lparr>ce_end = Failed e, ce_elapsed = now, ce_readiness = r\<rparr>
         | Inr opts \<Rightarrow>
             (let attempts = attempts + 1;
                  (took, res) = attempt ou n opts (min remaining (cn_attempt_timeout c));
                  elapsed = now + took;
                  delay = backoff (ou_entropy ou n) (cn_min_backoff c) (cn_max_backoff c) attempts
              in case res of
                   Some (Inr client) \<Rightarrow>
                     Some \<lparr>ce_end = Connected client, ce_elapsed = elapsed, ce_readiness = set_gate (cn_gate c) True r\<rparr>
                 | _ \<Rightarrow>
                     (let source = (case res of Some (Inl e) \<Rightarrow> Some e | _ \<Rightarrow> None)
                      in if elapsed + delay > duration_max then
                           Some \<lparr>ce_end = Overflowed, ce_elapsed = elapsed, ce_readiness = r\<rparr>
                         else if elapsed + delay \<ge> cn_deadline c then
                           Some \<lparr>ce_end = Failed (Unreachable (cn_url c) attempts elapsed (or_else source last_error)),
                                 ce_elapsed = elapsed, ce_readiness = r\<rparr>
                         else connect_loop fuel ou parse c creds r (Suc n) (elapsed + delay) attempts
                                (or_else source last_error))))"

definition connect_with_retry ::
  "nat \<Rightarrow> 'cl outside \<Rightarrow> (string \<Rightarrow> string + string) \<Rightarrow> (string \<Rightarrow> string + unit) \<Rightarrow> connector \<Rightarrow> readiness
   \<Rightarrow> 'cl connecting option" where
  "connect_with_retry fuel ou fs parse c r =
     (case read_credentials fs c of
        Inl e \<Rightarrow> Some \<lparr>ce_end = Failed e, ce_elapsed = 0, ce_readiness = r\<rparr>
      | Inr creds \<Rightarrow> connect_loop fuel ou parse c creds r 0 0 0 None)"

subsection \<open>The backoff stays in its bounds\<close>

lemma spread_less: "span = 0 \<or> spread e span < span"
proof (cases "u64_clamp span = 0")
  case True
  then show ?thesis by (auto simp: u64_clamp_def u64_max_def split: if_splits)
next
  case False
  then have "unat e mod u64_clamp span < u64_clamp span" by simp
  also have "u64_clamp span \<le> span" by (simp add: u64_clamp_def)
  finally show ?thesis using False by (simp add: spread_def Let_def)
qed

lemma unat_shift: "k \<le> 16 \<Longrightarrow> unat (push_bit k (1 :: 32 word)) = 2 ^ k"
proof -
  assume k: "k \<le> 16"
  then have "(2 :: nat) ^ k < 2 ^ 32" by (intro power_strict_increasing) simp_all
  then show ?thesis unfolding unsigned_push_bit_eq using k by (simp add: push_bit_eq_mult take_bit_nat_eq_self)
qed

text \<open>The first step of the ramp is its floor: half of it.\<close>

lemma backoff_bounds_nats:
  assumes "mn \<le> duration_max" "mn \<le> mx"
  shows "mn div 2 \<le> backoff e mn mx a \<and> backoff e mn mx a \<le> mx"
proof -
  let ?shift = "unat (push_bit (unat (min (saturating_dec a) MAX_BACKOFF_SHIFT)) (1 :: 32 word))"
  let ?capped = "min (dur_saturating_mul mn ?shift) mx"
  have "unat (min (saturating_dec a) MAX_BACKOFF_SHIFT) \<le> 16"
    by (simp add: MAX_BACKOFF_SHIFT_def word_le_nat_alt min_def)
  then have "?shift = 2 ^ unat (min (saturating_dec a) MAX_BACKOFF_SHIFT)"
    by (rule unat_shift)
  then have "1 \<le> ?shift" by simp
  then have "mn \<le> mn * ?shift" by simp
  then have "mn \<le> ?capped" using assms by (simp add: dur_saturating_mul_def)
  moreover have "spread e (?capped div 2) \<le> ?capped div 2"
    using spread_less [of "?capped div 2" e] by (auto simp: spread_def u64_clamp_def)
  ultimately show ?thesis
    by (simp add: backoff_def Let_def) linarith
qed

subsection \<open>The deadline is hard\<close>

text \<open>What a call may end in: within the deadline, and with the gate up exactly when it connected.\<close>

definition ends_well :: "connector \<Rightarrow> readiness \<Rightarrow> 'cl connecting \<Rightarrow> bool" where
  "ends_well c r out \<longleftrightarrow>
     ce_elapsed out \<le> cn_deadline c \<and>
     (case ce_end out of
        Connected _ \<Rightarrow> ce_readiness out = set_gate (cn_gate c) True r
      | Failed _ \<Rightarrow> ce_readiness out = r
      | Overflowed \<Rightarrow> False)"

lemma attempt_took: "fst (attempt ou n opts limit) \<le> limit"
  by (simp add: attempt_def split: prod.split)

text \<open>One turn of the loop: it ends well, or goes round later than half the least backoff and before the deadline.\<close>

lemma connect_loop_attempt:
  assumes "now < cn_deadline c" "options parse c creds = Inr opts" "now + took \<le> cn_deadline c"
    and "attempt ou n opts (min (cn_deadline c - now) (cn_attempt_timeout c)) = (took, res)"
    and "delay = backoff (ou_entropy ou n) (cn_min_backoff c) (cn_max_backoff c) (attempts + 1)"
    and "cn_deadline c + delay \<le> duration_max"
  obtains (ends) out where "connect_loop (Suc fuel) ou parse c creds r n now attempts le = Some out" "ends_well c r out"
  | (again) le' where "now + took + delay < cn_deadline c"
      "connect_loop (Suc fuel) ou parse c creds r n now attempts le =
       connect_loop fuel ou parse c creds r (Suc n) (now + took + delay) (attempts + 1) le'"
proof -
  have fits: "\<not> duration_max < now + took + delay" using assms(3,6) by linarith
  consider (up) cl where "res = Some (Inr cl)" | (down) "res = None \<or> (\<exists>e. res = Some (Inl e))"
    by (metis option.exhaust sum.exhaust)
  then show ?thesis
  proof cases
    case up
    with assms(1-4) show ?thesis by (intro ends, simp) (simp add: ends_well_def)
  next
    case down
    define source where "source = (case res of Some (Inl e) \<Rightarrow> Some e | _ \<Rightarrow> None)"
    have "connect_loop (Suc fuel) ou parse c creds r n now attempts le =
        (if now + took + delay \<ge> cn_deadline c
         then Some \<lparr>ce_end = Failed (Unreachable (cn_url c) (attempts + 1) (now + took) (or_else source le)),
                    ce_elapsed = now + took, ce_readiness = r\<rparr>
         else connect_loop fuel ou parse c creds r (Suc n) (now + took + delay) (attempts + 1) (or_else source le))"
      using down
    proof
      assume "res = None"
      then show ?thesis using assms(1,2,4) fits by (simp add: source_def assms(5) Let_def)
    next
      assume "\<exists>e. res = Some (Inl e)"
      then show ?thesis using assms(1,2,4) fits by (auto simp: source_def assms(5) Let_def)
    qed
    then show ?thesis
      using assms(3) by (cases "now + took + delay < cn_deadline c") (auto intro: ends again simp: ends_well_def)
  qed
qed

lemma connect_loop_turn:
  assumes "cn_min_backoff c \<le> cn_max_backoff c" "cn_deadline c + cn_max_backoff c \<le> duration_max" "now \<le> cn_deadline c"
  obtains (ends) out where "connect_loop (Suc fuel) ou parse c creds r n now attempts le = Some out" "ends_well c r out"
  | (again) now' le' where "now + cn_min_backoff c div 2 \<le> now'" "now' < cn_deadline c"
      "connect_loop (Suc fuel) ou parse c creds r n now attempts le =
       connect_loop fuel ou parse c creds r (Suc n) now' (attempts + 1) le'"
proof -
  consider (late) "now = cn_deadline c" | (invalid) e where "now < cn_deadline c" "options parse c creds = Inl e"
    | (dial) opts where "now < cn_deadline c" "options parse c creds = Inr opts"
    using assms(3) by (cases "options parse c creds") (auto simp: le_less)
  then show ?thesis
  proof cases
    case late
    then show ?thesis by (intro ends, simp) (simp add: ends_well_def)
  next
    case invalid
    then show ?thesis by (intro ends, simp) (simp add: ends_well_def)
  next
    case dial
    let ?delay = "backoff (ou_entropy ou n) (cn_min_backoff c) (cn_max_backoff c) (attempts + 1)"
    obtain took res where att: "attempt ou n opts (min (cn_deadline c - now) (cn_attempt_timeout c)) = (took, res)"
      by (cases "attempt ou n opts (min (cn_deadline c - now) (cn_attempt_timeout c))")
    have took: "now + took \<le> cn_deadline c"
      using attempt_took [of ou n opts "min (cn_deadline c - now) (cn_attempt_timeout c)"] dial(1) by (auto simp: att)
    have delay: "cn_min_backoff c div 2 \<le> ?delay" "cn_deadline c + ?delay \<le> duration_max"
      using backoff_bounds_nats [of "cn_min_backoff c" "cn_max_backoff c" "ou_entropy ou n" "attempts + 1"] assms(1,2) by simp_all
    show ?thesis
    proof (rule connect_loop_attempt [OF dial took att refl delay(2), of fuel r le])
      fix le'
      assume "now + took + ?delay < cn_deadline c"
        "connect_loop (Suc fuel) ou parse c creds r n now attempts le =
         connect_loop fuel ou parse c creds r (Suc n) (now + took + ?delay) (attempts + 1) le'"
      with delay(1) show thesis by (intro again [of "now + took + ?delay" le']) simp_all
    qed (rule ends)
  qed
qed

lemma connect_loop_ends:
  assumes "cn_min_backoff c \<le> cn_max_backoff c" "cn_deadline c + cn_max_backoff c \<le> duration_max" "2 \<le> cn_min_backoff c"
  shows "now \<le> cn_deadline c \<Longrightarrow> (cn_deadline c - now) div (cn_min_backoff c div 2) < fuel \<Longrightarrow>
    \<exists>out. connect_loop fuel ou parse c creds r n now attempts le = Some out \<and> ends_well c r out"
proof (induction fuel arbitrary: n now attempts le)
  case (Suc fuel)
  let ?half = "cn_min_backoff c div 2"
  have half: "0 < ?half" using assms(3) by simp
  show ?case
  proof (rule connect_loop_turn [OF assms(1,2) Suc.prems(1), of fuel ou parse creds r n attempts le])
    fix now' le'
    assume next_turn: "now + ?half \<le> now'" "now' < cn_deadline c"
      "connect_loop (Suc fuel) ou parse c creds r n now attempts le =
       connect_loop fuel ou parse c creds r (Suc n) now' (attempts + 1) le'"
    then have "(cn_deadline c - now') div ?half \<le> (cn_deadline c - now - ?half) div ?half"
      by (intro div_le_mono) linarith
    also have "\<dots> < (cn_deadline c - now) div ?half"
      using next_turn half by (simp add: le_div_geq)
    finally have "(cn_deadline c - now') div ?half < fuel" using Suc.prems(2) by linarith
    with Suc.IH next_turn(2,3) show ?case by (metis less_imp_le)
  qed blast
qed simp

text \<open>
  C23. The connect deadline is hard: however long dials would take and whatever they answer, the call returns, after as
  many attempts as the deadline holds half steps of the least backoff at most, and no later than the deadline; the
  readiness gate is raised when it connected and not touched when it gave up.
\<close>

theorem connect_within_deadline:
  assumes "cn_min_backoff c \<le> cn_max_backoff c" "cn_deadline c + cn_max_backoff c \<le> duration_max" "2 \<le> cn_min_backoff c"
    and "cn_deadline c div (cn_min_backoff c div 2) < fuel"
  shows "\<exists>out. connect_with_retry fuel ou fs parse c r = Some out \<and> ce_elapsed out \<le> cn_deadline c \<and>
    (case ce_end out of
       Connected _ \<Rightarrow> ce_readiness out = set_gate (cn_gate c) True r
     | Failed _ \<Rightarrow> ce_readiness out = r
     | Overflowed \<Rightarrow> False)"
proof (cases "read_credentials fs c")
  case (Inl e)
  then show ?thesis by (simp add: connect_with_retry_def)
next
  case (Inr creds)
  then show ?thesis
    using connect_loop_ends [OF assms(1-3), of 0 fuel ou parse creds r 0 0 None] assms(4)
    by (simp add: connect_with_retry_def ends_well_def)
qed

definition dead_broker :: "unit outside" where
  "dead_broker = \<lparr>ou_dial = (\<lambda>n opts. (from_secs 3600, Inl ''refused'')), ou_entropy = (\<lambda>n. 7)\<rparr>"

theorem connect_within_deadline_witness:
  "\<exists>out. connect_with_retry 481 dead_broker (\<lambda>p. Inl ''missing'') (\<lambda>s. Inr ()) (connector_new ''nats://broker:4222'') readiness_new = Some out \<and>
    ce_elapsed out \<le> from_secs 60"
proof -
  let ?c = "connector_new ''nats://broker:4222''"
  have c: "cn_min_backoff ?c = 250000000" "cn_max_backoff ?c = 10000000000" "cn_deadline ?c = 60000000000"
    by (simp_all add: connector_new_def DEFAULT_MIN_BACKOFF_def DEFAULT_MAX_BACKOFF_def DEFAULT_CONNECT_DEADLINE_def
        from_millis_def from_secs_def)
  have "\<exists>out. connect_with_retry 481 dead_broker (\<lambda>p. Inl ''missing'') (\<lambda>s. Inr ()) ?c readiness_new = Some out \<and>
    ce_elapsed out \<le> cn_deadline ?c \<and>
    (case ce_end out of
       Connected _ \<Rightarrow> ce_readiness out = set_gate (cn_gate ?c) True readiness_new
     | Failed _ \<Rightarrow> ce_readiness out = readiness_new
     | Overflowed \<Rightarrow> False)"
    by (rule connect_within_deadline) (simp_all add: c duration_max_def)
  then show ?thesis by (auto simp: c from_secs_def)
qed

subsection \<open>The gate follows the connection\<close>

definition usable :: "nats_event \<Rightarrow> bool option" where
  "usable e = (case e of EvConnected \<Rightarrow> Some True | EvOther _ \<Rightarrow> None | _ \<Rightarrow> Some False)"

lemma on_event_fold:
  "fold (on_event (Some i)) es r = fold (set_ready i) (List.map_filter usable es) r"
proof (induction es arbitrary: r)
  case (Cons e es)
  then show ?case by (cases e) (simp_all add: map_filter_simps usable_def set_gate_def)
qed (simp add: map_filter_simps)

text \<open>
  The readiness gate follows the connection: whatever events the client raised in whatever order since the gate was
  registered, the server is ready exactly when the last one that says anything of the link says that it is up and
  everything else is ready.
\<close>

theorem gate_follows_connection:
  assumes "settled r" "Suc (length (gates r)) < 2 ^ 64" "gate name r = (i, r')"
  shows "is_ready (fold (on_event (Some i)) es r') \<longleftrightarrow>
    is_ready r \<and> (case rev (List.map_filter usable es) of [] \<Rightarrow> False | up # _ \<Rightarrow> up)"
proof -
  have r': "i = length (gates r)" "gates r' = gates r @ [\<lparr>g_name = name, g_ready = False\<rparr>]"
    using assms(3) by (auto simp: gate_def push_gate_def count_gate_def)
  have "settled r'" using settled_gate [OF assms(1,2), of name] assms(3) by simp
  moreover have "others_ready i r' \<longleftrightarrow> is_ready r"
    unfolding is_ready_settled [OF assms(1)]
    by (simp add: others_ready_def gate_is_ready_def r' nth_append all_set_conv_all_nth less_Suc_eq)
  moreover have "\<not> gate_is_ready i r'" by (simp add: gate_is_ready_def r')
  ultimately have "is_ready (fold (set_ready i) bs r') \<longleftrightarrow> bs \<noteq> [] \<and> last bs \<and> is_ready r" for bs
    using gate.probe_fold [of r' i bs] r' by auto
  from this [of "List.map_filter usable es"] show ?thesis
    unfolding on_event_fold by (cases "List.map_filter usable es" rule: rev_cases) auto
qed

theorem gate_follows_connection_witness:
  "\<not> is_ready (fold (on_event (Some 0)) [EvConnected, EvDisconnected, EvOther ''slow consumer''] (snd (gate ''nats'' readiness_new)))"
  using gate_follows_connection [of readiness_new "''nats''" 0 "snd (gate ''nats'' readiness_new)"
      "[EvConnected, EvDisconnected, EvOther ''slow consumer'']"]
  by (simp add: settled_def readiness_new_def gate_def map_filter_simps usable_def)

end
