(* ===== verification/Leadership.thy ===== *)
theory Leadership
  imports HttpTypes
begin

text \<open>
  Leader election as the executors of \<^verbatim>\<open>crates/flatbed/src/k8s.rs\<close> and \<^verbatim>\<open>nats.rs\<close> see it: a
  watch channel, the four waits on it, and the loop the leader-gated executors share. The loop
  is stated once as an abstract machine; each executor is shown to refine it.
\<close>

subsection \<open>The channel and the waits\<close>

record watch =
  wt_current :: bool
  wt_closed :: bool

text \<open>
  One poll of each waiting loop: \<open>borrow_and_update\<close> reads the current value and marks it seen,
  so \<open>changed\<close> fails just when the sender is gone and otherwise waits. \<open>None\<close> is still pending.
\<close>

definition wait_for_leadership :: "watch \<Rightarrow> bool option" where
  "wait_for_leadership w = (if wt_current w then Some True else if wt_closed w then Some False else None)"

definition wait_for_leadership_loss :: "watch \<Rightarrow> unit option" where
  "wait_for_leadership_loss w = (if \<not> wt_current w then Some () else if wt_closed w then Some () else None)"

definition wait_for_follower :: "watch \<Rightarrow> bool option" where
  "wait_for_follower w = (if \<not> wt_current w then Some True else if wt_closed w then Some False else None)"

definition wait_for_follower_loss :: "watch \<Rightarrow> unit option" where
  "wait_for_follower_loss w = (if wt_current w then Some () else if wt_closed w then Some () else None)"

text \<open>\<open>HasLeaderElection::ha_enabled\<close> unless the context overrides it.\<close>

definition default_ha_enabled :: bool where
  "default_ha_enabled = True"

subsection \<open>The leader-gated loop\<close>

text \<open>
  Waiting for the election to grant the leadership, on the way from the grant to the \<open>select!\<close>,
  inside the \<open>select!\<close>, or returned.
\<close>

datatype phase = Waiting | Preparing | Working | Ended "worker_error + unit"

text \<open>
  What an executor does, in order: the two log lines on leadership, what it prepares before it
  announces itself, and the work it does while gated in.
\<close>

datatype 'w gate_event = BecameLeader | LostLeadership | Prepared | Did 'w

record 'w gate =
  g_watch :: watch
  g_phase :: phase
  g_acquired :: bool
  g_log :: "'w gate_event list"

definition gate_start :: "watch \<Rightarrow> 'w gate" where
  "gate_start w = \<lparr>g_watch = w, g_phase = Waiting, g_acquired = False, g_log = []\<rparr>"

text \<open>Announcing the leadership, only when it was not acquired already.\<close>

definition announce :: "'w gate \<Rightarrow> 'w gate" where
  "announce s =
     (if g_acquired s then s else s\<lparr>g_acquired := True, g_log := g_log s @ [BecameLeader]\<rparr>)"

definition record_event :: "'w gate_event \<Rightarrow> 'w gate \<Rightarrow> 'w gate" where
  "record_event e s = s\<lparr>g_log := g_log s @ [e]\<rparr>"

text \<open>What the election does to the channel between two steps of the executor.\<close>

inductive election :: "watch \<Rightarrow> watch \<Rightarrow> bool" where
  elect: "\<not> wt_closed w \<Longrightarrow> election w (w\<lparr>wt_current := b\<rparr>)"
| drop_sender: "election w (w\<lparr>wt_closed := True\<rparr>)"

inductive gate_step :: "'w gate \<Rightarrow> 'w gate \<Rightarrow> bool" where
  gs_election: "election (g_watch s) w \<Longrightarrow> gate_step s (s\<lparr>g_watch := w\<rparr>)"
| gs_quit: "g_phase s = Waiting \<Longrightarrow> wait_for_leadership (g_watch s) = Some False \<Longrightarrow>
    gate_step s (s\<lparr>g_phase := Ended (Inr ())\<rparr>)"
| gs_granted: "g_phase s = Waiting \<Longrightarrow> wait_for_leadership (g_watch s) = Some True \<Longrightarrow>
    gate_step s (s\<lparr>g_phase := Preparing\<rparr>)"
| gs_fail: "g_phase s = Preparing \<Longrightarrow> gate_step s (s\<lparr>g_phase := Ended (Inl e)\<rparr>)"
| gs_enter: "g_phase s = Preparing \<Longrightarrow> prep = [] \<or> prep = [Prepared] \<Longrightarrow>
    gate_step s ((announce (s\<lparr>g_log := g_log s @ prep\<rparr>))\<lparr>g_phase := Working\<rparr>)"
| gs_work: "g_phase s = Working \<Longrightarrow> gate_step s (record_event (Did w) s)"
| gs_finish: "g_phase s = Working \<Longrightarrow> gate_step s (s\<lparr>g_phase := Waiting\<rparr>)"
| gs_lose: "g_phase s = Working \<Longrightarrow> wait_for_leadership_loss (g_watch s) = Some () \<Longrightarrow>
    gate_step s ((record_event LostLeadership s)\<lparr>g_phase := Waiting, g_acquired := False\<rparr>)"

text \<open>
  The logs a gated executor may leave: the announcements alternate, starting with
  \<open>BecameLeader\<close>, and work falls between one and the loss that follows.
\<close>

fun gated_log :: "bool \<Rightarrow> 'w gate_event list \<Rightarrow> bool" where
  "gated_log lead [] = True"
| "gated_log lead (BecameLeader # es) = (\<not> lead \<and> gated_log True es)"
| "gated_log lead (LostLeadership # es) = (lead \<and> gated_log False es)"
| "gated_log lead (Prepared # es) = gated_log lead es"
| "gated_log lead (Did w # es) = (lead \<and> gated_log lead es)"

fun leads_after :: "bool \<Rightarrow> 'w gate_event list \<Rightarrow> bool" where
  "leads_after lead [] = lead"
| "leads_after lead (BecameLeader # es) = leads_after True es"
| "leads_after lead (LostLeadership # es) = leads_after False es"
| "leads_after lead (Prepared # es) = leads_after lead es"
| "leads_after lead (Did w # es) = leads_after lead es"

lemma leads_after_append [simp]: "leads_after l (xs @ ys) = leads_after (leads_after l xs) ys"
  by (induction l xs rule: leads_after.induct) simp_all

lemma gated_log_append [simp]:
  "gated_log l (xs @ ys) \<longleftrightarrow> gated_log l xs \<and> gated_log (leads_after l xs) ys"
  by (induction l xs rule: gated_log.induct) auto

definition gate_inv :: "'w gate \<Rightarrow> bool" where
  "gate_inv s \<longleftrightarrow>
     gated_log False (g_log s) \<and> leads_after False (g_log s) = g_acquired s \<and>
     (g_phase s = Working \<longrightarrow> g_acquired s)"

lemma gate_step_inv: "gate_step s t \<Longrightarrow> gate_inv s \<Longrightarrow> gate_inv t"
  by (induction rule: gate_step.induct) (auto simp: gate_inv_def announce_def record_event_def)

lemma gate_start_inv [simp]: "gate_inv (gate_start w)"
  by (simp add: gate_inv_def gate_start_def)

text \<open>The work a step does, as the events it adds.\<close>

definition does_work :: "'w gate \<Rightarrow> 'w gate \<Rightarrow> bool" where
  "does_work s t \<longleftrightarrow> (\<exists>w. g_log t = g_log s @ [Did w])"

text \<open>
  Runs are lists of states. The work of a run falls into sessions, told from the election's side: the
  same run has passed a state in which the executor was waiting and the channel read true, and the
  executor has been preparing or working ever since.
\<close>

definition gate_run :: "('w gate \<Rightarrow> 'w gate \<Rightarrow> bool) \<Rightarrow> 'w gate \<Rightarrow> 'w gate list \<Rightarrow> bool" where
  "gate_run step s0 ss \<longleftrightarrow> ss \<noteq> [] \<and> hd ss = s0 \<and> successively step ss"

definition in_session :: "'w gate list \<Rightarrow> nat \<Rightarrow> bool" where
  "in_session ss k \<longleftrightarrow>
     (\<exists>i < k. g_phase (ss ! i) = Waiting \<and> wt_current (g_watch (ss ! i)) \<and>
        (\<forall>j. i < j \<and> j \<le> k \<longrightarrow> g_phase (ss ! j) \<in> {Preparing, Working}))"

definition works_in_sessions :: "'w gate list \<Rightarrow> bool" where
  "works_in_sessions ss \<longleftrightarrow>
     (\<forall>k. Suc k < length ss \<and> does_work (ss ! k) (ss ! Suc k) \<longrightarrow> in_session ss k)"

lemma successively_nth: "successively P xs \<Longrightarrow> Suc i < length xs \<Longrightarrow> P (xs ! i) (xs ! Suc i)"
proof (induction P xs arbitrary: i rule: successively.induct)
  case (3 P x y xs)
  then show ?case by (cases i) auto
qed simp_all

lemma gate_run_three: "step a b \<Longrightarrow> step b c \<Longrightarrow> step c d \<Longrightarrow> gate_run step a [a, b, c, d]"
  by (simp add: gate_run_def)

lemma gate_run_reaches: "gate_run step s0 ss \<Longrightarrow> step\<^sup>*\<^sup>* s0 (last ss)"
proof (induction ss rule: rev_induct)
  case (snoc t ss)
  show ?case
  proof (cases "ss = []")
    case False
    with snoc.prems have "gate_run step s0 ss" "step (last ss) t"
      by (auto simp: gate_run_def successively_append_iff)
    with snoc.IH show ?thesis by simp
  qed (use snoc.prems in \<open>simp add: gate_run_def\<close>)
qed (simp add: gate_run_def)

text \<open>
  What an executor's step relation owes: each of its steps is one of the gate's, and an executor at
  work can stop as soon as the channel reads false.
\<close>

locale leader_gated =
  fixes step :: "'w gate \<Rightarrow> 'w gate \<Rightarrow> bool"
  assumes refines: "step s t \<Longrightarrow> gate_step s t"
    and stops: "g_phase s = Working \<Longrightarrow> \<not> wt_current (g_watch s) \<Longrightarrow>
      \<exists>t. step s t \<and> g_phase t = Waiting \<and> g_log t = g_log s @ [LostLeadership]"
begin

lemma keeps_inv: "step\<^sup>*\<^sup>* s t \<Longrightarrow> gate_inv s \<Longrightarrow> gate_inv t"
  by (induction rule: rtranclp_induct) (auto intro: gate_step_inv refines)

lemma log_gated: "step\<^sup>*\<^sup>* (gate_start w) t \<Longrightarrow> gated_log False (g_log t)"
  by (drule keeps_inv [OF _ gate_start_inv]) (simp add: gate_inv_def)

lemma session_opens:
  assumes "gate_run step (gate_start w) ss" "k < length ss" "g_phase (ss ! k) \<in> {Preparing, Working}"
  shows "in_session ss k"
  using assms(2,3)
proof (induction k)
  case 0
  then show ?case using assms(1) by (auto simp: gate_run_def gate_start_def hd_conv_nth)
next
  case (Suc k)
  have go: "step (ss ! k) (ss ! Suc k)" using assms(1) Suc.prems(1) by (simp add: gate_run_def successively_nth)
  show ?case
  proof (cases "g_phase (ss ! k) \<in> {Preparing, Working}")
    case True
    with Suc.IH Suc.prems obtain i where "i < k" "g_phase (ss ! i) = Waiting" "wt_current (g_watch (ss ! i))"
      "\<forall>j. i < j \<and> j \<le> k \<longrightarrow> g_phase (ss ! j) \<in> {Preparing, Working}" unfolding in_session_def by auto
    with Suc.prems(2) show ?thesis unfolding in_session_def by (intro exI [of _ i]) (auto simp: le_Suc_eq)
  next
    case False
    with refines [OF go] Suc.prems(2) have "g_phase (ss ! k) = Waiting" "wt_current (g_watch (ss ! k))"
      by (cases; auto simp: wait_for_leadership_def announce_def record_event_def split: if_splits)+
    with Suc.prems(2) show ?thesis unfolding in_session_def by (intro exI [of _ k]) (auto simp: le_Suc_eq)
  qed
qed

lemma works: "gate_run step (gate_start w) ss \<Longrightarrow> works_in_sessions ss"
  unfolding works_in_sessions_def
proof (intro allI impI)
  fix k
  assume r: "gate_run step (gate_start w) ss" and k: "Suc k < length ss \<and> does_work (ss ! k) (ss ! Suc k)"
  then have "step (ss ! k) (ss ! Suc k)" by (simp add: gate_run_def successively_nth)
  from refines [OF this] k have "g_phase (ss ! k) = Working"
    by cases (auto simp: does_work_def announce_def record_event_def split: if_splits)
  with session_opens [OF r] k show "in_session ss k" by simp
qed

lemma log_of_run: "gate_run step (gate_start w) ss \<Longrightarrow> gated_log False (g_log (last ss))"
  by (rule log_gated [OF gate_run_reaches])

end

text \<open>
  An executor whose loop has no other way to fail. Once the sender is gone with the value
  \<open>True\<close> in the channel it can neither quit nor stay: \<open>wait_for_leadership\<close> lets it in and
  \<open>wait_for_leadership_loss\<close> throws it out, at once and for ever.
\<close>

definition spinning :: "'w gate \<Rightarrow> bool" where
  "spinning s \<longleftrightarrow> wt_closed (g_watch s) \<and> wt_current (g_watch s) \<and> (\<forall>r. g_phase s \<noteq> Ended r)"

inductive_cases electionE: "election w w'"

lemma election_closed: "election w w' \<Longrightarrow> wt_closed w \<Longrightarrow> w' = w"
  by (erule electionE) auto

locale infallible_gated = leader_gated +
  assumes no_failure: "step s t \<Longrightarrow> g_phase s \<noteq> g_phase t \<Longrightarrow> g_phase t \<noteq> Ended (Inl e)"
begin

lemma keeps_spinning: "step s t \<Longrightarrow> spinning s \<Longrightarrow> spinning t"
proof -
  assume "step s t" "spinning s"
  from refines [OF \<open>step s t\<close>] \<open>spinning s\<close> no_failure [OF \<open>step s t\<close>] show "spinning t"
    by cases (auto simp: spinning_def announce_def record_event_def wait_for_leadership_def
        dest: election_closed split: if_splits)
qed

lemma never_returns: "step\<^sup>*\<^sup>* s t \<Longrightarrow> spinning s \<Longrightarrow> g_phase t \<noteq> Ended r"
proof -
  assume "step\<^sup>*\<^sup>* s t" "spinning s"
  then have "spinning t" by (induction rule: rtranclp_induct) (auto intro: keeps_spinning)
  then show ?thesis by (simp add: spinning_def)
qed

end

end
