(* ===== verification/Kubernetes.thy ===== *)
theory Kubernetes
  imports Leadership
begin

text \<open>
  The reconcilers and the watcher of \<^verbatim>\<open>crates/flatbed/src/k8s.rs\<close>. A resource is its metadata
  and a payload; the apiserver's answer to a patch, the user's callbacks and the order in which
  kube-rs feeds objects and events are parameters or nondeterministic steps.
\<close>

subsection \<open>Errors\<close>

datatype reconcile_error = Kube string | NatsError string | Internal string

fun reconcile_error_str :: "reconcile_error \<Rightarrow> string" where
  "reconcile_error_str (Kube e) = ''Kubernetes error: '' @ e"
| "reconcile_error_str (NatsError e) = ''NATS error: '' @ e"
| "reconcile_error_str (Internal e) = ''internal error: '' @ e"

subsection \<open>Resources and finalizers\<close>

record 'o resource =
  ko_name :: "string option"
  ko_namespace :: "string option"
  ko_finalizers :: "string list option"
  ko_deletion_timestamp :: "nat option"
  ko_payload :: 'o

definition has_finalizer :: "'o resource \<Rightarrow> string \<Rightarrow> bool" where
  "has_finalizer obj f \<longleftrightarrow> (case ko_finalizers obj of Some fs \<Rightarrow> List.member fs f | None \<Rightarrow> False)"

datatype api_scope = Namespaced string | ClusterWide

definition dynamic_api_for :: "'o resource \<Rightarrow> api_scope" where
  "dynamic_api_for obj = (case ko_namespace obj of Some ns \<Rightarrow> Namespaced ns | None \<Rightarrow> ClusterWide)"

text \<open>A JSON merge patch of \<open>metadata.finalizers\<close>: the array replaces the one on the server.\<close>

record finalizer_patch =
  fp_scope :: api_scope
  fp_name :: string
  fp_finalizers :: "string list"

definition finalizers_of :: "'o resource \<Rightarrow> string list" where
  "finalizers_of obj = (case ko_finalizers obj of Some fs \<Rightarrow> fs | None \<Rightarrow> [])"

definition patch_finalizers :: "'o resource \<Rightarrow> string list \<Rightarrow> finalizer_patch" where
  "patch_finalizers obj fs =
     \<lparr>fp_scope = dynamic_api_for obj, fp_name = (case ko_name obj of Some n \<Rightarrow> n | None \<Rightarrow> []), fp_finalizers = fs\<rparr>"

definition add_finalizer_patch :: "'o resource \<Rightarrow> string \<Rightarrow> finalizer_patch" where
  "add_finalizer_patch obj f =
     (let fs = finalizers_of obj
      in patch_finalizers obj (if list_ex (\<lambda>x. x = f) fs then fs else fs @ [f]))"

definition remove_finalizer_patch :: "'o resource \<Rightarrow> string \<Rightarrow> finalizer_patch" where
  "remove_finalizer_patch obj f = patch_finalizers obj (filter (\<lambda>x. x \<noteq> f) (finalizers_of obj))"

text \<open>The apiserver's answer to a patch: \<open>Some\<close> is the client's error.\<close>

type_synonym kube_api = "finalizer_patch \<Rightarrow> string option"

definition send_patch :: "kube_api \<Rightarrow> finalizer_patch \<Rightarrow> reconcile_error + unit" where
  "send_patch api p = (case api p of Some e \<Rightarrow> Inl (Kube e) | None \<Rightarrow> Inr ())"

definition add_finalizer :: "kube_api \<Rightarrow> 'o resource \<Rightarrow> string \<Rightarrow> reconcile_error + unit" where
  "add_finalizer api obj f = send_patch api (add_finalizer_patch obj f)"

definition remove_finalizer :: "kube_api \<Rightarrow> 'o resource \<Rightarrow> string \<Rightarrow> reconcile_error + unit" where
  "remove_finalizer api obj f = send_patch api (remove_finalizer_patch obj f)"

subsection \<open>One reconciliation\<close>

text \<open>\<open>Action\<close>: come back after a delay, or on the next change.\<close>

datatype action = Requeue duration | AwaitChange

text \<open>A reconciler's constants and callbacks, \<open>'e\<close> its own error type.\<close>

record ('o, 'e) kube_reconciler =
  kr_name :: string
  kr_stream :: string
  kr_stream_subjects :: string
  kr_finalizer :: "string option"
  kr_reconcile :: "'o resource \<Rightarrow> 'e + action"
  kr_cleanup :: "'o resource \<Rightarrow> 'e + unit"
  kr_into :: "'e \<Rightarrow> reconcile_error"
  kr_drain :: "string + unit"

text \<open>The calls a reconciliation makes, in the order it makes them.\<close>

datatype call = CallReconcile | CallCleanup | CallPatch finalizer_patch

definition map_err :: "('e \<Rightarrow> 'f) \<Rightarrow> 'e + 'a \<Rightarrow> 'f + 'a" where
  "map_err f r = (case r of Inl e \<Rightarrow> Inl (f e) | Inr a \<Rightarrow> Inr a)"

definition reconcile_with_finalizer ::
  "('o, 'e) kube_reconciler \<Rightarrow> kube_api \<Rightarrow> 'o resource \<Rightarrow> call list \<times> (reconcile_error + action)" where
  "reconcile_with_finalizer R api obj =
     (case kr_finalizer R of
        None \<Rightarrow> ([CallReconcile], map_err (kr_into R) (kr_reconcile R obj))
      | Some f \<Rightarrow>
          if ko_deletion_timestamp obj \<noteq> None then
            (if has_finalizer obj f then
               (case kr_cleanup R obj of
                  Inl e \<Rightarrow> ([CallCleanup], Inl (kr_into R e))
                | Inr _ \<Rightarrow>
                    ([CallCleanup, CallPatch (remove_finalizer_patch obj f)],
                     (case remove_finalizer api obj f of Inl e \<Rightarrow> Inl e | Inr _ \<Rightarrow> Inr AwaitChange)))
             else ([], Inr AwaitChange))
          else if \<not> has_finalizer obj f then
            (case add_finalizer api obj f of
               Inl e \<Rightarrow> ([CallPatch (add_finalizer_patch obj f)], Inl e)
             | Inr _ \<Rightarrow>
                 ([CallPatch (add_finalizer_patch obj f), CallReconcile],
                  map_err (kr_into R) (kr_reconcile R obj)))
          else ([CallReconcile], map_err (kr_into R) (kr_reconcile R obj)))"

text \<open>The native reconciler's wrapper is written out separately in the source.\<close>

definition reconcile_with_finalizer_kube_native ::
  "('o, 'e) kube_reconciler \<Rightarrow> kube_api \<Rightarrow> 'o resource \<Rightarrow> call list \<times> (reconcile_error + action)" where
  "reconcile_with_finalizer_kube_native R api obj =
     (case kr_finalizer R of
        None \<Rightarrow> ([CallReconcile], map_err (kr_into R) (kr_reconcile R obj))
      | Some f \<Rightarrow>
          (let is_deleting = ko_deletion_timestamp obj \<noteq> None
           in if is_deleting then
                (if has_finalizer obj f then
                   (case kr_cleanup R obj of
                      Inl e \<Rightarrow> ([CallCleanup], Inl (kr_into R e))
                    | Inr _ \<Rightarrow>
                        ([CallCleanup, CallPatch (remove_finalizer_patch obj f)],
                         (case remove_finalizer api obj f of Inl e \<Rightarrow> Inl e | Inr _ \<Rightarrow> Inr AwaitChange)))
                 else ([], Inr AwaitChange))
              else
                (case (if \<not> has_finalizer obj f then ([CallPatch (add_finalizer_patch obj f)], add_finalizer api obj f)
                       else ([], Inr ())) of
                   (calls, Inl e) \<Rightarrow> (calls, Inl e)
                 | (calls, Inr _) \<Rightarrow> (calls @ [CallReconcile], map_err (kr_into R) (kr_reconcile R obj)))))"

text \<open>What kube-rs is told to do after an error.\<close>

definition error_policy :: action where
  "error_policy = Requeue (from_secs 60)"

definition run_drain :: "('o, 'e) kube_reconciler \<Rightarrow> worker_error + unit" where
  "run_drain R = (case kr_drain R of Inl e \<Rightarrow> Inl \<lparr>we_code = ''DRAIN_ERROR'', we_message = e\<rparr> | Inr u \<Rightarrow> Inr u)"

subsection \<open>The executors\<close>

text \<open>
  What the controller did for one object: the calls it got to make. A reconciliation that the
  loss of leadership cancels has made a prefix of its calls.
\<close>

record 'o reconciliation =
  rn_object :: "'o resource"
  rn_calls :: "call list"

text \<open>
  \<open>run_kube_reconciler\<close>: the stream is ensured on every entry, between the grant and the announcement.
  \<open>stream\<close> is JetStream's answer, \<open>None\<close> when the stream exists or was created.
\<close>

definition stream_init_error :: "('o, 'e) kube_reconciler \<Rightarrow> string \<Rightarrow> worker_error" where
  "stream_init_error R e =
     \<lparr>we_code = ''stream_init'', we_message = ''['' @ kr_name R @ ''] Failed to create stream: '' @ e\<rparr>"

inductive reconciler_step ::
  "('o, 'e) kube_reconciler \<Rightarrow> 'o reconciliation gate \<Rightarrow> 'o reconciliation gate \<Rightarrow> bool"
  for R :: "('o, 'e) kube_reconciler" where
  rs_election: "election (g_watch s) w \<Longrightarrow> reconciler_step R s (s\<lparr>g_watch := w\<rparr>)"
| rs_channel_closed: "g_phase s = Waiting \<Longrightarrow> wait_for_leadership (g_watch s) = Some False \<Longrightarrow>
    reconciler_step R s (s\<lparr>g_phase := Ended (Inr ())\<rparr>)"
| rs_granted: "g_phase s = Waiting \<Longrightarrow> wait_for_leadership (g_watch s) = Some True \<Longrightarrow>
    reconciler_step R s (s\<lparr>g_phase := Preparing\<rparr>)"
| rs_stream_failed: "g_phase s = Preparing \<Longrightarrow>
    reconciler_step R s (s\<lparr>g_phase := Ended (Inl (stream_init_error R e))\<rparr>)"
| rs_start: "g_phase s = Preparing \<Longrightarrow>
    reconciler_step R s ((announce (record_event Prepared s))\<lparr>g_phase := Working\<rparr>)"
| rs_reconcile: "g_phase s = Working \<Longrightarrow> prefix calls (fst (reconcile_with_finalizer R api obj)) \<Longrightarrow>
    reconciler_step R s (record_event (Did \<lparr>rn_object = obj, rn_calls = calls\<rparr>) s)"
| rs_controller_ended: "g_phase s = Working \<Longrightarrow> reconciler_step R s (s\<lparr>g_phase := Waiting\<rparr>)"
| rs_lost: "g_phase s = Working \<Longrightarrow> wait_for_leadership_loss (g_watch s) = Some () \<Longrightarrow>
    reconciler_step R s ((record_event LostLeadership s)\<lparr>g_phase := Waiting, g_acquired := False\<rparr>)"

text \<open>\<open>run_kube_native_reconciler\<close>: the same loop without a stream.\<close>

inductive native_step ::
  "('o, 'e) kube_reconciler \<Rightarrow> 'o reconciliation gate \<Rightarrow> 'o reconciliation gate \<Rightarrow> bool"
  for R :: "('o, 'e) kube_reconciler" where
  ns_election: "election (g_watch s) w \<Longrightarrow> native_step R s (s\<lparr>g_watch := w\<rparr>)"
| ns_channel_closed: "g_phase s = Waiting \<Longrightarrow> wait_for_leadership (g_watch s) = Some False \<Longrightarrow>
    native_step R s (s\<lparr>g_phase := Ended (Inr ())\<rparr>)"
| ns_granted: "g_phase s = Waiting \<Longrightarrow> wait_for_leadership (g_watch s) = Some True \<Longrightarrow>
    native_step R s (s\<lparr>g_phase := Preparing\<rparr>)"
| ns_start: "g_phase s = Preparing \<Longrightarrow> native_step R s ((announce s)\<lparr>g_phase := Working\<rparr>)"
| ns_reconcile: "g_phase s = Working \<Longrightarrow>
    prefix calls (fst (reconcile_with_finalizer_kube_native R api obj)) \<Longrightarrow>
    native_step R s (record_event (Did \<lparr>rn_object = obj, rn_calls = calls\<rparr>) s)"
| ns_controller_ended: "g_phase s = Working \<Longrightarrow> native_step R s (s\<lparr>g_phase := Waiting\<rparr>)"
| ns_lost: "g_phase s = Working \<Longrightarrow> wait_for_leadership_loss (g_watch s) = Some () \<Longrightarrow>
    native_step R s ((record_event LostLeadership s)\<lparr>g_phase := Waiting, g_acquired := False\<rparr>)"

subsection \<open>The watcher\<close>

text \<open>\<open>kube::runtime::watcher::Event\<close>, and the callbacks of \<open>KubeWatcher\<close>.\<close>

datatype 'o kube_event = Apply "'o resource" | Delete "'o resource" | Init | InitApply "'o resource" | InitDone

datatype 'o callback =
    OnApply "'o resource" | OnDelete "'o resource" | OnInit | OnInitApply "'o resource" | OnInitDone

text \<open>A stream error is logged and dropped: no callback runs.\<close>

fun dispatch_kube_event :: "string + 'o kube_event \<Rightarrow> 'o callback option" where
  "dispatch_kube_event (Inr (Apply obj)) = Some (OnApply obj)"
| "dispatch_kube_event (Inr (Delete obj)) = Some (OnDelete obj)"
| "dispatch_kube_event (Inr Init) = Some OnInit"
| "dispatch_kube_event (Inr (InitApply obj)) = Some (OnInitApply obj)"
| "dispatch_kube_event (Inr InitDone) = Some OnInitDone"
| "dispatch_kube_event (Inl e) = None"

text \<open>One cycle of \<open>drive_kube_watcher\<close> over the events its stream yields before it ends.\<close>

definition drive_kube_watcher :: "(string + 'o kube_event) list \<Rightarrow> 'o callback list" where
  "drive_kube_watcher es = List.map_filter dispatch_kube_event es"

text \<open>
  The gated loop of \<open>run_kube_watcher\<close>. What a cycle dispatched before it ended, or before it was
  cancelled, is one piece of work.
\<close>

inductive watcher_step :: "'o callback list gate \<Rightarrow> 'o callback list gate \<Rightarrow> bool" where
  ws_election: "election (g_watch s) w \<Longrightarrow> watcher_step s (s\<lparr>g_watch := w\<rparr>)"
| ws_channel_closed: "g_phase s = Waiting \<Longrightarrow> wait_for_leadership (g_watch s) = Some False \<Longrightarrow>
    watcher_step s (s\<lparr>g_phase := Ended (Inr ())\<rparr>)"
| ws_granted: "g_phase s = Waiting \<Longrightarrow> wait_for_leadership (g_watch s) = Some True \<Longrightarrow>
    watcher_step s (s\<lparr>g_phase := Preparing\<rparr>)"
| ws_start: "g_phase s = Preparing \<Longrightarrow> watcher_step s ((announce s)\<lparr>g_phase := Working\<rparr>)"
| ws_event: "g_phase s = Working \<Longrightarrow> watcher_step s (record_event (Did (drive_kube_watcher [e])) s)"
| ws_stream_ended: "g_phase s = Working \<Longrightarrow> watcher_step s (s\<lparr>g_phase := Waiting\<rparr>)"
| ws_lost: "g_phase s = Working \<Longrightarrow> wait_for_leadership_loss (g_watch s) = Some () \<Longrightarrow>
    watcher_step s ((record_event LostLeadership s)\<lparr>g_phase := Waiting, g_acquired := False\<rparr>)"

text \<open>With \<open>LEADER_GATED\<close> off the cycles follow each other for ever.\<close>

definition ungated_cycles :: "(string + 'o kube_event) list list \<Rightarrow> 'o callback list" where
  "ungated_cycles cycles = concat (map drive_kube_watcher cycles)"

subsection \<open>Every executor is a leader-gated loop\<close>

lemma announce_record: "announce (record_event Prepared s) = announce (s\<lparr>g_log := g_log s @ [Prepared]\<rparr>)"
  by (simp add: record_event_def)

interpretation reconciler: leader_gated "reconciler_step R"
proof
  show "gate_step s t" if "reconciler_step R s t" for s t
    using that
  proof cases
    case rs_start
    then show ?thesis using gs_enter [of s "[Prepared]"] by (simp add: announce_record)
  qed (auto intro: gate_step.intros)
  show "\<exists>t. reconciler_step R s t \<and> g_phase t = Waiting \<and> g_log t = g_log s @ [LostLeadership]"
    if "g_phase s = Working" "\<not> wt_current (g_watch s)" for s
    using rs_lost [of s R] that by (intro exI) (auto simp: wait_for_leadership_loss_def record_event_def)
qed

interpretation native: infallible_gated "native_step R"
proof
  show "gate_step s t" if "native_step R s t" for s t
    using that
  proof cases
    case ns_start
    then show ?thesis using gs_enter [of s "[]"] by simp
  qed (auto intro: gate_step.intros)
  show "\<exists>t. native_step R s t \<and> g_phase t = Waiting \<and> g_log t = g_log s @ [LostLeadership]"
    if "g_phase s = Working" "\<not> wt_current (g_watch s)" for s
    using ns_lost [of s R] that by (intro exI) (auto simp: wait_for_leadership_loss_def record_event_def)
  show "g_phase t \<noteq> Ended (Inl e)" if "native_step R s t" "g_phase s \<noteq> g_phase t" for s t e
    using that by cases (auto simp: announce_def record_event_def)
qed

interpretation watcher: infallible_gated watcher_step
proof
  show "gate_step s t" if "watcher_step s t" for s t :: "'a callback list gate"
    using that
  proof cases
    case ws_start
    then show ?thesis using gs_enter [of s "[]"] by simp
  qed (auto intro: gate_step.intros)
  show "\<exists>t. watcher_step s t \<and> g_phase t = Waiting \<and> g_log t = g_log s @ [LostLeadership]"
    if "g_phase s = Working" "\<not> wt_current (g_watch s)" for s :: "'a callback list gate"
    using ws_lost [of s] that by (intro exI) (auto simp: wait_for_leadership_loss_def record_event_def)
  show "g_phase t \<noteq> Ended (Inl e)" if "watcher_step s t" "g_phase s \<noteq> g_phase t"
    for s t :: "'a callback list gate" and e
    using that by cases (auto simp: announce_def record_event_def)
qed

text \<open>What leading means for a run, told from the log and from the channel the election writes.\<close>

definition leads_to_work :: "('w gate \<Rightarrow> 'w gate \<Rightarrow> bool) \<Rightarrow> 'w gate list \<Rightarrow> bool" where
  "leads_to_work step ss \<longleftrightarrow>
     works_in_sessions ss \<and> gated_log False (g_log (last ss)) \<and>
     (g_phase (last ss) = Working \<and> \<not> wt_current (g_watch (last ss)) \<longrightarrow>
        (\<exists>t. step (last ss) t \<and> g_phase t = Waiting \<and> g_log t = g_log (last ss) @ [LostLeadership]))"


text \<open>
  When the election's sender goes away while this pod leads, the native reconciler and the
  watcher never return: they enter and leave the controller for ever.
\<close>

lemma closed_while_leading_spins:
  assumes "(native_step R)\<^sup>*\<^sup>* s t" "spinning s"
  shows "g_phase t \<noteq> Ended r"
  using assms by (rule native.never_returns)

subsection \<open>Finalizer patches\<close>

lemma has_finalizer_iff: "has_finalizer obj f \<longleftrightarrow> f \<in> set (finalizers_of obj)"
  by (simp add: has_finalizer_def finalizers_of_def split: option.split)

lemma wrappers_agree: "reconcile_with_finalizer_kube_native R api obj = reconcile_with_finalizer R api obj"
  by (simp add: reconcile_with_finalizer_kube_native_def reconcile_with_finalizer_def Let_def
      split: option.split sum.split)

text \<open>The calls a reconciliation makes when nothing fails, the cancelled or failed ones being prefixes.\<close>

definition planned_calls :: "string option \<Rightarrow> 'o resource \<Rightarrow> call list" where
  "planned_calls fin obj =
     (case fin of
        None \<Rightarrow> [CallReconcile]
      | Some f \<Rightarrow>
          if ko_deletion_timestamp obj \<noteq> None then
            (if has_finalizer obj f then [CallCleanup, CallPatch (remove_finalizer_patch obj f)] else [])
          else if has_finalizer obj f then [CallReconcile]
          else [CallPatch (add_finalizer_patch obj f), CallReconcile])"

lemma calls_planned: "prefix (fst (reconcile_with_finalizer R api obj)) (planned_calls (kr_finalizer R) obj)"
  by (simp add: reconcile_with_finalizer_def planned_calls_def split: option.split sum.split)

lemma patch_keeps_others:
  "fp_finalizers (add_finalizer_patch obj f) = (if has_finalizer obj f then finalizers_of obj else finalizers_of obj @ [f])"
  "fp_finalizers (remove_finalizer_patch obj f) = filter (\<lambda>x. x \<noteq> f) (finalizers_of obj)"
  by (auto simp: add_finalizer_patch_def remove_finalizer_patch_def patch_finalizers_def Let_def
      has_finalizer_iff list_ex_iff)

text \<open>A pod that is elected, reconciles an object and loses the election.\<close>

definition quiet_reconciler :: "(unit, string) kube_reconciler" where
  "quiet_reconciler =
     \<lparr>kr_name = ''quiet'', kr_stream = ''Q'', kr_stream_subjects = ''q.>'', kr_finalizer = Some ''q/f'',
      kr_reconcile = (\<lambda>_. Inr (Requeue (from_secs 300))), kr_cleanup = (\<lambda>_. Inr ()), kr_into = Internal,
      kr_drain = Inr ()\<rparr>"

definition a_resource :: "unit resource" where
  "a_resource = \<lparr>ko_name = Some ''a'', ko_namespace = None, ko_finalizers = Some [''q/f''],
     ko_deletion_timestamp = None, ko_payload = ()\<rparr>"

lemma a_run:
  "\<exists>s1 s2 s3. gate_run (reconciler_step quiet_reconciler) (gate_start \<lparr>wt_current = True, wt_closed = False\<rparr>)
       [gate_start \<lparr>wt_current = True, wt_closed = False\<rparr>, s1, s2, s3] \<and> does_work s2 s3 \<and>
     g_log s3 = [Prepared, BecameLeader, Did \<lparr>rn_object = a_resource, rn_calls = [CallReconcile]\<rparr>]"
proof -
  let ?step = "reconciler_step quiet_reconciler"
  let ?s0 = "gate_start \<lparr>wt_current = True, wt_closed = False\<rparr> :: unit reconciliation gate"
  let ?s1 = "?s0\<lparr>g_phase := Preparing\<rparr>"
  let ?s2 = "(announce (record_event Prepared ?s1))\<lparr>g_phase := Working\<rparr>"
  let ?s3 = "record_event (Did \<lparr>rn_object = a_resource, rn_calls = [CallReconcile]\<rparr>) ?s2"
  note defs = gate_start_def announce_def record_event_def wait_for_leadership_def wait_for_leadership_loss_def
  have r1: "?step ?s0 ?s1" by (rule rs_granted) (simp_all add: defs)
  have r2: "?step ?s1 ?s2" by (rule rs_start) (simp_all add: defs)
  have "fst (reconcile_with_finalizer quiet_reconciler (\<lambda>_. None) a_resource) = [CallReconcile]"
    by (simp add: reconcile_with_finalizer_def quiet_reconciler_def a_resource_def has_finalizer_def)
  then have r3: "?step ?s2 ?s3" by (intro rs_reconcile [of _ _ _ "\<lambda>_. None"]) simp_all
  have "gate_run ?step ?s0 [?s0, ?s1, ?s2, ?s3]"
    by (rule gate_run_three [OF r1 r2 r3])
  moreover have "does_work ?s2 ?s3" by (simp add: does_work_def record_event_def)
  moreover have "g_log ?s3 = [Prepared, BecameLeader, Did \<lparr>rn_object = a_resource, rn_calls = [CallReconcile]\<rparr>]"
    by (simp add: defs)
  ultimately show ?thesis by blast
qed


end
