(* ===== verification/Finalizers.thy ===== *)
theory Finalizers
  imports Kubernetes
begin

text \<open>
  The life of one object under a reconciler with a finalizer: the apiserver, the reflector that
  feeds the controller, and the reconciliation in flight, interleaved call by call. The
  apiserver follows the documented rules: a deletion of an object with finalizers only marks
  it, finalizers may not be added once it is marked, and a marked object goes when its list is
  empty. The reflector delivers the object's versions in order and may fall behind. As the
  comment in \<open>add_finalizer\<close> assumes, nobody else writes the finalizer list.
\<close>

record 'o life =
  lf_server :: "'o resource"
  lf_gone :: bool
  lf_pending :: "'o resource list"
  lf_store :: "'o resource option"
  lf_inflight :: "('o resource \<times> call list) option"
  lf_made :: "call list"

definition deleting :: "'o resource \<Rightarrow> bool" where
  "deleting obj \<longleftrightarrow> ko_deletion_timestamp obj \<noteq> None"

text \<open>A new version of the object on the server.\<close>

definition publish_version :: "'o resource \<Rightarrow> 'o life \<Rightarrow> 'o life" where
  "publish_version obj s = s\<lparr>lf_server := obj, lf_pending := lf_pending s @ [obj]\<rparr>"

definition request_delete :: "nat \<Rightarrow> 'o life \<Rightarrow> 'o life" where
  "request_delete ts s =
     (if finalizers_of (lf_server s) = [] then s\<lparr>lf_gone := True\<rparr>
      else publish_version ((lf_server s)\<lparr>ko_deletion_timestamp := Some ts\<rparr>) s)"

definition patch_allowed :: "finalizer_patch \<Rightarrow> 'o life \<Rightarrow> bool" where
  "patch_allowed p s \<longleftrightarrow>
     \<not> lf_gone s \<and>
     (deleting (lf_server s) \<longrightarrow> list_all (\<lambda>x. List.member (finalizers_of (lf_server s)) x) (fp_finalizers p))"

definition merge_patch :: "finalizer_patch \<Rightarrow> 'o life \<Rightarrow> 'o life" where
  "merge_patch p s =
     (let obj = (lf_server s)\<lparr>ko_finalizers := Some (fp_finalizers p)\<rparr>
      in if deleting obj \<and> fp_finalizers p = [] then s\<lparr>lf_server := obj, lf_gone := True\<rparr>
         else publish_version obj s)"

text \<open>The call at the head of the plan succeeded; a failed one drops the plan.\<close>

definition made :: "call \<Rightarrow> 'o resource \<Rightarrow> call list \<Rightarrow> 'o life \<Rightarrow> 'o life" where
  "made c obj cs s = s\<lparr>lf_made := lf_made s @ [c], lf_inflight := Some (obj, cs)\<rparr>"

inductive life_step :: "string \<Rightarrow> 'o life \<Rightarrow> 'o life \<Rightarrow> bool" for f :: string where
  ls_update: "\<not> lf_gone s \<Longrightarrow> life_step f s (publish_version ((lf_server s)\<lparr>ko_payload := p\<rparr>) s)"
| ls_delete: "\<not> lf_gone s \<Longrightarrow> \<not> deleting (lf_server s) \<Longrightarrow> life_step f s (request_delete ts s)"
| ls_deliver: "lf_pending s = obj # os \<Longrightarrow> life_step f s (s\<lparr>lf_store := Some obj, lf_pending := os\<rparr>)"
| ls_relist: "\<not> lf_gone s \<Longrightarrow> life_step f s (s\<lparr>lf_store := Some (lf_server s), lf_pending := []\<rparr>)"
| ls_forget: "lf_gone s \<Longrightarrow> lf_pending s = [] \<Longrightarrow> life_step f s (s\<lparr>lf_store := None\<rparr>)"
| ls_start: "lf_inflight s = None \<Longrightarrow> lf_store s = Some obj \<Longrightarrow>
    life_step f s (s\<lparr>lf_inflight := Some (obj, planned_calls (Some f) obj)\<rparr>)"
| ls_cleanup: "lf_inflight s = Some (obj, CallCleanup # cs) \<Longrightarrow> life_step f s (made CallCleanup obj cs s)"
| ls_reconcile: "lf_inflight s = Some (obj, CallReconcile # cs) \<Longrightarrow> life_step f s (made CallReconcile obj cs s)"
| ls_patch: "lf_inflight s = Some (obj, CallPatch p # cs) \<Longrightarrow> patch_allowed p s \<Longrightarrow>
    life_step f s (made (CallPatch p) obj cs (merge_patch p s))"
| ls_stop: "lf_inflight s = Some (obj, cs) \<Longrightarrow> life_step f s (s\<lparr>lf_inflight := None\<rparr>)"

definition life_start :: "'o resource \<Rightarrow> 'o life" where
  "life_start obj =
     \<lparr>lf_server = obj, lf_gone = False, lf_pending = [obj], lf_store = None, lf_inflight = None, lf_made = []\<rparr>"

subsection \<open>The invariant\<close>

text \<open>The versions still in play, oldest first.\<close>

definition versions :: "'o life \<Rightarrow> 'o resource list" where
  "versions s =
     (case lf_inflight s of Some (obj, _) \<Rightarrow> [obj] | None \<Rightarrow> []) @
     (case lf_store s of Some obj \<Rightarrow> [obj] | None \<Rightarrow> []) @ lf_pending s @ [lf_server s]"

definition cleaned :: "'o life \<Rightarrow> bool" where
  "cleaned s \<longleftrightarrow> CallCleanup \<in> set (lf_made s)"

definition protected :: "string \<Rightarrow> 'o life \<Rightarrow> bool" where
  "protected f s \<longleftrightarrow> (has_finalizer (lf_server s) f \<and> \<not> lf_gone s) \<or> cleaned s"

text \<open>Marking is never undone, so a version that is marked has only marked ones after it.\<close>

definition marks_in_order :: "'o life \<Rightarrow> bool" where
  "marks_in_order s \<longleftrightarrow> sorted_wrt (\<lambda>a b. deleting a \<longrightarrow> deleting b) (versions s)"

definition plan_ok :: "string \<Rightarrow> 'o life \<Rightarrow> bool" where
  "plan_ok f s \<longleftrightarrow>
     (\<forall>obj cs. lf_inflight s = Some (obj, cs) \<longrightarrow>
        suffix cs (planned_calls (Some f) obj) \<and>
        (cs = [CallReconcile] \<longrightarrow> protected f s) \<and>
        (cs = [CallPatch (remove_finalizer_patch obj f)] \<longrightarrow> cleaned s))"

definition life_inv :: "string \<Rightarrow> 'o resource \<Rightarrow> 'o life \<Rightarrow> bool" where
  "life_inv f obj0 s \<longleftrightarrow>
     (has_finalizer obj0 f \<or> CallReconcile \<in> set (lf_made s) \<longrightarrow> protected f s) \<and>
     (\<forall>m \<in> set (versions s). has_finalizer m f \<longrightarrow> protected f s) \<and>
     marks_in_order s \<and> plan_ok f s \<and>
     (cleaned s \<longrightarrow> list_all deleting (versions s)) \<and>
     CallReconcile \<notin> set (dropWhile (\<lambda>c. c \<noteq> CallCleanup) (lf_made s))"

lemma planned_deleting:
  "deleting obj \<Longrightarrow> planned_calls (Some f) obj =
     (if has_finalizer obj f then [CallCleanup, CallPatch (remove_finalizer_patch obj f)] else [])"
  by (simp add: planned_calls_def deleting_def)

lemma planned_live:
  "\<not> deleting obj \<Longrightarrow> planned_calls (Some f) obj =
     (if has_finalizer obj f then [CallReconcile] else [CallPatch (add_finalizer_patch obj f), CallReconcile])"
  by (simp add: planned_calls_def deleting_def)

text \<open>What the next call of a plan says about the version it was made for.\<close>

lemma plan_head:
  assumes "suffix (c # cs) (planned_calls (Some f) obj)"
  shows "(c = CallCleanup \<and> deleting obj \<and> cs = [CallPatch (remove_finalizer_patch obj f)]) \<or>
    (c = CallReconcile \<and> \<not> deleting obj \<and> cs = []) \<or>
    (c = CallPatch (remove_finalizer_patch obj f) \<and> deleting obj \<and> cs = []) \<or>
    (c = CallPatch (add_finalizer_patch obj f) \<and> \<not> deleting obj \<and> \<not> has_finalizer obj f \<and> cs = [CallReconcile])"
proof (cases "deleting obj")
  case True
  then show ?thesis using assms by (auto simp: planned_deleting suffix_Cons split: if_splits)
next
  case False
  then show ?thesis using assms by (auto simp: planned_live suffix_Cons split: if_splits)
qed

lemma has_finalizer_update [simp]:
  "has_finalizer (obj\<lparr>ko_payload := p\<rparr>) f = has_finalizer obj f"
  "has_finalizer (obj\<lparr>ko_deletion_timestamp := d\<rparr>) f = has_finalizer obj f"
  "has_finalizer (obj\<lparr>ko_finalizers := Some fs\<rparr>) f \<longleftrightarrow> f \<in> set fs"
  by (auto simp: has_finalizer_iff finalizers_of_def)

lemma deleting_update [simp]:
  "deleting (obj\<lparr>ko_payload := p\<rparr>) = deleting obj"
  "deleting (obj\<lparr>ko_finalizers := fs\<rparr>) = deleting obj"
  "deleting (obj\<lparr>ko_deletion_timestamp := Some ts\<rparr>)"
  by (simp_all add: deleting_def)

text \<open>The part of the invariant that any new version must keep.\<close>

lemma publish_inv:
  assumes inv: "life_inv f obj0 s" and mark: "deleting (lf_server s) \<Longrightarrow> deleting obj"
    and fin: "has_finalizer obj f \<longleftrightarrow> has_finalizer (lf_server s) f"
  shows "life_inv f obj0 (publish_version obj s)"
proof -
  have prot: "protected f (publish_version obj s) = protected f s"
    by (simp add: protected_def publish_version_def fin cleaned_def)
  obtain xs where xs: "versions s = xs @ [lf_server s]" "versions (publish_version obj s) = xs @ [obj, obj]"
    by (simp add: versions_def publish_version_def)
  show ?thesis
    using inv unfolding life_inv_def prot marks_in_order_def xs plan_ok_def
    by (auto simp: sorted_wrt_append publish_version_def cleaned_def fin intro: mark)
qed

lemma all_deleting_in_order: "list_all deleting xs \<Longrightarrow> sorted_wrt (\<lambda>a b. deleting a \<longrightarrow> deleting b) xs"
  by (induction xs) (auto simp: list_all_iff)

lemma drop_until_snoc [simp]:
  "dropWhile P (xs @ [x]) = (if list_all P xs then (if P x then [] else [x]) else dropWhile P xs @ [x])"
  by (induction xs) auto

lemma made_fields [simp]:
  "lf_server (made c obj cs s) = lf_server s" "lf_gone (made c obj cs s) = lf_gone s"
  "lf_inflight (made c obj cs s) = Some (obj, cs)" "lf_made (made c obj cs s) = lf_made s @ [c]"
  "lf_store (made c obj cs s) = lf_store s" "lf_pending (made c obj cs s) = lf_pending s"
  by (simp_all add: made_def)

lemma inflight_in_versions: "lf_inflight s = Some (obj, cs) \<Longrightarrow> obj \<in> set (versions s)"
  by (simp add: versions_def)

lemma server_in_versions [simp]: "lf_server s \<in> set (versions s)"
  by (simp add: versions_def)

lemma inflight_first:
  assumes "life_inv f obj0 s" "lf_inflight s = Some (obj, cs)" "deleting obj"
  shows "list_all deleting (versions s)"
proof -
  obtain xs where "versions s = obj # xs" using assms(2) by (simp add: versions_def)
  then show ?thesis using assms by (auto simp: life_inv_def marks_in_order_def list_all_iff)
qed

lemma cleanup_inv:
  assumes inv: "life_inv f obj0 s" and infl: "lf_inflight s = Some (obj, CallCleanup # cs)"
  shows "life_inv f obj0 (made CallCleanup obj cs s)"
proof -
  have plan: "suffix (CallCleanup # cs) (planned_calls (Some f) obj)"
    using inv infl by (simp add: life_inv_def plan_ok_def)
  from plan_head [OF plan] have obj: "deleting obj" "cs = [CallPatch (remove_finalizer_patch obj f)]" by auto
  have all: "list_all deleting (versions s)" using inv infl obj(1) by (rule inflight_first)
  have vs: "versions (made CallCleanup obj cs s) = versions s" using infl by (simp add: versions_def)
  have c: "cleaned (made CallCleanup obj cs s)" by (simp add: cleaned_def)
  then have pr: "protected f (made CallCleanup obj cs s)" by (simp add: protected_def)
  have log: "CallReconcile \<notin> set (dropWhile (\<lambda>c. c \<noteq> CallCleanup) (lf_made s @ [CallCleanup]))"
    using inv by (auto simp: life_inv_def)
  have "suffix cs (planned_calls (Some f) obj)" using plan by (rule suffix_ConsD)
  then show ?thesis
    using all all_deleting_in_order [OF all] pr c log
    unfolding life_inv_def vs marks_in_order_def plan_ok_def made_fields by blast
qed

lemma reconcile_inv:
  assumes inv: "life_inv f obj0 s" and infl: "lf_inflight s = Some (obj, CallReconcile # cs)"
  shows "life_inv f obj0 (made CallReconcile obj cs s)"
proof -
  have plan: "suffix (CallReconcile # cs) (planned_calls (Some f) obj)"
    using inv infl by (simp add: life_inv_def plan_ok_def)
  from plan_head [OF plan] have obj: "\<not> deleting obj" "cs = []" by auto
  then have prot: "protected f s" using inv infl by (simp add: life_inv_def plan_ok_def)
  have "\<not> cleaned s"
    using inv inflight_in_versions [OF infl] obj(1) by (auto simp: life_inv_def list_all_iff)
  then have fresh: "list_all (\<lambda>c. c \<noteq> CallCleanup) (lf_made s)" by (auto simp: cleaned_def list_all_iff)
  have vs: "versions (made CallReconcile obj cs s) = versions s" using infl by (simp add: versions_def)
  have p': "protected f (made CallReconcile obj cs s)" using prot by (simp add: protected_def cleaned_def)
  have c': "cleaned (made CallReconcile obj cs s) = cleaned s" by (simp add: cleaned_def)
  have log: "CallReconcile \<notin> set (dropWhile (\<lambda>c. c \<noteq> CallCleanup) (lf_made s @ [CallReconcile]))"
    using fresh by simp
  have "suffix cs (planned_calls (Some f) obj)" using plan by (rule suffix_ConsD)
  moreover have "marks_in_order (made CallReconcile obj cs s)" "cleaned s \<longrightarrow> list_all deleting (versions s)"
    using inv unfolding life_inv_def marks_in_order_def vs by blast+
  ultimately show ?thesis
    using obj(2) p' log \<open>\<not> cleaned s\<close>
    unfolding life_inv_def vs plan_ok_def c' made_fields by blast
qed

lemma patch_inv:
  assumes inv: "life_inv f obj0 s" and infl: "lf_inflight s = Some (obj, CallPatch p # cs)"
    and allowed: "patch_allowed p s"
  shows "life_inv f obj0 (made (CallPatch p) obj cs (merge_patch p s))"
proof -
  let ?t = "made (CallPatch p) obj cs (merge_patch p s)"
  let ?new = "(lf_server s)\<lparr>ko_finalizers := Some (fp_finalizers p)\<rparr>"
  have plan: "suffix (CallPatch p # cs) (planned_calls (Some f) obj)"
    using inv infl by (simp add: life_inv_def plan_ok_def)
  have c: "cleaned ?t = cleaned s"
    by (simp add: cleaned_def merge_patch_def publish_version_def Let_def)
  have server: "lf_server ?t = ?new" by (simp add: merge_patch_def publish_version_def Let_def)
  obtain xs where xs: "versions s = xs @ [lf_server s]"
      "versions ?t = xs @ [?new] \<or> versions ?t = xs @ [?new, ?new]"
    using infl by (simp add: versions_def merge_patch_def publish_version_def Let_def)
  have order: "marks_in_order ?t"
    using inv xs by (auto simp: life_inv_def marks_in_order_def sorted_wrt_append)
  have all: "cleaned s \<Longrightarrow> list_all deleting (versions ?t)"
    using inv xs by (auto simp: life_inv_def)
  have log: "CallReconcile \<notin> set (dropWhile (\<lambda>c. c \<noteq> CallCleanup) (lf_made ?t))"
    "CallReconcile \<in> set (lf_made ?t) \<longleftrightarrow> CallReconcile \<in> set (lf_made s)"
    using inv by (auto simp: life_inv_def merge_patch_def publish_version_def Let_def)
  have prot: "protected f ?t" and rest: "suffix cs (planned_calls (Some f) obj)" "cs = [] \<or> cs = [CallReconcile]"
  proof -
    show "suffix cs (planned_calls (Some f) obj)" using plan by (rule suffix_ConsD)
    from plan_head [OF plan] show "cs = [] \<or> cs = [CallReconcile]" by auto
    from plan_head [OF plan] show "protected f ?t"
    proof (elim disjE conjE, goal_cases)
      case 3
      then have "cleaned s" using inv infl by (simp add: life_inv_def plan_ok_def)
      then show ?case by (simp add: protected_def c)
    next
      case 4
      then have fs: "fp_finalizers p = finalizers_of obj @ [f]" by (simp add: patch_keeps_others)
      then have "has_finalizer ?new f" by simp
      then have "has_finalizer (lf_server ?t) f" unfolding server .
      moreover have "\<not> lf_gone ?t"
        using allowed fs by (simp add: merge_patch_def publish_version_def Let_def patch_allowed_def)
      ultimately show ?case by (simp add: protected_def)
    qed simp_all
  qed
  show ?thesis
    unfolding life_inv_def plan_ok_def using prot rest order all log c by auto
qed

text \<open>The version in flight and the one in the store, as lists.\<close>

definition in_flight :: "'o life \<Rightarrow> 'o resource list" where
  "in_flight s = (case lf_inflight s of Some (obj, _) \<Rightarrow> [obj] | None \<Rightarrow> [])"

definition in_store :: "'o life \<Rightarrow> 'o resource list" where
  "in_store s = (case lf_store s of Some obj \<Rightarrow> [obj] | None \<Rightarrow> [])"

lemma versions_parts: "versions s = in_flight s @ in_store s @ lf_pending s @ [lf_server s]"
  by (simp add: versions_def in_flight_def in_store_def)

lemma in_flight_simps [simp]:
  "in_flight (s\<lparr>lf_store := x, lf_pending := os\<rparr>) = in_flight s"
  "in_flight (s\<lparr>lf_store := x\<rparr>) = in_flight s"
  "in_flight (s\<lparr>lf_inflight := None\<rparr>) = []"
  "in_flight (s\<lparr>lf_inflight := Some (obj, cs)\<rparr>) = [obj]"
  by (simp_all add: in_flight_def)

lemma in_store_simps [simp]:
  "in_store (s\<lparr>lf_store := Some obj, lf_pending := os\<rparr>) = [obj]"
  "in_store (s\<lparr>lf_store := None\<rparr>) = []"
  "in_store (s\<lparr>lf_inflight := x\<rparr>) = in_store s"
  by (simp_all add: in_store_def)

lemma marks_parts:
  "marks_in_order s \<longleftrightarrow>
     sorted_wrt (\<lambda>a b. deleting a \<longrightarrow> deleting b) (in_flight s @ in_store s @ lf_pending s @ [lf_server s])"
  by (simp add: marks_in_order_def versions_parts)

text \<open>Steps that only forget versions, or pass one on, keep the invariant.\<close>

lemma fewer_versions_inv:
  assumes inv: "life_inv f obj0 s"
    and same: "lf_server t = lf_server s" "lf_gone t = lf_gone s" "lf_made t = lf_made s"
    and set: "set (versions t) \<subseteq> set (versions s)" and order: "marks_in_order t"
    and plan: "\<And>obj cs. lf_inflight t = Some (obj, cs) \<Longrightarrow>
        lf_inflight s = Some (obj, cs) \<or> cs = planned_calls (Some f) obj \<and> obj \<in> set (versions s)"
  shows "life_inv f obj0 t"
proof -
  have c: "cleaned t = cleaned s" and prot: "protected f t = protected f s"
    by (simp_all add: cleaned_def protected_def same)
  have "plan_ok f t"
    unfolding plan_ok_def
  proof (intro allI impI)
    fix obj cs assume t: "lf_inflight t = Some (obj, cs)"
    from plan [OF t] show "suffix cs (planned_calls (Some f) obj) \<and> (cs = [CallReconcile] \<longrightarrow> protected f t) \<and>
        (cs = [CallPatch (remove_finalizer_patch obj f)] \<longrightarrow> cleaned t)"
    proof
      assume "lf_inflight s = Some (obj, cs)"
      then show ?thesis using inv by (simp add: life_inv_def plan_ok_def prot c)
    next
      assume new: "cs = planned_calls (Some f) obj \<and> obj \<in> set (versions s)"
      then have "has_finalizer obj f \<longrightarrow> protected f t" using inv by (auto simp: life_inv_def prot)
      with new show ?thesis
        by (cases "deleting obj") (auto simp: planned_deleting planned_live split: if_splits)
    qed
  qed
  then show ?thesis
    using inv set order unfolding life_inv_def c prot same(3)
    by (auto simp: list_all_iff)
qed

lemma sorted_wrt_middle: "sorted_wrt P (xs @ ys @ zs) \<Longrightarrow> sorted_wrt P (xs @ zs)"
  by (auto simp: sorted_wrt_append)

lemma sorted_wrt_twice: "sorted_wrt (\<lambda>a b. Q a \<longrightarrow> Q b) (xs @ [x]) \<Longrightarrow> sorted_wrt (\<lambda>a b. Q a \<longrightarrow> Q b) (xs @ [x] @ [x])"
  by (simp add: sorted_wrt_append)

lemma order_of: "life_inv f obj0 s \<Longrightarrow> sorted_wrt (\<lambda>a b. deleting a \<longrightarrow> deleting b) (versions s)"
  by (simp add: life_inv_def marks_in_order_def)

lemma deliver_inv:
  assumes inv: "life_inv f obj0 s" and pending: "lf_pending s = obj # os"
  shows "life_inv f obj0 (s\<lparr>lf_store := Some obj, lf_pending := os\<rparr>)" (is "life_inv f obj0 ?t")
proof -
  have vs: "versions s = in_flight s @ in_store s @ (obj # os) @ [lf_server s]"
    by (simp add: versions_parts pending)
  have vt: "versions ?t = in_flight s @ (obj # os) @ [lf_server s]"
    by (simp add: versions_parts)
  have "marks_in_order ?t" unfolding marks_in_order_def vt
    by (rule sorted_wrt_middle) (rule order_of [OF inv, unfolded vs])
  moreover have "set (versions ?t) \<subseteq> set (versions s)" unfolding vs vt by auto
  ultimately show ?thesis by (intro fewer_versions_inv [OF inv]) simp_all
qed

lemma relist_inv:
  assumes inv: "life_inv f obj0 s"
  shows "life_inv f obj0 (s\<lparr>lf_store := Some (lf_server s), lf_pending := []\<rparr>)" (is "life_inv f obj0 ?t")
proof -
  have vt: "versions ?t = in_flight s @ [lf_server s] @ [lf_server s]"
    by (simp add: versions_parts)
  have "sorted_wrt (\<lambda>a b. deleting a \<longrightarrow> deleting b) (in_flight s @ [lf_server s])"
    using order_of [OF inv] sorted_wrt_middle [of _ "in_flight s" "in_store s @ lf_pending s"]
    by (simp add: versions_parts)
  then have "marks_in_order ?t" unfolding marks_in_order_def vt by (rule sorted_wrt_twice)
  moreover have "set (versions ?t) \<subseteq> set (versions s)" unfolding vt unfolding versions_parts by auto
  ultimately show ?thesis by (intro fewer_versions_inv [OF inv]) simp_all
qed

lemma forget_inv:
  assumes inv: "life_inv f obj0 s"
  shows "life_inv f obj0 (s\<lparr>lf_store := None\<rparr>)" (is "life_inv f obj0 ?t")
proof -
  have vt: "versions ?t = in_flight s @ lf_pending s @ [lf_server s]"
    by (simp add: versions_parts)
  have "marks_in_order ?t" unfolding marks_in_order_def vt
    by (rule sorted_wrt_middle) (use order_of [OF inv] in \<open>simp only: versions_parts\<close>)
  moreover have "set (versions ?t) \<subseteq> set (versions s)" unfolding vt unfolding versions_parts by auto
  ultimately show ?thesis by (intro fewer_versions_inv [OF inv]) simp_all
qed

lemma start_inv:
  assumes inv: "life_inv f obj0 s" and idle: "lf_inflight s = None" and store: "lf_store s = Some obj"
  shows "life_inv f obj0 (s\<lparr>lf_inflight := Some (obj, planned_calls (Some f) obj)\<rparr>)" (is "life_inv f obj0 ?t")
proof -
  have vs: "versions s = [obj] @ lf_pending s @ [lf_server s]"
    by (simp add: versions_parts in_flight_def in_store_def idle store)
  have vt: "versions ?t = [obj] @ [obj] @ lf_pending s @ [lf_server s]"
    by (simp add: versions_parts in_store_def store)
  have "marks_in_order ?t" unfolding marks_in_order_def vt
    using order_of [OF inv] unfolding vs by simp
  moreover have "set (versions ?t) \<subseteq> set (versions s)" unfolding vs vt by auto
  ultimately show ?thesis by (intro fewer_versions_inv [OF inv]) (auto simp: vs)
qed

lemma stop_inv:
  assumes inv: "life_inv f obj0 s"
  shows "life_inv f obj0 (s\<lparr>lf_inflight := None\<rparr>)" (is "life_inv f obj0 ?t")
proof -
  have vt: "versions ?t = in_store s @ lf_pending s @ [lf_server s]"
    by (simp add: versions_parts)
  have "marks_in_order ?t" unfolding marks_in_order_def vt
    using sorted_wrt_middle [of _ "[]" "in_flight s"] order_of [OF inv] by (simp add: versions_parts)
  moreover have "set (versions ?t) \<subseteq> set (versions s)" unfolding vt unfolding versions_parts by auto
  ultimately show ?thesis by (intro fewer_versions_inv [OF inv]) simp_all
qed

lemma delete_inv:
  assumes inv: "life_inv f obj0 s"
  shows "life_inv f obj0 (request_delete ts s)"
proof (cases "finalizers_of (lf_server s) = []")
  case True
  let ?t = "s\<lparr>lf_gone := True\<rparr>"
  have "\<not> has_finalizer (lf_server s) f" using True by (simp add: has_finalizer_iff)
  then have "protected f ?t = protected f s" "cleaned ?t = cleaned s" "versions ?t = versions s"
    by (simp_all add: protected_def cleaned_def versions_def)
  then have "life_inv f obj0 ?t" using inv by (simp add: life_inv_def marks_in_order_def plan_ok_def)
  then show ?thesis using True by (simp add: request_delete_def)
next
  case False
  then show ?thesis using inv by (simp add: request_delete_def publish_inv)
qed

lemmas step_invs = deliver_inv relist_inv forget_inv start_inv stop_inv delete_inv cleanup_inv reconcile_inv patch_inv

lemma life_step_inv: "life_step f s t \<Longrightarrow> life_inv f obj0 s \<Longrightarrow> life_inv f obj0 t"
proof (induction rule: life_step.induct)
  case (ls_update s p)
  then show ?case by (simp add: publish_inv)
qed (rule step_invs; assumption)+

lemma life_start_inv: "life_inv f obj0 (life_start obj0)"
proof -
  have vs: "versions (life_start obj0) = [obj0, obj0]" by (simp add: versions_def life_start_def)
  have "has_finalizer obj0 f \<Longrightarrow> protected f (life_start obj0)" by (simp add: protected_def life_start_def)
  then show ?thesis
    by (simp add: life_inv_def vs marks_in_order_def plan_ok_def) (simp add: life_start_def cleaned_def)
qed

text \<open>
  C5. However the apiserver, a reflector that lags behind, and cancelled or failing
  reconciliations interleave: an object that was ever reconciled, or that carried the
  finalizer when this pod found it, is gone only after its cleanup succeeded, and it is never
  reconciled again after that.
\<close>

theorem gone_only_after_cleanup:
  assumes "(life_step f)\<^sup>*\<^sup>* (life_start obj) s"
  shows "((has_finalizer obj f \<or> CallReconcile \<in> set (lf_made s)) \<and> lf_gone s \<longrightarrow> CallCleanup \<in> set (lf_made s)) \<and>
    CallReconcile \<notin> set (dropWhile (\<lambda>c. c \<noteq> CallCleanup) (lf_made s))"
proof -
  have "life_inv f obj s"
    using assms by (induction rule: rtranclp_induct) (auto intro: life_start_inv life_step_inv)
  then show ?thesis by (auto simp: life_inv_def protected_def cleaned_def)
qed

text \<open>A deletion seen through: marked, delivered, cleaned up and released.\<close>

lemma a_deletion:
  "\<exists>s. (life_step ''q/f'')\<^sup>*\<^sup>* (life_start a_resource) s \<and> lf_gone s \<and>
     lf_made s = [CallCleanup, CallPatch (remove_finalizer_patch (a_resource\<lparr>ko_deletion_timestamp := Some 1\<rparr>) ''q/f'')]"
proof -
  let ?step = "life_step ''q/f'' :: unit life \<Rightarrow> _"
  let ?obj = "a_resource\<lparr>ko_deletion_timestamp := Some 1\<rparr>"
  let ?p = "remove_finalizer_patch ?obj ''q/f''"
  define s0 where "s0 = life_start a_resource"
  define s1 where "s1 = request_delete 1 s0"
  define s2 where "s2 = s1\<lparr>lf_store := Some (lf_server s1), lf_pending := []\<rparr>"
  define s3 where "s3 = s2\<lparr>lf_inflight := Some (?obj, planned_calls (Some ''q/f'') ?obj)\<rparr>"
  define s4 where "s4 = made CallCleanup ?obj [CallPatch ?p] s3"
  define s5 where "s5 = made (CallPatch ?p) ?obj [] (merge_patch ?p s4)"
  note states = s0_def s1_def s2_def s3_def s4_def
  note defs = life_start_def request_delete_def publish_version_def finalizers_of_def a_resource_def
    deleting_def merge_patch_def patch_allowed_def remove_finalizer_patch_def patch_finalizers_def Let_def
  have plan: "planned_calls (Some ''q/f'') ?obj = [CallCleanup, CallPatch ?p]"
    by (simp add: planned_calls_def has_finalizer_def a_resource_def)
  have "?step s0 s1" unfolding s1_def by (rule ls_delete) (simp_all add: s0_def defs)
  moreover have "?step s1 s2" unfolding s2_def by (rule ls_relist) (simp add: states defs)
  moreover have "?step s2 s3" unfolding s3_def by (rule ls_start) (simp_all add: states defs)
  moreover have "?step s3 s4" unfolding s4_def by (rule ls_cleanup) (simp add: s3_def plan [simplified])
  moreover have "?step s4 s5" unfolding s5_def by (rule ls_patch) (simp_all add: states defs)
  ultimately have "?step\<^sup>*\<^sup>* s0 s5"
    by (meson r_into_rtranclp rtranclp.rtrancl_into_rtrancl)
  moreover have "lf_gone s5" "lf_made s5 = [CallCleanup, CallPatch ?p]"
    unfolding s5_def by (simp_all add: states defs)
  ultimately show ?thesis unfolding s0_def by blast
qed

theorem gone_only_after_cleanup_witness:
  "\<exists>s. (life_step ''q/f'')\<^sup>*\<^sup>* (life_start a_resource) s \<and> lf_gone s \<and> CallCleanup \<in> set (lf_made s)"
proof -
  obtain s where s: "(life_step ''q/f'')\<^sup>*\<^sup>* (life_start a_resource) s" "lf_gone s"
    using a_deletion by blast
  have "has_finalizer a_resource ''q/f''" by (simp add: has_finalizer_def a_resource_def)
  then show ?thesis using s gone_only_after_cleanup [OF s(1)] by blast
qed

text \<open>
  Where the assumption fails, the merge patch overwrites: a finalizer that someone added after
  the version at hand was read is lost.
\<close>

lemma patch_overwrites:
  assumes "g \<noteq> f" "\<not> has_finalizer obj g"
  shows "\<not> has_finalizer (lf_server (merge_patch (add_finalizer_patch obj f) s)) g"
    and "\<not> has_finalizer (lf_server (merge_patch (remove_finalizer_patch obj f) s)) g"
  using assms by (auto simp: merge_patch_def publish_version_def Let_def patch_keeps_others has_finalizer_iff
      finalizers_of_def split: option.splits)

end
