(* ===== verification/StreamWorker.thy ===== *)
theory StreamWorker
  imports Leadership
begin

text \<open>
  The JetStream consumer of \<^verbatim>\<open>crates/flatbed/src/nats.rs\<close>: the wait for the stream, the loop
  over the messages with its acknowledgements, and the follower-only executor around it. The
  answers of JetStream and the results of the user's \<open>handle\<close> are parameters or
  nondeterministic steps.
\<close>

datatype nats_result = Ack | Skip string | Retry string

record 'm stream_worker =
  sw_name :: string
  sw_stream :: string
  sw_subject :: string
  sw_parse_message :: "bytes \<Rightarrow> string + 'm"

definition default_stream_replicas :: nat where
  "default_stream_replicas = 1"

subsection \<open>The consume loop\<close>

definition backoff_ms :: "nat list" where
  "backoff_ms = [100, 250, 500, 1000, 2000, 5000]"

definition stream_wait_delay :: "nat \<Rightarrow> duration" where
  "stream_wait_delay attempt = from_millis (backoff_ms ! min attempt (length backoff_ms - 1))"

text \<open>
  The lookups of the stream and their answers, one by one: the delays slept, and whether the
  stream was found; otherwise the loop is still at it.
\<close>

fun wait_for_stream :: "nat \<Rightarrow> bool list \<Rightarrow> duration list \<times> bool" where
  "wait_for_stream attempt [] = ([], False)"
| "wait_for_stream attempt (found # rest) =
     (if found then ([], True)
      else (case wait_for_stream (attempt + 1) rest of (ds, b) \<Rightarrow> (stream_wait_delay attempt # ds, b)))"

text \<open>Whether a result acknowledges the message.\<close>

fun acks :: "nats_result \<Rightarrow> bool" where
  "acks Ack = True"
| "acks (Skip reason) = True"
| "acks (Retry reason) = False"

text \<open>One message: what was handed to the handler and what it said, and whether an ack is sent.\<close>

definition process_message ::
  "'m stream_worker \<Rightarrow> ('m \<Rightarrow> nats_result) \<Rightarrow> bytes \<Rightarrow> ('m \<times> nats_result) option \<times> bool" where
  "process_message W handle payload =
     (case sw_parse_message W payload of
        Inl e \<Rightarrow> (None, True)
      | Inr m \<Rightarrow> (let r = handle m in (Some (m, r), acks r)))"

text \<open>The messages up to the end of the stream; a receive error is logged and passed over.\<close>

primrec consume_messages ::
  "'m stream_worker \<Rightarrow> ('m \<Rightarrow> nats_result) \<Rightarrow> (string + bytes) list \<Rightarrow> (('m \<times> nats_result) option \<times> bool) list" where
  "consume_messages W handle [] = []"
| "consume_messages W handle (msg # rest) =
     (case msg of
        Inl e \<Rightarrow> consume_messages W handle rest
      | Inr payload \<Rightarrow> process_message W handle payload # consume_messages W handle rest)"

record 'm consumed =
  co_delays :: "duration list"
  co_messages :: "(('m \<times> nats_result) option \<times> bool) list"
  co_result :: "(worker_error + unit) option"

definition init_error :: "'m stream_worker \<Rightarrow> string \<Rightarrow> string \<Rightarrow> string \<Rightarrow> worker_error" where
  "init_error W code what e =
     \<lparr>we_code = code, we_message = ''['' @ sw_name W @ ''] '' @ what @ '': '' @ e\<rparr>"

text \<open>
  \<open>consumer\<close> is the answer to \<open>create_consumer_on_stream\<close>, \<open>messages\<close> that of \<open>messages()\<close>
  with what its stream then yields; \<open>co_result\<close> is \<open>None\<close> while the stream does not exist.
\<close>

definition consume_loop ::
  "'m stream_worker \<Rightarrow> ('m \<Rightarrow> nats_result) \<Rightarrow> bool list \<Rightarrow> string + unit \<Rightarrow> string + (string + bytes) list \<Rightarrow> 'm consumed" where
  "consume_loop W handle lookups consumer messages =
     (case wait_for_stream 0 lookups of
        (ds, False) \<Rightarrow> \<lparr>co_delays = ds, co_messages = [], co_result = None\<rparr>
      | (ds, True) \<Rightarrow>
          (case consumer of
             Inl e \<Rightarrow> \<lparr>co_delays = ds, co_messages = [],
                 co_result = Some (Inl (init_error W ''consumer_init'' ''JetStream consumer failed'' e))\<rparr>
           | Inr _ \<Rightarrow>
               (case messages of
                  Inl e \<Rightarrow> \<lparr>co_delays = ds, co_messages = [],
                      co_result = Some (Inl (init_error W ''messages_init'' ''Failed to get messages'' e))\<rparr>
                | Inr ms \<Rightarrow> \<lparr>co_delays = ds, co_messages = consume_messages W handle ms, co_result = Some (Inr ())\<rparr>)))"

lemma stream_wait_delay_bounds:
  "from_millis 100 \<le> stream_wait_delay n \<and> stream_wait_delay n \<le> from_millis 5000"
proof -
  have "m \<in> {0, 1, 2, 3, 4, 5} \<Longrightarrow> 100 \<le> backoff_ms ! m \<and> backoff_ms ! m \<le> 5000" for m
    by (auto simp: backoff_ms_def)
  moreover have "min n (length backoff_ms - 1) \<in> {0, 1, 2, 3, 4, 5}"
    by (auto simp: backoff_ms_def min_def)
  ultimately show ?thesis unfolding stream_wait_delay_def from_millis_def by (simp only: mult_le_mono1)
qed

lemma wait_for_stream_found:
  "wait_for_stream a (replicate n False @ True # rest) = (map stream_wait_delay [a ..< a + n], True)"
proof (induction n arbitrary: a)
  case (Suc n)
  have "[a ..< a + Suc n] = a # [Suc a ..< Suc a + n]" by (simp add: upt_conv_Cons)
  with Suc [of "a + 1"] show ?case by simp
qed simp

text \<open>The wait ends at the first lookup that finds the stream, after the delays before it.\<close>

lemma consume_loop_waits:
  "co_delays (consume_loop W handle (replicate n False @ True # rest) consumer messages) =
     map stream_wait_delay [0 ..< n] \<and>
   co_result (consume_loop W handle (replicate n False @ True # rest) consumer messages) \<noteq> None"
  using wait_for_stream_found [of 0 n rest]
  by (simp add: consume_loop_def split: sum.split)

subsection \<open>The executor and the stream\<close>

text \<open>
  \<open>sr_published\<close> are the payloads of all messages, by number; \<open>sr_stream\<close> the numbers JetStream
  still holds and will deliver, again after a delivery that was not acknowledged.
\<close>

datatype run_phase = AwaitFollower | Consuming | Finished "worker_error + unit"

datatype run_event = Subscribed | BecameLeaderStop | HandledBy nat nats_result | Undecodable nat

record stream_run =
  sr_watch :: watch
  sr_phase :: run_phase
  sr_published :: "bytes list"
  sr_stream :: "nat list"
  sr_hand :: "(nat \<times> bool) option"
  sr_log :: "run_event list"

definition run_start :: "bool \<Rightarrow> watch \<Rightarrow> stream_run" where
  "run_start ha w =
     \<lparr>sr_watch = w, sr_phase = (if ha then AwaitFollower else Consuming), sr_published = [], sr_stream = [],
      sr_hand = None, sr_log = (if ha then [] else [Subscribed])\<rparr>"

definition log_run :: "run_event \<Rightarrow> stream_run \<Rightarrow> stream_run" where
  "log_run e s = s\<lparr>sr_log := sr_log s @ [e]\<rparr>"

text \<open>
  \<open>sr_hand\<close> is the message the loop has taken, with whether it has been decided to acknowledge
  it. A cancellation drops it at either point.
\<close>

inductive stream_step :: "'m stream_worker \<Rightarrow> bool \<Rightarrow> stream_run \<Rightarrow> stream_run \<Rightarrow> bool"
  for W :: "'m stream_worker" and ha :: bool where
  sr_election: "election (sr_watch s) w \<Longrightarrow> stream_step W ha s (s\<lparr>sr_watch := w\<rparr>)"
| sr_publish: "stream_step W ha s (s\<lparr>sr_published := sr_published s @ [payload], sr_stream := sr_stream s @ [length (sr_published s)]\<rparr>)"
| sr_channel_closed: "sr_phase s = AwaitFollower \<Longrightarrow> wait_for_follower (sr_watch s) = Some False \<Longrightarrow>
    stream_step W ha s (s\<lparr>sr_phase := Finished (Inr ())\<rparr>)"
| sr_follow: "sr_phase s = AwaitFollower \<Longrightarrow> wait_for_follower (sr_watch s) = Some True \<Longrightarrow>
    stream_step W ha s ((log_run Subscribed s)\<lparr>sr_phase := Consuming\<rparr>)"
| sr_deliver: "sr_phase s = Consuming \<Longrightarrow> sr_hand s = None \<Longrightarrow> i \<in> set (sr_stream s) \<Longrightarrow>
    stream_step W ha s (s\<lparr>sr_hand := Some (i, False)\<rparr>)"
| sr_undecodable: "sr_phase s = Consuming \<Longrightarrow> sr_hand s = Some (i, False) \<Longrightarrow>
    sw_parse_message W (sr_published s ! i) = Inl e \<Longrightarrow>
    stream_step W ha s ((log_run (Undecodable i) s)\<lparr>sr_hand := Some (i, True)\<rparr>)"
| sr_handle: "sr_phase s = Consuming \<Longrightarrow> sr_hand s = Some (i, False) \<Longrightarrow>
    sw_parse_message W (sr_published s ! i) = Inr m \<Longrightarrow>
    stream_step W ha s ((log_run (HandledBy i r) s)\<lparr>sr_hand := (if acks r then Some (i, True) else None)\<rparr>)"
| sr_ack: "sr_phase s = Consuming \<Longrightarrow> sr_hand s = Some (i, True) \<Longrightarrow>
    stream_step W ha s (s\<lparr>sr_hand := None, sr_stream := removeAll i (sr_stream s)\<rparr>)"
| sr_ack_failed: "sr_phase s = Consuming \<Longrightarrow> sr_hand s = Some (i, True) \<Longrightarrow>
    stream_step W ha s (s\<lparr>sr_hand := None\<rparr>)"
| sr_loop_failed: "sr_phase s = Consuming \<Longrightarrow> sr_hand s = None \<Longrightarrow> e \<in> {init_error W ''consumer_init'' ''JetStream consumer failed'' x,
      init_error W ''messages_init'' ''Failed to get messages'' x} \<Longrightarrow>
    stream_step W ha s (s\<lparr>sr_phase := Finished (Inl e)\<rparr>)"
| sr_loop_ended: "sr_phase s = Consuming \<Longrightarrow> sr_hand s = None \<Longrightarrow>
    stream_step W ha s (s\<lparr>sr_phase := (if ha then AwaitFollower else Finished (Inr ()))\<rparr>)"
| sr_became_leader: "ha \<Longrightarrow> sr_phase s = Consuming \<Longrightarrow> wait_for_follower_loss (sr_watch s) = Some () \<Longrightarrow>
    stream_step W ha s ((log_run BecameLeaderStop s)\<lparr>sr_phase := AwaitFollower, sr_hand := None\<rparr>)"

text \<open>A message that has been dealt with: undecodable, or handled and answered with \<open>Ack\<close> or \<open>Skip\<close>.\<close>

definition dealt_with :: "'m stream_worker \<Rightarrow> stream_run \<Rightarrow> nat \<Rightarrow> bool" where
  "dealt_with W s i \<longleftrightarrow>
     (Undecodable i \<in> set (sr_log s) \<and> (\<exists>e. sw_parse_message W (sr_published s ! i) = Inl e)) \<or>
     HandledBy i Ack \<in> set (sr_log s) \<or> (\<exists>reason. HandledBy i (Skip reason) \<in> set (sr_log s))"

lemma acks_cases: "acks r \<Longrightarrow> r = Ack \<or> (\<exists>reason. r = Skip reason)"
  by (cases r) simp_all

definition stream_inv :: "'m stream_worker \<Rightarrow> stream_run \<Rightarrow> bool" where
  "stream_inv W s \<longleftrightarrow>
     (\<forall>i < length (sr_published s). i \<in> set (sr_stream s) \<or> dealt_with W s i) \<and>
     (\<forall>i \<in> set (sr_stream s). i < length (sr_published s)) \<and>
     (\<forall>i b. sr_hand s = Some (i, b) \<longrightarrow> i < length (sr_published s) \<and> (b \<longrightarrow> dealt_with W s i))"

lemma dealt_with_mono:
  assumes "dealt_with W s i" "set (sr_log s) \<subseteq> set (sr_log t)" "sr_published t ! i = sr_published s ! i"
  shows "dealt_with W t i"
  using assms by (auto simp: dealt_with_def)

lemma stream_step_inv: "stream_step W ha s t \<Longrightarrow> stream_inv W s \<Longrightarrow> stream_inv W t"
proof (induction rule: stream_step.induct)
  case (sr_publish s payload)
  have "dealt_with W (s\<lparr>sr_published := sr_published s @ [payload], sr_stream := sr_stream s @ [length (sr_published s)]\<rparr>) i"
    if "dealt_with W s i" "i < length (sr_published s)" for i
    using that by (auto simp: dealt_with_def nth_append)
  then show ?case using sr_publish by (auto simp: stream_inv_def less_Suc_eq)
next
  case (sr_handle s i m r)
  then show ?case by (auto simp: stream_inv_def dealt_with_def log_run_def dest: acks_cases split: if_splits)
qed (auto simp: stream_inv_def dealt_with_def log_run_def split: if_splits)

text \<open>
  C9. A message leaves the stream only when it could not be decoded, or a handler answered it with
  \<open>Ack\<close> or with \<open>Skip\<close>: whatever fails, is cancelled or is redelivered in between, a message whose
  handlers were cut short or asked for a retry is still there to be delivered.
\<close>

theorem no_message_lost:
  assumes "(stream_step W ha)\<^sup>*\<^sup>* (run_start ha w) s" "i < length (sr_published s)"
  shows "i \<in> set (sr_stream s) \<or>
    (\<exists>e. sw_parse_message W (sr_published s ! i) = Inl e) \<or>
    HandledBy i Ack \<in> set (sr_log s) \<or> (\<exists>reason. HandledBy i (Skip reason) \<in> set (sr_log s))"
proof -
  have "stream_inv W (run_start ha w)" by (simp add: stream_inv_def run_start_def)
  with assms(1) have "stream_inv W s"
    by (induction rule: rtranclp_induct) (auto intro: stream_step_inv)
  with assms(2) show ?thesis by (auto simp: stream_inv_def dealt_with_def)
qed

definition echo_worker :: "bytes stream_worker" where
  "echo_worker = \<lparr>sw_name = ''echo'', sw_stream = ''T'', sw_subject = ''t.a'', sw_parse_message = Inr\<rparr>"

lemma a_delivery:
  "\<exists>s. (stream_step echo_worker True)\<^sup>*\<^sup>* (run_start True \<lparr>wt_current = False, wt_closed = False\<rparr>) s \<and>
     sr_published s = [[7]] \<and> sr_stream s = [] \<and> sr_log s = [Subscribed, HandledBy 0 Ack]"
proof -
  let ?step = "stream_step echo_worker True"
  define s0 where "s0 = run_start True \<lparr>wt_current = False, wt_closed = False\<rparr>"
  define s1 where "s1 = s0\<lparr>sr_published := sr_published s0 @ [[7]], sr_stream := sr_stream s0 @ [length (sr_published s0)]\<rparr>"
  define s2 where "s2 = (log_run Subscribed s1)\<lparr>sr_phase := Consuming\<rparr>"
  define s3 where "s3 = s2\<lparr>sr_hand := Some (0, False)\<rparr>"
  define s4 where "s4 = (log_run (HandledBy 0 Ack) s3)\<lparr>sr_hand := (if acks Ack then Some (0, True) else None)\<rparr>"
  define s5 where "s5 = s4\<lparr>sr_hand := None, sr_stream := removeAll 0 (sr_stream s4)\<rparr>"
  note states = s0_def s1_def s2_def s3_def s4_def run_start_def log_run_def
  have "?step s0 s1" unfolding s1_def by (rule sr_publish)
  moreover have "?step s1 s2" unfolding s2_def
    by (rule sr_follow) (simp_all add: states wait_for_follower_def)
  moreover have "?step s2 s3" unfolding s3_def by (rule sr_deliver) (simp_all add: states)
  moreover have "?step s3 s4" unfolding s4_def by (rule sr_handle) (simp_all add: states echo_worker_def)
  moreover have "?step s4 s5" unfolding s5_def by (rule sr_ack) (simp_all add: states)
  ultimately have "?step\<^sup>*\<^sup>* s0 s5"
    by (meson r_into_rtranclp rtranclp.rtrancl_into_rtrancl)
  moreover have "sr_published s5 = [[7]] \<and> sr_stream s5 = [] \<and> sr_log s5 = [Subscribed, HandledBy 0 Ack]"
    unfolding s5_def by (simp add: states)
  ultimately show ?thesis unfolding s0_def by blast
qed

theorem no_message_lost_witness:
  "\<exists>s. (stream_step echo_worker True)\<^sup>*\<^sup>* (run_start True \<lparr>wt_current = False, wt_closed = False\<rparr>) s \<and>
     0 \<notin> set (sr_stream s) \<and> (HandledBy 0 Ack \<in> set (sr_log s) \<or> (\<exists>reason. HandledBy 0 (Skip reason) \<in> set (sr_log s)))"
proof -
  obtain s where s: "(stream_step echo_worker True)\<^sup>*\<^sup>* (run_start True \<lparr>wt_current = False, wt_closed = False\<rparr>) s"
      "sr_published s = [[7]]" "sr_stream s = []"
    using a_delivery by blast
  then show ?thesis using no_message_lost [OF s(1), of 0] by (auto simp: echo_worker_def)
qed

end
