(* ===== verification/KvWorker.thy ===== *)
theory KvWorker
  imports HttpTypes
begin

text \<open>
  The key-value bucket subscriber of \<^verbatim>\<open>crates/flatbed/src/kv.rs\<close>. The answers of JetStream
  and the entries its watches yield are the parameters; what the executor does is the list of
  callbacks it runs and the sleeps between them.
\<close>

subsection \<open>Entries and events\<close>

datatype kv_operation = Put | Delete | Purge

record kv_entry =
  ke_key :: string
  ke_operation :: kv_operation
  ke_value :: bytes

datatype kv_event = PutEvent string bytes | DeleteEvent string

fun map_operation :: "kv_operation \<Rightarrow> string \<Rightarrow> bytes \<Rightarrow> kv_event" where
  "map_operation Put key value = PutEvent key value"
| "map_operation Delete key value = DeleteEvent key"
| "map_operation Purge key value = DeleteEvent key"

record 'v kv_worker =
  kw_name :: string
  kw_bucket :: string
  kw_parse_value :: "bytes \<Rightarrow> string + 'v"

datatype 'v kv_callback = OnPut string 'v | OnDelete string

text \<open>A value that does not decode is logged and its entry skipped.\<close>

fun dispatch_event :: "'v kv_worker \<Rightarrow> kv_event \<Rightarrow> 'v kv_callback list" where
  "dispatch_event W (PutEvent key value) =
     (case kw_parse_value W value of Inr v \<Rightarrow> [OnPut key v] | Inl e \<Rightarrow> [])"
| "dispatch_event W (DeleteEvent key) = [OnDelete key]"

subsection \<open>The cycles\<close>

definition watch_failure_backoff :: duration where
  "watch_failure_backoff = from_secs 5"

datatype 'v kv_act = Ran "'v kv_callback" | Slept duration

text \<open>The entries of one watch, to its end or to the first stream error.\<close>

primrec watch_entries :: "'v kv_worker \<Rightarrow> (string + kv_entry) list \<Rightarrow> 'v kv_act list" where
  "watch_entries W [] = []"
| "watch_entries W (r # rest) =
     (case r of
        Inl e \<Rightarrow> [Slept watch_failure_backoff]
      | Inr entry \<Rightarrow>
          map Ran (dispatch_event W (map_operation (ke_operation entry) (ke_key entry) (ke_value entry))) @
          watch_entries W rest)"

text \<open>\<open>watch\<close> is the answer to \<open>watch_all\<close>.\<close>

definition watch_cycle :: "'v kv_worker \<Rightarrow> string + (string + kv_entry) list \<Rightarrow> 'v kv_act list" where
  "watch_cycle W watch =
     (case watch of Inl e \<Rightarrow> [Slept watch_failure_backoff] | Inr entries \<Rightarrow> watch_entries W entries)"

text \<open>
  The endless loop, over the bucket lookups it makes: a failed one, or one that opens a watch.
\<close>

primrec run_kv_worker :: "'v kv_worker \<Rightarrow> (string + (string + (string + kv_entry) list)) list \<Rightarrow> 'v kv_act list" where
  "run_kv_worker W [] = []"
| "run_kv_worker W (lookup # rest) =
     (case lookup of
        Inl e \<Rightarrow> Slept (from_secs 5) # run_kv_worker W rest
      | Inr watch \<Rightarrow> watch_cycle W watch @ Slept (from_secs 1) # run_kv_worker W rest)"

subsection \<open>The cache a worker keeps\<close>

text \<open>The bucket as a map, and the cache of the worker of the module's example.\<close>

definition apply_entry :: "kv_entry \<Rightarrow> (string \<rightharpoonup> bytes) \<Rightarrow> (string \<rightharpoonup> bytes)" where
  "apply_entry en b =
     (case ke_operation en of Put \<Rightarrow> b(ke_key en \<mapsto> ke_value en) | Delete \<Rightarrow> b(ke_key en := None) | Purge \<Rightarrow> b(ke_key en := None))"

fun apply_act :: "'v kv_act \<Rightarrow> (string \<rightharpoonup> 'v) \<Rightarrow> (string \<rightharpoonup> 'v)" where
  "apply_act (Ran (OnPut key v)) cache = cache(key \<mapsto> v)"
| "apply_act (Ran (OnDelete key)) cache = cache(key := None)"
| "apply_act (Slept d) cache = cache"

definition decoded :: "'v kv_worker \<Rightarrow> (string \<rightharpoonup> bytes) \<Rightarrow> (string \<rightharpoonup> 'v)" where
  "decoded W b = (\<lambda>key. case b key of Some bs \<Rightarrow> (case kw_parse_value W bs of Inr v \<Rightarrow> Some v | Inl e \<Rightarrow> None) | None \<Rightarrow> None)"

text \<open>The entries a watch delivers before it ends or fails.\<close>

fun delivered :: "(string + kv_entry) list \<Rightarrow> kv_entry list" where
  "delivered (Inr en # rest) = en # delivered rest"
| "delivered (Inl e # rest) = []"
| "delivered [] = []"

definition decodes :: "'v kv_worker \<Rightarrow> kv_entry \<Rightarrow> bool" where
  "decodes W en \<longleftrightarrow> ke_operation en = Put \<longrightarrow> (\<exists>v. kw_parse_value W (ke_value en) = Inr v)"

text \<open>The cache and the bucket agree on a key.\<close>

definition fresh :: "'v kv_worker \<Rightarrow> (string \<rightharpoonup> 'v) \<Rightarrow> (string \<rightharpoonup> bytes) \<Rightarrow> string \<Rightarrow> bool" where
  "fresh W cache b key \<longleftrightarrow> cache key = decoded W b key"

lemma entry_step:
  assumes "decodes W en"
  shows "fold apply_act (map Ran (dispatch_event W (map_operation (ke_operation en) (ke_key en) (ke_value en)))) cache key =
    (if key = ke_key en then decoded W (apply_entry en b) key else cache key)"
  using assms by (cases "ke_operation en") (auto simp: decodes_def decoded_def apply_entry_def)

lemma apply_entry_other: "key \<noteq> ke_key en \<Longrightarrow> decoded W (apply_entry en b) key = decoded W b key"
  by (simp add: decoded_def apply_entry_def split: kv_operation.split)

lemma entries_follow:
  assumes "\<forall>en \<in> set (delivered es). ke_key en = key \<longrightarrow> decodes W en"
    and "fresh W cache b key \<or> (\<exists>en \<in> set (delivered es). ke_key en = key)"
  shows "fresh W (fold apply_act (watch_entries W es) cache) (fold apply_entry (delivered es) b) key"
  using assms
proof (induction es arbitrary: cache b rule: delivered.induct)
  case (1 en rest)
  let ?acts = "map Ran (dispatch_event W (map_operation (ke_operation en) (ke_key en) (ke_value en)))"
  show ?case
  proof (cases "ke_key en = key")
    case True
    then have "fresh W (fold apply_act ?acts cache) (apply_entry en b) key"
      using entry_step [of W en cache key b] 1(2) by (simp add: fresh_def)
    then show ?thesis using 1 by simp
  next
    case False
    have "fold apply_act ?acts cache key = cache key"
      using False by (cases "ke_operation en") (auto split: sum.split)
    then have "fresh W (fold apply_act ?acts cache) (apply_entry en b) key = fresh W cache b key"
      using False by (simp add: fresh_def apply_entry_other)
    then show ?thesis using 1 False by auto
  qed
qed (simp_all add: fresh_def)

subsection \<open>Convergence over reopened watches\<close>

text \<open>
  A watch delivers only what is written while it is open. The timeline of a run pairs each
  bucket lookup with the entries written since the previous watch stopped.
\<close>

type_synonym timeline = "(kv_entry list \<times> (string + (string + (string + kv_entry) list))) list"

definition lookup_entries :: "string + (string + (string + kv_entry) list) \<Rightarrow> kv_entry list" where
  "lookup_entries lookup = (case lookup of Inr (Inr es) \<Rightarrow> delivered es | _ \<Rightarrow> [])"

primrec bucket_after :: "timeline \<Rightarrow> (string \<rightharpoonup> bytes) \<Rightarrow> (string \<rightharpoonup> bytes)" where
  "bucket_after [] b = b"
| "bucket_after (x # xs) b = bucket_after xs (fold apply_entry (lookup_entries (snd x)) (fold apply_entry (fst x) b))"

definition touches :: "string \<Rightarrow> kv_entry list \<Rightarrow> bool" where
  "touches key ens \<longleftrightarrow> list_ex (\<lambda>en. ke_key en = key) ens"

text \<open>Whether the last entry written for the key was delivered.\<close>

primrec caught_up :: "string \<Rightarrow> bool \<Rightarrow> timeline \<Rightarrow> bool" where
  "caught_up key c [] = c"
| "caught_up key c (x # xs) =
     caught_up key (touches key (lookup_entries (snd x)) \<or> c \<and> \<not> touches key (fst x)) xs"

lemma missed_elsewhere: "\<not> touches key ens \<Longrightarrow> fresh W cache (fold apply_entry ens b) key = fresh W cache b key"
proof (induction ens arbitrary: b)
  case (Cons en ens)
  then have "key \<noteq> ke_key en" "\<not> touches key ens" by (auto simp: touches_def)
  then show ?case using Cons.IH [of "apply_entry en b"] by (simp add: fresh_def apply_entry_other)
qed simp

lemma cycle_follows:
  assumes "\<forall>en \<in> set (lookup_entries lookup). ke_key en = key \<longrightarrow> decodes W en"
    and "fresh W cache b key \<or> touches key (lookup_entries lookup)"
  shows "fresh W (fold apply_act (run_kv_worker W [lookup]) cache) (fold apply_entry (lookup_entries lookup) b) key"
proof (cases lookup)
  case (Inr watch)
  then show ?thesis
    using assms entries_follow [of _ key W cache b]
    by (cases watch) (auto simp: lookup_entries_def watch_cycle_def touches_def list_ex_iff)
qed (use assms in \<open>simp add: lookup_entries_def touches_def\<close>)

lemma run_kv_worker_append: "run_kv_worker W (xs @ ys) = run_kv_worker W xs @ run_kv_worker W ys"
proof (induction xs)
  case (Cons x xs)
  then show ?case by (cases x) simp_all
qed simp

lemma caught_up_mono: "(c \<longrightarrow> c') \<Longrightarrow> caught_up key c xs \<Longrightarrow> caught_up key c' xs"
proof (induction xs arbitrary: c c')
  case (Cons x xs)
  then show ?case by (auto intro: Cons.IH [rotated])
qed simp

text \<open>
  C24. Whatever lookups, watches and entries fail, the cache of a worker agrees with the bucket
  on every key whose last entry was written while a watch was open, as long as the values
  delivered for it decode.
\<close>

theorem cache_converges:
  assumes "\<forall>x \<in> set xs. \<forall>en \<in> set (lookup_entries (snd x)). ke_key en = key \<longrightarrow> decodes W en"
    and "caught_up key (fresh W cache b key) xs"
  shows "fresh W (fold apply_act (run_kv_worker W (map snd xs)) cache) (bucket_after xs b) key"
  using assms
proof (induction xs arbitrary: cache b)
  case (Cons x xs)
  let ?b1 = "fold apply_entry (fst x) b"
  let ?b2 = "fold apply_entry (lookup_entries (snd x)) ?b1"
  let ?c1 = "fold apply_act (run_kv_worker W [snd x]) cache"
  have "touches key (lookup_entries (snd x)) \<or> fresh W cache b key \<and> \<not> touches key (fst x) \<Longrightarrow> fresh W ?c1 ?b2 key"
    using Cons.prems(1) missed_elsewhere [of key "fst x" W cache b]
    by (intro cycle_follows) auto
  then have "caught_up key (fresh W ?c1 ?b2 key) xs"
    using Cons.prems(2) by (auto intro: caught_up_mono [rotated])
  then have "fresh W (fold apply_act (run_kv_worker W (map snd xs)) ?c1) (bucket_after xs ?b2) key"
    using Cons.prems(1) by (intro Cons.IH) auto
  then show ?case
    using run_kv_worker_append [of W "[snd x]" "map snd xs"] by simp
qed simp

definition raw_worker :: "bytes kv_worker" where
  "raw_worker = \<lparr>kw_name = ''raw'', kw_bucket = ''B'', kw_parse_value = Inr\<rparr>"

definition entry_of :: "string \<Rightarrow> kv_operation \<Rightarrow> bytes \<Rightarrow> kv_entry" where
  "entry_of k oper v = \<lparr>ke_key = k, ke_operation = oper, ke_value = v\<rparr>"

text \<open>A key rewritten after a gap in the watch is seen again.\<close>

theorem cache_converges_witness:
  "let xs = [([], Inr (Inr [Inr (entry_of ''k'' Put [1]), Inl ''lost''])),
             ([entry_of ''k'' Delete []], Inr (Inr [Inr (entry_of ''k'' Put [2])]))]
   in fresh raw_worker (fold apply_act (run_kv_worker raw_worker (map snd xs)) Map.empty) (bucket_after xs Map.empty) ''k''"
  unfolding Let_def
  by (rule cache_converges)
    (auto simp: decodes_def raw_worker_def lookup_entries_def touches_def entry_of_def)

text \<open>
  A deletion that falls between two watches is never seen: the cache keeps the key although the
  bucket no longer has it.
\<close>

lemma deletion_in_gap_missed:
  "let xs = [([], Inr (Inr [Inr (entry_of ''k'' Put [1])])), ([entry_of ''k'' Delete []], Inr (Inr []))]
   in fold apply_act (run_kv_worker raw_worker (map snd xs)) Map.empty ''k'' = Some [1] \<and>
      bucket_after xs Map.empty ''k'' = None"
  by (simp add: Let_def raw_worker_def entry_of_def lookup_entries_def watch_cycle_def apply_entry_def)

end
