(* ===== verification/Boot.thy ===== *)
theory Boot
  imports Service Registry NatsSubjects
begin

text \<open>
  What a process is started with, \<^verbatim>\<open>crates/flatbed/src/lib.rs\<close> and \<^verbatim>\<open>context.rs\<close>: the configuration and its
  builder, the checks \<open>Flatbed::run\<close> makes before anything starts, the context wrapper, and the
  registration of workers with the downcast of their context. Optional features are on.
\<close>

subsection \<open>Configuration\<close>

text \<open>\<open>fc_telemetry\<close> is the metrics feed's answer, \<open>fc_error_reporter\<close> the reporter's identity.\<close>

record 'h flatbed_config =
  fc_title :: string
  fc_description :: "string option"
  fc_external_url :: "string option"
  fc_host :: string
  fc_port :: "16 word"
  fc_splash :: "string option"
  fc_before_request :: "('h request_parts \<Rightarrow> (unit, 'h) route_error option) option"
  fc_readiness :: readiness
  fc_error_reporter :: "nat option"
  fc_telemetry :: "(string + string) option"

definition config_default :: "'h flatbed_config" where
  "config_default =
     \<lparr>fc_title = ''API'', fc_description = None, fc_external_url = None, fc_host = ''0.0.0.0'', fc_port = 8080,
      fc_splash = None, fc_before_request = None, fc_readiness = readiness_new, fc_error_reporter = None,
      fc_telemetry = None\<rparr>"

definition config_new :: "string \<Rightarrow> 'h flatbed_config" where
  "config_new title = config_default\<lparr>fc_title := title\<rparr>"

definition config_host :: "string \<Rightarrow> 'h flatbed_config \<Rightarrow> 'h flatbed_config" where
  "config_host h cfg = cfg\<lparr>fc_host := h\<rparr>"

definition config_port :: "16 word \<Rightarrow> 'h flatbed_config \<Rightarrow> 'h flatbed_config" where
  "config_port p cfg = cfg\<lparr>fc_port := p\<rparr>"

definition config_description :: "string \<Rightarrow> 'h flatbed_config \<Rightarrow> 'h flatbed_config" where
  "config_description d cfg = cfg\<lparr>fc_description := Some d\<rparr>"

definition config_splash :: "string \<Rightarrow> 'h flatbed_config \<Rightarrow> 'h flatbed_config" where
  "config_splash s cfg = cfg\<lparr>fc_splash := Some s\<rparr>"

definition config_before_request ::
  "('h request_parts \<Rightarrow> (unit, 'h) route_error option) \<Rightarrow> 'h flatbed_config \<Rightarrow> 'h flatbed_config" where
  "config_before_request f cfg = cfg\<lparr>fc_before_request := Some f\<rparr>"

definition config_readiness :: "readiness \<Rightarrow> 'h flatbed_config \<Rightarrow> 'h flatbed_config" where
  "config_readiness r cfg = cfg\<lparr>fc_readiness := r\<rparr>"

definition config_external_url :: "string \<Rightarrow> 'h flatbed_config \<Rightarrow> 'h flatbed_config" where
  "config_external_url u cfg = cfg\<lparr>fc_external_url := Some u\<rparr>"

definition with_error_reporter :: "nat \<Rightarrow> 'h flatbed_config \<Rightarrow> 'h flatbed_config" where
  "with_error_reporter n cfg = cfg\<lparr>fc_error_reporter := Some n\<rparr>"

definition with_telemetry :: "string + string \<Rightarrow> 'h flatbed_config \<Rightarrow> 'h flatbed_config" where
  "with_telemetry t cfg = cfg\<lparr>fc_telemetry := Some t\<rparr>"

definition bind_address :: "'h flatbed_config \<Rightarrow> string" where
  "bind_address cfg = fc_host cfg @ '':'' @ show_nat (unat (fc_port cfg))"

text \<open>The checks of \<open>Flatbed::run\<close>, in order; \<open>parse\<close> is the standard library's address parser.\<close>

definition run_checks ::
  "(string \<Rightarrow> string + 'addr) \<Rightarrow> 'h flatbed_config \<Rightarrow> 'f route_info list \<Rightarrow> type_registry \<Rightarrow> nats_route_info list
   \<Rightarrow> error + 'addr" where
  "run_checks parse cfg routes types responders =
     (case validate_routes routes of
        Inl c \<Rightarrow> Inl (Custom (''Route conflict: '' @ route_conflict_str c))
      | Inr _ \<Rightarrow>
          (case validate_type_registry types of
             Inl c \<Rightarrow> Inl (Custom (''Type registry conflict: '' @ type_conflict_str c))
           | Inr _ \<Rightarrow>
               (case validate_nats_routes responders of
                  Inl c \<Rightarrow> Inl (Custom (''NATS subject conflict: '' @ nats_route_conflict_str c))
                | Inr _ \<Rightarrow>
                    (case parse (bind_address cfg) of
                       Inl e \<Rightarrow> Inl (Custom (''Invalid bind address: '' @ e))
                     | Inr a \<Rightarrow> Inr a))))"

text \<open>The router over the registry, with the handler each route gets.\<close>

definition build_router_with :: "('f route_info \<Rightarrow> 'e) \<Rightarrow> 'f route_info list \<Rightarrow> 'e router_node" where
  "build_router_with make_entry regs =
     build_router (map (\<lambda>((path, m), r). (path, method_str (ri_method r), make_entry r)) (get_routes regs))"

subsection \<open>The context wrapper\<close>

record ('c, 'n, 'j, 'k, 'l) flatbed_context =
  cx_inner :: 'c
  cx_nats_client :: 'n
  cx_jetstream :: 'j
  cx_stream_replicas :: nat
  cx_kube_client :: 'k
  cx_is_leader_tx :: 'l
  cx_is_leader_rx :: 'l
  cx_ha_mode :: bool

record ('c, 'n, 'j, 'k, 'l) context_builder =
  cb_inner :: 'c
  cb_nats_client :: "'n option"
  cb_jetstream :: "'j option"
  cb_stream_replicas :: "nat option"
  cb_kube_client :: "'k option"
  cb_is_leader_tx :: "'l option"
  cb_is_leader_rx :: "'l option"
  cb_ha_mode :: "bool option"

definition context_builder_new :: "'c \<Rightarrow> ('c, 'n, 'j, 'k, 'l) context_builder" where
  "context_builder_new c =
     \<lparr>cb_inner = c, cb_nats_client = None, cb_jetstream = None, cb_stream_replicas = None, cb_kube_client = None,
      cb_is_leader_tx = None, cb_is_leader_rx = None, cb_ha_mode = None\<rparr>"

definition set_nats_client :: "'n \<Rightarrow> ('c, 'n, 'j, 'k, 'l) context_builder \<Rightarrow> ('c, 'n, 'j, 'k, 'l) context_builder" where
  "set_nats_client n b = b\<lparr>cb_nats_client := Some n\<rparr>"

definition set_jetstream :: "'j \<Rightarrow> ('c, 'n, 'j, 'k, 'l) context_builder \<Rightarrow> ('c, 'n, 'j, 'k, 'l) context_builder" where
  "set_jetstream j b = b\<lparr>cb_jetstream := Some j\<rparr>"

definition set_stream_replicas :: "nat \<Rightarrow> ('c, 'n, 'j, 'k, 'l) context_builder \<Rightarrow> ('c, 'n, 'j, 'k, 'l) context_builder" where
  "set_stream_replicas n b = b\<lparr>cb_stream_replicas := Some n\<rparr>"

definition set_kube_client :: "'k \<Rightarrow> ('c, 'n, 'j, 'k, 'l) context_builder \<Rightarrow> ('c, 'n, 'j, 'k, 'l) context_builder" where
  "set_kube_client k b = b\<lparr>cb_kube_client := Some k\<rparr>"

definition set_leader_election ::
  "'l \<Rightarrow> 'l \<Rightarrow> bool \<Rightarrow> ('c, 'n, 'j, 'k, 'l) context_builder \<Rightarrow> ('c, 'n, 'j, 'k, 'l) context_builder" where
  "set_leader_election tx rx ha b = b\<lparr>cb_is_leader_tx := Some tx, cb_is_leader_rx := Some rx, cb_ha_mode := Some ha\<rparr>"

text \<open>\<open>None\<close> is the panic of an \<open>expect\<close>; the replica count has a default.\<close>

definition build_context :: "('c, 'n, 'j, 'k, 'l) context_builder \<Rightarrow> ('c, 'n, 'j, 'k, 'l) flatbed_context option" where
  "build_context b =
     (case (cb_nats_client b, cb_jetstream b, cb_kube_client b) of
        (Some n, Some j, Some k) \<Rightarrow>
          (case (cb_is_leader_tx b, cb_is_leader_rx b, cb_ha_mode b) of
             (Some tx, Some rx, Some ha) \<Rightarrow>
               Some \<lparr>cx_inner = cb_inner b, cx_nats_client = n, cx_jetstream = j,
                 cx_stream_replicas = (case cb_stream_replicas b of Some r \<Rightarrow> r | None \<Rightarrow> 1),
                 cx_kube_client = k, cx_is_leader_tx = tx, cx_is_leader_rx = rx, cx_ha_mode = ha\<rparr>
           | _ \<Rightarrow> None)
      | _ \<Rightarrow> None)"

subsection \<open>Workers and their context\<close>

text \<open>\<open>Arc<dyn Any>\<close>: a value with its type's identity.\<close>

datatype 'c any_ctx = AnyCtx string 'c

definition downcast :: "string \<Rightarrow> 'c any_ctx \<Rightarrow> 'c option" where
  "downcast type_id a = (case a of AnyCtx t c \<Rightarrow> if t = type_id then Some c else None)"

text \<open>An implementor of \<open>Worker\<close>; \<open>wk_context\<close> names its context's type.\<close>

record 'c worker_impl =
  wk_name :: string
  wk_description :: "string option"
  wk_restart :: "restart_policy option"
  wk_context :: string
  wk_run :: "'c \<Rightarrow> (string + unit) outcome"
  wk_enabled :: "'c \<Rightarrow> bool outcome"
  wk_drain :: "'c \<Rightarrow> (string + unit) outcome"

text \<open>The panic of a failed downcast, with the backtrace there.\<close>

definition type_mismatch :: "string \<Rightarrow> string \<Rightarrow> 'a outcome" where
  "type_mismatch bt name = Panics (OwnedString (''worker '' @ quoted_name name @ '' context type mismatch'')) bt"

definition run_basic_worker :: "string \<Rightarrow> 'c worker_impl \<Rightarrow> 'c any_ctx \<Rightarrow> (string + unit) outcome" where
  "run_basic_worker bt W ctx =
     (case downcast (wk_context W) ctx of None \<Rightarrow> type_mismatch bt (wk_name W) | Some c \<Rightarrow> wk_run W c)"

definition basic_worker_enabled :: "'c worker_impl \<Rightarrow> 'c any_ctx \<Rightarrow> bool outcome" where
  "basic_worker_enabled W ctx =
     (case downcast (wk_context W) ctx of None \<Rightarrow> Returns True | Some c \<Rightarrow> wk_enabled W c)"

definition run_basic_worker_drain :: "string \<Rightarrow> 'c worker_impl \<Rightarrow> 'c any_ctx \<Rightarrow> (string + unit) outcome" where
  "run_basic_worker_drain bt W ctx =
     (case downcast (wk_context W) ctx of None \<Rightarrow> type_mismatch bt (wk_name W) | Some c \<Rightarrow> wk_drain W c)"

subsection \<open>Registration\<close>

type_synonym 'c worker_fn = "'c any_ctx \<Rightarrow> (string + unit) outcome"

record 'c registered_worker =
  rw_info :: worker_info
  rw_description :: "string option"
  rw_worker :: "'c worker_fn"
  rw_enabled :: "('c any_ctx \<Rightarrow> bool outcome) option"

record 'c worker_drain_info =
  di_name :: string
  di_drain :: "'c worker_fn"

type_synonym 'c registration = "'c registered_worker \<times> 'c worker_drain_info option"

definition register_worker :: "string \<Rightarrow> 'c worker_impl \<Rightarrow> 'c registration" where
  "register_worker bt W =
     (\<lparr>rw_info = \<lparr>wi_name = wk_name W, wi_restart = wk_restart W, wi_has_check = True\<rparr>,
       rw_description = wk_description W, rw_worker = run_basic_worker bt W, rw_enabled = Some (basic_worker_enabled W)\<rparr>,
      Some \<lparr>di_name = wk_name W, di_drain = run_basic_worker_drain bt W\<rparr>)"

text \<open>
  The macros of the other executors: the constants of the implementor's trait, the executor's run
  and drain functions, and no check.
\<close>

record executor_impl =
  ex_name :: string
  ex_description :: "string option"
  ex_restart :: "restart_policy option"

definition register_executor :: "'c worker_fn \<Rightarrow> 'c worker_fn \<Rightarrow> executor_impl \<Rightarrow> 'c registration" where
  "register_executor run_fn drain_fn X =
     (\<lparr>rw_info = \<lparr>wi_name = ex_name X, wi_restart = ex_restart X, wi_has_check = False\<rparr>,
       rw_description = ex_description X, rw_worker = run_fn, rw_enabled = None\<rparr>,
      Some \<lparr>di_name = ex_name X, di_drain = drain_fn\<rparr>)"

text \<open>What \<open>#[nats_route]\<close> registers for its responder: a worker without a drain.\<close>

definition register_responder :: "'c worker_fn \<Rightarrow> string \<Rightarrow> 'c registration" where
  "register_responder run_fn subject =
     (\<lparr>rw_info = \<lparr>wi_name = ''nats_route:'' @ subject, wi_restart = None, wi_has_check = False\<rparr>,
       rw_description = None, rw_worker = run_fn, rw_enabled = None\<rparr>, None)"

text \<open>\<open>inventory\<close> keeps the two collections apart, each in an order of its own; only their members count here.\<close>

definition get_workers :: "'c registration list \<Rightarrow> 'c registered_worker list" where
  "get_workers regs = map fst regs"

definition get_worker_drains :: "'c registration list \<Rightarrow> 'c worker_drain_info list" where
  "get_worker_drains regs = List.map_filter snd regs"

inductive registered :: "'c registration \<Rightarrow> bool" where
  basic: "registered (register_worker bt W)"
| executor: "registered (register_executor run_fn drain_fn X)"
| responder: "registered (register_responder run_fn subject)"

subsection \<open>Facts\<close>

lemma bind_address_default: "bind_address (config_new title) = ''0.0.0.0:8080''"
  by (simp add: bind_address_def config_new_def config_default_def show_nat.simps) code_simp

lemma build_context_iff:
  "build_context b \<noteq> None \<longleftrightarrow> cb_nats_client b \<noteq> None \<and> cb_jetstream b \<noteq> None \<and> cb_kube_client b \<noteq> None \<and>
     cb_is_leader_tx b \<noteq> None \<and> cb_is_leader_rx b \<noteq> None \<and> cb_ha_mode b \<noteq> None"
  by (auto simp: build_context_def split: option.splits)

lemma run_checks_iff:
  "(\<exists>a. run_checks parse cfg routes types responders = Inr a) \<longleftrightarrow>
     validate_routes routes = Inr () \<and> validate_type_registry types = Inr () \<and>
     validate_nats_routes responders = Inr () \<and> (\<exists>a. parse (bind_address cfg) = Inr a)"
  by (auto simp: run_checks_def split: sum.splits)

lemma registered_names: "registered r \<Longrightarrow> snd r = Some d \<Longrightarrow> di_name d = wi_name (rw_info (fst r))"
  by (cases rule: registered.cases) (auto simp: register_worker_def register_executor_def register_responder_def)

lemma drain_member:
  "d \<in> set (get_worker_drains regs) \<longleftrightarrow> (\<exists>r \<in> set regs. snd r = Some d)"
  by (force simp: get_worker_drains_def List.map_filter_def)

lemma has_check_iff: "registered r \<Longrightarrow> wi_has_check (rw_info (fst r)) \<longleftrightarrow> rw_enabled (fst r) \<noteq> None"
  by (cases rule: registered.cases) (auto simp: register_worker_def register_executor_def register_responder_def)

text \<open>A worker whose context has another type is not hidden: it counts as enabled and its run panics.\<close>

lemma mismatch_surfaces:
  assumes "downcast (wk_context W) ctx = None"
  shows "basic_worker_enabled W ctx = Returns True"
    "run_basic_worker bt W ctx = Panics (OwnedString (''worker '' @ quoted_name (wk_name W) @ '' context type mismatch'')) bt"
  using assms by (simp_all add: basic_worker_enabled_def run_basic_worker_def type_mismatch_def)

end
