(* ===== verification/Server.thy ===== *)
theory Server
  imports Boot
begin

text \<open>
  A process from \<open>Flatbed::run\<close> to its end: \<^verbatim>\<open>crates/flatbed/src/lib.rs\<close>, \<^verbatim>\<open>hyper/server.rs\<close> and
  \<^verbatim>\<open>hyper/shutdown.rs\<close>. Four kinds of task share the health, boot and shutdown channels and the
  context: the main task with the boot function, the server task, the task that starts the
  supervised workers, and one task per connection. A step is one task going from one await to the
  next; boot, sockets, signals, workers and the time things take are free.
\<close>

subsection \<open>The server's settings\<close>

record 'h auto_server =
  as_config :: "'h flatbed_config"
  as_shutdown_timeout_secs :: nat

definition auto_server_new :: "'h flatbed_config \<Rightarrow> 'h auto_server" where
  "auto_server_new cfg = \<lparr>as_config = cfg, as_shutdown_timeout_secs = 30\<rparr>"

definition shutdown_timeout :: "nat \<Rightarrow> 'h auto_server \<Rightarrow> 'h auto_server" where
  "shutdown_timeout secs A = A\<lparr>as_shutdown_timeout_secs := secs\<rparr>"

definition REPORTER_FLUSH_TIMEOUT :: duration where
  "REPORTER_FLUSH_TIMEOUT = from_secs 2"

definition CONNECTION_EPILOGUE :: duration where
  "CONNECTION_EPILOGUE = from_secs 2"

definition shutdown_budget :: "'h auto_server \<Rightarrow> duration" where
  "shutdown_budget A = from_secs (as_shutdown_timeout_secs A)"

definition epilogue :: "'h auto_server \<Rightarrow> duration" where
  "epilogue A = min CONNECTION_EPILOGUE (shutdown_budget A)"

definition drain_budget :: "'h auto_server \<Rightarrow> duration" where
  "drain_budget A = max (shutdown_budget A - epilogue A) (from_secs 1)"

subsection \<open>State\<close>

datatype main_phase = MainStart | MainBooting | MainStored | MainJoining | MainDone "error + unit"

datatype task_phase = Binding | Serving | Flushing | Draining | Lingering duration | Served "string + unit"

datatype spawner_phase = NoSpawner | SpawnerWaiting | SpawnerBooted | SpawnerGone

text \<open>A connection: open, with a request in flight or not, closed, or dropped with or without one.\<close>

datatype conn = ConnOpen bool | ConnClosed | ConnDropped bool

text \<open>
  \<open>sv_sup\<close> holds the supervisors with the channels they share, \<open>sv_drained\<close> the drains the shutdown
  ran, \<open>sv_spent\<close> the time since the server saw the shutdown.
\<close>

record 'c server =
  sv_sup :: sup_sys
  sv_booted :: bool
  sv_context :: "'c option"
  sv_main :: main_phase
  sv_task :: task_phase
  sv_spawner :: spawner_phase
  sv_conns :: "conn list"
  sv_drained :: "string list option"
  sv_spent :: duration

definition server_init :: "reporting \<Rightarrow> 'c server" where
  "server_init r =
     \<lparr>sv_sup = \<lparr>wd = \<lparr>states = [], gauge = None, healthz = False, shutdown = False, rep = r\<rparr>, phases = []\<rparr>,
      sv_booted = False, sv_context = None, sv_main = MainStart, sv_task = Binding, sv_spawner = NoSpawner,
      sv_conns = [], sv_drained = None, sv_spent = 0\<rparr>"

definition update_world :: "(world \<Rightarrow> world) \<Rightarrow> 'c server \<Rightarrow> 'c server" where
  "update_world f s = s\<lparr>sv_sup := (sv_sup s)\<lparr>wd := f (wd (sv_sup s))\<rparr>\<rparr>"

text \<open>Whether a service context is left: a watch channel without receivers takes no value.\<close>

definition context_alive :: "'c server \<Rightarrow> bool" where
  "context_alive s \<longleftrightarrow>
     (case sv_task s of Served r \<Rightarrow> False | _ \<Rightarrow> True) \<or> list_ex (\<lambda>c. case c of ConnOpen b \<Rightarrow> True | _ \<Rightarrow> False) (sv_conns s)"

subsection \<open>Parts of the steps\<close>

text \<open>What a bound server installs; \<open>gauged\<close> says whether the state gauge registers.\<close>

definition install_all :: "'h auto_server \<Rightarrow> bool \<Rightarrow> world \<Rightarrow> world" where
  "install_all A gauged w =
     (let w = (case fc_telemetry (as_config A) of Some t \<Rightarrow> install_state_gauge gauged w | None \<Rightarrow> w)
      in case fc_error_reporter (as_config A) of Some n \<Rightarrow> w\<lparr>rep := install n (rep w)\<rparr> | None \<Rightarrow> w)"

definition run_worker_drains :: "'c registration list \<Rightarrow> 'c server \<Rightarrow> 'c worker_drain_info list" where
  "run_worker_drains regs s =
     (let drains = filter (\<lambda>d. \<not> is_disabled (di_name d) (wd (sv_sup s))) (get_worker_drains regs)
      in if drains = [] then [] else if sv_context s = None then [] else drains)"

text \<open>Drains run side by side, each for the time it takes, until the budget is spent.\<close>

definition drain_time :: "duration \<Rightarrow> (string \<Rightarrow> duration) \<Rightarrow> 'c worker_drain_info list \<Rightarrow> duration" where
  "drain_time budget took drains = min budget (fold max (map (took \<circ> di_name) drains) 0)"

definition infos_of :: "'c registration list \<Rightarrow> worker_info list" where
  "infos_of regs = map rw_info (get_workers regs)"

definition main_result :: "string + unit \<Rightarrow> error + unit" where
  "main_result r = (case r of Inl e \<Rightarrow> Inl (Custom (''Server error: '' @ e)) | Inr u \<Rightarrow> Inr u)"

subsection \<open>Steps\<close>

text \<open>
  The choice of the drains and the wait for them are one step: nothing the others do meanwhile
  changes either.
\<close>

inductive srv_step ::
  "'h auto_server \<Rightarrow> 'c registration list \<Rightarrow> (string \<times> 32 word \<Rightarrow> 64 word) \<Rightarrow> 'c server \<Rightarrow> 'c server \<Rightarrow> bool"
  for A regs hash where
  alive: "sv_main s = MainStart \<Longrightarrow>
     srv_step A regs hash s ((update_world (\<lambda>w. if context_alive s then w\<lparr>healthz := True\<rparr> else w) s)\<lparr>sv_main := MainBooting\<rparr>)"
| boot_ok: "sv_main s = MainBooting \<Longrightarrow>
     srv_step A regs hash s (s\<lparr>sv_context := Some c, sv_main := MainStored\<rparr>)"
| boot_fails: "sv_main s = MainBooting \<Longrightarrow>
     srv_step A regs hash s (s\<lparr>sv_main := MainDone (Inl (Custom (''Boot error: '' @ e)))\<rparr>)"
| announces: "sv_main s = MainStored \<Longrightarrow>
     srv_step A regs hash s (s\<lparr>sv_booted := sv_booted s \<or> context_alive s \<or> sv_spawner s = SpawnerWaiting, sv_main := MainJoining\<rparr>)"
| joins: "sv_main s = MainJoining \<Longrightarrow> sv_task s = Served r \<Longrightarrow>
     srv_step A regs hash s (s\<lparr>sv_main := MainDone (main_result r)\<rparr>)"
| binds: "sv_task s = Binding \<Longrightarrow>
     srv_step A regs hash s ((update_world (install_all A gauged) s)\<lparr>sv_task := Serving, sv_spawner := SpawnerWaiting\<rparr>)"
| bind_fails: "sv_task s = Binding \<Longrightarrow> srv_step A regs hash s (s\<lparr>sv_task := Served (Inl e)\<rparr>)"
| wakes: "sv_spawner s = SpawnerWaiting \<Longrightarrow> sv_booted s \<Longrightarrow> srv_step A regs hash s (s\<lparr>sv_spawner := SpawnerBooted\<rparr>)"
| gives_up: "sv_spawner s = SpawnerWaiting \<Longrightarrow> \<not> sv_booted s \<Longrightarrow> sv_main s = MainDone x \<Longrightarrow>
     srv_step A regs hash s (s\<lparr>sv_spawner := SpawnerGone\<rparr>)"
| no_context: "sv_spawner s = SpawnerBooted \<Longrightarrow> sv_context s = None \<Longrightarrow>
     srv_step A regs hash s (s\<lparr>sv_spawner := SpawnerGone\<rparr>)"
| spawns: "sv_spawner s = SpawnerBooted \<Longrightarrow> sv_context s = Some c \<Longrightarrow>
     srv_step A regs hash s (s\<lparr>sv_sup := (sv_sup s)\<lparr>phases := replicate (length (infos_of regs)) NotStarted\<rparr>, sv_spawner := SpawnerGone\<rparr>)"
| supervises: "sv_spawner s \<noteq> NoSpawner \<Longrightarrow> sup_step (infos_of regs) hash (sv_sup s) t \<Longrightarrow>
     srv_step A regs hash s (s\<lparr>sv_sup := t\<rparr>)"
| accepts: "sv_task s = Serving \<Longrightarrow> srv_step A regs hash s (s\<lparr>sv_conns := sv_conns s @ [ConnOpen False]\<rparr>)"
| accept_fails: "sv_task s = Serving \<Longrightarrow> srv_step A regs hash s (s\<lparr>sv_task := Served (Inl e)\<rparr>)"
| reads_or_answers: "i < length (sv_conns s) \<Longrightarrow> sv_conns s ! i = ConnOpen b \<Longrightarrow>
     srv_step A regs hash s (s\<lparr>sv_conns := (sv_conns s)[i := ConnOpen (\<not> b)]\<rparr>)"
| closes: "i < length (sv_conns s) \<Longrightarrow> sv_conns s ! i = ConnOpen b \<Longrightarrow>
     srv_step A regs hash s (s\<lparr>sv_conns := (sv_conns s)[i := ConnClosed]\<rparr>)"
| drops: "i < length (sv_conns s) \<Longrightarrow> sv_conns s ! i = ConnOpen b \<Longrightarrow> shutdown (wd (sv_sup s)) \<Longrightarrow>
     srv_step A regs hash s (s\<lparr>sv_conns := (sv_conns s)[i := ConnDropped b]\<rparr>)"
| stops: "sv_task s = Serving \<Longrightarrow> shutdown (wd (sv_sup s)) \<Longrightarrow>
     srv_step A regs hash s (s\<lparr>sv_task := Flushing, sv_spent := 0\<rparr>)"
| flushes: "sv_task s = Flushing \<Longrightarrow>
     srv_step A regs hash s (s\<lparr>sv_task := Draining, sv_spent := sv_spent s + flush REPORTER_FLUSH_TIMEOUT took (rep (wd (sv_sup s)))\<rparr>)"
| drains: "sv_task s = Draining \<Longrightarrow> run_worker_drains regs s = ds \<Longrightarrow>
     srv_step A regs hash s (s\<lparr>sv_drained := Some (map di_name ds),
       sv_task := Lingering (if ds = [] then shutdown_budget A else epilogue A),
       sv_spent := sv_spent s + (if ds = [] then 0 else drain_time (drain_budget A) took ds)\<rparr>)"
| ends: "sv_task s = Lingering d \<Longrightarrow>
     srv_step A regs hash s (s\<lparr>sv_task := Served (Inr ()), sv_spent := sv_spent s + d\<rparr>)"

inductive srv_reachable ::
  "'h auto_server \<Rightarrow> 'c registration list \<Rightarrow> (string \<times> 32 word \<Rightarrow> 64 word) \<Rightarrow> 'c server \<Rightarrow> bool"
  for A regs hash where
  init: "srv_reachable A regs hash (server_init r)"
| step: "srv_reachable A regs hash s \<Longrightarrow> srv_step A regs hash s t \<Longrightarrow> srv_reachable A regs hash t"

text \<open>What the request service sees of the process; \<open>cx\<close> supplies the rest.\<close>

definition service_view :: "'h auto_server \<Rightarrow> 'c server \<Rightarrow> ('c, 'h) service_ctx \<Rightarrow> ('c, 'h) service_ctx" where
  "service_view A s cx =
     cx\<lparr>sc_healthz := healthz (wd (sv_sup s)), sc_booted := sv_booted s, sc_context := sv_context s,
        sc_readiness := fc_readiness (as_config A), sc_splash := fc_splash (as_config A),
        sc_telemetry := fc_telemetry (as_config A), sc_states := worker_states (wd (sv_sup s)),
        sc_before_request := fc_before_request (as_config A)\<rparr>"

subsection \<open>Order of the boot\<close>

definition boot_inv :: "'c registration list \<Rightarrow> 'c server \<Rightarrow> bool" where
  "boot_inv regs s \<longleftrightarrow>
     (sv_booted s \<longrightarrow> sv_context s \<noteq> None) \<and>
     (sv_main s = MainStored \<or> sv_main s = MainJoining \<longrightarrow> sv_context s \<noteq> None) \<and>
     (sv_task s = Binding \<longrightarrow> sv_spawner s = NoSpawner) \<and>
     (sv_spawner s = SpawnerBooted \<longrightarrow> sv_booted s) \<and>
     (phases (sv_sup s) \<noteq> [] \<longrightarrow> sv_booted s \<and> sv_spawner s = SpawnerGone) \<and>
     (sv_spawner s = SpawnerGone \<longrightarrow>
        sv_booted s \<and> length (phases (sv_sup s)) = length (infos_of regs) \<or>
        \<not> sv_booted s \<and> (\<exists>x. sv_main s = MainDone x))"

lemma world_sel [simp]:
  "wd (sv_sup (update_world f s)) = f (wd (sv_sup s))" "phases (sv_sup (update_world f s)) = phases (sv_sup s)"
  "sv_booted (update_world f s) = sv_booted s" "sv_context (update_world f s) = sv_context s"
  "sv_main (update_world f s) = sv_main s" "sv_task (update_world f s) = sv_task s"
  "sv_spawner (update_world f s) = sv_spawner s" "sv_conns (update_world f s) = sv_conns s"
  "sv_drained (update_world f s) = sv_drained s" "sv_spent (update_world f s) = sv_spent s"
  by (simp_all add: update_world_def)

lemma sup_step_length: "sup_step infos hash s t \<Longrightarrow> length (phases t) = length (phases s)"
  by (cases rule: sup_step.cases) auto

lemma boot_inv_step:
  assumes "srv_step A regs hash s t" "boot_inv regs s"
  shows "boot_inv regs t"
  using assms
proof (cases rule: srv_step.cases)
  case (supervises t')
  have "phases t' = [] \<longleftrightarrow> phases (sv_sup s) = []" "length (phases t') = length (phases (sv_sup s))"
    using sup_step_length [OF supervises(3)] by auto
  then show ?thesis using assms(2) supervises(1) by (simp add: boot_inv_def)
qed (auto simp: boot_inv_def)

lemma boot_inv_reachable: "srv_reachable A regs hash s \<Longrightarrow> boot_inv regs s"
proof (induction rule: srv_reachable.induct)
  case (init r)
  show ?case by (simp add: boot_inv_def server_init_def)
next
  case (step s t)
  then show ?case using boot_inv_step by blast
qed

subsection \<open>Who is drained\<close>

definition disabled_inv :: "worker_info list \<Rightarrow> sup_sys \<Rightarrow> bool" where
  "disabled_inv infos s \<longleftrightarrow>
     (phases s = [] \<longrightarrow> states (wd s) = []) \<and>
     (\<forall>i < length (phases s). is_disabled (wi_name (infos ! i)) (wd s) \<longrightarrow> phases s ! i = Ended WasDisabled)"

lemma disabled_from:
  "begin_supervise info answer w = (ph, w') \<Longrightarrow> is_disabled n w' \<Longrightarrow> is_disabled n w \<or> n = wi_name info \<and> ph = Ended WasDisabled"
  "enter_run info a w = (ph, w') \<Longrightarrow> is_disabled n w' \<Longrightarrow> is_disabled n w"
  "after_run hash info a j elapsed w = (ph, w') \<Longrightarrow> is_disabled n w' \<Longrightarrow> is_disabled n w"
  by (auto simp: is_disabled_def begin_supervise_def enter_run_def after_run_def terminate_eq Let_def
      split: sum.splits bool.splits option.splits if_splits)

lemma disabled_inv_update:
  assumes "disabled_inv infos s" "distinct (map wi_name infos)" "length (phases s) \<le> length infos" "i < length (phases s)"
    "phases s ! i \<noteq> Ended WasDisabled"
    "\<And>n. is_disabled n w \<Longrightarrow> is_disabled n (wd s) \<or> n = wi_name (infos ! i) \<and> ph = Ended WasDisabled"
  shows "disabled_inv infos \<lparr>wd = w, phases = (phases s)[i := ph]\<rparr>"
  unfolding disabled_inv_def
proof (intro conjI allI impI)
  fix k assume k: "k < length (phases \<lparr>wd = w, phases = (phases s)[i := ph]\<rparr>)"
    "is_disabled (wi_name (infos ! k)) (wd \<lparr>wd = w, phases = (phases s)[i := ph]\<rparr>)"
  then consider "is_disabled (wi_name (infos ! k)) (wd s)" | "wi_name (infos ! k) = wi_name (infos ! i)" "ph = Ended WasDisabled"
    using assms(6) by auto
  then show "phases \<lparr>wd = w, phases = (phases s)[i := ph]\<rparr> ! k = Ended WasDisabled"
  proof cases
    case 1
    then have "phases s ! k = Ended WasDisabled" using assms(1) k(1) by (simp add: disabled_inv_def)
    then show ?thesis using assms(5) k(1) by (cases "k = i") auto
  next
    case 2
    have "k = i"
      using nth_eq_iff_index_eq [OF assms(2), of k i] 2(1) assms(3,4) k(1) by simp
    then show ?thesis using 2(2) assms(4) by simp
  qed
qed (use assms(4) in auto)

lemma disabled_inv_step:
  assumes "sup_step infos hash s t" "disabled_inv infos s" "distinct (map wi_name infos)" "length (phases s) \<le> length infos"
  shows "disabled_inv infos t"
  using assms(1)
proof cases
  case (begins i answer ph w)
  show ?thesis unfolding begins(1)
    by (rule disabled_inv_update [OF assms(2-4) begins(2)]) (use begins(3) disabled_from(1) [OF begins(4)] in auto)
next
  case (run_ends i attempt j elapsed ph w)
  show ?thesis unfolding run_ends(1)
    by (rule disabled_inv_update [OF assms(2-4) run_ends(2)]) (use run_ends(3) disabled_from(3) [OF run_ends(4)] in auto)
next
  case (slept i attempt d ph w)
  show ?thesis unfolding slept(1)
    by (rule disabled_inv_update [OF assms(2-4) slept(2)]) (use slept(3) disabled_from(2) [OF slept(4)] in auto)
next
  case (sees_shutdown i attempt d)
  have "disabled_inv infos \<lparr>wd = wd s, phases = (phases s)[i := Ended InShutdown]\<rparr>"
    by (rule disabled_inv_update [OF assms(2-4) sees_shutdown(2)]) (use sees_shutdown(3) in auto)
  then show ?thesis unfolding sees_shutdown(1) by (cases s) simp
next
  case signal
  then show ?thesis using assms(2) by (simp add: disabled_inv_def is_disabled_def)
qed

lemma install_all_states [simp]: "states (install_all A gauged w) = states w" "shutdown (install_all A gauged w) = shutdown w"
  by (simp_all add: install_all_def install_state_gauge_def Let_def split: option.split)

lemma disabled_inv_world: "disabled_inv infos S \<Longrightarrow> states w = states (wd S) \<Longrightarrow> disabled_inv infos (S\<lparr>wd := w\<rparr>)"
  by (simp add: disabled_inv_def is_disabled_def)

lemma disabled_inv_srv:
  assumes "srv_step A regs hash s t" "disabled_inv (infos_of regs) (sv_sup s)" "boot_inv regs s" "distinct (map wi_name (infos_of regs))"
  shows "disabled_inv (infos_of regs) (sv_sup t)"
  using assms(1)
proof (cases rule: srv_step.cases)
  case alive
  then show ?thesis using assms(2) by (simp add: update_world_def disabled_inv_world)
next
  case (binds gauged)
  then show ?thesis using assms(2) by (simp add: update_world_def disabled_inv_world)
next
  case (spawns c)
  then have "phases (sv_sup s) = []" using assms(3) by (auto simp: boot_inv_def)
  then have "states (wd (sv_sup s)) = []" using assms(2) by (simp add: disabled_inv_def)
  then show ?thesis using spawns(1) by (simp add: disabled_inv_def is_disabled_def)
next
  case (supervises t')
  have "length (phases (sv_sup s)) \<le> length (infos_of regs)"
    using assms(3) by (cases "phases (sv_sup s) = []") (auto simp: boot_inv_def)
  then show ?thesis using disabled_inv_step [OF supervises(3) assms(2,4)] supervises(1) by simp
qed (use assms(2) in simp_all)

lemma disabled_inv_reachable:
  "srv_reachable A regs hash s \<Longrightarrow> distinct (map wi_name (infos_of regs)) \<Longrightarrow> disabled_inv (infos_of regs) (sv_sup s)"
proof (induction rule: srv_reachable.induct)
  case (init r)
  show ?case by (simp add: disabled_inv_def server_init_def)
next
  case (step s t)
  then show ?case using disabled_inv_srv boot_inv_reachable by blast
qed

lemma spawned_length:
  "srv_reachable A regs hash s \<Longrightarrow> phases (sv_sup s) = [] \<or> length (phases (sv_sup s)) = length (infos_of regs)"
  using boot_inv_reachable [of A regs hash s] by (auto simp: boot_inv_def)

subsection \<open>How long a shutdown takes\<close>

text \<open>The flush, and a budget of at least three seconds.\<close>

definition shutdown_bound :: "'h auto_server \<Rightarrow> duration" where
  "shutdown_bound A = REPORTER_FLUSH_TIMEOUT + max (shutdown_budget A) (from_secs 3)"

definition time_ok :: "'h auto_server \<Rightarrow> task_phase \<Rightarrow> duration \<Rightarrow> string list option \<Rightarrow> bool \<Rightarrow> bool" where
  "time_ok A task spent drained stop \<longleftrightarrow>
     (case task of
        Flushing \<Rightarrow> spent = 0 \<and> stop
      | Draining \<Rightarrow> spent \<le> REPORTER_FLUSH_TIMEOUT \<and> stop
      | Lingering d \<Rightarrow> spent + d \<le> shutdown_bound A \<and> drained \<noteq> None \<and> stop
      | Served (Inr u) \<Rightarrow> spent \<le> shutdown_bound A \<and> drained \<noteq> None \<and> stop
      | _ \<Rightarrow> spent = 0)"

definition time_inv :: "'h auto_server \<Rightarrow> 'c server \<Rightarrow> bool" where
  "time_inv A s \<longleftrightarrow> time_ok A (sv_task s) (sv_spent s) (sv_drained s) (shutdown (wd (sv_sup s)))"

lemma time_ok_mono: "time_ok A task spent drained stop \<Longrightarrow> (stop \<Longrightarrow> stop') \<Longrightarrow> time_ok A task spent drained stop'"
  by (auto simp: time_ok_def split: task_phase.splits sum.splits)

lemma budgets:
  "x \<le> drain_budget A \<Longrightarrow> x + epilogue A \<le> max (shutdown_budget A) (from_secs 3)"
  by (auto simp: drain_budget_def epilogue_def CONNECTION_EPILOGUE_def shutdown_budget_def from_secs_def)

lemma sup_step_shutdown: "sup_step infos hash s t \<Longrightarrow> shutdown (wd s) \<Longrightarrow> shutdown (wd t)"
  by (induction rule: sup_step.induct)
    (auto simp: begin_supervise_def enter_run_def after_run_def terminate_eq Let_def
      split: sum.splits bool.splits option.splits if_splits)

lemma time_inv_step:
  assumes "srv_step A regs hash s t" "time_inv A s"
  shows "time_inv A t"
  using assms(1)
proof (cases rule: srv_step.cases)
  case (supervises t')
  then show ?thesis using assms(2) sup_step_shutdown [OF supervises(3)] by (auto simp: time_inv_def intro: time_ok_mono)
next
  case alive
  then show ?thesis using assms(2) by (auto simp: time_inv_def intro: time_ok_mono)
next
  case (flushes took)
  have "flush REPORTER_FLUSH_TIMEOUT took (rep (wd (sv_sup s))) \<le> REPORTER_FLUSH_TIMEOUT"
    by (simp add: flush_def split: option.split)
  then show ?thesis using assms(2) flushes by (simp add: time_inv_def time_ok_def)
next
  case (drains ds took)
  have "drain_time (drain_budget A) took ds \<le> drain_budget A" by (simp add: drain_time_def)
  from budgets [OF this] show ?thesis
    using assms(2) drains by (auto simp: time_inv_def time_ok_def shutdown_bound_def)
qed (use assms(2) in \<open>simp_all add: time_inv_def time_ok_def\<close>)

lemma time_inv_reachable: "srv_reachable A regs hash s \<Longrightarrow> time_inv A s"
proof (induction rule: srv_reachable.induct)
  case (init r)
  show ?case by (simp add: time_inv_def time_ok_def server_init_def)
next
  case (step s t)
  then show ?case using time_inv_step by blast
qed

fun task_rank :: "task_phase \<Rightarrow> nat" where
  "task_rank Binding = 5"
| "task_rank Serving = 4"
| "task_rank Flushing = 3"
| "task_rank Draining = 2"
| "task_rank (Lingering d) = 1"
| "task_rank (Served r) = 0"

lemma task_rank_step: "srv_step A regs hash s t \<Longrightarrow> sv_task t = sv_task s \<or> task_rank (sv_task t) < task_rank (sv_task s)"
  by (induction rule: srv_step.induct) auto

lemma from_lingering:
  "sv_task s = Lingering d \<Longrightarrow> \<exists>t. srv_step A regs hash s t \<and> sv_task t = Served (Inr ())"
  using srv_step.ends by fastforce

lemma from_draining:
  assumes "sv_task s = Draining"
  shows "\<exists>t. (srv_step A regs hash)\<^sup>*\<^sup>* s t \<and> sv_task t = Served (Inr ())"
proof -
  obtain s' d where "srv_step A regs hash s s'" "sv_task s' = Lingering d"
    using srv_step.drains [OF assms refl] by fastforce
  with from_lingering show ?thesis by (meson converse_rtranclp_into_rtranclp r_into_rtranclp)
qed

lemma from_flushing:
  assumes "sv_task s = Flushing"
  shows "\<exists>t. (srv_step A regs hash)\<^sup>*\<^sup>* s t \<and> sv_task t = Served (Inr ())"
proof -
  obtain s' where "srv_step A regs hash s s'" "sv_task s' = Draining"
    using srv_step.flushes [OF assms] by fastforce
  with from_draining show ?thesis by (meson converse_rtranclp_into_rtranclp)
qed

lemma from_serving:
  assumes "sv_task s = Serving" "shutdown (wd (sv_sup s))"
  shows "\<exists>t. (srv_step A regs hash)\<^sup>*\<^sup>* s t \<and> sv_task t = Served (Inr ())"
proof -
  obtain s' where "srv_step A regs hash s s'" "sv_task s' = Flushing"
    using srv_step.stops [OF assms] by fastforce
  with from_flushing show ?thesis by (meson converse_rtranclp_into_rtranclp)
qed

lemma clean_end:
  assumes "shutdown (wd (sv_sup s))" "sv_task s \<noteq> Binding" "\<forall>e. sv_task s \<noteq> Served (Inl e)"
  shows "\<exists>t. (srv_step A regs hash)\<^sup>*\<^sup>* s t \<and> sv_task t = Served (Inr ())"
proof (cases "sv_task s")
  case Serving
  then show ?thesis by (rule from_serving [OF _ assms(1)])
next
  case Flushing
  then show ?thesis by (rule from_flushing)
next
  case Draining
  then show ?thesis by (rule from_draining)
next
  case (Lingering d)
  from from_lingering [OF this] show ?thesis by blast
next
  case (Served r)
  then show ?thesis using assms(3) by (cases r) auto
qed (use assms(2) in simp)

lemma reachable_rtrancl: "(srv_step A regs hash)\<^sup>*\<^sup>* s t \<Longrightarrow> srv_reachable A regs hash s \<Longrightarrow> srv_reachable A regs hash t"
  by (induction rule: rtranclp_induct) (auto intro: srv_reachable.step)

lemma time_bound: "time_inv A s \<Longrightarrow> sv_spent s \<le> shutdown_bound A"
  by (auto simp: time_inv_def time_ok_def shutdown_bound_def split: task_phase.splits sum.splits)

subsection \<open>Properties\<close>

text \<open>
  C12. Boot order. In every reachable state of a process, whatever the interleaving of its tasks: once
  the service counts as booted the context is there, so a ready service hands every route its
  context and the routes' answer for a missing one is never given; no worker is supervised before
  that; and once the task that starts the workers is gone it has started all of them, unless the
  run has returned without a boot.
\<close>

theorem ready_means_context:
  fixes cx :: "('c, 'h) service_ctx" and L :: "'h http_lib" and cd :: "('t, 'r, 'd) body_codecs"
  assumes "srv_reachable A regs hash s"
  shows "(sc_is_ready (service_view A s cx) \<longrightarrow>
      (\<exists>c. \<forall>route inner f parts body ct st.
        entry_handler (generated_entry L cd route inner f) parts body ct (sc_context (service_view A s cx)) st =
        hyper_handler L cd route f (Inr c) parts body ct st)) \<and>
    (phases (sv_sup s) \<noteq> [] \<longrightarrow> sv_booted s \<and> sv_context s \<noteq> None) \<and>
    (sv_spawner s = SpawnerGone \<longrightarrow>
      length (phases (sv_sup s)) = length (get_workers regs) \<or> \<not> sv_booted s \<and> (\<exists>x. sv_main s = MainDone x))"
proof -
  have inv: "boot_inv regs s" by (rule boot_inv_reachable [OF assms])
  have ready: "\<exists>c. sv_context s = Some c" if "sc_is_ready (service_view A s cx)"
    using inv that by (auto simp: sc_is_ready_def service_view_def boot_inv_def)
  have "sc_is_ready (service_view A s cx) \<longrightarrow>
      (\<exists>c. \<forall>route inner f parts body ct st.
        entry_handler (generated_entry L cd route inner f) parts body ct (sc_context (service_view A s cx)) st =
        hyper_handler L cd route f (Inr c) parts body ct st)"
  proof
    assume "sc_is_ready (service_view A s cx)"
    then obtain c where "sv_context s = Some c" using ready by blast
    then show "\<exists>c. \<forall>route inner f parts body ct st.
        entry_handler (generated_entry L cd route inner f) parts body ct (sc_context (service_view A s cx)) st =
        hyper_handler L cd route f (Inr c) parts body ct st"
      by (intro exI [of _ c]) (simp add: generated_entry_def service_view_def)
  qed
  moreover have "length (infos_of regs) = length (get_workers regs)" by (simp add: infos_of_def)
  ultimately show ?thesis using inv by (auto simp: boot_inv_def)
qed

text \<open>
  C13. Shutdown ends. Every step leaves the server task where it is or takes it on, so it makes at most
  five; once a bound server has been told to shut down it can go on to a clean end by itself,
  drains decided; and the time it spends from there is at most the flush timeout and the configured
  timeout, where that counts as three seconds when it is less.
\<close>

theorem shutdown_bounded:
  assumes "srv_reachable A regs hash s" "shutdown (wd (sv_sup s))" "sv_task s \<noteq> Binding" "\<forall>e. sv_task s \<noteq> Served (Inl e)"
  shows "sv_spent s \<le> from_secs (2 + max (as_shutdown_timeout_secs A) 3) \<and>
    (\<forall>t. srv_step A regs hash s t \<longrightarrow> sv_task t = sv_task s \<or> task_rank (sv_task t) < task_rank (sv_task s)) \<and>
    (\<exists>t. (srv_step A regs hash)\<^sup>*\<^sup>* s t \<and> sv_task t = Served (Inr ()) \<and> sv_drained t \<noteq> None \<and>
      sv_spent t \<le> from_secs (2 + max (as_shutdown_timeout_secs A) 3))"
proof -
  have bound: "shutdown_bound A = from_secs (2 + max (as_shutdown_timeout_secs A) 3)"
    by (simp add: shutdown_bound_def REPORTER_FLUSH_TIMEOUT_def shutdown_budget_def from_secs_def max_def)
  obtain t where t: "(srv_step A regs hash)\<^sup>*\<^sup>* s t" "sv_task t = Served (Inr ())"
    using clean_end [OF assms(2-4)] by blast
  have "time_inv A t" by (rule time_inv_reachable [OF reachable_rtrancl [OF t(1) assms(1)]])
  then have "sv_drained t \<noteq> None" "sv_spent t \<le> shutdown_bound A"
    using t(2) by (simp_all add: time_inv_def time_ok_def)
  moreover have "sv_spent s \<le> shutdown_bound A" by (rule time_bound [OF time_inv_reachable [OF assms(1)]])
  ultimately show ?thesis using t task_rank_step unfolding bound by blast
qed

text \<open>
  C14. Shutdown drains the right workers: when the server decides, it runs the registered drains of
  exactly the workers that are not disabled, and none when the boot has not ended, in which case no
  worker was started; a worker that was started and is left out ended at its own check or was
  registered without a drain.
\<close>

theorem drained_exactly:
  assumes "srv_reachable A regs hash s" "srv_step A regs hash s t" "sv_task s = Draining" "sv_task t \<noteq> Draining"
    "distinct (map wi_name (infos_of regs))" "list_all registered regs"
  shows "case sv_context s of
      None \<Rightarrow> sv_drained t = Some [] \<and> phases (sv_sup s) = []
    | Some c \<Rightarrow> \<exists>names. sv_drained t = Some names \<and>
        set names = {n \<in> set (map di_name (get_worker_drains regs)). \<not> is_disabled n (wd (sv_sup s))} \<and>
        (\<forall>i < length (phases (sv_sup s)). wi_name (infos_of regs ! i) \<notin> set names \<longrightarrow>
          phases (sv_sup s) ! i = Ended WasDisabled \<or> snd (regs ! i) = None)"
proof -
  have dr: "sv_drained t = Some (map di_name (run_worker_drains regs s))"
    using assms(2-4) by (cases rule: srv_step.cases) auto
  show ?thesis
  proof (cases "sv_context s")
    case None
    then have "phases (sv_sup s) = []" using boot_inv_reachable [OF assms(1)] by (auto simp: boot_inv_def)
    with None dr show ?thesis by (simp add: run_worker_drains_def Let_def)
  next
    case (Some c)
    have ran: "set (map di_name (run_worker_drains regs s)) =
        {n \<in> set (map di_name (get_worker_drains regs)). \<not> is_disabled n (wd (sv_sup s))}"
      using Some by (auto simp: run_worker_drains_def Let_def filter_empty_conv)
    have "phases (sv_sup s) ! i = Ended WasDisabled \<or> snd (regs ! i) = None"
      if i: "i < length (phases (sv_sup s))" "wi_name (infos_of regs ! i) \<notin> set (map di_name (run_worker_drains regs s))" for i
    proof (cases "snd (regs ! i)")
      case (Some d)
      have l: "i < length regs" using i(1) spawned_length [OF assms(1)] by (auto simp: infos_of_def get_workers_def)
      then have r: "regs ! i \<in> set regs" by simp
      then have "di_name d = wi_name (infos_of regs ! i)"
        using registered_names [OF _ Some] assms(6) l by (simp add: list_all_iff infos_of_def get_workers_def)
      moreover have "d \<in> set (get_worker_drains regs)" using r Some by (auto simp: drain_member)
      ultimately have "is_disabled (wi_name (infos_of regs ! i)) (wd (sv_sup s))" using i(2) unfolding ran by force
      with disabled_inv_reachable [OF assms(1,5)] i(1) show ?thesis by (simp add: disabled_inv_def)
    qed simp
    with Some dr ran show ?thesis by simp
  qed
qed

subsection \<open>Runs\<close>

definition snapshot :: "'c server \<Rightarrow> main_phase \<times> task_phase \<times> spawner_phase \<times> bool \<times> 'c option \<times> string list option \<times> sup_phase list \<times> bool" where
  "snapshot s = (sv_main s, sv_task s, sv_spawner s, sv_booted s, sv_context s, sv_drained s, phases (sv_sup s), shutdown (wd (sv_sup s)))"

lemmas snap = snapshot_def context_alive_def update_world_def

lemma bound_run:
  "\<exists>s. srv_reachable A regs hash s \<and> snapshot s = (MainBooting, Serving, SpawnerWaiting, False, None, None, [], False)"
proof -
  obtain s where s: "srv_reachable A regs hash s" "snapshot s = (MainBooting, Binding, NoSpawner, False, None, None, [], False)"
    using srv_reachable.step [OF srv_reachable.init srv_step.alive] by (fastforce simp: snap server_init_def)
  with srv_reachable.step [OF s(1) srv_step.binds] show ?thesis by (fastforce simp: snap)
qed

lemma booted_run:
  "\<exists>s. srv_reachable A regs hash s \<and> snapshot s = (MainJoining, Serving, SpawnerWaiting, True, Some c, None, [], False)"
proof -
  obtain s where s: "srv_reachable A regs hash s" "snapshot s = (MainBooting, Serving, SpawnerWaiting, False, None, None, [], False)"
    using bound_run by blast
  obtain s' where s': "srv_reachable A regs hash s'" "snapshot s' = (MainStored, Serving, SpawnerWaiting, False, Some c, None, [], False)"
    using srv_reachable.step [OF s(1) srv_step.boot_ok] s(2) by (fastforce simp: snap)
  with srv_reachable.step [OF s'(1) srv_step.announces] show ?thesis by (fastforce simp: snap)
qed

definition demo_worker :: "unit worker_impl" where
  "demo_worker =
     \<lparr>wk_name = ''mailer'', wk_description = None, wk_restart = None, wk_context = ''App'',
      wk_run = (\<lambda>c. Returns (Inr ())), wk_enabled = (\<lambda>c. Returns True), wk_drain = (\<lambda>c. Returns (Inr ()))\<rparr>"

definition demo_regs :: "unit registration list" where
  "demo_regs = [register_worker [] demo_worker]"

lemma demo_drains: "map di_name (get_worker_drains demo_regs) = [''mailer'']"
  by (simp add: get_worker_drains_def demo_regs_def register_worker_def demo_worker_def List.map_filter_def)

definition demo_server :: "(string \<times> string) list auto_server" where
  "demo_server = auto_server_new (config_new ''demo'')"

lemma demo_infos: "infos_of demo_regs = [\<lparr>wi_name = ''mailer'', wi_restart = None, wi_has_check = True\<rparr>]"
  by (simp add: infos_of_def get_workers_def demo_regs_def register_worker_def demo_worker_def)

lemma signalled:
  assumes "srv_reachable A regs hash s" "snapshot s = (m, Serving, sp, b, c, None, [], False)" "sp \<noteq> NoSpawner"
  shows "\<exists>s. srv_reachable A regs hash s \<and> snapshot s = (m, Draining, sp, b, c, None, [], True)"
proof -
  have sp: "sv_spawner s \<noteq> NoSpawner" using assms(2,3) by (simp add: snap)
  obtain s1 where s1: "srv_reachable A regs hash s1" "snapshot s1 = (m, Serving, sp, b, c, None, [], True)"
    using srv_reachable.step [OF assms(1) srv_step.supervises [OF sp sup_step.signal]] assms(2) by (fastforce simp: snap)
  obtain s2 where s2: "srv_reachable A regs hash s2" "snapshot s2 = (m, Flushing, sp, b, c, None, [], True)"
    using srv_reachable.step [OF s1(1) srv_step.stops] s1(2) by (fastforce simp: snap)
  from srv_reachable.step [OF s2(1) srv_step.flushes] s2(2) show ?thesis by (fastforce simp: snap)
qed

theorem ready_means_context_witness:
  "\<exists>s. srv_reachable demo_server demo_regs (\<lambda>_. 0) s \<and> sc_is_ready (service_view demo_server s demo_ctx) \<and>
     (\<exists>c. \<forall>route inner f parts body ct st.
        entry_handler (generated_entry list_lib demo_codecs route inner f) parts body ct (sc_context (service_view demo_server s demo_ctx)) st =
        hyper_handler list_lib demo_codecs route f (Inr c) parts body ct st)"
proof -
  obtain s where s: "srv_reachable demo_server demo_regs (\<lambda>_. 0) s"
    "snapshot s = (MainJoining, Serving, SpawnerWaiting, True, Some (), None, [], False)"
    using booted_run [where c = "()"] by blast
  then have r: "sc_is_ready (service_view demo_server s demo_ctx)"
    by (simp add: sc_is_ready_def service_view_def snap demo_server_def auto_server_new_def config_new_def
        config_default_def is_ready_def readiness_new_def)
  from ready_means_context [OF s(1), of demo_ctx list_lib demo_codecs] s(1) r show ?thesis by blast
qed

theorem shutdown_bounded_witness:
  "\<exists>s t. srv_reachable demo_server demo_regs (\<lambda>_. 0) s \<and> sv_task s = Draining \<and>
     (srv_step demo_server demo_regs (\<lambda>_. 0))\<^sup>*\<^sup>* s t \<and> sv_task t = Served (Inr ()) \<and> sv_spent t \<le> 32 * 1000000000"
proof -
  obtain s0 :: "unit server" where s0: "srv_reachable demo_server demo_regs (\<lambda>_. 0) s0"
    "snapshot s0 = (MainJoining, Serving, SpawnerWaiting, True, Some (), None, [], False)"
    using booted_run [where c = "()"] by blast
  obtain s where s: "srv_reachable demo_server demo_regs (\<lambda>_. 0) s"
    "snapshot s = (MainJoining, Draining, SpawnerWaiting, True, Some (), None, [], True)"
    using signalled [OF s0] by blast
  then have "shutdown (wd (sv_sup s))" "sv_task s \<noteq> Binding" "\<forall>e. sv_task s \<noteq> Served (Inl e)" "sv_task s = Draining"
    by (simp_all add: snap)
  with shutdown_bounded [OF s(1) this(1-3)] s(1) show ?thesis
    by (auto simp: demo_server_def auto_server_new_def from_secs_def)
qed

theorem drained_exactly_witness:
  "\<exists>s t. srv_reachable demo_server demo_regs (\<lambda>_. 0) s \<and> srv_step demo_server demo_regs (\<lambda>_. 0) s t \<and>
     (\<exists>names. sv_drained t = Some names \<and> set names = {''mailer''})"
proof -
  obtain s0 :: "unit server" where s0: "srv_reachable demo_server demo_regs (\<lambda>_. 0) s0"
    "snapshot s0 = (MainJoining, Serving, SpawnerWaiting, True, Some (), None, [], False)"
    using booted_run [where c = "()"] by blast
  obtain s where s: "srv_reachable demo_server demo_regs (\<lambda>_. 0) s"
    "snapshot s = (MainJoining, Draining, SpawnerWaiting, True, Some (), None, [], True)"
    using signalled [OF s0] by blast
  then have f: "sv_task s = Draining" "sv_context s = Some ()" "phases (sv_sup s) = []" by (simp_all add: snap)
  obtain t where t: "srv_step demo_server demo_regs (\<lambda>_. 0) s t" "sv_task t \<noteq> Draining"
    using srv_step.drains [OF f(1) refl] by fastforce
  have d: "distinct (map wi_name (infos_of demo_regs))" "list_all registered demo_regs"
    by (simp add: demo_infos, simp add: demo_regs_def registered.basic)
  have "states (wd (sv_sup s)) = []"
    using disabled_inv_reachable [OF s(1) d(1)] f(3) by (simp add: disabled_inv_def)
  then have no: "\<not> is_disabled n (wd (sv_sup s))" for n by (simp add: is_disabled_def)
  from drained_exactly [OF s(1) t(1) f(1) t(2) d] obtain names where "sv_drained t = Some names" "set names = {''mailer''}"
    unfolding f(2) option.case demo_drains using no by auto
  with s(1) t(1) show ?thesis by blast
qed

subsection \<open>What a shutdown during the boot does\<close>

text \<open>
  A signal during the boot does not stop it: the server drains nothing and, when the boot ends while
  it lingers or later, the workers start after the shutdown and are never drained.
\<close>

lemma late_worker:
  assumes "regs = r # rs"
  shows "\<exists>s. srv_reachable A regs hash s \<and> sv_task s = Served (Inr ()) \<and> sv_drained s = Some [] \<and>
     NotStarted \<in> set (phases (sv_sup s)) \<and> sv_main s = MainJoining"
proof -
  obtain s0 where s0: "srv_reachable A regs hash s0" "snapshot s0 = (MainBooting, Serving, SpawnerWaiting, False, None, None, [], False)"
    using bound_run by blast
  obtain s1 where s1: "srv_reachable A regs hash s1" "snapshot s1 = (MainBooting, Draining, SpawnerWaiting, False, None, None, [], True)"
    using signalled [OF s0] by blast
  obtain s2 d where s2: "srv_reachable A regs hash s2" "snapshot s2 = (MainBooting, Lingering d, SpawnerWaiting, False, None, Some [], [], True)"
    using srv_reachable.step [OF s1(1) srv_step.drains [OF _ refl]] s1(2) by (fastforce simp: snap run_worker_drains_def Let_def)
  obtain s3 c where s3: "srv_reachable A regs hash s3" "snapshot s3 = (MainStored, Lingering d, SpawnerWaiting, False, Some c, Some [], [], True)"
    using srv_reachable.step [OF s2(1) srv_step.boot_ok] s2(2) by (fastforce simp: snap)
  obtain s4 where s4: "srv_reachable A regs hash s4" "snapshot s4 = (MainJoining, Lingering d, SpawnerWaiting, True, Some c, Some [], [], True)"
    using srv_reachable.step [OF s3(1) srv_step.announces] s3(2) by (fastforce simp: snap)
  obtain s5 where s5: "srv_reachable A regs hash s5" "snapshot s5 = (MainJoining, Lingering d, SpawnerBooted, True, Some c, Some [], [], True)"
    using srv_reachable.step [OF s4(1) srv_step.wakes] s4(2) by (fastforce simp: snap)
  obtain s6 where s6: "srv_reachable A regs hash s6"
    "snapshot s6 = (MainJoining, Lingering d, SpawnerGone, True, Some c, Some [], replicate (length (infos_of regs)) NotStarted, True)"
    using srv_reachable.step [OF s5(1) srv_step.spawns] s5(2) by (fastforce simp: snap)
  have "infos_of regs \<noteq> []" by (simp add: infos_of_def get_workers_def assms)
  with srv_reachable.step [OF s6(1) srv_step.ends] s6(2) show ?thesis by (fastforce simp: snap)
qed

text \<open>A server whose socket cannot be bound, or that has shut down, leaves the boot running.\<close>

lemma bind_failure_unnoticed:
  "\<exists>s. srv_reachable A regs hash s \<and> sv_task s = Served (Inl e) \<and> sv_main s = MainBooting \<and> healthz (wd (sv_sup s))"
proof -
  obtain s where s: "srv_reachable A regs hash s" "sv_task s = Binding" "sv_main s = MainBooting" "healthz (wd (sv_sup s))"
    using srv_reachable.step [OF srv_reachable.init srv_step.alive] by (fastforce simp: snap server_init_def)
  from srv_reachable.step [OF s(1) srv_step.bind_fails] s(2-4) show ?thesis by fastforce
qed

text \<open>An accept error ends the server without a flush or a drain, workers or not.\<close>

lemma accept_error_skips_drains:
  "\<exists>s. srv_reachable A regs hash s \<and> sv_task s = Served (Inl e) \<and> sv_drained s = None \<and> sv_booted s"
proof -
  obtain s where s: "srv_reachable A regs hash s" "snapshot s = (MainJoining, Serving, SpawnerWaiting, True, Some undefined, None, [], False)"
    using booted_run [where c = undefined] by blast
  from srv_reachable.step [OF s(1) srv_step.accept_fails] s(2) show ?thesis by (fastforce simp: snap)
qed

text \<open>A request in flight when the shutdown comes is dropped at once, before the flush.\<close>

lemma in_flight_dropped:
  "\<exists>s. srv_reachable A regs hash s \<and> sv_task s = Serving \<and> ConnDropped True \<in> set (sv_conns s)"
proof -
  obtain s0 where "srv_reachable A regs hash s0" "snapshot s0 = (MainJoining, Serving, SpawnerWaiting, True, Some undefined, None, [], False)"
    using booted_run [where c = undefined] by blast
  then have s0: "srv_reachable A regs hash s0" "sv_task s0 = Serving" "sv_spawner s0 \<noteq> NoSpawner" by (simp_all add: snap)
  obtain s1 where s1: "srv_reachable A regs hash s1" "sv_task s1 = Serving" "sv_spawner s1 \<noteq> NoSpawner" "last (sv_conns s1) = ConnOpen False" "sv_conns s1 \<noteq> []"
    using srv_reachable.step [OF s0(1) srv_step.accepts] s0(2,3) by fastforce
  let ?i = "length (sv_conns s1) - 1"
  have "sv_conns s1 ! ?i = ConnOpen False" "?i < length (sv_conns s1)" using s1(4,5) by (simp_all add: last_conv_nth)
  then obtain s2 where s2: "srv_reachable A regs hash s2" "sv_task s2 = Serving" "sv_spawner s2 \<noteq> NoSpawner"
    "sv_conns s2 ! ?i = ConnOpen True" "?i < length (sv_conns s2)"
    using srv_reachable.step [OF s1(1) srv_step.reads_or_answers] s1(2,3) by fastforce
  obtain s3 where s3: "srv_reachable A regs hash s3" "sv_task s3 = Serving" "sv_conns s3 ! ?i = ConnOpen True"
    "?i < length (sv_conns s3)" "shutdown (wd (sv_sup s3))"
    using srv_reachable.step [OF s2(1) srv_step.supervises [OF s2(3) sup_step.signal]] s2 by fastforce
  from srv_reachable.step [OF s3(1) srv_step.drops [OF s3(4,3,5)]] s3(2,4) show ?thesis
    by (fastforce intro: set_update_memI)
qed

end
