(* ===== verification/Lines.thy ===== *)
theory Lines
  imports Prelude
begin

text \<open>
  Text as the standard library cuts it: lines, trimming, splitting once. Whitespace is ASCII.
\<close>

definition is_space :: "char \<Rightarrow> bool" where
  "is_space c \<longleftrightarrow> (of_char c :: nat) = 32 \<or> 9 \<le> (of_char c :: nat) \<and> (of_char c :: nat) \<le> 13"

definition trim :: "string \<Rightarrow> string" where
  "trim s = rev (dropWhile is_space (rev (dropWhile is_space s)))"

text \<open>\<open>str::lines\<close>: a final newline ends the last line; a carriage return before one is dropped.\<close>

definition strip_cr :: "string \<Rightarrow> string" where
  "strip_cr l = (if suffix [CHR 0x0D] l then butlast l else l)"

definition text_lines :: "string \<Rightarrow> string list" where
  "text_lines s =
     (let parts = split_on (CHR 0x0A) s
      in map strip_cr (butlast parts) @ (if last parts = [] then [] else [last parts]))"

definition split_once :: "string \<Rightarrow> string \<Rightarrow> (string \<times> string) option" where
  "split_once pat s = map_option (\<lambda>i. (take i s, drop (i + length pat) s)) (find_str pat s)"

definition rsplit_once :: "char \<Rightarrow> string \<Rightarrow> (string \<times> string) option" where
  "rsplit_once c s =
     (if c \<notin> set s then None
      else Some (rev (tl (dropWhile (\<lambda>x. x \<noteq> c) (rev s))), rev (takeWhile (\<lambda>x. x \<noteq> c) (rev s))))"

definition parse_u64 :: "string \<Rightarrow> nat option" where
  "parse_u64 s = (case parse_unsigned s of Some n \<Rightarrow> if n \<le> u64_max then Some n else None | None \<Rightarrow> None)"

subsection \<open>Facts\<close>

lemma split_unlines:
  "list_all (\<lambda>l. CHR 0x0A \<notin> set l) ls \<Longrightarrow> split_on (CHR 0x0A) (concat (map (\<lambda>l. l @ [CHR 0x0A]) ls)) = ls @ [[]]"
proof (induction ls)
  case (Cons l ls)
  then show ?case using split_on_append_sep [of "CHR 0x0A" l] by simp
qed simp

lemma lines_of_unlines:
  assumes "list_all (\<lambda>l. CHR 0x0A \<notin> set l \<and> \<not> suffix [CHR 0x0D] l) ls"
  shows "text_lines (concat (map (\<lambda>l. l @ [CHR 0x0A]) ls)) = ls"
proof -
  have "list_all (\<lambda>l. CHR 0x0A \<notin> set l) ls" using assms by (simp add: list_all_iff)
  moreover have "map strip_cr ls = ls" using assms by (auto simp: list_all_iff strip_cr_def intro: map_idI)
  ultimately show ?thesis by (simp add: text_lines_def split_unlines)
qed

lemma trim_id:
  assumes "s = [] \<or> \<not> is_space (hd s) \<and> \<not> is_space (last s)"
  shows "trim s = s"
proof -
  have "dropWhile is_space s = s" "dropWhile is_space (rev s) = rev s"
    using assms by (auto simp: dropWhile_eq_self_iff hd_rev)
  then show ?thesis by (simp add: trim_def)
qed

lemma trim_start: "list_all is_space pad \<Longrightarrow> trim (pad @ s) = trim s"
  by (simp add: trim_def dropWhile_append2 list_all_iff)

lemma find_str_first:
  "prefix pat s \<Longrightarrow> find_str pat s = Some 0"
  by (cases s) auto

lemma split_once_first:
  assumes "pat \<noteq> []" "\<And>i. i < length a \<Longrightarrow> \<not> prefix pat (drop i (a @ pat @ b))"
  shows "split_once pat (a @ pat @ b) = Some (a, b)"
proof -
  have "find_str pat (a @ pat @ b) = Some (length a)"
    using assms(2)
  proof (induction a)
    case Nil
    show ?case by (simp add: find_str_first)
  next
    case (Cons x a)
    have "\<not> prefix pat (x # a @ pat @ b)" using Cons.prems [of 0] by simp
    moreover have "find_str pat (a @ pat @ b) = Some (length a)"
      using Cons.prems [of "Suc i" for i] by (intro Cons.IH) simp
    ultimately show ?case by simp
  qed
  then show ?thesis by (simp add: split_once_def)
qed

lemma take_while_all: "c \<notin> set b \<Longrightarrow> takeWhile (\<lambda>x. x \<noteq> c) (b @ c # a) = b" "c \<notin> set b \<Longrightarrow> dropWhile (\<lambda>x. x \<noteq> c) (b @ c # a) = c # a"
  by (induction b) auto

lemma rsplit_once_append: "c \<notin> set b \<Longrightarrow> rsplit_once c (a @ c # b) = Some (a, b)"
  by (simp add: rsplit_once_def take_while_all)

lemma parse_u64_show: "n \<le> u64_max \<Longrightarrow> parse_u64 (show_nat n) = Some n"
  by (simp add: parse_u64_def)

end
