(* ===== verification/Sentry.thy ===== *)
theory Sentry
  imports Lines Service
begin

text \<open>
  The Sentry reporter, \<^verbatim>\<open>crates/flatbed/src/sentry.rs\<close>: the event it makes of each report, the stack trace
  it reads out of a panic's backtrace, and the tracing layer that feeds the same client. The client
  and the conversion of an error into an event are the sentry crate's.
\<close>

subsection \<open>Stack traces\<close>

record frame =
  sf_function :: "string option"
  sf_filename :: "string option"
  sf_abs_path :: "string option"
  sf_lineno :: "nat option"
  sf_colno :: "nat option"
  sf_in_app :: "bool option"

definition frame_default :: frame where
  "frame_default = \<lparr>sf_function = None, sf_filename = None, sf_abs_path = None, sf_lineno = None, sf_colno = None, sf_in_app = None\<rparr>"

definition LIBRARY_PATHS :: "string list" where
  "LIBRARY_PATHS = [''/rustc/'', ''/rustlib/src/rust/'', ''/.cargo/registry/'', ''/.cargo/git/'']"

definition trailing_number :: "string \<Rightarrow> (string \<times> nat) option" where
  "trailing_number s =
     (case rsplit_once CHR '':'' s of
        None \<Rightarrow> None
      | Some (head, tail) \<Rightarrow> map_option (Pair head) (parse_u64 tail))"

definition split_location :: "string \<Rightarrow> string \<times> nat option \<times> nat option" where
  "split_location location =
     (case trailing_number location of
        None \<Rightarrow> (location, None, None)
      | Some (rest, n) \<Rightarrow>
          (case trailing_number rest of
             Some (p, l) \<Rightarrow> (p, Some l, Some n)
           | None \<Rightarrow> (rest, Some n, None)))"

definition set_location :: "string \<Rightarrow> frame \<Rightarrow> frame" where
  "set_location location f =
     (case split_location location of (p, line_no, col_no) \<Rightarrow>
        (let f = (if list_ex (contains_str p) LIBRARY_PATHS then f\<lparr>sf_in_app := Some False\<rparr> else f)
         in f\<lparr>sf_filename := file_name p, sf_abs_path := Some p, sf_lineno := line_no, sf_colno := col_no\<rparr>))"

definition symbol_of :: "string \<Rightarrow> string" where
  "symbol_of l = (case split_once '': '' l of Some (index, symbol) \<Rightarrow> if list_all is_digit index then symbol else l | None \<Rightarrow> l)"

definition push_line :: "frame list \<Rightarrow> string \<Rightarrow> frame list" where
  "push_line frames l =
     (case strip_prefix ''at '' l of
        Some location \<Rightarrow> (if frames = [] then [] else butlast frames @ [set_location location (last frames)])
      | None \<Rightarrow> frames @ [frame_default\<lparr>sf_function := Some (symbol_of l)\<rparr>])"

definition short_backtrace_marker :: string where
  "short_backtrace_marker = ''__rust_end_short_backtrace''"

definition is_marker :: "frame \<Rightarrow> bool" where
  "is_marker f = (case sf_function f of Some n \<Rightarrow> contains_str n short_backtrace_marker | None \<Rightarrow> False)"

definition stacktrace_from_str :: "string \<Rightarrow> frame list option" where
  "stacktrace_from_str backtrace =
     (let frames = foldl push_line [] (map trim (text_lines backtrace));
          machinery = (case position is_marker frames of Some m \<Rightarrow> Suc m | None \<Rightarrow> 0);
          frames = rev (drop machinery frames)
      in if frames = [] then None else Some frames)"

subsection \<open>Events\<close>

record sentry_exception =
  se_type :: string
  se_value :: string
  se_stacktrace :: "frame list option"
  se_handled :: "bool option"

record sentry_event =
  ev_level_error :: bool
  ev_transaction :: "string option"
  ev_message :: "string option"
  ev_exception :: "sentry_exception list"
  ev_tags :: "(string \<times> string) list"
  ev_extra :: "(string \<times> string) list"

definition event_new :: "string option \<Rightarrow> sentry_event" where
  "event_new transaction =
     \<lparr>ev_level_error = True, ev_transaction = transaction, ev_message = None, ev_exception = [], ev_tags = [], ev_extra = []\<rparr>"

definition set_tag :: "string \<Rightarrow> string \<Rightarrow> sentry_event \<Rightarrow> sentry_event" where
  "set_tag k v e = e\<lparr>ev_tags := bt_insert k v (ev_tags e)\<rparr>"

definition route_event :: "route_request \<Rightarrow> sentry_event" where
  "route_event rq =
     (let e = event_new (Some (case rr_method rq of Some m \<Rightarrow> m @ '' '' @ rr_route rq | None \<Rightarrow> rr_route rq));
          e = set_tag ''transport'' (case rr_transport rq of Http \<Rightarrow> ''http'' | Nats \<Rightarrow> ''nats'') e;
          e = set_tag ''route'' (rr_route rq) e;
          e = set_tag ''request_id'' (rr_request_id rq) e;
          e = (case rr_method rq of Some m \<Rightarrow> set_tag ''method'' m e | None \<Rightarrow> e)
      in e\<lparr>ev_extra := bt_insert ''path'' (rr_path rq) (ev_extra e)\<rparr>)"

definition worker_event :: "string \<Rightarrow> sentry_event" where
  "worker_event worker = set_tag ''worker'' worker (event_new (Some worker))"

definition message_event :: "string \<Rightarrow> sentry_event" where
  "message_event m = (event_new None)\<lparr>ev_message := Some m\<rparr>"

text \<open>\<open>rf_status\<close> as decimal text; an error's event and code come from its type.\<close>

definition status_text :: "16 word \<Rightarrow> string" where
  "status_text s = show_nat (unat s)"

definition route_error_event :: "route_failure \<Rightarrow> sentry_event" where
  "route_error_event f =
     (let e = (route_event (rf_request f))\<lparr>ev_exception :=
            [\<lparr>se_type = (case rf_code f of Some c \<Rightarrow> c | None \<Rightarrow> ''HTTP '' @ status_text (rf_status f)),
              se_value = rf_message f, se_stacktrace = None, se_handled = None\<rparr>]\<rparr>;
          e = set_tag ''status'' (status_text (rf_status f)) e
      in case rf_code f of Some c \<Rightarrow> set_tag ''code'' c e | None \<Rightarrow> e)"

definition panic_event :: "panic_report \<Rightarrow> sentry_event" where
  "panic_event p =
     (let e = (case pr_site p of
            SiteRoute rq \<Rightarrow> set_tag ''code'' PANIC_CODE (set_tag ''status'' ''500'' (route_event rq))
          | SiteWorker w \<Rightarrow> worker_event w)
      in e\<lparr>ev_exception := [\<lparr>se_type = ''panic'', se_value = pr_message p,
             se_stacktrace = Option.bind (pr_backtrace p) stacktrace_from_str, se_handled = Some True\<rparr>]\<rparr>)"

record error_type =
  et_event :: "string \<Rightarrow> sentry_event"
  et_code :: "string \<Rightarrow> string"

definition worker_failure_event :: "error_type \<Rightarrow> worker_failure \<Rightarrow> sentry_event" where
  "worker_failure_event E f =
     (let e = (case wf_error f of
            Some err \<Rightarrow> set_tag ''code'' (et_code E err) (et_event E err)
          | None \<Rightarrow> message_event (if wf_restarts_exhausted f then ''worker exhausted its restart policy'' else ''worker exited''));
          w = worker_event (wf_worker f);
          e = e\<lparr>ev_transaction := ev_transaction w, ev_tags := fold (\<lambda>(k, v). bt_insert k v) (ev_tags w) (ev_tags e)\<rparr>
      in set_tag ''restarts_exhausted'' (if wf_restarts_exhausted f then ''true'' else ''false'') e)"

definition report_event :: "error_type \<Rightarrow> report \<Rightarrow> sentry_event" where
  "report_event E r =
     (case r of
        RouteErrorReport f \<Rightarrow> route_error_event f
      | PanicReport p \<Rightarrow> panic_event p
      | WorkerFailureReport f \<Rightarrow> worker_failure_event E f)"

subsection \<open>The tracing layer\<close>

datatype trace_level = LevelError | LevelWarn | LevelInfo | LevelDebug | LevelTrace

fun verbosity :: "trace_level \<Rightarrow> nat" where
  "verbosity LevelError = 0"
| "verbosity LevelWarn = 1"
| "verbosity LevelInfo = 2"
| "verbosity LevelDebug = 3"
| "verbosity LevelTrace = 4"

text \<open>An event's level and its boolean fields in the order they are visited.\<close>

record trace_event =
  te_level :: trace_level
  te_bools :: "(string \<times> bool) list"

definition REPORTED_FIELD :: string where
  "REPORTED_FIELD = ''flatbed.reported''"

definition reported :: "trace_event \<Rightarrow> bool" where
  "reported ev = fold (\<lambda>(k, v) acc. if k = REPORTED_FIELD then v else acc) (te_bools ev) False"

datatype event_mapping = Ignore | AsEvent | AsBreadcrumb | AsLog | Combined "event_mapping list"

definition map_event :: "bool \<Rightarrow> trace_event \<Rightarrow> event_mapping" where
  "map_event logs ev =
     (if verbosity (te_level ev) > verbosity LevelInfo then Ignore
      else (let mapping = (if te_level ev = LevelError \<and> \<not> reported ev then AsEvent else AsBreadcrumb)
            in if \<not> logs then mapping else Combined [mapping, AsLog]))"

text \<open>How many Sentry events a mapping makes.\<close>

fun events_in :: "event_mapping \<Rightarrow> nat" where
  "events_in AsEvent = 1"
| "events_in (Combined ms) = sum_list (map events_in ms)"
| "events_in _ = 0"

text \<open>The log lines of \<open>route_error\<close> and \<open>route_panic\<close> as the layer sees them.\<close>

definition trace_of :: "log_event \<Rightarrow> trace_event" where
  "trace_of l =
     \<lparr>te_level = LevelError,
      te_bools = [(REPORTED_FIELD, case l of RouteFailed f r \<Rightarrow> r | RoutePanicked rq m r \<Rightarrow> r)]\<rparr>"

text \<open>What a process has sent: an event for each report, and what the layer made of the log.\<close>

definition sent_events :: "bool \<Rightarrow> reporting \<Rightarrow> nat" where
  "sent_events logs st = length (delivered st) + sum_list (map (\<lambda>l. events_in (map_event logs (trace_of l))) (logged st))"

subsection \<open>Reading a backtrace back\<close>

text \<open>
  The display of a backtrace: a symbol with its index, or without one when it was inlined into the
  symbol before, and on a line of its own where it is.
\<close>

record bt_symbol =
  sy_index :: "nat option"
  sy_name :: string
  sy_at :: "(string \<times> nat \<times> nat option) option"

definition blanks :: "nat \<Rightarrow> string" where
  "blanks n = replicate n (CHR '' '')"

definition location_text :: "string \<times> nat \<times> nat option \<Rightarrow> string" where
  "location_text = (\<lambda>(p, l, c). p @ '':'' @ show_nat l @ (case c of Some k \<Rightarrow> '':'' @ show_nat k | None \<Rightarrow> []))"

definition symbol_text :: "bt_symbol \<Rightarrow> string" where
  "symbol_text y = (case sy_index y of Some n \<Rightarrow> show_nat n @ '': '' | None \<Rightarrow> []) @ sy_name y"

definition symbol_pad :: "bt_symbol \<Rightarrow> string" where
  "symbol_pad y = blanks (case sy_index y of Some n \<Rightarrow> 4 - length (show_nat n) | None \<Rightarrow> 6)"

definition symbol_lines :: "bt_symbol \<Rightarrow> string list" where
  "symbol_lines y =
     (symbol_pad y @ symbol_text y) #
     (case sy_at y of Some at \<Rightarrow> [blanks 13 @ ''at '' @ location_text at] | None \<Rightarrow> [])"

definition backtrace_text :: "bt_symbol list \<Rightarrow> string" where
  "backtrace_text ys = concat (map (\<lambda>l. l @ [CHR 0x0A]) (concat (map symbol_lines ys)))"

text \<open>The frame a symbol stands for.\<close>

definition frame_of :: "bt_symbol \<Rightarrow> frame" where
  "frame_of y =
     (let f = frame_default\<lparr>sf_function := Some (sy_name y)\<rparr>
      in case sy_at y of
           None \<Rightarrow> f
         | Some (p, l, c) \<Rightarrow>
             f\<lparr>sf_filename := file_name p, sf_abs_path := Some p, sf_lineno := Some l, sf_colno := c,
               sf_in_app := (if list_ex (contains_str p) LIBRARY_PATHS then Some False else None)\<rparr>)"

text \<open>Names and paths on one line, and not to be mistaken for another part of it.\<close>

definition one_line :: "string \<Rightarrow> bool" where
  "one_line s \<longleftrightarrow> s \<noteq> [] \<and> CHR 0x0A \<notin> set s \<and> \<not> is_space (hd s) \<and> \<not> is_space (last s)"

definition symbol_ok :: "bt_symbol \<Rightarrow> bool" where
  "symbol_ok y \<longleftrightarrow> one_line (sy_name y) \<and> (sy_index y = None \<longrightarrow> \<not> prefix ''at '' (sy_name y) \<and> symbol_of (sy_name y) = sy_name y) \<and>
     (case sy_at y of
        None \<Rightarrow> True
      | Some (p, l, c) \<Rightarrow> CHR 0x0A \<notin> set p \<and> l \<le> u64_max \<and>
          (case c of Some k \<Rightarrow> k \<le> u64_max | None \<Rightarrow> trailing_number p = None))"

lemma digits_plain: "list_all is_digit s \<Longrightarrow> CHR '':'' \<notin> set s \<and> CHR 0x0A \<notin> set s \<and> list_all (\<lambda>c. \<not> is_space c) s"
  by (auto simp: list_all_iff is_digit_def is_space_def)

lemma show_plain: "CHR '':'' \<notin> set (show_nat n)" "CHR 0x0A \<notin> set (show_nat n)" "\<not> is_space (hd (show_nat n))" "\<not> is_space (last (show_nat n))"
  "show_nat n \<noteq> []"
  using digits_plain [of "show_nat n"] show_nat_digits [of n] by (auto simp: list_all_iff)

lemma trailing_show: "n \<le> u64_max \<Longrightarrow> trailing_number (s @ '':'' @ show_nat n) = Some (s, n)"
  using rsplit_once_append [OF show_plain(1), of s n] by (simp add: trailing_number_def parse_u64_show)

lemma split_location_text:
  assumes "l \<le> u64_max" "case c of Some k \<Rightarrow> k \<le> u64_max | None \<Rightarrow> trailing_number p = None"
  shows "split_location (location_text (p, l, c)) = (p, Some l, c)"
proof (cases c)
  case None
  then show ?thesis using assms trailing_show [OF assms(1), of p] by (simp add: split_location_def location_text_def)
next
  case (Some k)
  have "trailing_number ((p @ '':'' @ show_nat l) @ '':'' @ show_nat k) = Some (p @ '':'' @ show_nat l, k)"
    using assms Some by (intro trailing_show) simp
  then show ?thesis
    using trailing_show [OF assms(1), of p] by (simp add: Some split_location_def location_text_def)
qed

lemma blanks_space: "list_all is_space (blanks n)" "CHR 0x0A \<notin> set (blanks n)"
  by (simp_all add: blanks_def is_space_def list_all_iff)

lemma no_cr: "s \<noteq> [] \<Longrightarrow> \<not> is_space (last s) \<Longrightarrow> \<not> suffix [CHR 0x0D] s"
  by (auto simp: suffix_def is_space_def)

lemma split_symbol: "split_once '': '' (show_nat n @ '': '' @ name) = Some (show_nat n, name)"
proof (rule split_once_first)
  fix i assume i: "i < length (show_nat n)"
  have "show_nat n ! i \<noteq> CHR '':''" using show_plain(1) [of n] i by (metis nth_mem)
  moreover have "drop i (show_nat n @ '': '' @ name) = show_nat n ! i # drop (Suc i) (show_nat n) @ '': '' @ name"
    using i by (simp add: Cons_nth_drop_Suc [symmetric])
  ultimately show "\<not> prefix '': '' (drop i (show_nat n @ '': '' @ name))" by simp
qed simp

lemma symbol_text_ok:
  assumes "symbol_ok y"
  shows "one_line (symbol_text y)" "strip_prefix ''at '' (symbol_text y) = None" "symbol_of (symbol_text y) = sy_name y"
proof -
  have n: "one_line (sy_name y)" using assms by (simp add: symbol_ok_def)
  show "one_line (symbol_text y)"
    using n show_plain by (cases "sy_index y") (auto simp: one_line_def symbol_text_def)
  show "strip_prefix ''at '' (symbol_text y) = None"
  proof (cases "sy_index y")
    case None
    then show ?thesis using assms by (simp add: symbol_ok_def symbol_text_def strip_prefix_def)
  next
    case (Some k)
    obtain d ds where d: "show_nat k = d # ds" "is_digit d"
      using show_nat_digits [of k] by (cases "show_nat k") auto
    then have "d \<noteq> CHR ''a''" by (auto simp: is_digit_def)
    then show ?thesis using d(1) by (simp add: Some symbol_text_def strip_prefix_def)
  qed
  show "symbol_of (symbol_text y) = sy_name y"
  proof (cases "sy_index y")
    case None
    then show ?thesis using assms by (simp add: symbol_ok_def symbol_text_def)
  next
    case (Some k)
    then show ?thesis using split_symbol [of k "sy_name y"] show_nat_digits [of k] by (simp add: symbol_text_def symbol_of_def)
  qed
qed

lemma trim_one_line: "one_line s \<Longrightarrow> trim (blanks n @ s) = s"
  using trim_start [OF blanks_space(1)] trim_id [of s] by (simp add: one_line_def)

lemma location_one_line:
  assumes "CHR 0x0A \<notin> set p"
  shows "one_line (''at '' @ location_text (p, l, c))"
  using show_plain assms by (auto simp: one_line_def location_text_def is_space_def split: option.split)

lemma push_symbol:
  assumes "symbol_ok y"
  shows "foldl push_line frames (map trim (symbol_lines y)) = frames @ [frame_of y]"
proof -
  have first: "push_line frames (trim (symbol_pad y @ symbol_text y)) = frames @ [frame_default\<lparr>sf_function := Some (sy_name y)\<rparr>]"
    using symbol_text_ok [OF assms] trim_one_line by (simp add: push_line_def symbol_pad_def)
  show ?thesis
  proof (cases "sy_at y")
    case None
    then show ?thesis using first by (simp add: symbol_lines_def frame_of_def)
  next
    case (Some at)
    obtain p l c where at: "at = (p, l, c)" by (cases at)
    have p: "CHR 0x0A \<notin> set p" "l \<le> u64_max" "case c of Some k \<Rightarrow> k \<le> u64_max | None \<Rightarrow> trailing_number p = None"
      using assms by (simp_all add: symbol_ok_def Some at)
    have "trim (blanks 13 @ ''at '' @ location_text (p, l, c)) = ''at '' @ location_text (p, l, c)"
      by (rule trim_one_line [OF location_one_line [OF p(1)]])
    moreover have "strip_prefix ''at '' (''at '' @ location_text (p, l, c)) = Some (location_text (p, l, c))"
      by (simp add: strip_prefix_def)
    ultimately show ?thesis
      using first split_location_text [OF p(2,3)]
      by (simp add: symbol_lines_def Some at push_line_def set_location_def frame_of_def frame_default_def Let_def)
  qed
qed

lemma push_symbols:
  "list_all symbol_ok ys \<Longrightarrow> foldl push_line frames (map trim (concat (map symbol_lines ys))) = frames @ map frame_of ys"
  by (induction ys arbitrary: frames) (simp_all add: push_symbol)

lemma symbol_lines_ok:
  assumes "symbol_ok y"
  shows "list_all (\<lambda>l. CHR 0x0A \<notin> set l \<and> \<not> suffix [CHR 0x0D] l) (symbol_lines y)"
proof -
  have ok: "CHR 0x0A \<notin> set (blanks n @ s) \<and> \<not> suffix [CHR 0x0D] (blanks n @ s)" if "one_line s" for n s
    using that blanks_space(2) [of n] no_cr [of "blanks n @ s"] by (simp add: one_line_def)
  have "one_line (''at '' @ location_text at)" if "sy_at y = Some at" for at
  proof -
    obtain p l c where at: "at = (p, l, c)" by (cases at)
    have "CHR 0x0A \<notin> set p" using assms that by (simp add: symbol_ok_def at)
    then show ?thesis unfolding at by (rule location_one_line)
  qed
  note at_line = ok [OF this]
  show ?thesis
  proof (cases "sy_at y")
    case None
    then show ?thesis using ok [OF symbol_text_ok(1) [OF assms]] by (simp add: symbol_lines_def symbol_pad_def)
  next
    case (Some at)
    show ?thesis
      unfolding symbol_lines_def symbol_pad_def Some option.case
      using ok [OF symbol_text_ok(1) [OF assms]] at_line [OF Some] by (auto simp only: list_all_iff list.set)
  qed
qed

lemma position_map: "position P (map f xs) = position (P \<circ> f) xs"
  by (induction xs) auto

definition in_machinery :: "bt_symbol \<Rightarrow> bool" where
  "in_machinery y = contains_str (sy_name y) short_backtrace_marker"

definition after_machinery :: "bt_symbol list \<Rightarrow> bt_symbol list" where
  "after_machinery ys = (if list_ex in_machinery ys then tl (dropWhile (Not \<circ> in_machinery) ys) else ys)"

lemma marker_frame: "is_marker \<circ> frame_of = in_machinery"
  by (auto simp: is_marker_def frame_of_def in_machinery_def frame_default_def Let_def fun_eq_iff split: option.split)

lemma drop_machinery:
  "drop (case position in_machinery ys of Some m \<Rightarrow> Suc m | None \<Rightarrow> 0) ys = after_machinery ys"
proof (cases "position in_machinery ys")
  case None
  then have "\<not> list_ex in_machinery ys" by (auto simp: list_ex_iff)
  then show ?thesis unfolding after_machinery_def None by simp
next
  case (Some m)
  then have "drop (Suc m) ys = tl (dropWhile (Not \<circ> in_machinery) ys)" "list_ex in_machinery ys"
    by (induction ys arbitrary: m) (auto split: if_splits)
  then show ?thesis by (simp add: Some after_machinery_def)
qed

text \<open>
  C31. The stack trace of a panic is its backtrace: whatever symbols a backtrace displays, inlined ones
  and ones without a place included, the reporter reads the same symbols back, with their files,
  lines and columns, oldest first, without the frames up to the panic machinery's marker, and the
  frames of libraries marked as not the application's; nothing is left only when nothing is beyond
  the marker.
\<close>

theorem backtrace_read:
  assumes "list_all symbol_ok ys"
  shows "stacktrace_from_str (backtrace_text ys) =
    (if after_machinery ys = [] then None else Some (map frame_of (rev (after_machinery ys))))"
proof -
  have "list_all (\<lambda>l. CHR 0x0A \<notin> set l \<and> \<not> suffix [CHR 0x0D] l) (concat (map symbol_lines ys))"
    using assms symbol_lines_ok by (fastforce simp: list_all_iff)
  then have frames: "foldl push_line [] (map trim (text_lines (backtrace_text ys))) = map frame_of ys"
    unfolding backtrace_text_def by (simp add: lines_of_unlines push_symbols [OF assms, of "[]", simplified])
  show ?thesis
    unfolding stacktrace_from_str_def frames Let_def position_map marker_frame
    by (simp add: drop_map drop_machinery rev_map)
qed

definition demo_backtrace :: "bt_symbol list" where
  "demo_backtrace =
     [\<lparr>sy_index = Some 0, sy_name = ''std::panicking::begin'', sy_at = Some (''/rustc/ab/panicking.rs'', 9, Some 5)\<rparr>,
      \<lparr>sy_index = Some 1, sy_name = ''std::sys::__rust_end_short_backtrace'', sy_at = None\<rparr>,
      \<lparr>sy_index = None, sy_name = ''app::inner'', sy_at = Some (''./src/main.rs'', 12, Some 3)\<rparr>,
      \<lparr>sy_index = Some 12, sy_name = ''app::main'', sy_at = Some (''./src/main.rs'', 40, None)\<rparr>]"

theorem backtrace_read_witness:
  "map_option (map sf_lineno) (stacktrace_from_str (backtrace_text demo_backtrace)) = Some [Some 40, Some 12]"
proof -
  have "list_all symbol_ok demo_backtrace"
    by (simp add: demo_backtrace_def symbol_ok_def one_line_def is_space_def u64_max_def symbol_of_def split_once_def
        trailing_number_def rsplit_once_def)
  show ?thesis unfolding backtrace_read [OF \<open>list_all symbol_ok demo_backtrace\<close>] by code_simp
qed

subsection \<open>One event per failure\<close>

text \<open>What is logged under a reporter is marked as reported.\<close>

definition quiet :: "reporting \<Rightarrow> reporting \<Rightarrow> bool" where
  "quiet st st' \<longleftrightarrow> reporter st' = reporter st \<and>
     (\<exists>ls. logged st' = logged st @ ls \<and> list_all (reported \<circ> trace_of) ls)"

lemma quiet_refl [simp]: "quiet st st"
  by (simp add: quiet_def)

lemma quiet_trans: "quiet a b \<Longrightarrow> quiet b c \<Longrightarrow> quiet a c"
  by (fastforce simp: quiet_def)

lemma reported_trace: "reported (trace_of (RouteFailed f r)) = r" "reported (trace_of (RoutePanicked rq m r)) = r"
  by (simp_all add: reported_def trace_of_def)

lemma quiet_route:
  "reporter st = Some n \<Longrightarrow> quiet st (route_error f st)" "reporter st = Some n \<Longrightarrow> quiet st (route_panic rq p st)"
  by (simp_all add: quiet_def route_error_eq route_panic_eq reported_trace)

lemma quiet_hook: "quiet st (snd (caught_panic_of pl (run_hook bt st)))"
  by (simp add: quiet_def caught_panic_of_def run_hook_def)

lemma quiet_handler:
  assumes "reporter st = Some n"
  shows "quiet st (snd (hyper_handler L cd route f ctx parts body ct st))"
  using quiet_route(1) [OF assms]
  by (auto simp: hyper_handler_def report_http_route_error_def split: sum.split outcome.split)

lemma quiet_after:
  assumes "reporter st = Some n"
  shows "quiet st (snd (after_handler L route fb rid res st))"
proof (cases res)
  case (Returns r)
  then show ?thesis using quiet_route(1) [OF assms]
    by (cases r) (auto simp: after_handler_def catch_poll_def case_prod_unfold Let_def)
next
  case (Panics pl bt)
  let ?st = "snd (caught_panic_of pl (run_hook bt st))"
  have "reporter ?st = Some n" using assms by (simp add: caught_panic_of_def run_hook_def)
  then have "quiet ?st (route_panic route (fst (caught_panic_of pl (run_hook bt st))) ?st)" by (rule quiet_route(2))
  with quiet_hook have "quiet st (route_panic route (fst (caught_panic_of pl (run_hook bt st))) ?st)" by (rule quiet_trans)
  then show ?thesis by (simp add: Panics after_handler_def catch_poll_def case_prod_unfold)
qed

lemma quiet_answer:
  assumes "reporter st = Some n"
  shows "quiet st (snd (answer_route L cx uuid rq (generated_entry L cd route inner f) params st))"
proof -
  have handled: "quiet st (snd (case hyper_handler L cd route f ctx parts body ct st of (res, st') \<Rightarrow> after_handler L rt fb rid res st'))"
    for ctx parts body ct rt fb rid
  proof -
    obtain res st' where h: "hyper_handler L cd route f ctx parts body ct st = (res, st')" by fastforce
    then have q: "quiet st st'" using quiet_handler [OF assms, of L cd route f ctx parts body ct] by simp
    then have "reporter st' = Some n" using assms by (simp add: quiet_def)
    from quiet_trans [OF q quiet_after [OF this]] show ?thesis by (simp add: h)
  qed
  show ?thesis
    using handled quiet_route(1) [OF assms]
    by (auto simp: answer_route_def generated_entry_def Let_def split: option.split sum.split)
qed

lemma quiet_events:
  assumes "quiet st st'"
  shows "sum_list (map (\<lambda>l. events_in (map_event logs (trace_of l))) (logged st')) =
    sum_list (map (\<lambda>l. events_in (map_event logs (trace_of l))) (logged st))"
proof -
  obtain ls where ls: "logged st' = logged st @ ls" "list_all (reported \<circ> trace_of) ls" using assms by (auto simp: quiet_def)
  have "events_in (map_event logs (trace_of l)) = 0" if "l \<in> set ls" for l
    using ls(2) that by (auto simp: list_all_iff map_event_def Let_def)
  then have "sum_list (map (\<lambda>l. events_in (map_event logs (trace_of l))) ls) = 0" by simp
  then show ?thesis by (simp add: ls(1))
qed

text \<open>
  C36. One event per failure: with the reporter installed and its layer on the log, whether it also
  sends logs or not, a request dispatched to a route makes exactly one Sentry event when its answer
  is a server error that is not the function's own \<open>Ok\<close>, the report and the log line of the same
  failure together, and none otherwise. An \<open>Ok\<close> answer makes no event, whatever its status.
\<close>

theorem one_sentry_event:
  assumes "http_ok L" "reporter st = Some n" "sc_is_ready cx"
    and "builtin_endpoint L cx (hq_method rq) (hq_path rq) = None"
    and "match_route (sc_router cx) (hq_path rq) (hq_method rq) = Some (generated_entry L cd route inner f, params)"
  shows "\<exists>r. fst (dispatch L cx uuid rq st) = Some r \<and>
     sent_events logs (snd (dispatch L cx uuid rq st)) = sent_events logs st +
       (if is_server_error (hr_status r) \<and> \<not> answers_ok L cx uuid rq cd f params then 1 else 0)"
proof -
  let ?res = "answer_route L cx uuid rq (generated_entry L cd route inner f) params st"
  have d: "dispatch L cx uuid rq st = ?res" using assms(3-5) by (simp add: dispatch_def)
  have once: "reported_once n st (answers_ok L cx uuid rq cd f params) ?res"
    by (rule answer_route_reported_once [OF assms(1,2)])
  then obtain r reps where r: "fst ?res = Some r" "delivered (snd ?res) = delivered st @ map (Pair n) reps"
    "length reps = (if is_server_error (hr_status r) \<and> \<not> answers_ok L cx uuid rq cd f params then 1 else 0)"
    by (auto simp: reported_once_def)
  have "sent_events logs (snd ?res) = sent_events logs st + length reps"
    using quiet_events [OF quiet_answer [OF assms(2)], where logs = logs] r(2) by (simp add: sent_events_def)
  then show ?thesis using r(1,3) unfolding d by auto
qed

theorem one_sentry_event_witness:
  "\<exists>r. fst (dispatch list_lib (demo_live (\<lambda>_. Panics (StaticStr ''boom'') ''bt'')) ''id'' (demo_request ''POST'' ''/ping'')
        (install 1 reporting_new)) = Some r \<and>
     sent_events True (snd (dispatch list_lib (demo_live (\<lambda>_. Panics (StaticStr ''boom'') ''bt'')) ''id'' (demo_request ''POST'' ''/ping'')
        (install 1 reporting_new))) = (if is_server_error (hr_status r) then 1 else 0)"
proof -
  have i: "reporter (install 1 reporting_new) = Some 1" "sent_events True (install 1 reporting_new) = 0"
    by (simp_all add: install_def reporting_new_def sent_events_def)
  from one_sentry_event [OF list_lib_ok i(1) demo_live_ready(1), where rq = "demo_request ''POST'' ''/ping''" and logs = True and uuid = "''id''"
      and f = "\<lambda>_. Panics (StaticStr ''boom'') ''bt''" and cd = demo_codecs and route = "''/ping''" and inner = "[]" and params = Map.empty]
  show ?thesis using demo_live_ready i(2) by (simp add: demo_not_ok)
qed

end
