(* ===== verification/FbsTypes.thy ===== *)
theory FbsTypes
  imports Prelude
begin

text \<open>
  The adapter language of \<^verbatim>\<open>crates/flatbed_build/src/fbs_types.rs\<close>: the strings that name a
  field's type between the reflection and the code generators, and the Rust types they stand
  for. A panic of the code generator, which fails the user's build, is \<open>Inl\<close> of its message.
\<close>

text \<open>The Rust scalar of each scalar name, the names of the schema language included.\<close>

definition rust_scalars :: "(string \<times> string) list" where
  "rust_scalars =
     [(''bool'', ''bool''), (''byte'', ''i8''), (''int8'', ''i8''), (''ubyte'', ''u8''), (''uint8'', ''u8''),
      (''short'', ''i16''), (''int16'', ''i16''), (''ushort'', ''u16''), (''uint16'', ''u16''),
      (''int'', ''i32''), (''int32'', ''i32''), (''uint'', ''u32''), (''uint32'', ''u32''),
      (''long'', ''i64''), (''int64'', ''i64''), (''ulong'', ''u64''), (''uint64'', ''u64''),
      (''float'', ''f32''), (''float32'', ''f32''), (''double'', ''f64''), (''float64'', ''f64'')]"

definition is_vector_type :: "string \<Rightarrow> bool" where
  "is_vector_type t \<longleftrightarrow> prefix ''['' t \<and> suffix '']'' t"

definition vector_inner_type :: "string \<Rightarrow> string" where
  "vector_inner_type t = trim_end_matches (CHR '']'') (trim_start_matches (CHR ''['') t)"

definition fbs_type_to_rust_serde :: "string \<Rightarrow> string" where
  "fbs_type_to_rust_serde t =
     (if is_vector_type t then
        (let inner = vector_inner_type t
         in if inner = ''string'' then ''Option<Vec<String>>''
            else (case map_of rust_scalars inner of Some r \<Rightarrow> ''Option<Vec<'' @ r @ ''>>'' | None \<Rightarrow> []))
      else if t = ''string'' then ''Option<String>''
      else (case map_of rust_scalars t of Some r \<Rightarrow> r | None \<Rightarrow> []))"

definition fbs_type_to_rust_type :: "string \<Rightarrow> string list \<Rightarrow> string list \<Rightarrow> string + string" where
  "fbs_type_to_rust_type t tables enums =
     (let primitive = fbs_type_to_rust_serde t
      in if primitive \<noteq> [] then Inr primitive
         else if is_vector_type t then
           (let inner = vector_inner_type t
            in if list_ex (\<lambda>x. x = inner) tables then Inr (''Option<Vec<'' @ inner @ ''>>'')
               else if list_ex (\<lambda>x. x = inner) enums then Inr (''Option<Vec<'' @ inner @ ''>>'')
               else Inl (''unsupported vector element type '' @ inner))
         else if list_ex (\<lambda>x. x = t) tables then Inr (''Option<'' @ t @ ''>'')
         else if list_ex (\<lambda>x. x = t) enums then Inr t
         else Inl (''unknown field type '' @ t))"

definition is_table_type :: "string \<Rightarrow> string list \<Rightarrow> bool" where
  "is_table_type t tables \<longleftrightarrow>
     fbs_type_to_rust_serde t = [] \<and> \<not> is_vector_type t \<and> list_ex (\<lambda>x. x = t) tables"

definition is_table_vector :: "string \<Rightarrow> string list \<Rightarrow> bool" where
  "is_table_vector t tables \<longleftrightarrow> is_vector_type t \<and> list_ex (\<lambda>x. x = vector_inner_type t) tables"

definition is_enum_type :: "string \<Rightarrow> string list \<Rightarrow> bool" where
  "is_enum_type t enums \<longleftrightarrow>
     fbs_type_to_rust_serde t = [] \<and> \<not> is_vector_type t \<and> list_ex (\<lambda>x. x = t) enums"

definition is_enum_vector :: "string \<Rightarrow> string list \<Rightarrow> bool" where
  "is_enum_vector t enums \<longleftrightarrow> is_vector_type t \<and> list_ex (\<lambda>x. x = vector_inner_type t) enums"

definition is_optional_type :: "string \<Rightarrow> bool" where
  "is_optional_type t \<longleftrightarrow> t = ''string'' \<or> is_vector_type t"

subsection \<open>Names and vectors of names\<close>

text \<open>What flatc lets a type be called: an identifier that is not a scalar's name.\<close>

definition is_ident_char :: "char \<Rightarrow> bool" where
  "is_ident_char c \<longleftrightarrow>
     c \<noteq> CHR ''['' \<and> c \<noteq> CHR '']'' \<and> c \<noteq> CHR ''.''"

definition type_name :: "string \<Rightarrow> bool" where
  "type_name n \<longleftrightarrow> n \<noteq> [] \<and> list_all is_ident_char n \<and> n \<noteq> ''string'' \<and> map_of rust_scalars n = None"

definition plain_name :: "string \<Rightarrow> bool" where
  "plain_name n \<longleftrightarrow> n \<noteq> [] \<and> list_all is_ident_char n"

definition vector_type :: "string \<Rightarrow> string" where
  "vector_type n = ''['' @ n @ '']''"

lemma plain_not_vector: "plain_name n \<Longrightarrow> \<not> is_vector_type n"
  by (cases n) (auto simp: plain_name_def is_vector_type_def is_ident_char_def)

lemma vector_of_plain:
  assumes "plain_name n"
  shows "is_vector_type (vector_type n)" and "vector_inner_type (vector_type n) = n"
proof -
  show "is_vector_type (vector_type n)"
    by (simp add: is_vector_type_def vector_type_def suffix_def)
  obtain c cs where n: "n = c # cs" "c \<noteq> CHR ''[''"
    using assms by (cases n) (auto simp: plain_name_def is_ident_char_def)
  have "last n \<noteq> CHR '']''"
    using assms by (metis (no_types, lifting) is_ident_char_def last_in_set list_all_iff plain_name_def)
  moreover have "rev n = last n # rev (butlast n)"
    using n(1) by (metis append_butlast_last_id list.distinct(1) rev_eq_Cons_iff rev_rev_ident)
  ultimately obtain d ds where r: "rev n = d # ds" "d \<noteq> CHR '']''" by blast
  show "vector_inner_type (vector_type n) = n"
  proof -
    have "dropWhile (\<lambda>x. x = CHR ''['') (vector_type n) = n @ '']''"
      using n by (simp add: vector_type_def)
    moreover have "dropWhile (\<lambda>x. x = CHR '']'') (rev (n @ '']'')) = rev n"
      using r by simp
    ultimately show ?thesis by (simp add: vector_inner_type_def trim_start_matches_def trim_end_matches_def)
  qed
qed

lemma vector_type_not_plain: "\<not> plain_name (vector_type n)"
  by (simp add: plain_name_def vector_type_def is_ident_char_def)

lemma scalar_plain: "map_of rust_scalars n = Some r \<Longrightarrow> plain_name n \<and> r \<noteq> []"
proof -
  have "list_all (\<lambda>(k, r). plain_name k \<and> r \<noteq> []) rust_scalars" by code_simp
  then show "map_of rust_scalars n = Some r \<Longrightarrow> plain_name n \<and> r \<noteq> []"
    by (auto simp: list_all_iff dest!: map_of_SomeD)
qed

lemma string_plain: "plain_name ''string''"
  by code_simp

lemma type_name_plain: "type_name n \<Longrightarrow> plain_name n"
  by (simp add: type_name_def plain_name_def)

lemma type_name_not_primitive:
  assumes "type_name n"
  shows "fbs_type_to_rust_serde n = []" and "fbs_type_to_rust_serde (vector_type n) = []"
  using assms plain_not_vector [OF type_name_plain] vector_of_plain [OF type_name_plain]
  by (simp_all add: fbs_type_to_rust_serde_def type_name_def Let_def)

text \<open>Every well-formed type string of a schema has a Rust type: the four shapes of the language.\<close>

inductive known_type :: "string list \<Rightarrow> string list \<Rightarrow> string \<Rightarrow> bool" for tables enums :: "string list" where
  kt_scalar: "map_of rust_scalars t = Some r \<or> t = ''string'' \<Longrightarrow> known_type tables enums t"
| kt_table: "t \<in> set tables \<Longrightarrow> known_type tables enums t"
| kt_enum: "t \<in> set enums \<Longrightarrow> known_type tables enums t"
| kt_vector: "map_of rust_scalars t = Some r \<or> t = ''string'' \<or> t \<in> set tables \<or> t \<in> set enums \<Longrightarrow>
    known_type tables enums (vector_type t)"

lemma known_type_has_rust_type:
  assumes "known_type tables enums t" "list_all type_name tables" "list_all type_name enums"
  shows "\<exists>r. fbs_type_to_rust_type t tables enums = Inr r"
  using assms(1)
proof cases
  case (kt_scalar r)
  then have "plain_name t" using scalar_plain string_plain by blast
  then have "fbs_type_to_rust_serde t \<noteq> []"
    using kt_scalar scalar_plain [of t r] plain_not_vector by (auto simp: fbs_type_to_rust_serde_def)
  then show ?thesis by (simp add: fbs_type_to_rust_type_def)
next
  case kt_table
  then have "plain_name t" using assms(2) by (auto simp: list_all_iff type_name_plain)
  then show ?thesis using kt_table plain_not_vector [of t]
    by (auto simp: fbs_type_to_rust_type_def Let_def list_ex_iff)
next
  case kt_enum
  then have "plain_name t" using assms(3) by (auto simp: list_all_iff type_name_plain)
  then show ?thesis using kt_enum plain_not_vector [of t]
    by (auto simp: fbs_type_to_rust_type_def Let_def list_ex_iff)
next
  case (kt_vector u r)
  then have u: "plain_name u"
    using assms(2,3) scalar_plain string_plain by (auto simp: list_all_iff type_name_plain)
  show ?thesis
  proof (cases "u \<in> set tables \<or> u \<in> set enums")
    case True
    then show ?thesis using vector_of_plain [OF u] kt_vector(1)
      by (auto simp: fbs_type_to_rust_type_def Let_def list_ex_iff)
  next
    case False
    then have "fbs_type_to_rust_serde t \<noteq> []"
      using vector_of_plain [OF u] kt_vector by (auto simp: fbs_type_to_rust_serde_def)
    then show ?thesis by (simp add: fbs_type_to_rust_type_def)
  qed
qed

end
