(* ===== verification/SourceOrder.thy ===== *)
theory SourceOrder
  imports Prelude
begin

text \<open>
  The order in which a schema file declares its tables and enums,
  \<^verbatim>\<open>crates/flatbed_build/src/source_order.rs\<close>: comments are stripped, then the keywords at word
  boundaries are followed by the names they declare. An index into the bytes is the byte before
  it and the bytes from it on.
\<close>

definition newline :: char where
  "newline = CHR 0x0A"

subsection \<open>Comments\<close>

text \<open>A block comment's newlines, and what follows it; an unclosed one swallows the rest.\<close>

fun block_comment :: "string \<Rightarrow> string \<times> string" where
  "block_comment [] = ([], [])"
| "block_comment [x] = ([], [])"
| "block_comment (x # y # r) =
     (if x = CHR ''*'' \<and> y = CHR ''/'' then ([], r)
      else (case block_comment (y # r) of (nls, rest) \<Rightarrow> (if x = newline then newline # nls else nls, rest)))"

text \<open>A string literal after its opening quote: what is copied, and what follows.\<close>

fun string_literal :: "string \<Rightarrow> string \<times> string" where
  "string_literal [] = ([], [])"
| "string_literal [x] = ([x], [])"
| "string_literal (x # y # r) =
     (if x = CHR 0x22 then ([x], y # r)
      else if x = CHR 0x5C then (case string_literal r of (lit, rest) \<Rightarrow> (x # y # lit, rest))
      else (case string_literal (y # r) of (lit, rest) \<Rightarrow> (x # lit, rest)))"

lemma block_comment_length: "length (snd (block_comment s)) \<le> length s"
  by (induction s rule: block_comment.induct) (auto split: prod.split)

lemma string_literal_length: "length (snd (string_literal s)) \<le> length s"
  by (induction s rule: string_literal.induct) (auto split: prod.splits)

definition starts :: "char \<Rightarrow> string \<Rightarrow> bool" where
  "starts c s = (case s of [] \<Rightarrow> False | x # _ \<Rightarrow> x = c)"

function strip_fbs_comments :: "string \<Rightarrow> string" where
  "strip_fbs_comments [] = []"
| "strip_fbs_comments (c # cs) =
     (if c = CHR ''/'' \<and> starts (CHR ''/'') cs then strip_fbs_comments (dropWhile (\<lambda>x. x \<noteq> newline) cs)
      else if c = CHR ''/'' \<and> starts (CHR ''*'') cs then
        fst (block_comment (tl cs)) @ strip_fbs_comments (snd (block_comment (tl cs)))
      else if c = CHR 0x22 then c # fst (string_literal cs) @ strip_fbs_comments (snd (string_literal cs))
      else c # strip_fbs_comments cs)"
  by pat_completeness auto
termination
proof (relation "measure length", goal_cases)
  case (2 c cs)
  then show ?case using length_dropWhile_le [of "\<lambda>x. x \<noteq> newline" cs] by (simp add: less_Suc_eq_le)
next
  case (3 c cs)
  then show ?case using block_comment_length [of "tl cs"] by (simp add: less_Suc_eq_le)
next
  case (4 c cs)
  then show ?case using string_literal_length [of cs] by (simp add: less_Suc_eq_le)
qed simp_all

declare strip_fbs_comments.simps(2) [simp del]

subsection \<open>Declarations\<close>

definition is_space :: "char \<Rightarrow> bool" where
  "is_space c \<longleftrightarrow> c = CHR '' '' \<or> c = CHR 0x09 \<or> c = CHR 0x0A \<or> c = CHR 0x0C \<or> c = CHR 0x0D"

definition is_word :: "char \<Rightarrow> bool" where
  "is_word c \<longleftrightarrow>
     (let n = (of_char c :: nat)
      in 48 \<le> n \<and> n \<le> 57 \<or> 65 \<le> n \<and> n \<le> 90 \<or> 97 \<le> n \<and> n \<le> 122 \<or> c = CHR ''_'')"

definition at_word_boundary :: "char option \<Rightarrow> string \<Rightarrow> string \<Rightarrow> bool" where
  "at_word_boundary before s kw \<longleftrightarrow>
     prefix kw s \<and> (case before of Some c \<Rightarrow> \<not> is_word c | None \<Rightarrow> True) \<and>
     (case drop (length kw) s of c # _ \<Rightarrow> \<not> is_word c | [] \<Rightarrow> True)"

text \<open>A keyword at the index: the name it declares, if any, and the index after it.\<close>

definition try_keyword :: "string \<Rightarrow> char option \<times> string \<Rightarrow> string list \<times> (char option \<times> string)" where
  "try_keyword kw p =
     (case p of (before, s) \<Rightarrow>
        if at_word_boundary before s kw then
          (let r = drop (length kw) s;
               spaces = takeWhile is_space r;
               r = dropWhile is_space r;
               name = takeWhile is_word r
           in (if name \<noteq> [] then [name] else [], (Some (last (kw @ spaces @ name)), dropWhile is_word r)))
        else ([], p))"

lemma try_keyword_length: "length (snd (snd (try_keyword kw p))) \<le> length (snd p)"
proof -
  obtain before s where p: "p = (before, s)" by (cases p) auto
  have "length (dropWhile is_word (dropWhile is_space (drop (length kw) s))) \<le> length s"
    using length_dropWhile_le [of is_word "dropWhile is_space (drop (length kw) s)"]
      length_dropWhile_le [of is_space "drop (length kw) s"] by simp
  then show ?thesis by (simp add: p try_keyword_def Let_def)
qed

function scan_decls :: "char option \<Rightarrow> string \<Rightarrow> string list" where
  "scan_decls before s =
     (if s = [] then []
      else
        fst (try_keyword ''table'' (before, s)) @
        fst (try_keyword ''enum'' (snd (try_keyword ''table'' (before, s)))) @
        (case snd (snd (try_keyword ''enum'' (snd (try_keyword ''table'' (before, s))))) of
           [] \<Rightarrow> []
         | c # cs \<Rightarrow> scan_decls (Some c) cs))"
  by auto
termination
proof (relation "measure (length \<circ> snd)", goal_cases)
  case (2 before s c cs)
  have "length (snd (snd (try_keyword ''enum'' (snd (try_keyword ''table'' (before, s)))))) \<le> length s"
    using try_keyword_length [of "''enum''" "snd (try_keyword ''table'' (before, s))"]
      try_keyword_length [of "''table''" "(before, s)"] by simp
  then show ?case using 2 by simp
qed simp

declare scan_decls.simps [simp del]

definition source_decl_order :: "string \<Rightarrow> string list" where
  "source_decl_order text = scan_decls None (strip_fbs_comments text)"

subsection \<open>What the scan finds\<close>

lemma line_comment_stripped:
  "newline \<notin> set c \<Longrightarrow> strip_fbs_comments (''//'' @ c @ newline # rest) = newline # strip_fbs_comments rest"
proof -
  assume "newline \<notin> set c"
  then have "dropWhile (\<lambda>x. x \<noteq> newline) (CHR ''/'' # c @ newline # rest) = newline # rest"
    by (simp add: newline_def) (metis (mono_tags, lifting) dropWhile.simps(2) dropWhile_append2 newline_def)
  then show ?thesis
    by (simp add: strip_fbs_comments.simps(2) starts_def newline_def)
qed

text \<open>A comment between a keyword and its name joins the two, and the declaration is missed.\<close>

lemma comment_joins_words:
  "source_decl_order ''table/**/Foo {}'' = []" "source_decl_order ''table /**/Foo {}'' = [''Foo'']"
  by code_simp+

subsection \<open>Every declaration is found, in order\<close>

text \<open>A stretch of text without a keyword at a word boundary, before \<open>rest\<close>.\<close>

fun quiet :: "char option \<Rightarrow> string \<Rightarrow> string \<Rightarrow> bool" where
  "quiet before [] rest \<longleftrightarrow> True"
| "quiet before (c # cs) rest \<longleftrightarrow>
     \<not> at_word_boundary before (c # cs @ rest) ''table'' \<and>
     \<not> at_word_boundary before (c # cs @ rest) ''enum'' \<and> quiet (Some c) cs rest"

definition last_byte :: "char option \<Rightarrow> string \<Rightarrow> char option" where
  "last_byte before s = (if s = [] then before else Some (last s))"

lemma scan_quiet: "quiet before s rest \<Longrightarrow> scan_decls before (s @ rest) = scan_decls (last_byte before s) rest"
proof (induction before s rest rule: quiet.induct)
  case (2 before c cs rest)
  then have "scan_decls before (c # cs @ rest) = scan_decls (Some c) (cs @ rest)"
    by (subst scan_decls.simps) (simp add: try_keyword_def)
  with 2 show ?case by (simp add: last_byte_def)
qed (simp add: last_byte_def)

definition declares :: "string \<Rightarrow> string \<Rightarrow> char \<Rightarrow> bool" where
  "declares kw name after \<longleftrightarrow>
     (kw = ''table'' \<or> kw = ''enum'') \<and> name \<noteq> [] \<and> list_all is_word name \<and> \<not> is_word after"

lemma word_literals [simp]: "is_word (CHR ''t'')" "is_word (CHR ''e'')" "\<not> is_word (CHR '' '')"
  by (simp_all add: is_word_def)

lemma word_not_space: "is_word c \<Longrightarrow> \<not> is_space c"
  by (auto simp: is_space_def is_word_def)

lemma scan_declaration:
  assumes "declares kw name after" "case before of Some c \<Rightarrow> \<not> is_word c | None \<Rightarrow> True"
  shows "scan_decls before (kw @ '' '' @ name @ after # rest) = name # scan_decls (Some after) rest"
proof -
  let ?s = "'' '' @ name @ after # rest"
  obtain c cs where name: "name = c # cs" "is_word c" using assms(1) by (cases name) (auto simp: declares_def)
  have spaces: "takeWhile is_space ?s = '' ''" "dropWhile is_space ?s = name @ after # rest"
    using name word_not_space [of c] by (simp_all add: is_space_def)
  have words: "takeWhile is_word (name @ after # rest) = name" "dropWhile is_word (name @ after # rest) = after # rest"
    using assms(1) by (simp_all add: declares_def list_all_iff takeWhile_append2 dropWhile_append2)
  have found: "try_keyword kw (before, kw @ ?s) = ([name], (Some (last (kw @ '' '' @ name)), after # rest))"
  proof -
    have b: "at_word_boundary before (kw @ ?s) kw" using assms(2) by (simp add: at_word_boundary_def)
    have d: "drop (length kw) (kw @ ?s) = ?s" by simp
    show ?thesis
      unfolding try_keyword_def Let_def prod.case d spaces words using b assms(1) by (simp add: declares_def)
  qed
  have none: "try_keyword ''enum'' (b, after # rest) = ([], (b, after # rest))" for b
    using assms(1) by (auto simp: try_keyword_def at_word_boundary_def declares_def)
  have "try_keyword ''table'' (before, ''enum'' @ ?s) = ([], (before, ''enum'' @ ?s))"
    by (simp add: try_keyword_def at_word_boundary_def)
  then have "fst (try_keyword ''table'' (before, kw @ ?s)) @
      fst (try_keyword ''enum'' (snd (try_keyword ''table'' (before, kw @ ?s)))) = [name] \<and>
      snd (snd (try_keyword ''enum'' (snd (try_keyword ''table'' (before, kw @ ?s))))) = after # rest"
    using assms(1) found none by (auto simp: declares_def)
  moreover have "kw @ ?s \<noteq> []" by simp
  ultimately show ?thesis by (subst scan_decls.simps) (simp del: append_assoc append_Cons append_Nil)
qed

text \<open>A file as its declarations, each with the text before it.\<close>

fun file_text :: "(string \<times> string \<times> string \<times> char) list \<Rightarrow> string \<Rightarrow> string" where
  "file_text [] tail = tail"
| "file_text ((gap, kw, name, after) # ds) tail = gap @ kw @ '' '' @ name @ after # file_text ds tail"

fun well_spaced :: "char option \<Rightarrow> (string \<times> string \<times> string \<times> char) list \<Rightarrow> string \<Rightarrow> bool" where
  "well_spaced before [] tail \<longleftrightarrow> quiet before tail []"
| "well_spaced before ((gap, kw, name, after) # ds) tail \<longleftrightarrow>
     declares kw name after \<and>
     quiet before gap (kw @ '' '' @ name @ after # file_text ds tail) \<and>
     (case last_byte before gap of Some c \<Rightarrow> \<not> is_word c | None \<Rightarrow> True) \<and>
     well_spaced (Some after) ds tail"

lemma declarations_in_order:
  "well_spaced before ds tail \<Longrightarrow> scan_decls before (file_text ds tail) = map (\<lambda>(gap, kw, name, after). name) ds"
proof (induction before ds tail rule: well_spaced.induct)
  case (1 before tail)
  then show ?case using scan_quiet [of before tail "[]"] by (simp add: scan_decls.simps)
next
  case (2 before gap kw name after ds tail)
  then show ?case
    using scan_quiet [of before gap] scan_declaration [of kw name after] by simp
qed

end
