(* ===== verification/Reflection.thy ===== *)
theory Reflection
  imports FbsTypes SourceOrder "HOL-Library.Multiset"
begin

text \<open>
  The adapter of \<^verbatim>\<open>crates/flatbed_build/src/reflection.rs\<close>: flatc's binary schema, as the
  reflection crate reads it, becomes the tables and enums the code generators work on. An error
  returned and a panic, both of which fail the user's build, are \<open>Inl\<close> of a message. Only the
  rendering of floating-point defaults, Rust's own, is a parameter.
\<close>

subsection \<open>Results\<close>

definition bind_res :: "string + 'a \<Rightarrow> ('a \<Rightarrow> string + 'b) \<Rightarrow> string + 'b" where
  "bind_res r f = (case r of Inl e \<Rightarrow> Inl e | Inr a \<Rightarrow> f a)"

primrec map_res :: "('a \<Rightarrow> string + 'b) \<Rightarrow> 'a list \<Rightarrow> string + 'b list" where
  "map_res f [] = Inr []"
| "map_res f (x # xs) = bind_res (f x) (\<lambda>y. bind_res (map_res f xs) (\<lambda>ys. Inr (y # ys)))"

definition nth_res :: "'a list \<Rightarrow> int \<Rightarrow> string + 'a" where
  "nth_res xs i = (if 0 \<le> i \<and> nat i < length xs then Inr (xs ! nat i) else Inl ''index out of range'')"

lemma bind_res_Inr [simp]: "bind_res r f = Inr b \<longleftrightarrow> (\<exists>a. r = Inr a \<and> f a = Inr b)"
  by (cases r) (simp_all add: bind_res_def)

lemma map_res_Inr: "map_res f xs = Inr ys \<longleftrightarrow> list_all2 (\<lambda>x y. f x = Inr y) xs ys"
  by (induction xs arbitrary: ys) (auto simp: list_all2_Cons1)

subsection \<open>The reflection schema\<close>

datatype base_type =
    NoType | TUType | TBool | TByte | TUByte | TShort | TUShort | TInt | TUInt | TLong | TULong | TFloat | TDouble
  | TString | TVector | TObj | TUnion | TArray | TVector64

record rtype =
  rt_base :: base_type
  rt_element :: base_type
  rt_index :: int

record 'd rfield =
  rf_name :: string
  rf_type :: rtype
  rf_id :: "16 word"
  rf_default_integer :: int
  rf_default_real :: 'd

record 'd robject =
  ro_name :: string
  ro_is_struct :: bool
  ro_fields :: "'d rfield list"
  ro_attributes :: "string list"
  ro_declaration_file :: "string option"

record renumval =
  rv_name :: string
  rv_value :: int
  rv_union_type :: "rtype option"

record renum =
  ren_name :: string
  ren_is_union :: bool
  ren_values :: "renumval list"
  ren_attributes :: "string list"
  ren_underlying :: rtype
  ren_declaration_file :: "string option"

record 'd rschema =
  rs_objects :: "'d robject list"
  rs_enums :: "renum list"
  rs_fbs_files :: "string list"

text \<open>How Rust compares a \<open>f64\<close> with zero and prints it, as itself and as the \<open>f32\<close> nearest to it.\<close>

record 'd float_fmt =
  is_zero :: "'d \<Rightarrow> bool"
  show_f32 :: "'d \<Rightarrow> string"
  show_f64 :: "'d \<Rightarrow> string"

subsection \<open>The codegen view\<close>

record field =
  fd_name :: string
  fd_fbs_type :: string
  fd_default :: "string option"
  fd_id :: "16 word"

record table =
  tb_name :: string
  tb_fields :: "field list"
  tb_paginated :: bool

datatype enum_kind = Plain | BitFlags | UnionOf "string list"

record enum =
  em_name :: string
  em_variants :: "string list"
  em_values :: "int list"
  em_underlying :: string
  em_kind :: enum_kind

definition union_tables :: "enum \<Rightarrow> string list" where
  "union_tables e = (case em_kind e of UnionOf ts \<Rightarrow> ts | _ \<Rightarrow> [])"

type_synonym 'a by_namespace = "(string \<times> 'a list) list"

subsection \<open>Names\<close>

text \<open>The parts of a qualified name around its last dot, \<open>None\<close> when it has none.\<close>

fun rsplit_dot :: "string \<Rightarrow> (string \<times> string) option" where
  "rsplit_dot [] = None"
| "rsplit_dot (c # cs) =
     (case rsplit_dot cs of
        Some (a, b) \<Rightarrow> Some (c # a, b)
      | None \<Rightarrow> if c = CHR ''.'' then Some ([], cs) else None)"

definition dots_to_colons :: "string \<Rightarrow> string" where
  "dots_to_colons s = concat (map (\<lambda>c. if c = CHR ''.'' then ''::'' else [c]) s)"

definition split_namespace :: "string \<Rightarrow> string \<times> string" where
  "split_namespace q = (case rsplit_dot q of Some (a, b) \<Rightarrow> (dots_to_colons a, b) | None \<Rightarrow> ([], q))"

definition bare_name :: "string \<Rightarrow> string" where
  "bare_name q = (case rsplit_dot q of Some (a, b) \<Rightarrow> b | None \<Rightarrow> q)"

subsection \<open>Types\<close>

definition is_integer_base :: "base_type \<Rightarrow> bool" where
  "is_integer_base b \<longleftrightarrow> b \<in> {TByte, TUByte, TShort, TUShort, TInt, TUInt, TLong, TULong}"

fun scalar_name :: "base_type \<Rightarrow> string option" where
  "scalar_name TBool = Some ''bool''"
| "scalar_name TByte = Some ''int8''"
| "scalar_name TUByte = Some ''uint8''"
| "scalar_name TShort = Some ''int16''"
| "scalar_name TUShort = Some ''uint16''"
| "scalar_name TInt = Some ''int32''"
| "scalar_name TUInt = Some ''uint32''"
| "scalar_name TLong = Some ''int64''"
| "scalar_name TULong = Some ''uint64''"
| "scalar_name TFloat = Some ''float32''"
| "scalar_name TDouble = Some ''float64''"
| "scalar_name TString = Some ''string''"
| "scalar_name _ = None"

definition scalar_or_obj_to_fbs_string :: "base_type \<Rightarrow> int \<Rightarrow> 'd rschema \<Rightarrow> string + string" where
  "scalar_or_obj_to_fbs_string b i S =
     (if 0 \<le> i \<and> is_integer_base b then bind_res (nth_res (rs_enums S) i) (\<lambda>e. Inr (bare_name (ren_name e)))
      else (case scalar_name b of
              Some n \<Rightarrow> Inr n
            | None \<Rightarrow>
                if b = TObj then bind_res (nth_res (rs_objects S) i) (\<lambda>obj. Inr (bare_name (ro_name obj)))
                else Inl ''unsupported FlatBuffer BaseType''))"

definition reflection_type_to_fbs_string :: "rtype \<Rightarrow> 'd rschema \<Rightarrow> string + string" where
  "reflection_type_to_fbs_string ty S =
     (if rt_base ty = TVector then
        bind_res (scalar_or_obj_to_fbs_string (rt_element ty) (rt_index ty) S) (\<lambda>t. Inr (''['' @ t @ '']''))
      else if rt_base ty = TUnion then
        bind_res (nth_res (rs_enums S) (rt_index ty)) (\<lambda>e. Inr (bare_name (ren_name e)))
      else scalar_or_obj_to_fbs_string (rt_base ty) (rt_index ty) S)"

definition enum_underlying_fbs :: "base_type \<Rightarrow> string" where
  "enum_underlying_fbs b =
     (if is_integer_base b then (case scalar_name b of Some n \<Rightarrow> n | None \<Rightarrow> ''int32'') else ''int32'')"

subsection \<open>Defaults\<close>

definition has_attribute :: "string list \<Rightarrow> string \<Rightarrow> bool" where
  "has_attribute attrs key \<longleftrightarrow> list_ex (\<lambda>k. k = key) attrs"

definition show_int :: "int \<Rightarrow> string" where
  "show_int i = (if i < 0 then CHR ''-'' # show_nat (nat (- i)) else show_nat (nat i))"

definition count_ones :: "64 word \<Rightarrow> nat" where
  "count_ones w = length (filter (bit w) [0 ..< 64])"

definition enum_default :: "'d rfield \<Rightarrow> renum \<Rightarrow> string + string option" where
  "enum_default f e =
     (let dv = rf_default_integer f
      in if has_attribute (ren_attributes e) ''bit_flags'' \<and> 1 < count_ones (word_of_int dv) then
           Inl (''field declares a multi-flag default: '' @ rf_name f)
         else (case List.find (\<lambda>v. rv_value v = dv) (ren_values e) of
                 None \<Rightarrow> Inl (''flatc schema invariant violated: enum '' @ ren_name e)
               | Some v \<Rightarrow> Inr (Some (bare_name (ren_name e) @ ''::'' @ rv_name v))))"

definition reflected_field_default :: "'d float_fmt \<Rightarrow> 'd rfield \<Rightarrow> 'd rschema \<Rightarrow> string + string option" where
  "reflected_field_default F f S =
     (let b = rt_base (rf_type f); i = rt_index (rf_type f); dv = rf_default_integer f; dr = rf_default_real f
      in if b \<in> {TVector, TString, TObj, TUnion} then Inr None
         else if 0 \<le> i \<and> is_integer_base b then
           (if dv = 0 then Inr None else bind_res (nth_res (rs_enums S) i) (enum_default f))
         else if b = TBool then Inr (if dv \<noteq> 0 then Some ''true'' else None)
         else if b = TULong then
           Inr (if dv = 0 then None else Some (show_nat (unat (word_of_int dv :: 64 word))))
         else if is_integer_base b then Inr (if dv = 0 then None else Some (show_int dv))
         else if b = TFloat then Inr (if is_zero F dr then None else Some (show_f32 F dr @ ''_f32''))
         else if b = TDouble then Inr (if is_zero F dr then None else Some (show_f64 F dr @ ''_f64''))
         else Inr None)"

subsection \<open>Tables, enums and unions\<close>

definition reflect_field :: "'d float_fmt \<Rightarrow> 'd rschema \<Rightarrow> 'd rfield \<Rightarrow> string + field" where
  "reflect_field F S f =
     bind_res (reflection_type_to_fbs_string (rf_type f) S) (\<lambda>t.
     bind_res (reflected_field_default F f S) (\<lambda>d.
       Inr \<lparr>fd_name = rf_name f, fd_fbs_type = t, fd_default = d, fd_id = rf_id f\<rparr>))"

definition sorted_fields :: "'d robject \<Rightarrow> 'd rfield list" where
  "sorted_fields obj = sort_key rf_id (filter (\<lambda>f. rt_base (rf_type f) \<noteq> TUType) (ro_fields obj))"

definition reflect_table :: "'d float_fmt \<Rightarrow> 'd rschema \<Rightarrow> 'd robject \<Rightarrow> string + table" where
  "reflect_table F S obj =
     bind_res (map_res (reflect_field F S) (sorted_fields obj)) (\<lambda>fields.
       Inr \<lparr>tb_name = snd (split_namespace (ro_name obj)), tb_fields = fields,
            tb_paginated = has_attribute (ro_attributes obj) ''paginated''\<rparr>)"

definition union_variant_table :: "string \<Rightarrow> 'd rschema \<Rightarrow> renumval \<Rightarrow> string + string" where
  "union_variant_table union_name S v =
     (case rv_union_type v of
        None \<Rightarrow> Inl (''union variant is not a table: '' @ rv_name v)
      | Some t \<Rightarrow>
          if rt_base t = TObj then
            bind_res (nth_res (rs_objects S) (rt_index t)) (\<lambda>obj.
              if ro_is_struct obj then Inl (''union variant is not a table: '' @ rv_name v)
              else Inr (bare_name (ro_name obj)))
          else Inl (''union variant is not a table: '' @ rv_name v))"

definition sorted_values :: "renum \<Rightarrow> renumval list" where
  "sorted_values e = sort_key rv_value (filter (\<lambda>v. \<not> (ren_is_union e \<and> rv_value v = 0)) (ren_values e))"

definition reflect_enum :: "'d rschema \<Rightarrow> renum \<Rightarrow> string + enum" where
  "reflect_enum S e =
     bind_res (if ren_is_union e then
                 bind_res (map_res (union_variant_table (ren_name e) S) (sorted_values e)) (\<lambda>ts. Inr (UnionOf ts))
               else if has_attribute (ren_attributes e) ''bit_flags'' then Inr BitFlags
               else Inr Plain) (\<lambda>kind.
       Inr \<lparr>em_name = snd (split_namespace (ren_name e)), em_variants = map rv_name (sorted_values e),
            em_values = map rv_value (sorted_values e),
            em_underlying = enum_underlying_fbs (rt_base (ren_underlying e)), em_kind = kind\<rparr>)"

subsection \<open>Source order\<close>

definition usize_max :: nat where
  "usize_max = 2 ^ 64 - 1"

text \<open>\<open>entry(name).or_insert(pos)\<close>: the first position of a name counts.\<close>

definition positions :: "string \<Rightarrow> string \<Rightarrow> nat option" where
  "positions text name = position (\<lambda>n. n = name) (source_decl_order text)"

text \<open>\<open>files\<close> are the schema's files with their texts; a later file of the same name shadows an earlier.\<close>

definition source_key :: "(string \<times> string) list \<Rightarrow> string option \<Rightarrow> string \<Rightarrow> nat \<times> nat" where
  "source_key files decl_file bare =
     (let i = (case decl_file of
                 None \<Rightarrow> usize_max
               | Some df \<Rightarrow>
                   (case position (\<lambda>f. fst f = df) (rev files) of
                      Some j \<Rightarrow> length files - 1 - j | None \<Rightarrow> usize_max))
      in (i, if i < length files then (case positions (snd (files ! i)) bare of Some p \<Rightarrow> p | None \<Rightarrow> usize_max)
             else usize_max))"

definition push_ns :: "string \<Rightarrow> 'a \<Rightarrow> 'a by_namespace \<Rightarrow> 'a by_namespace" where
  "push_ns ns x m = AList.update ns ((case map_of m ns of Some xs \<Rightarrow> xs | None \<Rightarrow> []) @ [x]) m"

definition bucket :: "(string \<times> 'a \<times> (nat \<times> nat)) list \<Rightarrow> 'a by_namespace" where
  "bucket entries =
     map (\<lambda>(ns, xs). (ns, map fst (sort_key snd xs))) (fold (\<lambda>(ns, x, k). push_ns ns (x, k)) entries [])"

text \<open>\<open>trim_start_matches("//")\<close>: the marker is stripped as often as it is there.\<close>

fun trim_root :: "string \<Rightarrow> string" where
  "trim_root (a # b # r) = (if a = CHR ''/'' \<and> b = CHR ''/'' then trim_root r else a # b # r)"
| "trim_root s = s"

text \<open>\<open>rd\<close> reads a schema file by its reflected name, root marker stripped.\<close>

definition read_sources :: "(string \<Rightarrow> string + string) \<Rightarrow> 'd rschema \<Rightarrow> string + (string \<times> string) list" where
  "read_sources rd S = map_res (\<lambda>f. bind_res (rd (trim_root f)) (\<lambda>t. Inr (f, t))) (rs_fbs_files S)"

definition reflect_tables ::
  "'d float_fmt \<Rightarrow> (string \<times> string) list \<Rightarrow> 'd rschema \<Rightarrow> string + (string \<times> table \<times> nat \<times> nat) list" where
  "reflect_tables F files S =
     map_res (\<lambda>obj. bind_res (reflect_table F S obj) (\<lambda>t.
         Inr (fst (split_namespace (ro_name obj)), t, source_key files (ro_declaration_file obj) (tb_name t))))
       (filter (\<lambda>obj. \<not> ro_is_struct obj) (rs_objects S))"

definition reflect_enums ::
  "(string \<times> string) list \<Rightarrow> 'd rschema \<Rightarrow> string + (string \<times> enum \<times> nat \<times> nat) list" where
  "reflect_enums files S =
     map_res (\<lambda>e. bind_res (reflect_enum S e) (\<lambda>en.
         Inr (fst (split_namespace (ren_name e)), en, source_key files (ren_declaration_file e) (em_name en))))
       (rs_enums S)"

definition build_reflected_schema ::
  "'d float_fmt \<Rightarrow> (string \<Rightarrow> string + string) \<Rightarrow> 'd rschema \<Rightarrow> string + (table by_namespace \<times> enum by_namespace)" where
  "build_reflected_schema F rd S =
     bind_res (read_sources rd S) (\<lambda>files.
     bind_res (reflect_tables F files S) (\<lambda>tables.
     bind_res (reflect_enums files S) (\<lambda>enums. Inr (bucket tables, bucket enums))))"

subsection \<open>Well-typed schemas\<close>

text \<open>
  What the code generators support and flatc guarantees: indices point to objects and enums of the
  schema, references stay in their namespace, union members are tables, defaults name a variant.
\<close>

definition namespace_of :: "string \<Rightarrow> string" where
  "namespace_of q = fst (split_namespace q)"

definition enum_in :: "'d rschema \<Rightarrow> string \<Rightarrow> bool \<Rightarrow> int \<Rightarrow> bool" where
  "enum_in S ns un i \<longleftrightarrow>
     0 \<le> i \<and> nat i < length (rs_enums S) \<and>
     (let e = rs_enums S ! nat i in ren_is_union e = un \<and> namespace_of (ren_name e) = ns)"

definition object_in :: "'d rschema \<Rightarrow> string \<Rightarrow> int \<Rightarrow> bool" where
  "object_in S ns i \<longleftrightarrow>
     0 \<le> i \<and> nat i < length (rs_objects S) \<and>
     (let obj = rs_objects S ! nat i in \<not> ro_is_struct obj \<and> namespace_of (ro_name obj) = ns)"

definition element_ok :: "'d rschema \<Rightarrow> string \<Rightarrow> base_type \<Rightarrow> int \<Rightarrow> bool" where
  "element_ok S ns b i \<longleftrightarrow>
     (if 0 \<le> i \<and> is_integer_base b then enum_in S ns False i
      else if b = TObj then object_in S ns i else scalar_name b \<noteq> None)"

definition default_ok :: "'d rschema \<Rightarrow> 'd rfield \<Rightarrow> bool" where
  "default_ok S f \<longleftrightarrow>
     (let b = rt_base (rf_type f); i = rt_index (rf_type f); dv = rf_default_integer f
      in 0 \<le> i \<and> is_integer_base b \<and> dv \<noteq> 0 \<longrightarrow>
         list_ex (\<lambda>v. rv_value v = dv) (ren_values (rs_enums S ! nat i)) \<and>
         \<not> (has_attribute (ren_attributes (rs_enums S ! nat i)) ''bit_flags'' \<and>
            1 < count_ones (word_of_int dv)))"

definition field_ok :: "'d rschema \<Rightarrow> string \<Rightarrow> 'd rfield \<Rightarrow> bool" where
  "field_ok S ns f \<longleftrightarrow>
     (let b = rt_base (rf_type f); i = rt_index (rf_type f)
      in (if b = TVector then element_ok S ns (rt_element (rf_type f)) i
          else if b = TUnion then enum_in S ns True i else element_ok S ns b i) \<and>
         default_ok S f)"

definition member_ok :: "'d rschema \<Rightarrow> string \<Rightarrow> renumval \<Rightarrow> bool" where
  "member_ok S ns v \<longleftrightarrow>
     (case rv_union_type v of None \<Rightarrow> False | Some t \<Rightarrow> rt_base t = TObj \<and> object_in S ns (rt_index t))"

definition schema_ok :: "'d rschema \<Rightarrow> bool" where
  "schema_ok S \<longleftrightarrow>
     list_all (\<lambda>obj. type_name (bare_name (ro_name obj)) \<and>
        (\<not> ro_is_struct obj \<longrightarrow> list_all (field_ok S (namespace_of (ro_name obj))) (sorted_fields obj)))
       (rs_objects S) \<and>
     list_all (\<lambda>e. type_name (bare_name (ren_name e)) \<and>
        (ren_is_union e \<longrightarrow> list_all (member_ok S (namespace_of (ren_name e))) (sorted_values e)))
       (rs_enums S) \<and>
     distinct (map (\<lambda>obj. split_namespace (ro_name obj)) (rs_objects S) @ map (\<lambda>e. split_namespace (ren_name e)) (rs_enums S))"

lemma schema_okD:
  assumes "schema_ok S"
  shows "obj \<in> set (rs_objects S) \<Longrightarrow> type_name (bare_name (ro_name obj))"
    and "obj \<in> set (rs_objects S) \<Longrightarrow> \<not> ro_is_struct obj \<Longrightarrow> f \<in> set (sorted_fields obj) \<Longrightarrow>
      field_ok S (namespace_of (ro_name obj)) f"
    and "r \<in> set (rs_enums S) \<Longrightarrow> type_name (bare_name (ren_name r))"
    and "r \<in> set (rs_enums S) \<Longrightarrow> ren_is_union r \<Longrightarrow> list_all (member_ok S (namespace_of (ren_name r))) (sorted_values r)"
    and "distinct (map (\<lambda>obj. split_namespace (ro_name obj)) (rs_objects S) @ map (\<lambda>e. split_namespace (ren_name e)) (rs_enums S))"
  using assms unfolding schema_ok_def list_all_iff by blast+

lemma snd_split [simp]: "snd (split_namespace q) = bare_name q"
  by (simp add: split_namespace_def bare_name_def split: option.split)

text \<open>The names a namespace declares.\<close>

definition table_names_in :: "'d rschema \<Rightarrow> string \<Rightarrow> string list" where
  "table_names_in S ns =
     map (\<lambda>obj. bare_name (ro_name obj))
       (filter (\<lambda>obj. \<not> ro_is_struct obj \<and> namespace_of (ro_name obj) = ns) (rs_objects S))"

definition enum_names_in :: "'d rschema \<Rightarrow> bool \<Rightarrow> string \<Rightarrow> string list" where
  "enum_names_in S un ns =
     map (\<lambda>e. bare_name (ren_name e)) (filter (\<lambda>e. ren_is_union e = un \<and> namespace_of (ren_name e) = ns) (rs_enums S))"

lemma object_in_name:
  "object_in S ns i \<Longrightarrow>
   \<exists>obj. nth_res (rs_objects S) i = Inr obj \<and> \<not> ro_is_struct obj \<and> bare_name (ro_name obj) \<in> set (table_names_in S ns)"
  by (auto simp: object_in_def nth_res_def table_names_in_def Let_def intro!: imageI)

lemma enum_in_name:
  "enum_in S ns un i \<Longrightarrow>
   nth_res (rs_enums S) i = Inr (rs_enums S ! nat i) \<and> bare_name (ren_name (rs_enums S ! nat i)) \<in> set (enum_names_in S un ns)"
  by (auto simp: enum_in_def nth_res_def enum_names_in_def Let_def intro!: imageI)

lemma scalar_name_known:
  "scalar_name b = Some n \<Longrightarrow> (\<exists>r. map_of rust_scalars n = Some r) \<or> n = ''string''"
  by (induction b) (auto simp: rust_scalars_def)

lemma element_ok_type:
  assumes "element_ok S ns b i"
  shows "\<exists>t. scalar_or_obj_to_fbs_string b i S = Inr t \<and>
    ((\<exists>r. map_of rust_scalars t = Some r) \<or> t = ''string'' \<or>
     t \<in> set (table_names_in S ns) \<or> t \<in> set (enum_names_in S False ns))"
proof (cases "0 \<le> i \<and> is_integer_base b")
  case True
  then show ?thesis using assms enum_in_name [of S ns False i]
    by (auto simp: scalar_or_obj_to_fbs_string_def element_ok_def bind_res_def)
next
  case False
  show ?thesis
  proof (cases "b = TObj")
    case True
    then have "object_in S ns i" using assms False by (simp add: element_ok_def split: if_splits)
    from object_in_name [OF this] True False show ?thesis
      by (auto simp: scalar_or_obj_to_fbs_string_def bind_res_def)
  next
    case obj: False
    then obtain n where "scalar_name b = Some n" using assms False by (auto simp: element_ok_def split: if_splits)
    then show ?thesis using False scalar_name_known [of b n]
      by (auto simp: scalar_or_obj_to_fbs_string_def)
  qed
qed

lemma field_ok_type:
  assumes "field_ok S ns f"
  shows "\<exists>t. reflection_type_to_fbs_string (rf_type f) S = Inr t \<and>
    (if rt_base (rf_type f) = TUnion then t \<in> set (enum_names_in S True ns)
     else known_type (table_names_in S ns) (enum_names_in S False ns) t)"
proof -
  let ?b = "rt_base (rf_type f)" and ?i = "rt_index (rf_type f)" and ?e = "rt_element (rf_type f)"
  consider "?b = TVector" "element_ok S ns ?e ?i" | "?b = TUnion" "enum_in S ns True ?i"
    | "?b \<noteq> TVector" "?b \<noteq> TUnion" "element_ok S ns ?b ?i"
    using assms by (auto simp: field_ok_def Let_def split: if_splits)
  then show ?thesis
  proof cases
    case 1
    obtain t where t: "scalar_or_obj_to_fbs_string ?e ?i S = Inr t"
      "(\<exists>r. map_of rust_scalars t = Some r) \<or> t = ''string'' \<or>
       t \<in> set (table_names_in S ns) \<or> t \<in> set (enum_names_in S False ns)"
      using element_ok_type [OF 1(2)] by blast
    have "known_type (table_names_in S ns) (enum_names_in S False ns) (vector_type t)"
      using t(2) by (blast intro: known_type.kt_vector)
    then show ?thesis using 1(1) t(1)
      by (auto simp: reflection_type_to_fbs_string_def bind_res_def vector_type_def)
  next
    case 2
    then show ?thesis using enum_in_name [OF 2(2)]
      by (auto simp: reflection_type_to_fbs_string_def bind_res_def)
  next
    case 3
    then show ?thesis using element_ok_type [OF 3(3)]
      by (auto simp: reflection_type_to_fbs_string_def intro: known_type.intros)
  qed
qed

lemma reflected_default_ok:
  assumes "field_ok S ns f"
  shows "\<exists>d. reflected_field_default F f S = Inr d"
proof -
  let ?b = "rt_base (rf_type f)" and ?i = "rt_index (rf_type f)" and ?dv = "rf_default_integer f"
  show ?thesis
  proof (cases "0 \<le> ?i \<and> is_integer_base ?b \<and> ?dv \<noteq> 0")
    case True
    then have b: "?b \<notin> {TVector, TString, TObj, TUnion}" by (auto simp: is_integer_base_def)
    then have e: "enum_in S ns False ?i" and d: "default_ok S f"
      using assms True by (auto simp: field_ok_def element_ok_def Let_def split: if_splits)
    have "\<exists>v. List.find (\<lambda>v. rv_value v = ?dv) (ren_values (rs_enums S ! nat ?i)) = Some v"
      using d True find_None_iff [of "\<lambda>v. rv_value v = ?dv"] by (auto simp: default_ok_def Let_def list_ex_iff)
    then have "\<exists>d. enum_default f (rs_enums S ! nat ?i) = Inr d"
      using d True by (auto simp: enum_default_def default_ok_def Let_def)
    then show ?thesis using b True enum_in_name [OF e]
      by (auto simp: reflected_field_default_def Let_def bind_res_def)
  next
    case False
    then show ?thesis unfolding reflected_field_default_def Let_def by (auto simp del: Word.of_int_uint)
  qed
qed

lemma reflect_field_ok:
  assumes "field_ok S ns f"
  shows "\<exists>g. reflect_field F S f = Inr g \<and>
    (known_type (table_names_in S ns) (enum_names_in S False ns) (fd_fbs_type g) \<or>
     fd_default g = None \<and> fd_fbs_type g \<in> set (enum_names_in S True ns))"
proof -
  obtain d where d: "reflected_field_default F f S = Inr d" using reflected_default_ok [OF assms] by blast
  moreover have "d = None" if "rt_base (rf_type f) = TUnion" using d that by (simp add: reflected_field_default_def)
  ultimately show ?thesis using field_ok_type [OF assms] by (auto simp: reflect_field_def bind_res_def split: if_splits)
qed

lemma map_res_total: "(\<forall>x \<in> set xs. \<exists>y. f x = Inr y) \<Longrightarrow> \<exists>ys. map_res f xs = Inr ys"
  by (induction xs) (auto simp: bind_res_def)

lemma map_res_in: "map_res f xs = Inr ys \<Longrightarrow> y \<in> set ys \<Longrightarrow> \<exists>x \<in> set xs. f x = Inr y"
  by (fastforce simp: map_res_Inr list_all2_conv_all_nth in_set_conv_nth)

lemma map_res_all: "map_res f xs = Inr ys \<Longrightarrow> \<forall>x \<in> set xs. \<exists>y. f x = Inr y"
  by (induction xs arbitrary: ys) auto

lemma map_res_total_iff: "(\<exists>ys. map_res f xs = Inr ys) \<longleftrightarrow> (\<forall>x \<in> set xs. \<exists>y. f x = Inr y)"
  using map_res_total [of xs f] map_res_all [of f xs] by blast

lemma map_res_fst: "map_res f xs = Inr ys \<Longrightarrow> (\<And>x y. x \<in> set xs \<Longrightarrow> f x = Inr y \<Longrightarrow> g y = h x) \<Longrightarrow> map g ys = map h xs"
  by (induction xs arbitrary: ys) auto

subsection \<open>Buckets\<close>

lemma fold_push_ns:
  "map_of (fold (\<lambda>(n, y). push_ns n y) es m) ns =
     (let new = map snd (filter (\<lambda>e. fst e = ns) es)
      in if new = [] then map_of m ns else Some ((case map_of m ns of Some xs \<Rightarrow> xs | None \<Rightarrow> []) @ new))"
  by (induction es arbitrary: m) (auto simp: push_ns_def Let_def split: option.split)

lemma map_of_map_pair: "map_of (map (\<lambda>(k, v). (k, f v)) m) n = map_option f (map_of m n)"
  by (induction m) auto

text \<open>A bucket holds the entries of its namespace, in the order of their keys.\<close>

lemma bucket_lookup:
  "map_of (bucket es) ns =
     (let new = map snd (filter (\<lambda>e. fst e = ns) es)
      in if new = [] then None else Some (map fst (sort_key snd new)))"
  by (simp add: bucket_def map_of_map_pair fold_push_ns Let_def)

lemma bucket_in: "map_of (bucket es) ns = Some xs \<Longrightarrow> x \<in> set xs \<longleftrightarrow> (\<exists>k. (ns, x, k) \<in> set es)"
  by (force simp: bucket_lookup Let_def split: if_splits)

definition bucket_of :: "'a by_namespace \<Rightarrow> string \<Rightarrow> 'a list" where
  "bucket_of m ns = (case map_of m ns of Some xs \<Rightarrow> xs | None \<Rightarrow> [])"

lemma set_bucket_of: "set (bucket_of (bucket es) ns) = {x. \<exists>k. (ns, x, k) \<in> set es}"
proof -
  have "set (bucket_of (bucket es) ns) = fst ` snd ` {e \<in> set es. fst e = ns}"
    by (auto simp: bucket_of_def bucket_lookup Let_def filter_empty_conv)
  then show ?thesis by force
qed

lemma build_reflected_schema_parts:
  "build_reflected_schema F rd S = Inr (tables, enums) \<longleftrightarrow>
   (\<exists>files ts es. read_sources rd S = Inr files \<and> reflect_tables F files S = Inr ts \<and>
      reflect_enums files S = Inr es \<and> tables = bucket ts \<and> enums = bucket es)"
  by (auto simp: build_reflected_schema_def)

text \<open>What a reflected table is: its name, its fields' types and its place.\<close>

lemma reflect_tables_in:
  assumes "reflect_tables F files S = Inr ts" "(ns, t, k) \<in> set ts"
  shows "\<exists>obj \<in> set (rs_objects S). \<not> ro_is_struct obj \<and> reflect_table F S obj = Inr t \<and> ns = namespace_of (ro_name obj)"
  using map_res_in [OF assms(1) [unfolded reflect_tables_def] assms(2)]
  by (auto simp: namespace_of_def)

lemma reflect_tables_names:
  assumes "reflect_tables F files S = Inr ts"
  shows "tb_name ` {t. \<exists>k. (ns, t, k) \<in> set ts} = set (table_names_in S ns)"
proof -
  let ?place = "\<lambda>obj. (namespace_of (ro_name obj), bare_name (ro_name obj))"
  have "map (\<lambda>(n, t, k). (n, tb_name t)) ts = map ?place (filter (\<lambda>obj. \<not> ro_is_struct obj) (rs_objects S))"
    by (rule map_res_fst [OF assms [unfolded reflect_tables_def]])
      (auto simp: reflect_table_def namespace_of_def)
  then have "map snd (filter (\<lambda>p. fst p = ns) (map (\<lambda>(n, t, k). (n, tb_name t)) ts)) = table_names_in S ns"
    by (simp add: filter_map o_def table_names_in_def conj_commute)
  moreover have "set (map snd (filter (\<lambda>p. fst p = ns) (map (\<lambda>(n, t, k). (n, tb_name t)) ts))) =
      tb_name ` {t. \<exists>k. (ns, t, k) \<in> set ts}"
    by force
  ultimately show ?thesis by simp
qed

lemma reflect_enums_in:
  assumes "reflect_enums files S = Inr es" "(ns, e, k) \<in> set es"
  shows "\<exists>r \<in> set (rs_enums S). reflect_enum S r = Inr e \<and> ns = namespace_of (ren_name r)"
  using map_res_in [OF assms(1) [unfolded reflect_enums_def] assms(2)]
  by (auto simp: namespace_of_def)

definition is_union :: "enum \<Rightarrow> bool" where
  "is_union e \<longleftrightarrow> (case em_kind e of UnionOf _ \<Rightarrow> True | _ \<Rightarrow> False)"

lemma reflect_enum_union: "reflect_enum S r = Inr e \<Longrightarrow> is_union e = ren_is_union r \<and> em_name e = bare_name (ren_name r)"
  by (auto simp: reflect_enum_def is_union_def split: if_splits)

lemma reflect_enums_names:
  assumes "reflect_enums files S = Inr es"
  shows "em_name ` {e. is_union e = un \<and> (\<exists>k. (ns, e, k) \<in> set es)} = set (enum_names_in S un ns)"
proof -
  let ?place = "\<lambda>r. (namespace_of (ren_name r), ren_is_union r, bare_name (ren_name r))"
  have "map (\<lambda>(n, e, k). (n, is_union e, em_name e)) es = map ?place (rs_enums S)"
    by (rule map_res_fst [OF assms [unfolded reflect_enums_def]])
      (auto simp: namespace_of_def dest!: reflect_enum_union)
  then have "map (snd \<circ> snd) (filter (\<lambda>p. fst (snd p) = un \<and> fst p = ns) (map (\<lambda>(n, e, k). (n, is_union e, em_name e)) es)) =
      enum_names_in S un ns"
    by (simp add: filter_map o_def enum_names_in_def)
  moreover have "set (map (snd \<circ> snd) (filter (\<lambda>p. fst (snd p) = un \<and> fst p = ns)
      (map (\<lambda>(n, e, k). (n, is_union e, em_name e)) es))) = em_name ` {e. is_union e = un \<and> (\<exists>k. (ns, e, k) \<in> set es)}"
    by force
  ultimately show ?thesis by simp
qed

lemma reflect_tables_total:
  assumes "schema_ok S"
  shows "\<exists>ts. reflect_tables F files S = Inr ts"
  unfolding reflect_tables_def
proof (intro map_res_total ballI)
  fix obj assume obj: "obj \<in> set (filter (\<lambda>obj. \<not> ro_is_struct obj) (rs_objects S))"
  have "\<forall>f \<in> set (sorted_fields obj). \<exists>g. reflect_field F S f = Inr g"
    using assms obj reflect_field_ok [of S "namespace_of (ro_name obj)"] by (fastforce simp: schema_ok_def list_all_iff)
  from map_res_total [OF this] have "\<exists>t. reflect_table F S obj = Inr t"
    by (auto simp: reflect_table_def bind_res_def)
  then show "\<exists>y. bind_res (reflect_table F S obj) (\<lambda>t.
      Inr (fst (split_namespace (ro_name obj)), t, source_key files (ro_declaration_file obj) (tb_name t))) = Inr y"
    by (auto simp: bind_res_def)
qed

lemma union_variant_ok:
  assumes "member_ok S ns v"
  shows "\<exists>t \<in> set (table_names_in S ns). union_variant_table u S v = Inr t"
proof -
  obtain t where t: "rv_union_type v = Some t" "rt_base t = TObj" "object_in S ns (rt_index t)"
    using assms by (auto simp: member_ok_def split: option.splits)
  from object_in_name [OF t(3)] show ?thesis by (auto simp: union_variant_table_def t bind_res_def)
qed

lemma union_tables_total:
  assumes "list_all (member_ok S ns) vs"
  shows "\<exists>ts. map_res (union_variant_table u S) vs = Inr ts \<and> set ts \<subseteq> set (table_names_in S ns) \<and> length ts = length vs"
  using assms
proof (induction vs)
  case (Cons v vs)
  then obtain ts where ts: "map_res (union_variant_table u S) vs = Inr ts" "set ts \<subseteq> set (table_names_in S ns)"
    "length ts = length vs" by auto
  have "member_ok S ns v" using Cons.prems by simp
  from union_variant_ok [OF this, of u] obtain t where "union_variant_table u S v = Inr t" "t \<in> set (table_names_in S ns)"
    by blast
  then show ?case using ts by (simp add: bind_res_def)
qed simp

lemma reflect_enum_total:
  assumes "ren_is_union r \<Longrightarrow> list_all (member_ok S ns) (sorted_values r)"
  shows "\<exists>e. reflect_enum S r = Inr e \<and>
    set (union_tables e) \<subseteq> set (table_names_in S ns) \<and> (is_union e \<longrightarrow> length (union_tables e) = length (em_variants e))"
proof (cases "ren_is_union r")
  case True
  then obtain ts where "map_res (union_variant_table (ren_name r) S) (sorted_values r) = Inr ts"
    "set ts \<subseteq> set (table_names_in S ns)" "length ts = length (sorted_values r)"
    using union_tables_total [OF assms] by blast
  then show ?thesis using True by (simp add: reflect_enum_def bind_res_def union_tables_def)
next
  case False
  then show ?thesis by (simp add: reflect_enum_def bind_res_def union_tables_def is_union_def)
qed

lemma reflect_enums_total:
  assumes "schema_ok S"
  shows "\<exists>es. reflect_enums files S = Inr es"
  unfolding reflect_enums_def
proof (intro map_res_total ballI)
  fix r assume "r \<in> set (rs_enums S)"
  then have "\<exists>e. reflect_enum S r = Inr e"
    using reflect_enum_total [of r S "namespace_of (ren_name r)", OF schema_okD(4) [OF assms]] by blast
  then show "\<exists>y. bind_res (reflect_enum S r) (\<lambda>en.
      Inr (fst (split_namespace (ren_name r)), en, source_key files (ren_declaration_file r) (em_name en))) = Inr y"
    by (auto simp: bind_res_def)
qed

subsection \<open>Reflected schemas are well typed\<close>

definition plain_enums :: "enum list \<Rightarrow> enum list" where
  "plain_enums es = filter (\<lambda>e. \<not> is_union e) es"

definition unions :: "enum list \<Rightarrow> enum list" where
  "unions es = filter is_union es"

text \<open>A namespace is well typed: its names are names, every field's type is known in it.\<close>

definition namespace_ok :: "table list \<Rightarrow> enum list \<Rightarrow> bool" where
  "namespace_ok ts es \<longleftrightarrow>
     list_all (\<lambda>t. type_name (tb_name t)) ts \<and> list_all (\<lambda>e. type_name (em_name e)) es \<and>
     (\<forall>t \<in> set ts. \<forall>f \<in> set (tb_fields t).
        known_type (map tb_name ts) (map em_name (plain_enums es)) (fd_fbs_type f) \<or>
        fd_default f = None \<and> fd_fbs_type f \<in> set (map em_name (unions es))) \<and>
     (\<forall>e \<in> set es. set (union_tables e) \<subseteq> set (map tb_name ts) \<and>
        (is_union e \<longrightarrow> length (union_tables e) = length (em_variants e))) \<and>
     distinct (map tb_name ts @ map em_name es)"

lemma known_type_set:
  "known_type ts es t \<Longrightarrow> set ts = set ts' \<Longrightarrow> set es = set es' \<Longrightarrow> known_type ts' es' t"
  by (induction rule: known_type.induct) (auto intro: known_type.intros)

lemma reflected_field_known:
  assumes "schema_ok S" "reflect_tables F files S = Inr ts" "(ns, t, k) \<in> set ts" "f \<in> set (tb_fields t)"
  shows "known_type (table_names_in S ns) (enum_names_in S False ns) (fd_fbs_type f) \<or>
    fd_default f = None \<and> fd_fbs_type f \<in> set (enum_names_in S True ns)"
proof -
  obtain obj where obj: "obj \<in> set (rs_objects S)" "\<not> ro_is_struct obj" "reflect_table F S obj = Inr t"
    "ns = namespace_of (ro_name obj)"
    using reflect_tables_in [OF assms(2,3)] by blast
  then have "map_res (reflect_field F S) (sorted_fields obj) = Inr (tb_fields t)"
    by (auto simp: reflect_table_def)
  from map_res_in [OF this assms(4)] obtain g where "g \<in> set (sorted_fields obj)" "reflect_field F S g = Inr f" by blast
  then show ?thesis
    using reflect_field_ok [OF schema_okD(2) [OF assms(1) obj(1,2)], of g F] obj(4) by auto
qed

lemma reflected_union_tables:
  assumes "schema_ok S" "reflect_enums files S = Inr es" "(ns, e, k) \<in> set es"
  shows "set (union_tables e) \<subseteq> set (table_names_in S ns) \<and> (is_union e \<longrightarrow> length (union_tables e) = length (em_variants e))"
proof -
  obtain r where r: "r \<in> set (rs_enums S)" "reflect_enum S r = Inr e" "ns = namespace_of (ren_name r)"
    using reflect_enums_in [OF assms(2,3)] by blast
  have "list_all (member_ok S ns) (sorted_values r)" if "ren_is_union r"
    unfolding r(3) by (rule schema_okD(4) [OF assms(1) r(1) that])
  from reflect_enum_total [OF this] r(2) show ?thesis by auto
qed

lemma mset_bucket:
  "mset (bucket_of (bucket es) ns) = mset (map (fst \<circ> snd) (filter (\<lambda>e. fst e = ns) es))"
  by (auto simp: bucket_of_def bucket_lookup Let_def multiset.map_comp filter_empty_conv)

lemma mset_map_bucket:
  "mset (map g (bucket_of (bucket es) ns)) = mset (map snd (filter (\<lambda>p. fst p = ns) (map (\<lambda>(n, x, k). (n, g x)) es)))"
  by (simp add: mset_bucket filter_map o_def case_prod_unfold multiset.map_comp)

lemma distinct_filter_snd: "distinct xs \<Longrightarrow> distinct (map snd (filter (\<lambda>p. fst p = ns) xs))"
  by (induction xs) auto

lemma split_namespace_eq: "split_namespace n = (namespace_of n, bare_name n)"
  by (simp add: namespace_of_def flip: snd_split)

lemma reflected_places:
  assumes "reflect_tables F files S = Inr ts" "reflect_enums files S = Inr es"
  shows "map (\<lambda>(n, t, k). (n, tb_name t)) ts =
      map (\<lambda>obj. split_namespace (ro_name obj)) (filter (\<lambda>obj. \<not> ro_is_struct obj) (rs_objects S))"
    and "map (\<lambda>(n, e, k). (n, em_name e)) es = map (\<lambda>r. split_namespace (ren_name r)) (rs_enums S)"
proof -
  show "map (\<lambda>(n, t, k). (n, tb_name t)) ts =
      map (\<lambda>obj. split_namespace (ro_name obj)) (filter (\<lambda>obj. \<not> ro_is_struct obj) (rs_objects S))"
    by (rule map_res_fst [OF assms(1) [unfolded reflect_tables_def]]) (auto simp: reflect_table_def split_namespace_eq)
  show "map (\<lambda>(n, e, k). (n, em_name e)) es = map (\<lambda>r. split_namespace (ren_name r)) (rs_enums S)"
    by (rule map_res_fst [OF assms(2) [unfolded reflect_enums_def]]) (auto simp: split_namespace_eq dest!: reflect_enum_union)
qed

lemma distinct_map_filter_append: "distinct (map f xs @ ys) \<Longrightarrow> distinct (map f (filter P xs) @ ys)"
  by (induction xs) auto

lemma reflected_names_distinct:
  assumes "schema_ok S" "reflect_tables F files S = Inr ts" "reflect_enums files S = Inr es"
  shows "distinct (map tb_name (bucket_of (bucket ts) ns) @ map em_name (bucket_of (bucket es) ns))"
proof -
  let ?names = "map (\<lambda>(n, t, k). (n, tb_name t)) ts @ map (\<lambda>(n, e, k). (n, em_name e)) es"
  have "distinct ?names"
    unfolding reflected_places [OF assms(2,3)] by (rule distinct_map_filter_append [OF schema_okD(5) [OF assms(1)]])
  from distinct_filter_snd [OF this]
  have "distinct (map snd (filter (\<lambda>p. fst p = ns) ?names))" .
  moreover have "mset (map tb_name (bucket_of (bucket ts) ns) @ map em_name (bucket_of (bucket es) ns)) =
      mset (map snd (filter (\<lambda>p. fst p = ns) ?names))"
    unfolding filter_append map_append mset_append mset_map_bucket ..
  ultimately show ?thesis by (metis mset_eq_imp_distinct_iff)
qed

lemma reflected_namespace_ok:
  assumes "schema_ok S" "build_reflected_schema F rd S = Inr (tables, enums)"
  shows "namespace_ok (bucket_of tables ns) (bucket_of enums ns)"
proof -
  obtain files ts es where ts: "reflect_tables F files S = Inr ts" and es: "reflect_enums files S = Inr es"
    and b: "tables = bucket ts" "enums = bucket es"
    using assms(2) by (auto simp: build_reflected_schema_parts)
  have tn: "set (map tb_name (bucket_of tables ns)) = set (table_names_in S ns)"
    using reflect_tables_names [OF ts] by (simp add: b set_bucket_of)
  have pn: "set (map em_name (plain_enums (bucket_of enums ns))) = set (enum_names_in S False ns)"
    and un: "set (map em_name (unions (bucket_of enums ns))) = set (enum_names_in S True ns)"
    using reflect_enums_names [OF es, of False ns] reflect_enums_names [OF es, of True ns]
    by (simp_all add: b plain_enums_def unions_def set_bucket_of conj_commute)
  have fields: "\<forall>t \<in> set (bucket_of tables ns). \<forall>f \<in> set (tb_fields t).
        known_type (map tb_name (bucket_of tables ns)) (map em_name (plain_enums (bucket_of enums ns))) (fd_fbs_type f) \<or>
        fd_default f = None \<and> fd_fbs_type f \<in> set (map em_name (unions (bucket_of enums ns)))"
  proof (intro ballI)
    fix t f assume t: "t \<in> set (bucket_of tables ns)" and f: "f \<in> set (tb_fields t)"
    obtain k where "(ns, t, k) \<in> set ts" using t by (auto simp: b set_bucket_of)
    from reflected_field_known [OF assms(1) ts this f]
    show "known_type (map tb_name (bucket_of tables ns)) (map em_name (plain_enums (bucket_of enums ns))) (fd_fbs_type f) \<or>
        fd_default f = None \<and> fd_fbs_type f \<in> set (map em_name (unions (bucket_of enums ns)))"
      unfolding un using known_type_set [OF _ tn [symmetric] pn [symmetric]] by blast
  qed
  have tables: "\<forall>t \<in> set (bucket_of tables ns). type_name (tb_name t)"
    using reflect_tables_in [OF ts] schema_okD(1) [OF assms(1)]
    by (fastforce simp: b set_bucket_of reflect_table_def)
  have enums: "\<forall>e \<in> set (bucket_of enums ns). type_name (em_name e)"
    using reflect_enums_in [OF es] schema_okD(3) [OF assms(1)] reflect_enum_union
    by (fastforce simp: b set_bucket_of)
  have "\<forall>e \<in> set (bucket_of enums ns). set (union_tables e) \<subseteq> set (map tb_name (bucket_of tables ns)) \<and>
        (is_union e \<longrightarrow> length (union_tables e) = length (em_variants e))"
    unfolding tn using reflected_union_tables [OF assms(1) es] by (simp add: b set_bucket_of) blast
  moreover have "distinct (map tb_name (bucket_of tables ns) @ map em_name (bucket_of enums ns))"
    unfolding b by (rule reflected_names_distinct [OF assms(1) ts es])
  ultimately show ?thesis using fields tables enums by (simp add: namespace_ok_def list_all_iff)
qed

lemma reflection_total:
  assumes "schema_ok S" "\<forall>f \<in> set (rs_fbs_files S). \<exists>t. rd (trim_root f) = Inr t"
  shows "\<exists>tables enums. build_reflected_schema F rd S = Inr (tables, enums)"
proof -
  have "\<forall>f \<in> set (rs_fbs_files S). \<exists>y. bind_res (rd (trim_root f)) (\<lambda>t. Inr (f, t)) = Inr y"
    using assms(2) by auto
  from map_res_total [OF this] obtain files where "read_sources rd S = Inr files"
    unfolding read_sources_def by blast
  then show ?thesis
    using reflect_tables_total [OF assms(1), of F files] reflect_enums_total [OF assms(1), of files]
    by (auto simp: build_reflected_schema_parts)
qed

end
