(* ===== verification/Codegen.thy ===== *)
theory Codegen
  imports Reflection Registry
begin

text \<open>
  The Rust generator of \<^verbatim>\<open>crates/flatbed_build/src/codegen.rs\<close>. What it writes is a list of
  items, one constructor per text template, whose arguments are what the template interpolates;
  the wording of a template is its constructor. A panic, which fails the user's build, is \<open>Inl\<close>.
\<close>

subsection \<open>Identifiers\<close>

definition rust_keywords :: "string list" where
  "rust_keywords =
     [''as'', ''break'', ''const'', ''continue'', ''crate'', ''else'', ''enum'', ''extern'', ''false'', ''fn'',
      ''for'', ''if'', ''impl'', ''in'', ''let'', ''loop'', ''match'', ''mod'', ''move'', ''mut'', ''pub'',
      ''ref'', ''return'', ''Self'', ''self'', ''static'', ''struct'', ''super'', ''trait'', ''true'',
      ''type'', ''unsafe'', ''use'', ''where'', ''while'', ''abstract'', ''alignof'', ''become'', ''box'',
      ''do'', ''final'', ''macro'', ''offsetof'', ''override'', ''priv'', ''proc'', ''pure'', ''sizeof'',
      ''typeof'', ''unsized'', ''virtual'', ''yield'', ''std'', ''usize'', ''isize'', ''u8'', ''i8'',
      ''u16'', ''i16'', ''u32'', ''i32'', ''u64'', ''i64'', ''u128'', ''i128'', ''f32'', ''f64'', ''follow'',
      ''push'', ''to_little_endian'', ''from_little_endian'', ''ENUM_MAX'', ''ENUM_MIN'', ''ENUM_VALUES'']"

definition rust_ident :: "string \<Rightarrow> string" where
  "rust_ident n = (if List.member rust_keywords n then n @ ''_'' else n)"

subsection \<open>Items\<close>

text \<open>How a field is prepared for the builder, before the table is created.\<close>

datatype build_expr = BuildUnion | CreateString | CreateStringVector | BuildTableVector | CreateVector | BuildTable

text \<open>A member of flatc's \<open>Args\<close>: a union's discriminator, a prepared offset, or the field itself.\<close>

datatype arg_expr = UnionTypeOf string string | OffsetOf string | FieldOf string

text \<open>How a field is read back, by accessor names and the types whose \<open>from_fb\<close> decode it.\<close>

datatype read_expr =
    ReadUnion string string string
  | ReadString string
  | ReadStringVector string
  | ReadTableVector string string
  | ReadVector string
  | ReadTable string string
  | ReadField string

record struct_impl =
  sm_table :: string
  sm_offsets :: "(string \<times> build_expr) list"
  sm_args :: "(string \<times> arg_expr) list"
  sm_reads :: "(string \<times> read_expr) list"

datatype field_attr =
    SchemaValueType string
  | SerdeFlatten string
  | SerdeRename string
  | SerdeWith string "string option"
  | SerdeDefault string

record struct_field =
  sf_ident :: string
  sf_attrs :: "field_attr list"
  sf_type :: string

record plain_struct =
  ps_name :: string
  ps_derive_default :: bool
  ps_fields :: "struct_field list"

record page_response =
  pr_table :: string
  pr_request :: "string option"
  pr_item :: string
  pr_values :: "(string \<times> string) list"

datatype item =
    UseEnum string string
  | EnumSerde string string "string list"
  | EnumOptVecSerde string string "string list"
  | FlagsSerde string string "string list"
  | FlagsOptVecSerde string string
  | SubmitEnum enum_schema
  | UnionEnum string "(string \<times> string) list"
  | UnionImpl string string "(string \<times> string) list"
  | UnionSerde string string "string list" "(string \<times> string) list" "string list"
  | SubmitUnion union_schema
  | DefaultFn string string string
  | PlainStruct plain_struct
  | UnionFieldSerde string string string string string
  | StructImpl string struct_impl
  | DefaultImpl string "(string \<times> string) list"
  | FlatBufferTraits string string schema_info
  | SubmitType type_schema
  | PageRequestImpl string
  | PageResponseImpl page_response

text \<open>The generated file: the private module of flatc's code, the binary schema, the namespaces.\<close>

record module_file =
  mf_include :: string
  mf_bfbs :: string
  mf_namespaces :: "(string \<times> item list) list"

subsection \<open>Enums\<close>

definition generate_bit_flags_serde :: "enum \<Rightarrow> item list" where
  "generate_bit_flags_serde e =
     (let lower = to_lowercase (em_name e)
      in [FlagsSerde lower (em_name e) (em_variants e), FlagsOptVecSerde lower (em_name e)])"

definition generate_enum_serde :: "enum \<Rightarrow> item list" where
  "generate_enum_serde e =
     (if em_kind e = BitFlags then generate_bit_flags_serde e
      else (let lower = to_lowercase (em_name e)
            in [EnumSerde lower (em_name e) (em_variants e), EnumOptVecSerde lower (em_name e) (em_variants e)]))"

definition generate_enum_schema_registration :: "string \<Rightarrow> enum \<Rightarrow> item" where
  "generate_enum_schema_registration ns e =
     SubmitEnum \<lparr>en_name = em_name e, en_namespace = ns, en_variants = em_variants e,
                 en_bit_flags = (em_kind e = BitFlags)\<rparr>"

text \<open>\<open>seen\<close> maps a lowercased name to the enum it came from.\<close>

fun check_lowercase :: "(string \<rightharpoonup> string) \<Rightarrow> string list \<Rightarrow> string + unit" where
  "check_lowercase seen [] = Inr ()"
| "check_lowercase seen (n # ns) =
     (case seen (to_lowercase n) of
        Some prev \<Rightarrow> Inl (''enum names '' @ quoted_name prev @ '' and '' @ quoted_name n @ '' collide'')
      | None \<Rightarrow> check_lowercase (seen(to_lowercase n \<mapsto> n)) ns)"

subsection \<open>Unions\<close>

definition generate_union :: "string \<Rightarrow> enum \<Rightarrow> item list" where
  "generate_union ns u =
     (let members = zip (em_variants u) (union_tables u)
      in [UnionEnum (em_name u) members,
          UnionImpl (em_name u) ns members,
          UnionSerde (to_lowercase (em_name u)) (em_name u) (em_variants u) members (remdups (sort (union_tables u))),
          SubmitUnion \<lparr>un_name = em_name u, un_namespace = ns, un_variants = members\<rparr>])"

definition union_field_module :: "table \<Rightarrow> field \<Rightarrow> string" where
  "union_field_module t f = ''_'' @ to_lowercase (tb_name t) @ ''_'' @ fd_name f @ ''_union_field_serde''"

definition generate_union_field_serde :: "table \<Rightarrow> field \<Rightarrow> item" where
  "generate_union_field_serde t f =
     UnionFieldSerde (union_field_module t f) (fd_fbs_type f) (to_lowercase (fd_fbs_type f))
       (fd_name f @ ''_type'') (fd_name f)"

subsection \<open>Structs\<close>

text \<open>\<open>default_fn\<close> of \<open>generate_plain_struct\<close>.\<close>

definition default_fn :: "table \<Rightarrow> field \<Rightarrow> string" where
  "default_fn t f = ''default_'' @ tb_name t @ ''_'' @ fd_name f"

definition has_custom_default :: "table \<Rightarrow> bool" where
  "has_custom_default t \<longleftrightarrow> list_ex (\<lambda>f. fd_default f \<noteq> None) (tb_fields t)"

definition default_functions :: "table \<Rightarrow> string list \<Rightarrow> string list \<Rightarrow> string + item list" where
  "default_functions t tables enums =
     bind_res (map_res (\<lambda>f.
         (case fd_default f of
            None \<Rightarrow> Inr []
          | Some lit \<Rightarrow> bind_res (fbs_type_to_rust_type (fd_fbs_type f) tables enums)
              (\<lambda>ty. Inr [DefaultFn (default_fn t f) ty lit]))) (tb_fields t))
       (\<lambda>fns. Inr (concat fns))"

definition field_attrs :: "table \<Rightarrow> field \<Rightarrow> string list \<Rightarrow> string list \<Rightarrow> field_attr list" where
  "field_attrs t f enums bit_flags =
     (if rust_ident (fd_name f) \<noteq> fd_name f then [SerdeRename (fd_name f)] else []) @
     (if is_enum_type (fd_fbs_type f) enums then
        [SchemaValueType (if List.member bit_flags (fd_fbs_type f) then ''Vec<String>'' else ''String''),
         SerdeWith (''_'' @ to_lowercase (fd_fbs_type f) @ ''_serde'') (map_option (\<lambda>_. default_fn t f) (fd_default f))]
      else if is_enum_vector (fd_fbs_type f) enums then
        (let inner = vector_inner_type (fd_fbs_type f)
         in [SchemaValueType (if List.member bit_flags inner then ''Vec<Vec<String>>'' else ''Vec<String>''),
             SerdeWith (''_'' @ to_lowercase inner @ ''_opt_vec_serde'') None])
      else if fd_default f \<noteq> None then [SerdeDefault (default_fn t f)]
      else [])"

definition struct_field ::
  "table \<Rightarrow> string list \<Rightarrow> string list \<Rightarrow> string list \<Rightarrow> string list \<Rightarrow> field \<Rightarrow> string + struct_field" where
  "struct_field t tables enums bit_flags union_names f =
     (if List.member union_names (fd_fbs_type f) then
        Inr \<lparr>sf_ident = rust_ident (fd_name f),
             sf_attrs = [SchemaValueType ''Object'', SerdeFlatten (union_field_module t f)],
             sf_type = ''Option<'' @ fd_fbs_type f @ ''>''\<rparr>
      else
        bind_res (fbs_type_to_rust_type (fd_fbs_type f) tables enums) (\<lambda>ty.
          Inr \<lparr>sf_ident = rust_ident (fd_name f), sf_attrs = field_attrs t f enums bit_flags, sf_type = ty\<rparr>))"

definition generate_plain_struct ::
  "table \<Rightarrow> string list \<Rightarrow> string list \<Rightarrow> string list \<Rightarrow> string list \<Rightarrow> string + item list" where
  "generate_plain_struct t tables enums bit_flags union_names =
     bind_res (default_functions t tables enums) (\<lambda>fns.
     bind_res (map_res (struct_field t tables enums bit_flags union_names) (tb_fields t)) (\<lambda>fields.
       Inr (fns @
            [PlainStruct \<lparr>ps_name = tb_name t, ps_derive_default = (\<not> has_custom_default t), ps_fields = fields\<rparr>] @
            map (generate_union_field_serde t)
              (filter (\<lambda>f. List.member union_names (fd_fbs_type f)) (tb_fields t)))))"

subsection \<open>Conversions\<close>

definition build_step :: "string list \<Rightarrow> string list \<Rightarrow> field \<Rightarrow> (string \<times> build_expr) list" where
  "build_step tables union_names f =
     (let ident = rust_ident (fd_name f); t = fd_fbs_type f
      in if List.member union_names t then [(ident, BuildUnion)]
         else if t = ''string'' then [(ident, CreateString)]
         else if is_vector_type t then
           (if vector_inner_type t = ''string'' then [(ident, CreateStringVector)]
            else if is_table_vector t tables then [(ident, BuildTableVector)]
            else [(ident, CreateVector)])
         else if is_table_type t tables then [(ident, BuildTable)]
         else [])"

definition create_args :: "string list \<Rightarrow> string list \<Rightarrow> field \<Rightarrow> (string \<times> arg_expr) list" where
  "create_args tables union_names f =
     (let ident = rust_ident (fd_name f); t = fd_fbs_type f
      in if List.member union_names t then
           [(rust_ident (fd_name f @ ''_type''), UnionTypeOf t ident), (ident, OffsetOf ident)]
         else if t = ''string'' \<or> is_table_type t tables \<or> is_vector_type t then [(ident, OffsetOf ident)]
         else [(ident, FieldOf ident)])"

definition read_field :: "string list \<Rightarrow> string list \<Rightarrow> field \<Rightarrow> string \<times> read_expr" where
  "read_field tables union_names f =
     (let ident = rust_ident (fd_name f); t = fd_fbs_type f
      in (ident,
          if List.member union_names t then ReadUnion t (rust_ident (fd_name f @ ''_type'')) ident
          else if t = ''string'' then ReadString ident
          else if is_vector_type t then
            (if vector_inner_type t = ''string'' then ReadStringVector ident
             else if is_table_vector t tables then ReadTableVector (vector_inner_type t) ident
             else ReadVector ident)
          else if is_table_type t tables then ReadTable t ident
          else ReadField ident))"

definition generate_plain_struct_impl :: "table \<Rightarrow> string \<Rightarrow> string list \<Rightarrow> string list \<Rightarrow> item" where
  "generate_plain_struct_impl t ns tables union_names =
     StructImpl ns
       \<lparr>sm_table = tb_name t,
        sm_offsets = concat (map (build_step tables union_names) (tb_fields t)),
        sm_args = concat (map (create_args tables union_names) (tb_fields t)),
        sm_reads = map (read_field tables union_names) (tb_fields t)\<rparr>"

text \<open>A field without a declared default takes its type's.\<close>

definition default_expr :: "field \<Rightarrow> string" where
  "default_expr f = (case fd_default f of Some lit \<Rightarrow> lit | None \<Rightarrow> ''Default::default()'')"

definition generate_default_impl :: "table \<Rightarrow> item list" where
  "generate_default_impl t =
     (if \<not> has_custom_default t then []
      else [DefaultImpl (tb_name t) (map (\<lambda>f. (rust_ident (fd_name f), default_expr f)) (tb_fields t))])"

subsection \<open>Registrations\<close>

definition is_required :: "string \<Rightarrow> string list \<Rightarrow> string list \<Rightarrow> bool" where
  "is_required t tables union_names \<longleftrightarrow>
     \<not> is_optional_type t \<and> \<not> is_table_type t tables \<and> \<not> List.member union_names t"

definition generate_type_schema_registration :: "table \<Rightarrow> string \<Rightarrow> string list \<Rightarrow> string list \<Rightarrow> item" where
  "generate_type_schema_registration t ns tables union_names =
     SubmitType
       \<lparr>ty_name = tb_name t, ty_namespace = ns,
        ty_fields = map (\<lambda>f.
          \<lparr>tf_name = fd_name f, tf_fbs_type = fd_fbs_type f, tf_field_id = fd_id f,
           tf_required = is_required (fd_fbs_type f) tables union_names\<rparr>) (tb_fields t)\<rparr>"

text \<open>\<open>ToFlatBuffer\<close> with its schema constants, \<open>FromFlatBuffer\<close> and the two companion traits.\<close>

definition generate_flatbed_trait_impls :: "table \<Rightarrow> string \<Rightarrow> string list \<Rightarrow> string list \<Rightarrow> item" where
  "generate_flatbed_trait_impls t ns tables union_names =
     FlatBufferTraits ns (tb_name t)
       \<lparr>si_name = tb_name t,
        si_fields = map (\<lambda>f.
          \<lparr>fi_name = fd_name f, fi_fbs_type = fd_fbs_type f,
           fi_required = is_required (fd_fbs_type f) tables union_names\<rparr>) (tb_fields t)\<rparr>"

subsection \<open>Pagination\<close>

definition page_table :: string where
  "page_table = ''Page''"

definition has_page_field :: "table \<Rightarrow> bool" where
  "has_page_field t \<longleftrightarrow> list_ex (\<lambda>f. fd_fbs_type f = page_table) (tb_fields t)"

definition generate_page_request_impl :: "table \<Rightarrow> string + item list" where
  "generate_page_request_impl t =
     (let get = (\<lambda>n. List.find (\<lambda>f. fd_name f = n) (tb_fields t))
      in if \<not> (case get ''page'' of Some f \<Rightarrow> fd_fbs_type f = ''string'' | None \<Rightarrow> False) then
           Inl (''paginated request '' @ quoted_name (tb_name t) @ '' needs a `page: string` field'')
         else (case get ''page_size'' of
             None \<Rightarrow> Inl (''paginated request '' @ quoted_name (tb_name t) @ '' needs a `page_size: uint` field'')
           | Some f \<Rightarrow>
               if fd_fbs_type f \<noteq> ''uint32'' then
                 Inl (''paginated request '' @ quoted_name (tb_name t) @ '' needs a `page_size: uint` field'')
               else if fd_default f \<noteq> None then
                 Inl (''`page_size` of paginated request '' @ quoted_name (tb_name t) @ '' must not declare a default'')
               else Inr [PageRequestImpl (tb_name t)]))"

definition check_page_table :: "table list \<Rightarrow> string + unit" where
  "check_page_table tables =
     (case List.find (\<lambda>t. tb_name t = page_table) tables of
        None \<Rightarrow> Inl ''paginated responses need a `Page` table in the same namespace''
      | Some p \<Rightarrow>
          if sort (map (\<lambda>f. (fd_name f, fd_fbs_type f)) (tb_fields p))
               = [(''next_page'', ''string''), (''previous_page'', ''string'')]
          then Inr ()
          else Inl ''table `Page` must be exactly `next_page: string; previous_page: string;`'')"

definition is_page_request :: "table list \<Rightarrow> string \<Rightarrow> bool" where
  "is_page_request tables t \<longleftrightarrow> list_ex (\<lambda>x. tb_name x = t \<and> tb_paginated x \<and> \<not> has_page_field x) tables"

definition page_value :: "field \<Rightarrow> field option \<Rightarrow> field \<Rightarrow> string" where
  "page_value items applied f =
     (if fd_name f = fd_name items then ''Some(items)''
      else if fd_fbs_type f = page_table then ''Some(Page { next_page, previous_page })''
      else if (case applied of Some a \<Rightarrow> fd_name a = fd_name f | None \<Rightarrow> False) then ''Some(applied)''
      else default_expr f)"

definition generate_page_response_impl :: "table \<Rightarrow> table list \<Rightarrow> string + item list" where
  "generate_page_response_impl t tables =
     bind_res (check_page_table tables) (\<lambda>_.
       let names = map tb_name tables;
           pages = length (filter (\<lambda>f. fd_fbs_type f = page_table) (tb_fields t));
           applied = filter (\<lambda>f. is_page_request tables (fd_fbs_type f)) (tb_fields t);
           failure = (\<lambda>why. Inl (''paginated response '' @ quoted_name (tb_name t) @ why))
       in if pages \<noteq> 1 then failure ('' needs exactly one `Page` field, found '' @ show_nat pages)
          else (case filter (\<lambda>f. is_table_vector (fd_fbs_type f) names) (tb_fields t) of
              [items] \<Rightarrow>
                if 1 < length applied then
                  failure ('' has '' @ show_nat (length applied) @ '' fields typed as a paginated request'')
                else
                  (let a = (case applied of f # _ \<Rightarrow> Some f | [] \<Rightarrow> None)
                   in Inr [PageResponseImpl
                        \<lparr>pr_table = tb_name t, pr_request = map_option fd_fbs_type a,
                         pr_item = vector_inner_type (fd_fbs_type items),
                         pr_values = map (\<lambda>f. (rust_ident (fd_name f), page_value items a f)) (tb_fields t)\<rparr>])
            | others \<Rightarrow> failure ('' needs exactly one vector of tables (its items), found '' @ show_nat (length others))))"

definition generate_page_impl :: "table list \<Rightarrow> table \<Rightarrow> string + item list" where
  "generate_page_impl tables t =
     (if has_page_field t then generate_page_response_impl t tables else generate_page_request_impl t)"

subsection \<open>Modules\<close>

definition generate_plain_struct_module :: "string \<Rightarrow> table list \<Rightarrow> enum list \<Rightarrow> string + item list" where
  "generate_plain_struct_module ns tables all_enums =
     (let table_names = map tb_name tables;
          us = unions all_enums;
          enums = plain_enums all_enums;
          enum_names = map em_name enums;
          union_names = map em_name us;
          bit_flags_names = map em_name (filter (\<lambda>e. em_kind e = BitFlags) enums)
      in bind_res (check_lowercase Map.empty enum_names) (\<lambda>_.
         bind_res (map_res (\<lambda>t. generate_plain_struct t table_names enum_names bit_flags_names union_names) tables)
           (\<lambda>structs.
         bind_res (map_res (generate_page_impl tables) (filter tb_paginated tables)) (\<lambda>pages.
           Inr (map (UseEnum ns) enum_names @
                concat (map generate_enum_serde enums) @
                map (generate_enum_schema_registration ns) enums @
                concat (map (generate_union ns) us) @
                concat structs @
                concat (map (\<lambda>t.
                  generate_plain_struct_impl t ns table_names union_names # generate_default_impl t @
                  [generate_flatbed_trait_impls t ns table_names union_names,
                   generate_type_schema_registration t ns table_names union_names]) tables) @
                concat pages)))))"

text \<open>A \<open>BTreeSet\<close> of the namespaces iterates in order.\<close>

definition generate_flatbed_module ::
  "table by_namespace \<Rightarrow> enum by_namespace \<Rightarrow> string \<Rightarrow> string + module_file" where
  "generate_flatbed_module tables enums stem =
     bind_res (map_res (\<lambda>ns.
         bind_res (generate_plain_struct_module ns (bucket_of tables ns) (bucket_of enums ns)) (\<lambda>items. Inr (ns, items)))
       (sort (remdups (map fst tables @ map fst enums)))) (\<lambda>namespaces.
     Inr \<lparr>mf_include = stem @ ''_generated.rs'', mf_bfbs = stem @ ''.bfbs'', mf_namespaces = namespaces\<rparr>)"

subsection \<open>Well-typed schemas generate\<close>

text \<open>What remains for the schema's author: names that differ by more than case, pages of their shape.\<close>

definition distinct_lowercase :: "string list \<Rightarrow> bool" where
  "distinct_lowercase ns \<longleftrightarrow> distinct (map to_lowercase ns)"

definition field_is :: "table \<Rightarrow> string \<Rightarrow> (field \<Rightarrow> bool) \<Rightarrow> bool" where
  "field_is t n P \<longleftrightarrow> (case List.find (\<lambda>f. fd_name f = n) (tb_fields t) of Some f \<Rightarrow> P f | None \<Rightarrow> False)"

definition page_request_ok :: "table \<Rightarrow> bool" where
  "page_request_ok t \<longleftrightarrow>
     field_is t ''page'' (\<lambda>f. fd_fbs_type f = ''string'') \<and>
     field_is t ''page_size'' (\<lambda>f. fd_fbs_type f = ''uint32'' \<and> fd_default f = None)"

definition page_response_ok :: "table list \<Rightarrow> table \<Rightarrow> bool" where
  "page_response_ok tables t \<longleftrightarrow>
     (case List.find (\<lambda>p. tb_name p = page_table) tables of
        Some p \<Rightarrow> sort (map (\<lambda>f. (fd_name f, fd_fbs_type f)) (tb_fields p)) =
          [(''next_page'', ''string''), (''previous_page'', ''string'')]
      | None \<Rightarrow> False) \<and>
     length (filter (\<lambda>f. fd_fbs_type f = page_table) (tb_fields t)) = 1 \<and>
     length (filter (\<lambda>f. is_table_vector (fd_fbs_type f) (map tb_name tables)) (tb_fields t)) = 1 \<and>
     length (filter (\<lambda>f. is_page_request tables (fd_fbs_type f)) (tb_fields t)) \<le> 1"

definition pages_ok :: "table list \<Rightarrow> bool" where
  "pages_ok tables \<longleftrightarrow>
     list_all (\<lambda>t. tb_paginated t \<longrightarrow> (if has_page_field t then page_response_ok tables t else page_request_ok t)) tables"

lemma check_lowercase_iff:
  "check_lowercase seen ns = Inr () \<longleftrightarrow>
   distinct (map to_lowercase ns) \<and> (\<forall>n \<in> set ns. seen (to_lowercase n) = None)"
proof (induction seen ns rule: check_lowercase.induct)
  case (2 seen n ns)
  show ?case
  proof (cases "seen (to_lowercase n)")
    case None
    have "(\<forall>m \<in> set ns. (seen(to_lowercase n \<mapsto> n)) (to_lowercase m) = None) \<longleftrightarrow>
        to_lowercase n \<notin> to_lowercase ` set ns \<and> (\<forall>m \<in> set ns. seen (to_lowercase m) = None)"
      by (auto simp: image_iff)
    then show ?thesis using 2 [OF None] None by (simp del: fun_upd_apply) blast
  qed simp
qed simp

lemma page_request_total: "page_request_ok t \<longleftrightarrow> (\<exists>items. generate_page_request_impl t = Inr items)"
  by (auto simp: page_request_ok_def field_is_def generate_page_request_impl_def Let_def split: option.splits)

lemma length_one: "length xs = 1 \<longleftrightarrow> (\<exists>x. xs = [x])"
  by (auto simp: length_Suc_conv)

lemma check_page_table_total:
  "check_page_table tables = Inr () \<longleftrightarrow>
   (case List.find (\<lambda>p. tb_name p = page_table) tables of
        Some p \<Rightarrow> sort (map (\<lambda>f. (fd_name f, fd_fbs_type f)) (tb_fields p)) =
          [(''next_page'', ''string''), (''previous_page'', ''string'')]
      | None \<Rightarrow> False)"
  by (simp add: check_page_table_def split: option.split)

lemma page_response_total: "page_response_ok tables t \<longleftrightarrow> (\<exists>items. generate_page_response_impl t tables = Inr items)"
proof -
  let ?items = "filter (\<lambda>f. is_table_vector (fd_fbs_type f) (map tb_name tables)) (tb_fields t)"
  show ?thesis
    unfolding page_response_ok_def check_page_table_total [symmetric] length_one [of ?items]
    unfolding generate_page_response_impl_def Let_def bind_res_Inr
    by (auto split: list.split)
qed

lemma page_impl_total:
  "pages_ok tables \<longleftrightarrow> (\<exists>items. map_res (generate_page_impl tables) (filter tb_paginated tables) = Inr items)"
proof -
  have "pages_ok tables \<longleftrightarrow> (\<forall>t \<in> set (filter tb_paginated tables). \<exists>i. generate_page_impl tables t = Inr i)"
    by (auto simp: pages_ok_def list_all_iff generate_page_impl_def page_response_total page_request_total)
  then show ?thesis using map_res_total map_res_all by metis
qed

lemma namespace_okD:
  assumes "namespace_ok ts es"
  shows "list_all type_name (map tb_name ts)"
    and "list_all type_name (map em_name es)"
    and "t \<in> set ts \<Longrightarrow> f \<in> set (tb_fields t) \<Longrightarrow>
      known_type (map tb_name ts) (map em_name (plain_enums es)) (fd_fbs_type f) \<or>
      fd_default f = None \<and> fd_fbs_type f \<in> set (map em_name (unions es))"
    and "e \<in> set es \<Longrightarrow> set (union_tables e) \<subseteq> set (map tb_name ts)"
    and "e \<in> set es \<Longrightarrow> is_union e \<Longrightarrow> length (union_tables e) = length (em_variants e)"
    and "distinct (map tb_name ts @ map em_name es)"
  using assms unfolding namespace_ok_def list.pred_map comp_def by blast+

lemma type_names_enums:
  assumes "namespace_ok ts es"
  shows "list_all type_name (map em_name (plain_enums es))" and "list_all type_name (map em_name (unions es))"
  using namespace_okD(2) [OF assms] by (auto simp: list_all_iff plain_enums_def unions_def)

lemma names_disjoint:
  assumes "namespace_ok ts es" "x \<in> set (map em_name (unions es))"
  shows "x \<notin> set (map tb_name ts)" and "x \<notin> set (map em_name (plain_enums es))"
proof -
  obtain u where u: "u \<in> set es" "is_union u" "x = em_name u" using assms(2) by (auto simp: unions_def)
  have d: "set (map tb_name ts) \<inter> set (map em_name es) = {}" "distinct (map em_name es)"
    using namespace_okD(6) [OF assms(1)] unfolding distinct_append by blast+
  show "x \<notin> set (map tb_name ts)" using d(1) u by auto
  show "x \<notin> set (map em_name (plain_enums es))"
  proof
    assume "x \<in> set (map em_name (plain_enums es))"
    then obtain e where "e \<in> set es" "\<not> is_union e" "x = em_name e" by (auto simp: plain_enums_def)
    with u d(2) show False by (metis distinct_map inj_onD)
  qed
qed

lemma known_field_type:
  assumes "namespace_ok ts es" "t \<in> set ts" "f \<in> set (tb_fields t)"
    "fd_fbs_type f \<notin> set (map em_name (unions es))"
  shows "\<exists>r. fbs_type_to_rust_type (fd_fbs_type f) (map tb_name ts) (map em_name (plain_enums es)) = Inr r"
  using known_type_has_rust_type namespace_okD(3) [OF assms(1-3)] assms(4) namespace_okD(1) [OF assms(1)]
    type_names_enums(1) [OF assms(1)] by blast

text \<open>A field with a declared default is no union's: its type is known to the mapper.\<close>

lemma known_not_union:
  assumes "namespace_ok ts es" "known_type (map tb_name ts) (map em_name (plain_enums es)) x"
  shows "x \<notin> set (map em_name (unions es))"
proof
  assume x: "x \<in> set (map em_name (unions es))"
  then have u: "type_name x" using type_names_enums(2) [OF assms(1)] unfolding list_all_iff by blast
  from assms(2) show False
  proof cases
    case kt_scalar
    then show False using u by (auto simp: type_name_def)
  next
    case (kt_vector t r)
    then show False using type_name_plain [OF u] vector_type_not_plain by blast
  qed (use names_disjoint [OF assms(1) x] in blast)+
qed

lemma default_type:
  assumes "namespace_ok ts es" "t \<in> set ts" "f \<in> set (tb_fields t)" "fd_default f \<noteq> None"
  shows "\<exists>r. fbs_type_to_rust_type (fd_fbs_type f) (map tb_name ts) (map em_name (plain_enums es)) = Inr r"
  using namespace_okD(3) [OF assms(1-3)] assms(4) known_not_union [OF assms(1)] known_field_type [OF assms(1-3)] by blast

lemma default_functions_total:
  assumes "\<And>f. f \<in> set (tb_fields t) \<Longrightarrow> fd_default f \<noteq> None \<Longrightarrow> \<exists>r. fbs_type_to_rust_type (fd_fbs_type f) ts es = Inr r"
  shows "\<exists>fns. default_functions t ts es = Inr fns"
proof -
  let ?one = "\<lambda>f. (case fd_default f of None \<Rightarrow> Inr []
      | Some lit \<Rightarrow> bind_res (fbs_type_to_rust_type (fd_fbs_type f) ts es) (\<lambda>ty. Inr [DefaultFn (default_fn t f) ty lit]))"
  have "\<forall>f \<in> set (tb_fields t). \<exists>y. ?one f = Inr y"
  proof
    fix f assume "f \<in> set (tb_fields t)"
    from assms [OF this] show "\<exists>y. ?one f = Inr y" by (cases "fd_default f") (auto simp: bind_res_def)
  qed
  from map_res_total [OF this] show ?thesis unfolding default_functions_def by auto
qed

lemma plain_struct_total:
  assumes "namespace_ok ts es" "t \<in> set ts"
  shows "\<exists>items. generate_plain_struct t (map tb_name ts) (map em_name (plain_enums es)) b (map em_name (unions es)) = Inr items"
proof -
  let ?ts = "map tb_name ts" and ?es = "map em_name (plain_enums es)" and ?us = "map em_name (unions es)"
  have "\<forall>f \<in> set (tb_fields t). \<exists>y. struct_field t ?ts ?es b ?us f = Inr y"
  proof
    fix f assume "f \<in> set (tb_fields t)"
    from known_field_type [OF assms this] show "\<exists>y. struct_field t ?ts ?es b ?us f = Inr y"
      by (auto simp: struct_field_def bind_res_def)
  qed
  from map_res_total [OF this] obtain fields where "map_res (struct_field t ?ts ?es b ?us) (tb_fields t) = Inr fields" ..
  moreover obtain fns where "default_functions t ?ts ?es = Inr fns"
    using default_functions_total [of t] default_type [OF assms] by blast
  ultimately show ?thesis unfolding generate_plain_struct_def by auto
qed

lemma module_generates_iff:
  assumes "namespace_ok ts es"
  shows "(\<exists>items. generate_plain_struct_module ns ts es = Inr items) \<longleftrightarrow>
    distinct_lowercase (map em_name (plain_enums es)) \<and> pages_ok ts"
proof -
  let ?ts = "map tb_name ts" and ?es = "map em_name (plain_enums es)" and ?us = "map em_name (unions es)"
  let ?b = "map em_name (filter (\<lambda>e. em_kind e = BitFlags) (plain_enums es))"
  have "\<forall>t \<in> set ts. \<exists>y. generate_plain_struct t ?ts ?es ?b ?us = Inr y"
    using plain_struct_total [OF assms] by blast
  from map_res_total [OF this] obtain structs where
    "map_res (\<lambda>t. generate_plain_struct t ?ts ?es ?b ?us) ts = Inr structs" by blast
  moreover have "check_lowercase Map.empty ?es = Inr () \<longleftrightarrow> distinct_lowercase ?es"
    by (simp add: check_lowercase_iff distinct_lowercase_def)
  ultimately show ?thesis
    unfolding generate_plain_struct_module_def Let_def page_impl_total by auto
qed


definition author_ok :: "table by_namespace \<Rightarrow> enum by_namespace \<Rightarrow> string \<Rightarrow> bool" where
  "author_ok tables enums ns \<longleftrightarrow>
     distinct_lowercase (map em_name (plain_enums (bucket_of enums ns))) \<and> pages_ok (bucket_of tables ns)"

lemma generates_iff:
  assumes "\<And>ns. namespace_ok (bucket_of tables ns) (bucket_of enums ns)"
  shows "(\<exists>file. generate_flatbed_module tables enums stem = Inr file) \<longleftrightarrow>
    (\<forall>ns \<in> set (map fst tables @ map fst enums). author_ok tables enums ns)"
proof -
  let ?nss = "sort (remdups (map fst tables @ map fst enums))"
  let ?gen = "\<lambda>ns. bind_res (generate_plain_struct_module ns (bucket_of tables ns) (bucket_of enums ns)) (\<lambda>items. Inr (ns, items))"
  have one: "(\<exists>y. ?gen ns = Inr y) \<longleftrightarrow> author_ok tables enums ns" for ns
    unfolding author_ok_def using module_generates_iff [OF assms, of ns ns] by auto
  have "(\<exists>file. generate_flatbed_module tables enums stem = Inr file) \<longleftrightarrow> (\<exists>m. map_res ?gen ?nss = Inr m)"
    unfolding generate_flatbed_module_def by auto
  also have "\<dots> \<longleftrightarrow> (\<forall>ns \<in> set ?nss. \<exists>y. ?gen ns = Inr y)" by (rule map_res_total_iff)
  also have "\<dots> \<longleftrightarrow> (\<forall>ns \<in> set ?nss. author_ok tables enums ns)" unfolding one ..
  also have "set ?nss = set (map fst tables @ map fst enums)" by simp
  finally show ?thesis .
qed

text \<open>
  C26. A schema flatc accepts, of the features the generator supports, always reflects; it then
  generates, or the build fails, just as every namespace's enums differ by more than case and its
  paginated tables have the documented shape. In particular every field has a Rust type.
\<close>

theorem well_typed_schema_generates:
  assumes "schema_ok S" "\<forall>f \<in> set (rs_fbs_files S). \<exists>t. rd (trim_root f) = Inr t"
  shows "\<exists>tables enums. build_reflected_schema F rd S = Inr (tables, enums) \<and>
    ((\<exists>file. generate_flatbed_module tables enums stem = Inr file) \<longleftrightarrow>
     (\<forall>ns \<in> set (map fst tables @ map fst enums). author_ok tables enums ns))"
  using reflection_total [OF assms] reflected_namespace_ok [OF assms(1)] generates_iff by metis

text \<open>A schema of two tables, an enum and a union, all in \<^verbatim>\<open>v1\<close>.\<close>

definition scalar_rtype :: "base_type \<Rightarrow> rtype" where
  "scalar_rtype b = \<lparr>rt_base = b, rt_element = NoType, rt_index = -1\<rparr>"

definition mail_field :: "string \<Rightarrow> rtype \<Rightarrow> 16 word \<Rightarrow> int \<Rightarrow> unit rfield" where
  "mail_field n ty i dv = \<lparr>rf_name = n, rf_type = ty, rf_id = i, rf_default_integer = dv, rf_default_real = ()\<rparr>"

definition mail_schema :: "unit rschema" where
  "mail_schema =
     \<lparr>rs_objects =
        [\<lparr>ro_name = ''v1.Mail'', ro_is_struct = False,
          ro_fields =
            [mail_field ''level'' \<lparr>rt_base = TByte, rt_element = NoType, rt_index = 0\<rparr> 1 1,
             mail_field ''note'' (scalar_rtype TString) 0 0,
             mail_field ''parts'' \<lparr>rt_base = TVector, rt_element = TObj, rt_index = 1\<rparr> 2 0,
             mail_field ''ref_type'' \<lparr>rt_base = TUType, rt_element = NoType, rt_index = 1\<rparr> 3 0,
             mail_field ''ref'' \<lparr>rt_base = TUnion, rt_element = NoType, rt_index = 1\<rparr> 4 0],
          ro_attributes = [], ro_declaration_file = Some ''//mail.fbs''\<rparr>,
         \<lparr>ro_name = ''v1.Part'', ro_is_struct = False, ro_fields = [mail_field ''size'' (scalar_rtype TUInt) 0 7],
          ro_attributes = [], ro_declaration_file = Some ''//mail.fbs''\<rparr>],
      rs_enums =
        [\<lparr>ren_name = ''v1.Level'', ren_is_union = False,
          ren_values = [\<lparr>rv_name = ''Low'', rv_value = 0, rv_union_type = None\<rparr>, \<lparr>rv_name = ''High'', rv_value = 1, rv_union_type = None\<rparr>],
          ren_attributes = [], ren_underlying = scalar_rtype TByte, ren_declaration_file = Some ''//mail.fbs''\<rparr>,
         \<lparr>ren_name = ''v1.Source'', ren_is_union = True,
          ren_values = [\<lparr>rv_name = ''NONE'', rv_value = 0, rv_union_type = None\<rparr>,
            \<lparr>rv_name = ''Part'', rv_value = 1, rv_union_type = Some \<lparr>rt_base = TObj, rt_element = NoType, rt_index = 1\<rparr>\<rparr>],
          ren_attributes = [], ren_underlying = scalar_rtype TUType, ren_declaration_file = Some ''//mail.fbs''\<rparr>],
      rs_fbs_files = [''//mail.fbs'']\<rparr>"

definition mail_source :: string where
  "mail_source = ''enum Level:byte{Low,High} table Part{size:uint=7;} union Source{Part} table Mail{}''"

definition no_floats :: "unit float_fmt" where
  "no_floats = \<lparr>is_zero = (\<lambda>_. True), show_f32 = (\<lambda>_. []), show_f64 = (\<lambda>_. [])\<rparr>"

lemma mail_schema_ok: "schema_ok mail_schema"
  by code_simp

theorem well_typed_schema_generates_witness:
  "\<exists>tables enums. build_reflected_schema no_floats (\<lambda>f. Inr mail_source) mail_schema = Inr (tables, enums) \<and>
    ((\<exists>file. generate_flatbed_module tables enums ''mail'' = Inr file) \<longleftrightarrow>
     list_all (author_ok tables enums) (map fst tables @ map fst enums))"
  using well_typed_schema_generates [OF mail_schema_ok, of "\<lambda>f. Inr mail_source" no_floats "''mail''"]
  unfolding list_all_iff by blast

subsection \<open>Module names\<close>

text \<open>The modules an item opens beside the others of its namespace.\<close>

fun item_modules :: "item \<Rightarrow> string list" where
  "item_modules (EnumSerde lower _ _) = [''_'' @ lower @ ''_serde'']"
| "item_modules (EnumOptVecSerde lower _ _) = [''_'' @ lower @ ''_opt_vec_serde'']"
| "item_modules (FlagsSerde lower _ _) = [''_'' @ lower @ ''_serde'']"
| "item_modules (FlagsOptVecSerde lower _) = [''_'' @ lower @ ''_opt_vec_serde'']"
| "item_modules (UnionSerde lower _ _ _ _) = [''_'' @ lower @ ''_union_serde'']"
| "item_modules (UnionFieldSerde m _ _ _ _) = [m]"
| "item_modules _ = []"

text \<open>The collision check does not see every pair of names that share a module.\<close>

lemma adapter_modules_collide:
  "let e = (\<lambda>n. \<lparr>em_name = n, em_variants = [''A''], em_values = [0], em_underlying = ''int8'', em_kind = Plain\<rparr>)
   in case generate_plain_struct_module ''v1'' [] [e ''X'', e ''x_opt_vec''] of
        Inr items \<Rightarrow> \<not> distinct (concat (map item_modules items))
      | Inl _ \<Rightarrow> False"
  by code_simp

end
