(* ===== verification/JsonAdapters.thy ===== *)
theory JsonAdapters
  imports Codegen
begin

text \<open>
  The serde adapters that \<^verbatim>\<open>crates/flatbed_build/src/codegen.rs\<close> generates: how enums, flag sets
  and unions cross JSON. serde itself is not modelled: a value is handed over as \<open>json\<close>, an
  object's entries in the order they are read. A serde error is \<open>Inl\<close>.
\<close>

datatype json = JNull | JBool bool | JNum int | JString string | JArr "json list" | JObj "(string \<times> json) list"

subsection \<open>Enums\<close>

text \<open>flatc's constants of an enum, \<open>Name::variant\<close>, in the order of the variants.\<close>

definition constants :: "enum \<Rightarrow> (string \<times> int) list" where
  "constants e = zip (em_variants e) (em_values e)"

definition enum_to_name :: "enum \<Rightarrow> int \<Rightarrow> string + string" where
  "enum_to_name e v =
     (if em_variants e = [] then Inl ''empty enum''
      else (case List.find (\<lambda>(n, c). v = c) (constants e) of
              Some (n, c) \<Rightarrow> Inr n
            | None \<Rightarrow> Inl (''unknown '' @ em_name e @ '' variant: '' @ show_int v)))"

definition enum_from_name :: "enum \<Rightarrow> string \<Rightarrow> string + int" where
  "enum_from_name e raw =
     (case map_of (constants e) raw of Some c \<Rightarrow> Inr c | None \<Rightarrow> Inl (''unknown variant '' @ raw))"

definition enum_serialize :: "enum \<Rightarrow> int \<Rightarrow> string + json" where
  "enum_serialize e v = bind_res (enum_to_name e v) (\<lambda>n. Inr (JString n))"

definition string_from_json :: "json \<Rightarrow> string + string" where
  "string_from_json j = (case j of JString s \<Rightarrow> Inr s | _ \<Rightarrow> Inl ''invalid type: expected a string'')"

definition strings_from_json :: "json \<Rightarrow> string + string list" where
  "strings_from_json j =
     (case j of JArr js \<Rightarrow> map_res string_from_json js | _ \<Rightarrow> Inl ''invalid type: expected a sequence'')"

definition enum_deserialize :: "enum \<Rightarrow> json \<Rightarrow> string + int" where
  "enum_deserialize e j = bind_res (string_from_json j) (enum_from_name e)"

text \<open>The adapters of \<open>Option<Vec<Enum>>\<close>.\<close>

definition enum_opt_vec_serialize :: "enum \<Rightarrow> int list option \<Rightarrow> string + json" where
  "enum_opt_vec_serialize e v =
     (case v of
        Some items \<Rightarrow> bind_res (map_res (enum_to_name e) items) (\<lambda>ns. Inr (JArr (map JString ns)))
      | None \<Rightarrow> Inr JNull)"

definition enum_opt_vec_deserialize :: "enum \<Rightarrow> json \<Rightarrow> string + int list option" where
  "enum_opt_vec_deserialize e j =
     (if j = JNull then Inr None
      else bind_res (strings_from_json j) (\<lambda>ns. bind_res (map_res (enum_from_name e) ns) (\<lambda>vs. Inr (Some vs))))"

subsection \<open>Flag sets\<close>

definition flags :: "enum \<Rightarrow> (string \<times> 64 word) list" where
  "flags e = map (\<lambda>(n, v). (n, word_of_int v)) (constants e)"

definition all_bits :: "enum \<Rightarrow> 64 word" where
  "all_bits e = fold (\<lambda>(n, f) acc. or acc f) (flags e) 0"

definition to_names :: "enum \<Rightarrow> 64 word \<Rightarrow> string + string list" where
  "to_names e v =
     (if and v (not (all_bits e)) \<noteq> 0 then Inl (''unknown '' @ em_name e @ '' bits'')
      else Inr (map fst (filter (\<lambda>(n, f). and v f = f) (flags e))))"

definition from_names :: "enum \<Rightarrow> string list \<Rightarrow> string + 64 word" where
  "from_names e ns =
     foldl (\<lambda>acc raw. bind_res acc (\<lambda>a.
       case map_of (flags e) raw of Some f \<Rightarrow> Inr (or a f) | None \<Rightarrow> Inl (''unknown variant '' @ raw))) (Inr 0) ns"

definition flags_serialize :: "enum \<Rightarrow> 64 word \<Rightarrow> string + json" where
  "flags_serialize e v = bind_res (to_names e v) (\<lambda>ns. Inr (JArr (map JString ns)))"

definition flags_deserialize :: "enum \<Rightarrow> json \<Rightarrow> string + 64 word" where
  "flags_deserialize e j = bind_res (strings_from_json j) (from_names e)"

definition flags_opt_vec_serialize :: "enum \<Rightarrow> 64 word list option \<Rightarrow> string + json" where
  "flags_opt_vec_serialize e v =
     (case v of
        Some items \<Rightarrow> bind_res (map_res (to_names e) items) (\<lambda>nss. Inr (JArr (map (\<lambda>ns. JArr (map JString ns)) nss)))
      | None \<Rightarrow> Inr JNull)"

definition flags_opt_vec_deserialize :: "enum \<Rightarrow> json \<Rightarrow> string + 64 word list option" where
  "flags_opt_vec_deserialize e j =
     (case j of
        JNull \<Rightarrow> Inr None
      | JArr js \<Rightarrow>
          bind_res (map_res strings_from_json js) (\<lambda>nss. bind_res (map_res (from_names e) nss) (\<lambda>vs. Inr (Some vs)))
      | _ \<Rightarrow> Inl ''invalid type: expected an option'')"

subsection \<open>Unions\<close>

text \<open>
  \<open>members\<close> pairs each variant with its table, \<open>ser\<close> and \<open>de\<close> are the tables' own, by name. A
  union's value is the variant and its table.
\<close>

definition union_serialize ::
  "(string \<Rightarrow> 'v \<Rightarrow> json) \<Rightarrow> (string \<times> string) list \<Rightarrow> (string \<times> 'v) option \<Rightarrow> string \<Rightarrow> string \<Rightarrow> (string \<times> json) list" where
  "union_serialize ser members v type_key value_key =
     (case v of
        Some (k, t) \<Rightarrow>
          (case map_of members k of
             Some table \<Rightarrow> [(type_key, JString k), (value_key, ser table t)]
           | None \<Rightarrow> [])
      | None \<Rightarrow> [])"

definition opt_string_from_json :: "json \<Rightarrow> string + string option" where
  "opt_string_from_json j = (case j of JNull \<Rightarrow> Inr None | _ \<Rightarrow> bind_res (string_from_json j) (\<lambda>s. Inr (Some s)))"

text \<open>The visitor's loop over the enclosing object's entries.\<close>

fun visit_entries ::
  "string \<Rightarrow> string \<Rightarrow> (string \<times> json) list \<Rightarrow> string option \<Rightarrow> json option \<Rightarrow> string + (string option \<times> json option)" where
  "visit_entries tk vk [] kind val = Inr (kind, val)"
| "visit_entries tk vk ((key, j) # es) kind val =
     (if key = tk then bind_res (opt_string_from_json j) (\<lambda>k. visit_entries tk vk es k val)
      else if key = vk then visit_entries tk vk es kind (if j = JNull then None else Some j)
      else visit_entries tk vk es kind val)"

definition union_deserialize ::
  "(string \<Rightarrow> json \<Rightarrow> string + 'v) \<Rightarrow> (string \<times> string) list \<Rightarrow> (string \<times> json) list \<Rightarrow> string \<Rightarrow> string \<Rightarrow>
   string + (string \<times> 'v) option" where
  "union_deserialize de members entries type_key value_key =
     bind_res (visit_entries type_key value_key entries None None) (\<lambda>kv.
       case kv of
         (None, None) \<Rightarrow> Inr None
       | (Some k, None) \<Rightarrow> if k = ''NONE'' then Inr None else Inl (''missing field '' @ value_key)
       | (None, Some v) \<Rightarrow> Inl (''missing field '' @ type_key)
       | (Some k, Some v) \<Rightarrow>
           (case map_of members k of
              Some table \<Rightarrow> bind_res (de table v) (\<lambda>t. Inr (Some (k, t)))
            | None \<Rightarrow> Inl (''unknown variant '' @ k)))"

subsection \<open>Round trips\<close>

lemma bind_res_simps [simp]: "bind_res (Inr a) f = f a" "bind_res (Inl e) f = Inl e"
  by (simp_all add: bind_res_def)

lemma enum_names_back:
  assumes "distinct (em_variants e)" "enum_to_name e v = Inr n"
  shows "enum_from_name e n = Inr v"
proof -
  obtain c where "List.find (\<lambda>(n, c). v = c) (constants e) = Some (n, c)"
    using assms(2) by (auto simp: enum_to_name_def split: if_splits option.splits)
  then have "(n, v) \<in> set (constants e)" by (auto simp: find_Some_iff in_set_conv_nth)
  moreover have "distinct (map fst (constants e))"
    using assms(1) by (simp add: constants_def map_fst_zip_take distinct_take)
  ultimately show ?thesis by (simp add: enum_from_name_def)
qed

lemma enum_roundtrip: "distinct (em_variants e) \<Longrightarrow> enum_serialize e v = Inr j \<Longrightarrow> enum_deserialize e j = Inr v"
  using enum_names_back [of e v] by (auto simp: enum_serialize_def enum_deserialize_def string_from_json_def bind_res_def split: sum.splits)

lemma strings_back: "strings_from_json (JArr (map JString ns)) = Inr ns"
  by (simp add: strings_from_json_def map_res_Inr string_from_json_def list_all2_map1 list.rel_refl)

lemma map_res_back: "map_res f xs = Inr ys \<Longrightarrow> (\<And>x y. f x = Inr y \<Longrightarrow> g y = Inr x) \<Longrightarrow> map_res g ys = Inr xs"
  by (induction xs arbitrary: ys) auto

lemma enum_opt_vec_roundtrip:
  assumes "distinct (em_variants e)" "enum_opt_vec_serialize e v = Inr j"
  shows "enum_opt_vec_deserialize e j = Inr v"
proof (cases v)
  case (Some items)
  then obtain ns where "map_res (enum_to_name e) items = Inr ns" "j = JArr (map JString ns)"
    using assms(2) by (auto simp: enum_opt_vec_serialize_def)
  moreover from this(1) have "map_res (enum_from_name e) ns = Inr items"
    by (rule map_res_back) (rule enum_names_back [OF assms(1)])
  ultimately show ?thesis using Some by (simp add: enum_opt_vec_deserialize_def strings_back)
qed (use assms(2) in \<open>simp add: enum_opt_vec_serialize_def enum_opt_vec_deserialize_def\<close>)

text \<open>flatc gives each flag of a \<open>bit_flags\<close> enum a bit of its own.\<close>

definition single_bits :: "enum \<Rightarrow> bool" where
  "single_bits e \<longleftrightarrow>
     distinct (em_variants e) \<and> length (em_values e) = length (em_variants e) \<and>
     list_all (\<lambda>v. \<exists>i < 64. v = 2 ^ i) (em_values e)"

definition or_all :: "64 word list \<Rightarrow> 64 word" where
  "or_all ws = fold or ws 0"

lemma bit_fold_or: "bit (fold or ws (a :: 64 word)) i \<longleftrightarrow> bit a i \<or> (\<exists>w \<in> set ws. bit w i)"
  by (induction ws arbitrary: a) (auto simp: bit_or_iff)

lemma bit_or_all: "bit (or_all ws) i \<longleftrightarrow> (\<exists>w \<in> set ws. bit w i)"
  by (simp add: or_all_def bit_fold_or)

lemma all_bits_or_all: "all_bits e = or_all (map snd (flags e))"
proof -
  have "fold (\<lambda>(n, f) acc. or acc f) fs a = fold or (map snd fs) a" for fs :: "(string \<times> 64 word) list" and a
    by (induction fs arbitrary: a) (auto simp: or.commute)
  then show ?thesis by (simp add: all_bits_def or_all_def)
qed

lemma flag_bit:
  assumes "single_bits e" "(n, f) \<in> set (flags e)"
  shows "\<exists>i < 64. \<forall>j. bit f j \<longleftrightarrow> j = i"
proof -
  obtain v where v: "f = word_of_int v" "v \<in> set (em_values e)"
    using assms(2) by (auto simp: flags_def constants_def dest: set_zip_rightD)
  then obtain i where i: "i < 64" "v = 2 ^ i" using assms(1) by (auto simp: single_bits_def list_all_iff)
  then have "f = 2 ^ i" unfolding v(1) by simp
  then have "bit f j \<longleftrightarrow> j = i" for j using i(1) by (auto simp: bit_exp_iff)
  then show ?thesis using i(1) by blast
qed

text \<open>A flag is contained, or met, just when its bit is set: Rust tests the one, TypeScript the other.\<close>

lemma contains_iff:
  assumes "single_bits e" "(n, f) \<in> set (flags e)"
  shows "and v f = f \<longleftrightarrow> and v f \<noteq> 0" and "and v f = f \<longleftrightarrow> (\<forall>j. bit f j \<longrightarrow> bit v j)"
proof -
  obtain i where i: "i < 64" "\<And>j. bit f j \<longleftrightarrow> j = i" using flag_bit [OF assms] by blast
  have bits: "bit (and v f) j \<longleftrightarrow> j = i \<and> bit v i" for j using i(2) by (auto simp: bit_and_iff)
  have "and v f = f" if "bit v i" by (rule bit_eqI) (use bits i(2) that in auto)
  moreover have "and v f = 0" if "\<not> bit v i" by (rule bit_eqI) (use bits that in auto)
  moreover have "f \<noteq> 0" using i(2) [of i] by (metis bit_0_eq bot_apply bot_bool_def)
  ultimately have "and v f = f \<longleftrightarrow> bit v i" "and v f \<noteq> 0 \<longleftrightarrow> bit v i" by metis+
  then show "and v f = f \<longleftrightarrow> and v f \<noteq> 0" "and v f = f \<longleftrightarrow> (\<forall>j. bit f j \<longrightarrow> bit v j)" using i(2) by auto
qed

lemma from_names_ok:
  assumes "\<forall>n \<in> set ns. map_of fs n \<noteq> None"
  shows "foldl (\<lambda>acc raw. bind_res acc (\<lambda>a.
       case map_of fs raw of Some f \<Rightarrow> Inr (or a f) | None \<Rightarrow> Inl (msg raw))) (Inr (a :: 64 word)) ns =
     Inr (fold or (map (the \<circ> map_of fs) ns) a)"
  using assms by (induction ns arbitrary: a) (auto simp: or.commute)

lemma met_flags:
  assumes "single_bits e"
  shows "bit (or_all (map snd (filter (\<lambda>(n, f). and v f = f) (flags e)))) j \<longleftrightarrow> bit v j \<and> bit (all_bits e) j"
proof -
  have met: "bit (or_all (map snd (filter (\<lambda>(n, f). and v f = f) (flags e)))) j \<longleftrightarrow>
      (\<exists>n f. (n, f) \<in> set (flags e) \<and> and v f = f \<and> bit f j)"
    unfolding bit_or_all by auto
  have all: "bit (all_bits e) j \<longleftrightarrow> (\<exists>n f. (n, f) \<in> set (flags e) \<and> bit f j)"
    unfolding all_bits_or_all bit_or_all set_map bex_simps by (metis prod.collapse snd_conv)
  show ?thesis
  proof
    assume "bit (or_all (map snd (filter (\<lambda>(n, f). and v f = f) (flags e)))) j"
    then obtain n f where "(n, f) \<in> set (flags e)" "and v f = f" "bit f j" unfolding met by blast
    then show "bit v j \<and> bit (all_bits e) j" unfolding all by (metis bit_and_iff)
  next
    assume v: "bit v j \<and> bit (all_bits e) j"
    then obtain n f where f: "(n, f) \<in> set (flags e)" "bit f j" unfolding all by blast
    obtain i where "\<And>j. bit f j \<longleftrightarrow> j = i" using flag_bit [OF assms(1) f(1)] by blast
    then have "\<forall>j. bit f j \<longrightarrow> bit v j" using v f(2) by simp
    then have "and v f = f" using contains_iff(2) [OF assms(1) f(1)] by simp
    with f show "bit (or_all (map snd (filter (\<lambda>(n, f). and v f = f) (flags e)))) j" unfolding met by blast
  qed
qed

lemma or_met:
  assumes "single_bits e" "and v (not (all_bits e)) = 0"
  shows "or_all (map snd (filter (\<lambda>(n, f). and v f = f) (flags e))) = v"
proof (rule bit_eqI)
  fix j
  have "bit v j \<Longrightarrow> bit (all_bits e) j"
    using assms(2) by (metis bit_0_eq bit_and_iff bit_not_iff bit_imp_possible_bit bot_apply bot_bool_def)
  then show "bit (or_all (map snd (filter (\<lambda>(n, f). and v f = f) (flags e)))) j \<longleftrightarrow> bit v j"
    using met_flags [OF assms(1)] by blast
qed

lemma distinct_flags: "single_bits e \<Longrightarrow> distinct (map fst (flags e))"
  by (simp add: flags_def constants_def comp_def case_prod_unfold map_fst_zip_take distinct_take single_bits_def)

lemma map_of_filtered:
  assumes "distinct (map fst fs)"
  shows "map (map_of fs) (map fst (filter P fs)) = map Some (map snd (filter P fs))"
proof -
  have "map_of fs (fst p) = Some (snd p)" if "p \<in> set fs" for p
    using assms that by (intro map_of_is_SomeI) simp_all
  then show ?thesis by simp
qed

lemma met_names:
  assumes "single_bits e" "to_names e v = Inr ns"
  shows "map (map_of (flags e)) ns = map Some (map snd (filter (\<lambda>(n, f). and v f = f) (flags e)))"
proof -
  have ns: "ns = map fst (filter (\<lambda>(n, f). and v f = f) (flags e))"
    using assms(2) by (auto simp: to_names_def split: if_splits)
  show ?thesis unfolding ns by (rule map_of_filtered [OF distinct_flags [OF assms(1)]])
qed

lemma flags_names_back:
  assumes "single_bits e" "to_names e v = Inr ns"
  shows "from_names e ns = Inr v"
proof -
  have known: "and v (not (all_bits e)) = 0" using assms(2) by (auto simp: to_names_def split: if_splits)
  note met = met_names [OF assms]
  have "\<forall>n \<in> set ns. map_of (flags e) n \<noteq> None"
  proof
    fix n assume "n \<in> set ns"
    then have "map_of (flags e) n \<in> set (map (map_of (flags e)) ns)" by simp
    then show "map_of (flags e) n \<noteq> None" unfolding met by auto
  qed
  then have "from_names e ns = Inr (fold or (map (the \<circ> map_of (flags e)) ns) 0)"
    unfolding from_names_def by (rule from_names_ok)
  moreover have "map (the \<circ> map_of (flags e)) ns = map snd (filter (\<lambda>(n, f). and v f = f) (flags e))"
    unfolding map_map [symmetric] met by simp
  ultimately show ?thesis using or_met [OF assms(1) known] by (simp only: or_all_def)
qed

lemma flags_opt_vec_roundtrip:
  assumes "single_bits e" "flags_opt_vec_serialize e v = Inr j"
  shows "flags_opt_vec_deserialize e j = Inr v"
proof (cases v)
  case (Some items)
  then obtain nss where nss: "map_res (to_names e) items = Inr nss" "j = JArr (map (\<lambda>ns. JArr (map JString ns)) nss)"
    using assms(2) by (auto simp: flags_opt_vec_serialize_def)
  have "map_res (from_names e) nss = Inr items"
    using nss(1) by (rule map_res_back) (rule flags_names_back [OF assms(1)])
  moreover have "map_res strings_from_json (map (\<lambda>ns. JArr (map JString ns)) nss) = Inr nss"
    by (simp add: map_res_Inr list_all2_map1 strings_back list.rel_refl)
  ultimately show ?thesis using Some nss(2) by (simp add: flags_opt_vec_deserialize_def)
qed (use assms(2) in \<open>simp add: flags_opt_vec_serialize_def flags_opt_vec_deserialize_def\<close>)

lemma to_names_total: "(\<exists>ns. to_names e v = Inr ns) \<longleftrightarrow> and v (not (all_bits e)) = 0"
  by (simp add: to_names_def)

lemma visit_skip:
  assumes "\<forall>(key, j) \<in> set es. key \<noteq> tk \<and> key \<noteq> vk"
  shows "visit_entries tk vk (es @ fs) kind val = visit_entries tk vk fs kind val"
  using assms by (induction es) auto

lemma visit_all: "\<forall>(key, j) \<in> set es. key \<noteq> tk \<and> key \<noteq> vk \<Longrightarrow> visit_entries tk vk es kind val = Inr (kind, val)"
  using visit_skip [of es tk vk "[]"] by simp

text \<open>
  C27. The JSON adapters give back what they wrote. A flag set whose bits the schema names, and
  only such a one, has a list of names, which reads as the same set; a union's two keys, among any
  other entries of the object, read as the same variant and table, and no keys read as an absent
  union.
\<close>

theorem json_adapters_roundtrip:
  assumes "single_bits e" "distinct (map fst members)" "type_key \<noteq> value_key"
    "\<forall>(key, j) \<in> set before \<union> set after. key \<noteq> type_key \<and> key \<noteq> value_key"
    "\<And>k t table. v = Some (k, t) \<Longrightarrow> (k, table) \<in> set members \<Longrightarrow> de table (ser table t) = Inr t \<and> ser table t \<noteq> JNull"
    "\<And>k t. v = Some (k, t) \<Longrightarrow> k \<in> fst ` set members"
  shows "((\<exists>j. flags_serialize e bits = Inr j) \<longleftrightarrow> and bits (not (all_bits e)) = 0) \<and>
    (\<forall>j. flags_serialize e bits = Inr j \<longrightarrow> flags_deserialize e j = Inr bits) \<and>
    union_deserialize de members (before @ union_serialize ser members v type_key value_key @ after) type_key value_key = Inr v"
proof (intro conjI allI impI)
  show "(\<exists>j. flags_serialize e bits = Inr j) \<longleftrightarrow> and bits (not (all_bits e)) = 0"
    by (simp add: flags_serialize_def to_names_total)
  show "flags_deserialize e j = Inr bits" if "flags_serialize e bits = Inr j" for j
    using that flags_names_back [OF assms(1)] by (auto simp: flags_serialize_def flags_deserialize_def strings_back)
  have skip: "\<forall>(key, j) \<in> set before. key \<noteq> type_key \<and> key \<noteq> value_key"
    "\<forall>(key, j) \<in> set after. key \<noteq> type_key \<and> key \<noteq> value_key" using assms(4) by auto
  show "union_deserialize de members (before @ union_serialize ser members v type_key value_key @ after) type_key value_key = Inr v"
  proof (cases v)
    case None
    then show ?thesis
      by (simp add: union_deserialize_def union_serialize_def visit_skip [OF skip(1)] visit_all [OF skip(2)])
  next
    case (Some p)
    obtain k t where v: "v = Some (k, t)" using Some by (cases p) auto
    then obtain table where m: "(k, table) \<in> set members" using assms(6) by force
    then have find: "map_of members k = Some table" using assms(2) by simp
    have de: "de table (ser table t) = Inr t" "ser table t \<noteq> JNull" using assms(5) [OF v m] by auto
    show ?thesis
      using assms(3) de
      by (simp add: union_deserialize_def union_serialize_def v find visit_skip [OF skip(1)] visit_all [OF skip(2)]
          opt_string_from_json_def string_from_json_def)
  qed
qed

definition traits :: enum where
  "traits = \<lparr>em_name = ''Traits'', em_variants = [''Money'', ''Gmail'', ''Far''], em_values = [1, 2, 2 ^ 62],
             em_underlying = ''uint64'', em_kind = BitFlags\<rparr>"

lemma traits_single_bits: "single_bits traits"
proof -
  have "\<exists>i < 64. 1 = (2 :: int) ^ i" "\<exists>i < 64. 2 = (2 :: int) ^ i" "\<exists>i < 64. 2 ^ 62 = (2 :: int) ^ i"
    by (rule exI [of _ 0], simp, rule exI [of _ 1], simp, rule exI [of _ 62], simp)
  then show ?thesis unfolding single_bits_def traits_def by simp
qed

theorem json_adapters_roundtrip_witness:
  "flags_serialize traits 3 = Inr (JArr [JString ''Money'', JString ''Gmail'']) \<and>
   flags_deserialize traits (JArr [JString ''Money'', JString ''Gmail'']) = Inr 3 \<and>
   union_deserialize (\<lambda>t j. case j of JNum i \<Rightarrow> Inr i | _ \<Rightarrow> Inl ''bad'') [(''A'', ''MailRef'')]
     ([(''id'', JNum 1)] @ union_serialize (\<lambda>t i. JNum i) [(''A'', ''MailRef'')] (Some (''A'', 5)) ''ref_type'' ''ref'' @ [])
     ''ref_type'' ''ref'' = Inr (Some (''A'', 5))"
proof -
  have written: "flags_serialize traits 3 = Inr (JArr [JString ''Money'', JString ''Gmail''])" by code_simp
  have union: "union_deserialize (\<lambda>t j. case j of JNum i \<Rightarrow> Inr i | _ \<Rightarrow> Inl ''bad'') [(''A'', ''MailRef'')]
     ([(''id'', JNum 1)] @ union_serialize (\<lambda>t i. JNum i) [(''A'', ''MailRef'')] (Some (''A'', 5)) ''ref_type'' ''ref'' @ [])
     ''ref_type'' ''ref'' = Inr (Some (''A'', 5))"
    by (rule json_adapters_roundtrip [OF traits_single_bits, THEN conjunct2, THEN conjunct2]) auto
  have "flags_deserialize traits (JArr [JString ''Money'', JString ''Gmail'']) = Inr 3" by code_simp
  with written union show ?thesis by blast
qed

end
