(* ===== verification/TsCodec.thy ===== *)
theory TsCodec
  imports JsonAdapters
begin

text \<open>
  The TypeScript generator of \<^verbatim>\<open>crates/flatbed_build/src/ts_codec.rs\<close>: \<^verbatim>\<open>types.ts\<close> and
  \<^verbatim>\<open>codec.ts\<close> as items and expressions, one constructor per text template.
\<close>

subsection \<open>The schema\<close>

definition sorted_by_key :: "'a by_namespace \<Rightarrow> 'a list list" where
  "sorted_by_key m = map snd (sort_key fst m)"

record ts_schema =
  sc_tables :: "table list"
  sc_enums :: "enum list"
  sc_unions :: "enum list"
  sc_underlying :: "(string \<times> string) list"

text \<open>\<open>collect\<close> into a map: the last enum of a name gives its underlying type.\<close>

definition schema_of :: "table list \<Rightarrow> enum list \<Rightarrow> ts_schema" where
  "schema_of ts es =
     \<lparr>sc_tables = ts, sc_enums = plain_enums es, sc_unions = unions es,
      sc_underlying = rev (map (\<lambda>e. (em_name e, em_underlying e)) (plain_enums es))\<rparr>"

definition schema_new :: "table by_namespace \<Rightarrow> enum by_namespace \<Rightarrow> ts_schema" where
  "schema_new tables enums = schema_of (concat (sorted_by_key tables)) (concat (sorted_by_key enums))"

definition ts_is_table :: "ts_schema \<Rightarrow> string \<Rightarrow> bool" where
  "ts_is_table S t \<longleftrightarrow> list_ex (\<lambda>x. tb_name x = t) (sc_tables S)"

definition enum_named :: "ts_schema \<Rightarrow> string \<Rightarrow> enum option" where
  "enum_named S t = List.find (\<lambda>e. em_name e = t) (sc_enums S)"

definition ts_is_enum :: "ts_schema \<Rightarrow> string \<Rightarrow> bool" where
  "ts_is_enum S t \<longleftrightarrow> (case enum_named S t of Some e \<Rightarrow> em_kind e = Plain | None \<Rightarrow> False)"

definition is_flags :: "ts_schema \<Rightarrow> string \<Rightarrow> bool" where
  "is_flags S t \<longleftrightarrow> (case enum_named S t of Some e \<Rightarrow> em_kind e = BitFlags | None \<Rightarrow> False)"

definition ts_is_union :: "ts_schema \<Rightarrow> string \<Rightarrow> bool" where
  "ts_is_union S t \<longleftrightarrow> list_ex (\<lambda>u. em_name u = t) (sc_unions S)"

definition flag_names :: "ts_schema \<Rightarrow> string \<Rightarrow> 64 word \<Rightarrow> string list" where
  "flag_names S t m =
     (case enum_named S t of
        None \<Rightarrow> []
      | Some e \<Rightarrow> map fst (filter (\<lambda>(n, v). and m (word_of_int v) \<noteq> 0) (constants e)))"

definition scalar_fbs :: "ts_schema \<Rightarrow> string \<Rightarrow> string" where
  "scalar_fbs S t = (case map_of (sc_underlying S) t of Some u \<Rightarrow> u | None \<Rightarrow> t)"

definition enum_value :: "ts_schema \<Rightarrow> string \<Rightarrow> string \<Rightarrow> int" where
  "enum_value S n variant =
     (case enum_named S n of
        None \<Rightarrow> 0
      | Some e \<Rightarrow>
          (case position (\<lambda>v. v = variant) (em_variants e) of
             Some i \<Rightarrow> if i < length (em_values e) then em_values e ! i else 0
           | None \<Rightarrow> 0))"

subsection \<open>Scalars\<close>

record scalar =
  sc_add_field :: string
  sc_vec_add :: string
  sc_read :: string
  sc_size :: nat
  sc_zero :: string

definition scalar_row :: "string \<Rightarrow> string \<Rightarrow> string \<Rightarrow> nat \<Rightarrow> string \<Rightarrow> scalar" where
  "scalar_row af va rd sz zero = \<lparr>sc_add_field = af, sc_vec_add = va, sc_read = rd, sc_size = sz, sc_zero = zero\<rparr>"

definition scalar_rows :: "(string list \<times> scalar) list" where
  "scalar_rows =
     [([''bool'', ''int8'', ''byte''], scalar_row ''addFieldInt8'' ''addInt8'' ''readInt8'' 1 ''0''),
      ([''uint8'', ''ubyte''], scalar_row ''addFieldInt8'' ''addInt8'' ''readUint8'' 1 ''0''),
      ([''int16'', ''short''], scalar_row ''addFieldInt16'' ''addInt16'' ''readInt16'' 2 ''0''),
      ([''uint16'', ''ushort''], scalar_row ''addFieldInt16'' ''addInt16'' ''readUint16'' 2 ''0''),
      ([''int32'', ''int''], scalar_row ''addFieldInt32'' ''addInt32'' ''readInt32'' 4 ''0''),
      ([''uint32'', ''uint''], scalar_row ''addFieldInt32'' ''addInt32'' ''readUint32'' 4 ''0''),
      ([''int64'', ''long''], scalar_row ''addFieldInt64'' ''addInt64'' ''readInt64'' 8 ''0n''),
      ([''uint64'', ''ulong''], scalar_row ''addFieldInt64'' ''addInt64'' ''readUint64'' 8 ''0n''),
      ([''float32'', ''float''], scalar_row ''addFieldFloat32'' ''addFloat32'' ''readFloat32'' 4 ''0''),
      ([''float64'', ''double''], scalar_row ''addFieldFloat64'' ''addFloat64'' ''readFloat64'' 8 ''0'')]"

definition scalar :: "string \<Rightarrow> scalar" where
  "scalar t =
     (case List.find (\<lambda>(ns, s). List.member ns t) scalar_rows of
        Some (ns, s) \<Rightarrow> s
      | None \<Rightarrow> scalar_row ''addFieldInt32'' ''addInt32'' ''readInt32'' 4 ''0'')"

definition is_64 :: "ts_schema \<Rightarrow> string \<Rightarrow> bool" where
  "is_64 S t \<longleftrightarrow> scalar_fbs S t = ''int64'' \<or> scalar_fbs S t = ''uint64''"

subsection \<open>Defaults\<close>

text \<open>The text after the last \<^verbatim>\<open>::\<close>.\<close>

fun after_colons :: "string \<Rightarrow> string" where
  "after_colons [] = []"
| "after_colons (c # cs) =
     (if contains_str cs ''::'' then after_colons cs
      else if prefix ''::'' (c # cs) then tl cs else c # cs)"

definition suffix_n :: "bool \<Rightarrow> string" where
  "suffix_n is64 = (if is64 then ''n'' else [])"

text \<open>A literal: a number or bigint by its text, a boolean, an array of strings.\<close>

datatype ts_literal = NumLit string | BoolLit bool | NamesLit "string list"

text \<open>The wire default of a field, and what it decodes to when absent.\<close>

definition field_defaults :: "ts_schema \<Rightarrow> field \<Rightarrow> string \<times> ts_literal" where
  "field_defaults S f =
     (let t = fd_fbs_type f; n = suffix_n (is_64 S t); zero = sc_zero (scalar (scalar_fbs S t))
      in if is_flags S t then
           (let m = (case fd_default f of
                          None \<Rightarrow> 0
                        | Some lit \<Rightarrow> word_of_int (enum_value S t (after_colons lit)))
            in (show_nat (unat (m :: 64 word)) @ n, NamesLit (flag_names S t m)))
         else (case fd_default f of
             None \<Rightarrow> if t = ''bool'' then (''0'', BoolLit False) else (zero, NumLit zero)
           | Some lit \<Rightarrow>
               if ts_is_enum S t then
                 (let l = show_int (enum_value S t (after_colons lit)) @ n in (l, NumLit l))
               else if t = ''bool'' then
                 (if lit = ''true'' then (''1'', BoolLit True) else (''0'', BoolLit False))
               else (let l = trim_end_str ''_f64'' (trim_end_str ''_f32'' lit) @ n in (l, NumLit l))))"

subsection \<open>Expressions\<close>

text \<open>How a scalar crosses: as it is, a bool as 0 or 1, flags through their helper, converted or not.\<close>

datatype conv = AsIs | BoolConv | FlagsBig string | FlagsNumber string

datatype element_build = BuildTables string | BuildStrings | BuildScalars nat string conv

datatype prep_expr = PrepVector element_build | PrepTable string | PrepString | PrepUnion string

datatype add_expr =
    AddOffset nat
  | AddUnion nat nat
  | AddScalar string nat conv string

datatype element_read = ReadTables string | ReadStrings | ReadBools | ReadScalars string nat conv

datatype decode_expr =
    DecodeVector string element_read
  | DecodeTable string
  | DecodeString
  | DecodeUnion string
  | DecodeBool ts_literal
  | DecodeScalar string conv ts_literal bool

record encode_field =
  ef_name :: string
  ef_prep :: "prep_expr option"
  ef_add :: add_expr

record ts_encode =
  te_table :: string
  te_slots :: nat
  te_fields :: "encode_field list"

record ts_decode =
  td_table :: string
  td_offsets :: "(string \<times> nat) list"
  td_fields :: "(string \<times> decode_expr) list"

datatype ts_item =
    TypeAlias string "string list"
  | EnumDecl string "(string \<times> int) list"
  | UnionDecl string "(string \<times> string) list"
  | Interface string "(string \<times> bool \<times> string) list"
  | ImportTypes "string list"
  | FlagsHelpers string "(string \<times> 64 word) list"
  | UnionHelpers string "(string \<times> string \<times> int) list"
  | EncodeTable ts_encode
  | DecodeTableFn ts_decode

subsection \<open>\<^verbatim>\<open>types.ts\<close>\<close>

definition ts_scalar :: "string \<Rightarrow> string" where
  "ts_scalar t =
     (if t = ''bool'' then ''boolean'' else if t = ''string'' then ''string''
      else if List.member [''int64'', ''long'', ''uint64'', ''ulong''] t then ''bigint'' else ''number'')"

function ts_type :: "ts_schema \<Rightarrow> string \<Rightarrow> string" where
  "ts_type S t =
     (if is_vector_type t then ts_type S (vector_inner_type t) @ ''[]''
      else if is_flags S t then t @ ''[]''
      else if ts_is_table S t \<or> ts_is_enum S t \<or> ts_is_union S t then t
      else ts_scalar t)"
  by auto
termination
proof (relation "measure (length \<circ> snd)")
  fix S t assume "is_vector_type t"
  then obtain c where c: "t = CHR ''['' # c" by (auto simp: is_vector_type_def prefix_def)
  have "length (vector_inner_type t) \<le> length (trim_start_matches (CHR ''['') t)"
    by (simp add: vector_inner_type_def trim_end_matches_def) (metis length_dropWhile_le length_rev)
  also have "\<dots> < length t" using length_dropWhile_le [of "\<lambda>x. x = CHR ''[''" c] by (simp add: c trim_start_matches_def)
  finally show "((S, vector_inner_type t), S, t) \<in> measure (length \<circ> snd)" by simp
qed simp

declare ts_type.simps [simp del]

definition is_wire_optional :: "ts_schema \<Rightarrow> string \<Rightarrow> bool" where
  "is_wire_optional S t \<longleftrightarrow> is_vector_type t \<or> t = ''string'' \<or> ts_is_table S t \<or> ts_is_union S t"

definition generate_types :: "ts_schema \<Rightarrow> ts_item list" where
  "generate_types S =
     map (\<lambda>e. if em_kind e = BitFlags then TypeAlias (em_name e) (em_variants e) else EnumDecl (em_name e) (constants e)) (sc_enums S) @
     map (\<lambda>u. UnionDecl (em_name u) (zip (em_variants u) (union_tables u))) (sc_unions S) @
     map (\<lambda>t. Interface (tb_name t)
        (map (\<lambda>f. (fd_name f, is_wire_optional S (fd_fbs_type f), ts_type S (fd_fbs_type f))) (tb_fields t))) (sc_tables S)"

subsection \<open>\<^verbatim>\<open>codec.ts\<close>\<close>

definition flags_helpers :: "enum \<Rightarrow> ts_item" where
  "flags_helpers e = FlagsHelpers (em_name e) (flags e)"

definition union_helpers :: "enum \<Rightarrow> ts_item" where
  "union_helpers u = UnionHelpers (em_name u) (zip (em_variants u) (zip (union_tables u) (em_values u)))"

definition flags_conv :: "ts_schema \<Rightarrow> string \<Rightarrow> conv" where
  "flags_conv S t =
     (if List.member [''uint64'', ''ulong'', ''int64'', ''long''] (scalar_fbs S t) then FlagsBig t else FlagsNumber t)"

definition encode_conv :: "ts_schema \<Rightarrow> string \<Rightarrow> conv" where
  "encode_conv S t = (if t = ''bool'' then BoolConv else if is_flags S t then flags_conv S t else AsIs)"

definition build_vector :: "ts_schema \<Rightarrow> string \<Rightarrow> element_build" where
  "build_vector S inner =
     (if ts_is_table S inner then BuildTables inner
      else if inner = ''string'' then BuildStrings
      else (let s = scalar (scalar_fbs S inner) in BuildScalars (sc_size s) (sc_vec_add s) (encode_conv S inner)))"

definition encode_field_of :: "ts_schema \<Rightarrow> field \<Rightarrow> encode_field" where
  "encode_field_of S f =
     (let t = fd_fbs_type f; i = unat (fd_id f); s = scalar (scalar_fbs S t)
      in if is_vector_type t then
           \<lparr>ef_name = fd_name f, ef_prep = Some (PrepVector (build_vector S (vector_inner_type t))), ef_add = AddOffset i\<rparr>
         else if ts_is_table S t then \<lparr>ef_name = fd_name f, ef_prep = Some (PrepTable t), ef_add = AddOffset i\<rparr>
         else if t = ''string'' then \<lparr>ef_name = fd_name f, ef_prep = Some PrepString, ef_add = AddOffset i\<rparr>
         else if ts_is_union S t then
           \<lparr>ef_name = fd_name f, ef_prep = Some (PrepUnion t), ef_add = AddUnion (unat (fd_id f - 1)) i\<rparr>
         else
           \<lparr>ef_name = fd_name f, ef_prep = None,
            ef_add = AddScalar (sc_add_field s) i (encode_conv S t) (fst (field_defaults S f))\<rparr>)"

text \<open>One slot per field id: the greatest id and one more.\<close>

definition slot_count :: "table \<Rightarrow> nat" where
  "slot_count t = foldl max 0 (map (\<lambda>f. unat (fd_id f) + 1) (tb_fields t))"

definition encode_table :: "ts_schema \<Rightarrow> table \<Rightarrow> ts_item" where
  "encode_table S t =
     EncodeTable \<lparr>te_table = tb_name t, te_slots = slot_count t, te_fields = map (encode_field_of S) (tb_fields t)\<rparr>"

definition decode_element :: "ts_schema \<Rightarrow> string \<Rightarrow> element_read" where
  "decode_element S inner =
     (if ts_is_table S inner then ReadTables inner
      else if inner = ''string'' then ReadStrings
      else if inner = ''bool'' then ReadBools
      else (let s = scalar (scalar_fbs S inner)
            in ReadScalars (sc_read s) (sc_size s) (if is_flags S inner then flags_conv S inner else AsIs)))"

definition decode_field :: "ts_schema \<Rightarrow> field \<Rightarrow> decode_expr" where
  "decode_field S f =
     (let t = fd_fbs_type f; absent = snd (field_defaults S f); s = scalar (scalar_fbs S t)
      in if is_vector_type t then
           DecodeVector (ts_type S (vector_inner_type t)) (decode_element S (vector_inner_type t))
         else if ts_is_table S t then DecodeTable t
         else if t = ''string'' then DecodeString
         else if ts_is_union S t then DecodeUnion t
         else if t = ''bool'' then DecodeBool absent
         else if is_flags S t then DecodeScalar (sc_read s) (flags_conv S t) absent False
         else DecodeScalar (sc_read s) AsIs absent (ts_is_enum S t))"

definition vtable_offset :: "16 word \<Rightarrow> nat" where
  "vtable_offset i = 4 + unat i * 2"

definition decode_offsets :: "ts_schema \<Rightarrow> field \<Rightarrow> (string \<times> nat) list" where
  "decode_offsets S f =
     (if ts_is_union S (fd_fbs_type f) then [(fd_name f @ ''_type'', vtable_offset (fd_id f - 1))] else []) @
     [(fd_name f, vtable_offset (fd_id f))]"

definition decode_table :: "ts_schema \<Rightarrow> table \<Rightarrow> ts_item" where
  "decode_table S t =
     DecodeTableFn \<lparr>td_table = tb_name t, td_offsets = concat (map (decode_offsets S) (tb_fields t)),
       td_fields = map (\<lambda>f. (fd_name f, decode_field S f)) (tb_fields t)\<rparr>"

definition generate_codec :: "ts_schema \<Rightarrow> ts_item list" where
  "generate_codec S =
     ImportTypes (map tb_name (sc_tables S) @ map em_name (sc_enums S) @ map em_name (sc_unions S)) #
     map flags_helpers (filter (\<lambda>e. em_kind e = BitFlags) (sc_enums S)) @
     map union_helpers (sc_unions S) @
     concat (map (\<lambda>t. [encode_table S t, decode_table S t]) (sc_tables S))"

definition generate_ts :: "table by_namespace \<Rightarrow> enum by_namespace \<Rightarrow> ts_item list \<times> ts_item list" where
  "generate_ts tables enums = (let S = schema_new tables enums in (generate_types S, generate_codec S))"

end
