(* ===== verification/FbPlugin.thy ===== *)
theory FbPlugin
  imports TsCodec
begin

text \<open>
  The check behind \<open>gen-fb-plugin\<close>, \<^verbatim>\<open>crates/flatbed_build/src/fb_plugin.rs\<close>: the operations a served
  OpenAPI document offers in FlatBuffers, whether the local schemas have their types, and the merge
  of the schemas' reflections. The document is parsed JSON, an object's entries in its map's order.
\<close>

subsection \<open>Reading the document\<close>

record fb_operation =
  op_path :: string
  op_method :: string
  op_id :: "string option"
  op_request :: "string option"
  op_response :: "string option"

text \<open>serde's \<open>Value::get\<close>, \<open>as_str\<close>, \<open>as_object\<close>.\<close>

definition json_get :: "string \<Rightarrow> json \<Rightarrow> json option" where
  "json_get k j = (case j of JObj es \<Rightarrow> map_of es k | _ \<Rightarrow> None)"

definition json_str :: "json \<Rightarrow> string option" where
  "json_str j = (case j of JString s \<Rightarrow> Some s | _ \<Rightarrow> None)"

definition json_entries :: "json \<Rightarrow> (string \<times> json) list option" where
  "json_entries j = (case j of JObj es \<Rightarrow> Some es | _ \<Rightarrow> None)"

definition ref_type_name :: "json \<Rightarrow> string option" where
  "ref_type_name j =
     Option.bind (json_get ''$ref'' j) (\<lambda>r. Option.bind (json_str r) (strip_prefix ''#/components/schemas/''))"

definition json_ref :: "json option \<Rightarrow> string option" where
  "json_ref content =
     Option.bind content (\<lambda>c. Option.bind (json_get ''application/json'' c) (\<lambda>m. Option.bind (json_get ''schema'' m) ref_type_name))"

definition advertises_flatbuffers :: "json option \<Rightarrow> bool" where
  "advertises_flatbuffers content \<longleftrightarrow> Option.bind content (json_get ''application/x-flatbuffers'') \<noteq> None"

text \<open>The content of the first success response that has one.\<close>

primrec find_map :: "('a \<Rightarrow> 'b option) \<Rightarrow> 'a list \<Rightarrow> 'b option" where
  "find_map f [] = None"
| "find_map f (x # xs) = (case f x of Some y \<Rightarrow> Some y | None \<Rightarrow> find_map f xs)"

definition success_response_content :: "json \<Rightarrow> json option" where
  "success_response_content op =
     Option.bind (json_get ''responses'' op) (\<lambda>r. Option.bind (json_entries r) (\<lambda>es.
       find_map (\<lambda>(code, resp). json_get ''content'' resp) (filter (\<lambda>(code, resp). prefix ''2'' code) es)))"

definition plugin_methods :: "string list" where
  "plugin_methods = [''get'', ''put'', ''post'', ''delete'', ''patch'', ''head'', ''options'']"

definition fb_operation_of :: "string \<Rightarrow> string \<Rightarrow> json \<Rightarrow> fb_operation list" where
  "fb_operation_of path m op =
     (let req = Option.bind (json_get ''requestBody'' op) (json_get ''content''); resp = success_response_content op
      in if \<not> List.member plugin_methods m then []
         else if \<not> advertises_flatbuffers req \<and> \<not> advertises_flatbuffers resp then []
         else [\<lparr>op_path = path, op_method = to_uppercase m,
                op_id = Option.bind (json_get ''operationId'' op) json_str,
                op_request = json_ref req, op_response = json_ref resp\<rparr>])"

definition fb_operations :: "json \<Rightarrow> fb_operation list" where
  "fb_operations spec =
     (case Option.bind (json_get ''paths'' spec) json_entries of
        None \<Rightarrow> []
      | Some paths \<Rightarrow>
          concat (map (\<lambda>(path, item).
            (case json_entries item of
               None \<Rightarrow> []
             | Some ops \<Rightarrow> concat (map (\<lambda>(m, op). fb_operation_of path m op) ops))) paths))"

subsection \<open>Validation\<close>

definition op_signature :: "fb_operation \<Rightarrow> string" where
  "op_signature op = op_method op @ '' '' @ op_path op"

definition op_types :: "fb_operation \<Rightarrow> string list" where
  "op_types op =
     (case op_request op of Some t \<Rightarrow> [t] | None \<Rightarrow> []) @ (case op_response op of Some t \<Rightarrow> [t] | None \<Rightarrow> [])"

definition missing_types :: "fb_operation list \<Rightarrow> string list \<Rightarrow> (string \<times> string) list" where
  "missing_types ops names =
     concat (map (\<lambda>op. map (Pair (op_signature op)) (filter (\<lambda>t. \<not> List.member names t) (op_types op))) ops)"

definition untyped_operations :: "fb_operation list \<Rightarrow> string list" where
  "untyped_operations ops = map op_signature (filter (\<lambda>op. op_types op = []) ops)"

definition tick :: string where
  "tick = [CHR 0x60]"

definition newline_text :: string where
  "newline_text = [CHR 0x0A]"

definition missing_text :: "(string \<times> string) list \<Rightarrow> string" where
  "missing_text missing =
     (if missing = [] then []
      else ''local .fbs schemas are out of sync with the deployed server '' @ [CHR 0xE2, CHR 0x80, CHR 0x94] @
        '' these types are referenced by application/x-flatbuffers operations but were not found in the schemas directory:'' @
        newline_text @
        concat (map (\<lambda>(op, t). ''  - '' @ op @ '' needs type '' @ tick @ t @ tick @ newline_text) missing))"

definition untyped_text :: "string list \<Rightarrow> string" where
  "untyped_text untyped =
     (if untyped = [] then []
      else ''these application/x-flatbuffers operations reference no generated type, so no FlatBuffer client can be built for them:'' @
        newline_text @ concat (map (\<lambda>op. ''  - '' @ op @ newline_text) untyped))"

definition trim_end :: "string \<Rightarrow> string" where
  "trim_end s = rev (dropWhile (\<lambda>c. (of_char c :: nat) = 32 \<or> 9 \<le> (of_char c :: nat) \<and> (of_char c :: nat) \<le> 13) (rev s))"

definition validate_ops :: "fb_operation list \<Rightarrow> string list \<Rightarrow> string + unit" where
  "validate_ops ops names =
     (let missing = missing_types ops names; untyped = untyped_operations ops
      in if missing = [] \<and> untyped = [] then Inr () else Inl (trim_end (missing_text missing @ untyped_text untyped)))"

subsection \<open>Merging the reflections\<close>

definition merge_bucket :: "('a \<Rightarrow> string) \<Rightarrow> 'a list \<Rightarrow> 'a list \<Rightarrow> 'a list" where
  "merge_bucket name new old =
     fold (\<lambda>x acc. if list_ex (\<lambda>seen. name seen = name x) acc then acc else acc @ [x]) new old"

definition merge_namespaces :: "('a \<Rightarrow> string) \<Rightarrow> 'a by_namespace \<Rightarrow> 'a by_namespace \<Rightarrow> 'a by_namespace" where
  "merge_namespaces name new old =
     fold (\<lambda>(ns, xs) m. AList.update ns (merge_bucket name xs (case map_of m ns of Some b \<Rightarrow> b | None \<Rightarrow> [])) m) new old"

text \<open>\<open>reflect\<close> is the reflection of one root file, flatc's run included.\<close>

fun merge_roots ::
  "(string \<Rightarrow> string + (table by_namespace \<times> enum by_namespace)) \<Rightarrow> string list \<Rightarrow>
   table by_namespace \<times> enum by_namespace \<Rightarrow> string + (table by_namespace \<times> enum by_namespace)" where
  "merge_roots reflect [] acc = Inr acc"
| "merge_roots reflect (r # rs) acc =
     bind_res (reflect r) (\<lambda>(t, e).
       merge_roots reflect rs (merge_namespaces tb_name t (fst acc), merge_namespaces em_name e (snd acc)))"

definition reflect_schemas ::
  "(string \<Rightarrow> string + (table by_namespace \<times> enum by_namespace)) \<Rightarrow> string + string list \<Rightarrow>
   string + (table by_namespace \<times> enum by_namespace)" where
  "reflect_schemas reflect roots =
     bind_res roots (\<lambda>rs. if rs = [] then Inl ''no .fbs files found'' else merge_roots reflect rs ([], []))"

definition table_names :: "table by_namespace \<Rightarrow> string list" where
  "table_names m = concat (map (\<lambda>(ns, ts). map tb_name ts) m)"

subsection \<open>What validation and merging give\<close>

lemma validate_iff:
  "validate_ops ops names = Inr () \<longleftrightarrow>
     (\<forall>op \<in> set ops. op_types op \<noteq> [] \<and> set (op_types op) \<subseteq> set names)"
  by (auto simp: validate_ops_def Let_def missing_types_def untyped_operations_def filter_empty_conv)

lemma merge_bucket_simps [simp]:
  "merge_bucket name [] old = old"
  "merge_bucket name (x # xs) old = merge_bucket name xs (if name x \<in> name ` set old then old else old @ [x])"
  by (auto simp: merge_bucket_def list_ex_iff image_iff intro: arg_cong)

lemma merge_bucket_names: "name ` set (merge_bucket name new old) = name ` set old \<union> name ` set new"
  by (induction new arbitrary: old) auto

lemma merge_bucket_within: "set (merge_bucket name new old) \<subseteq> set old \<union> set new"
  by (induction new arbitrary: old) (fastforce split: if_splits)+

lemma distinct_merge_bucket: "distinct (map name old) \<Longrightarrow> distinct (map name (merge_bucket name new old))"
  by (induction new arbitrary: old) auto

lemma merge_namespaces_bucket:
  assumes "distinct (map fst new)"
  shows "bucket_of (merge_namespaces name new old) ns = merge_bucket name (bucket_of new ns) (bucket_of old ns)"
  using assms
proof (induction new arbitrary: old)
  case (Cons p new)
  obtain n xs where p: "p = (n, xs)" by (cases p)
  have none: "map_of new n = None" using Cons.prems by (auto simp: p map_of_eq_None_iff)
  show ?case
    using Cons.IH [of "AList.update n (merge_bucket name xs (case map_of old n of Some b \<Rightarrow> b | None \<Rightarrow> [])) old"] Cons.prems none
    by (auto simp: merge_namespaces_def p bucket_of_def merge_bucket_def split: option.splits)
qed (simp add: merge_namespaces_def bucket_of_def merge_bucket_def)

end
