(* ===== verification/TsClient.thy ===== *)
theory TsClient
  imports FbPlugin Router
begin

text \<open>
  The fetch client of \<^verbatim>\<open>crates/flatbed_build/src/ts_client.rs\<close>: the names it derives, the check that
  they compile, the methods it writes and the request each sends. Names are ASCII, as schema and
  route names are: a byte outside ASCII counts as no letter.
\<close>

subsection \<open>Words\<close>

definition is_lower :: "char \<Rightarrow> bool" where
  "is_lower c \<longleftrightarrow> 97 \<le> (of_char c :: nat) \<and> (of_char c :: nat) \<le> 122"

definition is_alpha :: "char \<Rightarrow> bool" where
  "is_alpha c \<longleftrightarrow> is_lower c \<or> 65 \<le> (of_char c :: nat) \<and> (of_char c :: nat) \<le> 90"

definition is_alnum :: "char \<Rightarrow> bool" where
  "is_alnum c \<longleftrightarrow> is_alpha c \<or> is_digit c"

text \<open>\<open>str::split\<close> with a predicate.\<close>

fun split_by :: "(char \<Rightarrow> bool) \<Rightarrow> string \<Rightarrow> string list" where
  "split_by P [] = [[]]"
| "split_by P (x # xs) =
     (if P x then [] # split_by P xs
      else (case split_by P xs of [] \<Rightarrow> [[x]] | y # ys \<Rightarrow> (x # y) # ys))"

definition camel_segment :: "string \<Rightarrow> string \<Rightarrow> string" where
  "camel_segment segment out =
     (case segment of
        [] \<Rightarrow> out
      | head # chars \<Rightarrow>
          (let screaming = \<not> list_ex is_lower segment
           in out @ [if out = [] then ascii_lower head else ascii_upper head] @
              map (\<lambda>c. if screaming then ascii_lower c else c) chars))"

definition camel_case :: "string \<Rightarrow> string" where
  "camel_case s = fold camel_segment (split_by (\<lambda>c. \<not> is_alnum c) s) []"

definition pascal :: "string \<Rightarrow> string" where
  "pascal s = (case s of c # cs \<Rightarrow> ascii_upper c # cs | [] \<Rightarrow> s)"

definition pascal_case :: "string \<Rightarrow> string" where
  "pascal_case s = pascal (camel_case s)"

subsection \<open>Names\<close>

definition reserved_method_names :: "string list" where
  "reserved_method_names = [''constructor'', ''options'', ''request'']"

definition ts_keywords :: "string list" where
  "ts_keywords =
     [''arguments'', ''await'', ''break'', ''case'', ''catch'', ''class'', ''const'', ''continue'', ''debugger'',
      ''default'', ''delete'', ''do'', ''else'', ''enum'', ''eval'', ''export'', ''extends'', ''false'',
      ''finally'', ''for'', ''function'', ''if'', ''implements'', ''import'', ''in'', ''instanceof'',
      ''interface'', ''let'', ''new'', ''null'', ''package'', ''private'', ''protected'', ''public'',
      ''return'', ''static'', ''super'', ''switch'', ''this'', ''throw'', ''true'', ''try'', ''typeof'',
      ''var'', ''void'', ''while'', ''with'', ''yield'']"

definition ident_rest :: "char \<Rightarrow> bool" where
  "ident_rest c \<longleftrightarrow> is_alnum c \<or> c = CHR ''_'' \<or> c = CHR ''$''"

definition is_valid_ts_identifier :: "string \<Rightarrow> bool" where
  "is_valid_ts_identifier name \<longleftrightarrow>
     (case name of
        [] \<Rightarrow> False
      | c # cs \<Rightarrow> (is_alpha c \<or> c = CHR ''_'' \<or> c = CHR ''$'') \<and> list_all ident_rest cs)"

definition param_ident :: "string \<Rightarrow> string" where
  "param_ident prm =
     (let base = camel_case prm
      in if List.member ts_keywords base then base @ ''_''
         else if is_valid_ts_identifier base then base
         else ''_'' @ base)"

text \<open>The name inside a segment's braces.\<close>

definition braced :: "string \<Rightarrow> string option" where
  "braced seg = Option.bind (strip_prefix ''{'' seg) (strip_suffix ''}'')"

definition path_params :: "string \<Rightarrow> string list" where
  "path_params path = List.map_filter braced (split_on CHR ''/'' path)"

definition segment_word :: "string \<Rightarrow> string" where
  "segment_word seg = (case braced seg of Some prm \<Rightarrow> ''By'' @ pascal_case prm | None \<Rightarrow> pascal_case seg)"

definition method_name :: "fb_operation \<Rightarrow> string" where
  "method_name op =
     (case op_id op of
        Some i \<Rightarrow> camel_case i
      | None \<Rightarrow> to_lowercase (op_method op) @
          concat (map segment_word (filter (\<lambda>s. s \<noteq> []) (split_on CHR ''/'' (op_path op)))))"

definition bodyless :: "string \<Rightarrow> bool" where
  "bodyless m \<longleftrightarrow> m = ''GET'' \<or> m = ''HEAD''"

definition effective_request_type :: "fb_operation \<Rightarrow> string option" where
  "effective_request_type op = (if bodyless (op_method op) then None else op_request op)"

subsection \<open>The check\<close>

fun check_params :: "string \<Rightarrow> bool \<Rightarrow> string list \<Rightarrow> string list \<Rightarrow> string + unit" where
  "check_params sig has_body seen [] = Inr ()"
| "check_params sig has_body seen (prm # ps) =
     (let ident = param_ident prm
      in if has_body \<and> ident = ''body'' then
           Inl (''operation '' @ sig @ '' has a path parameter '' @ prm @ '' that maps to the argument name body'')
         else if List.member seen ident then
           Inl (''operation '' @ sig @ '' has two path parameters that map to the argument name '' @ ident)
         else check_params sig has_body (ident # seen) ps)"

fun check_operations :: "(string \<times> string) list \<Rightarrow> fb_operation list \<Rightarrow> string + unit" where
  "check_operations seen [] = Inr ()"
| "check_operations seen (op # ops) =
     (let name = method_name op; sig = op_signature op
      in if \<not> is_valid_ts_identifier name then
           Inl (''operation '' @ sig @ '' derives the client method name '' @ name @ '', which is not a valid TypeScript identifier'')
         else if List.member reserved_method_names name then
           Inl (''operation '' @ sig @ '' derives the client method name '' @ name @ '', which collides with a member'')
         else (case map_of seen name of
             Some prev \<Rightarrow> Inl (''two operations derive the same client method '' @ name @ '': '' @ prev @ '' and '' @ sig)
           | None \<Rightarrow>
               bind_res (check_params sig (effective_request_type op \<noteq> None) [] (path_params (op_path op))) (\<lambda>_.
                 check_operations ((name, sig) # seen) ops)))"

definition check_unique_method_names :: "fb_operation list \<Rightarrow> string + unit" where
  "check_unique_method_names ops = check_operations [] ops"

subsection \<open>The generated class\<close>

text \<open>A template literal, character by character, a hole for each \<^verbatim>\<open>${encodeURIComponent(x)}\<close>.\<close>

datatype piece = Ch char | Hole string

datatype path_expr = PathText string | PathTemplate "piece list"

record ts_method =
  tm_name :: string
  tm_args :: "(string \<times> string) list"
  tm_return :: string
  tm_http :: string
  tm_path :: path_expr
  tm_encode :: "string option"
  tm_decode :: "string option"

record ts_client =
  tc_codec_import :: bool
  tc_types :: "string list"
  tc_methods :: "ts_method list"

text \<open>\<open>str::replace\<close> of a parameter by its hole.\<close>

function replace_param :: "string \<Rightarrow> string \<Rightarrow> piece list \<Rightarrow> piece list" where
  "replace_param pat ident ps =
     (case ps of
        [] \<Rightarrow> []
      | p # qs \<Rightarrow>
          if pat \<noteq> [] \<and> prefix (map Ch pat) ps then Hole ident # replace_param pat ident (drop (length pat) ps)
          else p # replace_param pat ident qs)"
  by auto
termination
  by (relation "measure (\<lambda>(pat, ident, ps). length ps)") auto

declare replace_param.simps [simp del]

definition path_template :: "string \<Rightarrow> piece list" where
  "path_template path =
     fold (\<lambda>p. replace_param (''{'' @ p @ ''}'') (param_ident p)) (path_params path) (map Ch path)"

definition ts_method_of :: "fb_operation \<Rightarrow> ts_method" where
  "ts_method_of op =
     \<lparr>tm_name = method_name op,
      tm_args = map (\<lambda>p. (param_ident p, ''string'')) (path_params (op_path op)) @
        (case effective_request_type op of Some r \<Rightarrow> [(''body'', r)] | None \<Rightarrow> []),
      tm_return = (case op_response op of Some r \<Rightarrow> r | None \<Rightarrow> ''Uint8Array''),
      tm_http = op_method op,
      tm_path = (if path_params (op_path op) = [] then PathText (op_path op) else PathTemplate (path_template (op_path op))),
      tm_encode = effective_request_type op,
      tm_decode = op_response op\<rparr>"

definition option_list :: "'a option \<Rightarrow> 'a list" where
  "option_list x = (case x of Some a \<Rightarrow> [a] | None \<Rightarrow> [])"

definition generate_client :: "fb_operation list \<Rightarrow> ts_client" where
  "generate_client ops =
     \<lparr>tc_codec_import = list_ex (\<lambda>op. effective_request_type op \<noteq> None \<or> op_response op \<noteq> None) ops,
      tc_types = remdups_adj (sort (concat (map (\<lambda>op. option_list (effective_request_type op) @ option_list (op_response op)) ops))),
      tc_methods = map ts_method_of ops\<rparr>"

subsection \<open>What a method sends\<close>

text \<open>JavaScript's \<^verbatim>\<open>encodeURIComponent\<close>, on UTF-8.\<close>

definition unreserved :: "char \<Rightarrow> bool" where
  "unreserved c \<longleftrightarrow> is_alnum c \<or> List.member ''-_.!~*()'' c \<or> c = CHR 0x27"

definition hex_digit :: "nat \<Rightarrow> char" where
  "hex_digit n = (if n < 10 then char_of (48 + n) else char_of (55 + n))"

definition encode_char :: "char \<Rightarrow> string" where
  "encode_char c =
     (if unreserved c then [c]
      else [CHR ''%'', hex_digit ((of_char c :: nat) div 16), hex_digit ((of_char c :: nat) mod 16)])"

definition encode_component :: "string \<Rightarrow> string" where
  "encode_component s = concat (map encode_char s)"

definition eval_piece :: "(string \<Rightarrow> string) \<Rightarrow> piece \<Rightarrow> string" where
  "eval_piece args p = (case p of Ch c \<Rightarrow> [c] | Hole x \<Rightarrow> encode_component (args x))"

definition eval_path :: "(string \<Rightarrow> string) \<Rightarrow> path_expr \<Rightarrow> string" where
  "eval_path args e = (case e of PathText s \<Rightarrow> s | PathTemplate ps \<Rightarrow> concat (map (eval_piece args) ps))"

record fetch_request =
  fr_url :: string
  fr_method :: string
  fr_headers :: "(string \<times> string) list"
  fr_body :: "bytes option"

definition content_type_fb :: string where
  "content_type_fb = ''application/x-flatbuffers''"

text \<open>The client's \<^verbatim>\<open>request\<close>; \<open>body\<close> is what the codec encoded.\<close>

definition client_request :: "string \<Rightarrow> string \<Rightarrow> string \<Rightarrow> bytes \<Rightarrow> fetch_request" where
  "client_request base_url m path body =
     (let sends = \<not> bodyless m
      in \<lparr>fr_url = trim_end_matches CHR ''/'' base_url @ path, fr_method = m,
          fr_headers = (''accept'', content_type_fb) # (if sends then [(''content-type'', content_type_fb)] else []),
          fr_body = (if sends then Some body else None)\<rparr>)"

definition call_method :: "(string \<Rightarrow> bytes) \<Rightarrow> string \<Rightarrow> (string \<Rightarrow> string) \<Rightarrow> ts_method \<Rightarrow> fetch_request" where
  "call_method encode base_url args tm =
     client_request base_url (tm_http tm) (eval_path args (tm_path tm))
       (case tm_encode tm of Some t \<Rightarrow> encode t | None \<Rightarrow> [])"

text \<open>
  \<^verbatim>\<open>fetch\<close> parses the URL before it is sent, by the path state of the URL Standard for the schemes of
  the web: the query and the fragment are cut off, tabs and line ends dropped, a backslash is a slash,
  some characters are percent-encoded, and dot segments are resolved, the encoded ones included.
\<close>

definition single_dot :: "string \<Rightarrow> bool" where
  "single_dot s \<longleftrightarrow> List.member [''.'', ''%2e''] (to_lowercase s)"

definition double_dot :: "string \<Rightarrow> bool" where
  "double_dot s \<longleftrightarrow> List.member [''..'', ''.%2e'', ''%2e.'', ''%2e%2e''] (to_lowercase s)"

fun resolve_dots :: "string list \<Rightarrow> string list \<Rightarrow> string list" where
  "resolve_dots acc [] = acc"
| "resolve_dots acc [s] =
     (if double_dot s then butlast acc @ [[]] else if single_dot s then acc @ [[]] else acc @ [s])"
| "resolve_dots acc (s # t # ss) =
     (if double_dot s then resolve_dots (butlast acc) (t # ss)
      else if single_dot s then resolve_dots acc (t # ss)
      else resolve_dots (acc @ [s]) (t # ss))"

definition path_encoded :: "char \<Rightarrow> bool" where
  "path_encoded c \<longleftrightarrow>
     (of_char c :: nat) < 32 \<or> 126 < (of_char c :: nat) \<or> List.member [CHR '' '', CHR 0x22, CHR ''<'', CHR ''>'', CHR ''^'', CHR 0x60, CHR ''{'', CHR ''}''] c"

definition path_char :: "char \<Rightarrow> string" where
  "path_char c =
     (if path_encoded c then [CHR ''%'', hex_digit ((of_char c :: nat) div 16), hex_digit ((of_char c :: nat) mod 16)] else [c])"

definition url_path :: "string \<Rightarrow> string" where
  "url_path p =
     (let seen = takeWhile (\<lambda>c. c \<noteq> CHR ''?'' \<and> c \<noteq> CHR ''#'') (filter (\<lambda>c. \<not> List.member [CHR 0x09, CHR 0x0A, CHR 0x0D] c) p);
          slashed = map (\<lambda>c. if c = CHR 0x5C then CHR ''/'' else c) seen;
          segments = map (\<lambda>s. concat (map path_char s)) (tl (split_on CHR ''/'' slashed))
      in concat (map (\<lambda>s. CHR ''/'' # s) (resolve_dots [] segments)))"

text \<open>The path the server gets, the client being made for an origin: a scheme and an authority.\<close>

definition requested_path :: "string \<Rightarrow> fetch_request \<Rightarrow> string" where
  "requested_path origin r = url_path (drop (length origin) (fr_url r))"

subsection \<open>The derived names\<close>

lemma split_by_parts: "x \<in> set (split_by P s) \<Longrightarrow> list_all (\<lambda>c. \<not> P c) x"
  by (induction s arbitrary: x) (auto split: if_splits list.splits)

lemma case_alnum: "is_alnum (ascii_lower c) \<longleftrightarrow> is_alnum c" "is_alnum (ascii_upper c) \<longleftrightarrow> is_alnum c"
proof -
  note defs = is_alnum_def is_alpha_def is_lower_def is_digit_def Let_def
  show "is_alnum (ascii_lower c) \<longleftrightarrow> is_alnum c" by (auto simp: defs ascii_lower_def)
  show "is_alnum (ascii_upper c) \<longleftrightarrow> is_alnum c" by (auto simp: defs ascii_upper_def)
qed

lemma camel_alnum: "list_all is_alnum (camel_case s)"
proof -
  have seg: "list_all is_alnum (camel_segment x out)" if "list_all is_alnum x" "list_all is_alnum out" for x out
    using that by (auto simp: camel_segment_def case_alnum Let_def list_all_iff split: list.splits)
  have "list_all is_alnum (fold camel_segment xs out)" if "\<forall>x \<in> set xs. list_all is_alnum x" "list_all is_alnum out" for xs out
    using that by (induction xs arbitrary: out) (auto simp: seg)
  moreover have "\<forall>x \<in> set (split_by (\<lambda>c. \<not> is_alnum c) s). list_all is_alnum x"
    using split_by_parts [of _ "\<lambda>c. \<not> is_alnum c" s] by simp
  ultimately show ?thesis by (simp add: camel_case_def)
qed

definition good_argument :: "string \<Rightarrow> bool" where
  "good_argument a \<longleftrightarrow> is_valid_ts_identifier a \<and> \<not> List.member ts_keywords a"

lemma keyword_facts:
  "list_all is_valid_ts_identifier ts_keywords" "list_all (\<lambda>k. \<not> List.member k (CHR ''_'')) ts_keywords"
  "good_argument ''body''"
  by code_simp+

lemma param_ident_good: "good_argument (param_ident p)"
proof -
  let ?base = "camel_case p"
  have under: "\<not> List.member ts_keywords x" if "CHR ''_'' \<in> set x" for x
    using keyword_facts(2) that unfolding list_all_iff by auto
  have rest: "ident_rest c" if "c \<in> set ?base" for c
    using camel_alnum [of p] that by (auto simp: list_all_iff ident_rest_def)
  consider "List.member ts_keywords ?base" | "\<not> List.member ts_keywords ?base" "is_valid_ts_identifier ?base"
    | "\<not> List.member ts_keywords ?base" "\<not> is_valid_ts_identifier ?base" by blast
  then show ?thesis
  proof cases
    case 1
    then have "is_valid_ts_identifier ?base" using keyword_facts(1) unfolding list_all_iff by simp
    then have "is_valid_ts_identifier (?base @ ''_'')"
      by (auto simp: is_valid_ts_identifier_def ident_rest_def split: list.splits)
    then show ?thesis using 1 under [of "?base @ ''_''"] by (simp add: param_ident_def good_argument_def Let_def)
  next
    case 2
    then show ?thesis by (simp add: param_ident_def good_argument_def)
  next
    case 3
    have "is_valid_ts_identifier (''_'' @ ?base)" using rest by (simp add: is_valid_ts_identifier_def list_all_iff)
    then show ?thesis using 3 under [of "''_'' @ ?base"] by (simp add: param_ident_def good_argument_def Let_def)
  qed
qed

subsection \<open>The check is exact\<close>

lemma check_params_iff:
  "check_params sig has_body seen ps = Inr () \<longleftrightarrow>
     distinct (map param_ident ps) \<and> set (map param_ident ps) \<inter> set seen = {} \<and>
     (has_body \<longrightarrow> ''body'' \<notin> set (map param_ident ps))"
  by (induction ps arbitrary: seen) (auto simp: Let_def)

definition method_ok :: "ts_method \<Rightarrow> bool" where
  "method_ok tm \<longleftrightarrow>
     is_valid_ts_identifier (tm_name tm) \<and> \<not> List.member reserved_method_names (tm_name tm) \<and>
     distinct (map fst (tm_args tm))"

lemma method_args: "map fst (tm_args (ts_method_of op)) =
    map param_ident (path_params (op_path op)) @ (if effective_request_type op \<noteq> None then [''body''] else [])"
  by (auto simp: ts_method_of_def comp_def split: option.split)

lemma method_ok_iff:
  "method_ok (ts_method_of op) \<longleftrightarrow>
     is_valid_ts_identifier (method_name op) \<and> \<not> List.member reserved_method_names (method_name op) \<and>
     check_params sig (effective_request_type op \<noteq> None) [] (path_params (op_path op)) = Inr ()"
proof -
  have "tm_name (ts_method_of op) = method_name op" by (simp add: ts_method_of_def)
  then show ?thesis unfolding method_ok_def method_args check_params_iff by auto
qed

lemma check_operations_iff:
  "check_operations seen ops = Inr () \<longleftrightarrow>
     distinct (map method_name ops) \<and> set (map method_name ops) \<inter> fst ` set seen = {} \<and>
     (\<forall>op \<in> set ops. method_ok (ts_method_of op))"
proof (induction ops arbitrary: seen)
  case (Cons op ops)
  let ?checked = "check_params (op_signature op) (effective_request_type op \<noteq> None) [] (path_params (op_path op))"
  have "check_operations seen (op # ops) = Inr () \<longleftrightarrow>
      method_ok (ts_method_of op) \<and> map_of seen (method_name op) = None \<and>
      check_operations ((method_name op, op_signature op) # seen) ops = Inr ()"
    unfolding method_ok_iff [of op "op_signature op"]
    by (cases ?checked) (auto simp: Let_def bind_res_def split: option.split)
  then show ?case unfolding Cons.IH by (auto simp: map_of_eq_None_iff)
qed simp

text \<open>
  C29. The client's check is exact: it accepts the operations just when the members of the class
  generated from them compile side by side, their names valid, apart from each other and from the
  class's own members, and the arguments of each apart; and whatever the check says, every argument
  is a valid identifier that is not a keyword.
\<close>

theorem client_check_exact:
  "(check_unique_method_names ops = Inr () \<longleftrightarrow>
      distinct (map tm_name (tc_methods (generate_client ops))) \<and>
      list_all method_ok (tc_methods (generate_client ops))) \<and>
   list_all (\<lambda>tm. list_all good_argument (map fst (tm_args tm))) (tc_methods (generate_client ops))"
proof
  have names: "map tm_name (tc_methods (generate_client ops)) = map method_name ops"
    by (simp add: generate_client_def ts_method_of_def comp_def)
  show "check_unique_method_names ops = Inr () \<longleftrightarrow>
      distinct (map tm_name (tc_methods (generate_client ops))) \<and> list_all method_ok (tc_methods (generate_client ops))"
    unfolding check_unique_method_names_def check_operations_iff names
    by (auto simp: generate_client_def list_all_iff)
  have "list_all good_argument (map fst (tm_args (ts_method_of op)))" for op
    unfolding method_args using param_ident_good keyword_facts(3) by (auto simp: list_all_iff)
  then show "list_all (\<lambda>tm. list_all good_argument (map fst (tm_args tm))) (tc_methods (generate_client ops))"
    by (simp add: generate_client_def list_all_iff)
qed

subsection \<open>The path a method calls\<close>

text \<open>Paths in which braces only enclose whole segments.\<close>

definition plain_segment :: "string \<Rightarrow> bool" where
  "plain_segment s \<longleftrightarrow>
     (case braced s of
        Some p \<Rightarrow> CHR ''{'' \<notin> set p \<and> CHR ''}'' \<notin> set p
      | None \<Rightarrow> CHR ''{'' \<notin> set s)"

definition plain_path :: "string \<Rightarrow> bool" where
  "plain_path path \<longleftrightarrow> list_all plain_segment (split_on CHR ''/'' path)"

definition subst_segment :: "(string \<Rightarrow> string) \<Rightarrow> string \<Rightarrow> string" where
  "subst_segment args s = (case braced s of Some p \<Rightarrow> encode_component (args (param_ident p)) | None \<Rightarrow> s)"

definition segment_pieces :: "string set \<Rightarrow> string \<Rightarrow> piece list" where
  "segment_pieces D s =
     (case braced s of Some p \<Rightarrow> if p \<in> D then [Hole (param_ident p)] else map Ch s | None \<Rightarrow> map Ch s)"

fun join_pieces :: "piece list list \<Rightarrow> piece list" where
  "join_pieces [] = []"
| "join_pieces [x] = x"
| "join_pieces (x # y # zs) = x @ Ch CHR ''/'' # join_pieces (y # zs)"

lemma braced_iff: "braced s = Some p \<longleftrightarrow> s = ''{'' @ p @ ''}''"
  by (auto simp: braced_def strip_prefix_Some strip_suffix_Some bind_eq_Some_conv)

lemma braced_param: "is_param_segment s \<longleftrightarrow> braced s \<noteq> None" "braced s = Some p \<Longrightarrow> param_name s = p"
proof -
  show "is_param_segment s \<longleftrightarrow> braced s \<noteq> None"
  proof
    assume "is_param_segment s"
    then have "prefix ''{'' s" "suffix ''}'' s" by (simp_all add: is_param_segment_def)
    then obtain a b where "s = ''{'' @ a" "s = b @ ''}''" by (metis prefixE suffixE)
    then obtain p where "s = ''{'' @ p @ ''}''" by (cases b) auto
    then show "braced s \<noteq> None" using braced_iff by auto
  qed (auto simp: braced_iff is_param_segment_def suffix_def)
  show "braced s = Some p \<Longrightarrow> param_name s = p" by (auto simp: braced_iff param_name_def)
qed

lemma params_braced: "p \<in> set (path_params path) \<longleftrightarrow> (\<exists>s \<in> set (split_on CHR ''/'' path). braced s = Some p)"
  by (force simp: path_params_def List.map_filter_def)

lemma pieces_of_join: "map Ch (join_with ''/'' xs) = join_pieces (map (map Ch) xs)"
  by (induction xs rule: induct_list012) auto

lemma replace_step:
  "ps \<noteq> [] \<Longrightarrow> pat \<noteq> [] \<Longrightarrow> replace_param pat i ps =
     (if prefix (map Ch pat) ps then Hole i # replace_param pat i (drop (length pat) ps)
      else hd ps # replace_param pat i (tl ps))"
  by (subst replace_param.simps) (cases ps, auto)

lemma replace_Nil [simp]: "replace_param pat i [] = []"
  by (simp add: replace_param.simps)

lemma replace_none: "Ch CHR ''{'' \<notin> set ps \<Longrightarrow> replace_param (CHR ''{'' # pat) i ps = ps"
  by (induction ps) (subst replace_param.simps, auto)+

lemma replace_append:
  assumes "c \<notin> set pat" "pat \<noteq> []"
  shows "replace_param pat i (a @ Ch c # b) = replace_param pat i a @ Ch c # replace_param pat i b"
proof (induction a rule: length_induct)
  case (1 a)
  show ?case
  proof (cases a)
    case Nil
    have "\<not> prefix (map Ch pat) (Ch c # b)" using assms by (cases pat) auto
    then show ?thesis using assms(2) by (simp add: Nil replace_step)
  next
    case (Cons x xs)
    have "prefix (map Ch pat) (a @ Ch c # b) \<longleftrightarrow> prefix (map Ch pat) a"
    proof
      assume "prefix (map Ch pat) (a @ Ch c # b)"
      then show "prefix (map Ch pat) a"
      proof (rule prefix_append [THEN iffD1, THEN disjE])
        assume "\<exists>us. map Ch pat = a @ us \<and> prefix us (Ch c # b)"
        then obtain us where us: "map Ch pat = a @ us" "prefix us (Ch c # b)" by blast
        have "us = []"
        proof (cases us)
          case (Cons y ys)
          then have "Ch c \<in> set (map Ch pat)" using us by auto
          then show ?thesis using assms(1) by auto
        qed
        then show ?thesis using us(1) by simp
      qed
    qed (auto simp: prefix_def)
    note same = this
    show ?thesis
    proof (cases "prefix (map Ch pat) a")
      case True
      then obtain r where r: "a = map Ch pat @ r" by (auto simp: prefix_def)
      have "length r < length a" using assms(2) by (simp add: r)
      then have "replace_param pat i (r @ Ch c # b) = replace_param pat i r @ Ch c # replace_param pat i b"
        using 1 by blast
      moreover have "replace_param pat i (map Ch pat @ r) = Hole i # replace_param pat i r"
        "replace_param pat i (map Ch pat @ r @ Ch c # b) = Hole i # replace_param pat i (r @ Ch c # b)"
        using assms(2) by (simp_all add: replace_step)
      ultimately show ?thesis unfolding r append_assoc by simp
    next
      case False
      have "replace_param pat i (xs @ Ch c # b) = replace_param pat i xs @ Ch c # replace_param pat i b"
        using 1 Cons by simp
      moreover have "replace_param pat i a = x # replace_param pat i xs"
        "replace_param pat i (a @ Ch c # b) = x # replace_param pat i (xs @ Ch c # b)"
        using False same assms(2) by (simp_all add: replace_step Cons)
      ultimately show ?thesis by simp
    qed
  qed
qed

lemma replace_join:
  assumes "CHR ''/'' \<notin> set pat" "pat \<noteq> []"
  shows "replace_param pat i (join_pieces xs) = join_pieces (map (replace_param pat i) xs)"
  using replace_append [OF assms]
  by (induction xs rule: induct_list012) simp_all

lemma prefix_map_Ch: "prefix (map Ch a) (map Ch b) \<longleftrightarrow> prefix a b"
proof (induction a arbitrary: b)
  case (Cons x a)
  then show ?case by (cases b) auto
qed simp

lemma replace_segment:
  assumes "plain_segment s" "CHR ''{'' \<notin> set p" "CHR ''}'' \<notin> set p"
  shows "replace_param (''{'' @ p @ ''}'') (param_ident p) (segment_pieces D s) = segment_pieces (insert p D) s"
proof (cases "braced s")
  case None
  then have "Ch CHR ''{'' \<notin> set (map Ch s)" using assms(1) by (auto simp: plain_segment_def)
  then show ?thesis using replace_none [of "map Ch s" "p @ ''}''"] None by (simp add: segment_pieces_def)
next
  case (Some q)
  then have s: "s = ''{'' @ q @ ''}''" by (simp only: braced_iff)
  have q: "CHR ''{'' \<notin> set q" "CHR ''}'' \<notin> set q"
    using assms(1) unfolding plain_segment_def Some option.case by blast+
  show ?thesis
  proof (cases "q \<in> D")
    case True
    then show ?thesis using replace_none [of "[Hole (param_ident q)]" "p @ ''}''"] Some by (simp add: segment_pieces_def)
  next
    case notin: False
    let ?pat = "''{'' @ p @ ''}''"
    have rest: "replace_param ?pat (param_ident p) (map Ch (q @ ''}'')) = map Ch (q @ ''}'')"
      using replace_none [of "map Ch (q @ ''}'')" "p @ ''}''"] q(1) by auto
    have "prefix (map Ch ?pat) (map Ch s) \<longleftrightarrow> p = q"
    proof
      assume "prefix (map Ch ?pat) (map Ch s)"
      then have "prefix (p @ ''}'') (q @ ''}'')" unfolding s prefix_map_Ch by simp
      then obtain r where r: "q @ ''}'' = p @ CHR ''}'' # r" by (auto simp: prefix_def)
      then show "p = q" using q(2) assms(3) by (auto simp: append_eq_append_conv2 append_eq_Cons_conv Cons_eq_append_conv)
    qed (simp add: s)
    then have step: "replace_param ?pat i (map Ch s) =
        (if p = q then Hole i # replace_param ?pat i (drop (length ?pat) (map Ch s)) else hd (map Ch s) # replace_param ?pat i (tl (map Ch s)))" for i
      by (subst replace_step) (simp_all add: s)
    have "drop (length ?pat) (map Ch s) = []" if "p = q" using that by (simp add: s)
    moreover have "hd (map Ch s) = Ch CHR ''{''" "tl (map Ch s) = map Ch (q @ ''}'')" by (simp_all add: s)
    ultimately have "replace_param ?pat (param_ident p) (map Ch s) = (if p = q then [Hole (param_ident p)] else map Ch s)"
      using rest by (simp only: step) (simp add: s)
    then show ?thesis using notin by (auto simp only: segment_pieces_def Some option.case insert_iff if_True if_False simp_thms split: if_splits)
  qed
qed

lemma template_pieces:
  assumes "list_all plain_segment xs" "set ps \<subseteq> {p. CHR ''{'' \<notin> set p \<and> CHR ''}'' \<notin> set p \<and> CHR ''/'' \<notin> set p}"
  shows "fold (\<lambda>p. replace_param (''{'' @ p @ ''}'') (param_ident p)) ps (join_pieces (map (segment_pieces D) xs)) =
    join_pieces (map (segment_pieces (D \<union> set ps)) xs)"
  using assms(2)
proof (induction ps arbitrary: D)
  case (Cons p ps)
  have each: "replace_param (''{'' @ p @ ''}'') (param_ident p) (segment_pieces D x) = segment_pieces (insert p D) x" if "x \<in> set xs" for x
    using assms(1) that Cons.prems by (intro replace_segment) (auto simp: list_all_iff)
  have "CHR ''/'' \<notin> set (''{'' @ p @ ''}'')" using Cons.prems by simp
  note join = replace_join [OF this, of "param_ident p" "map (segment_pieces D) xs"]
  have "replace_param (''{'' @ p @ ''}'') (param_ident p) (join_pieces (map (segment_pieces D) xs)) =
      join_pieces (map (segment_pieces (insert p D)) xs)"
  proof -
    have "map (replace_param (''{'' @ p @ ''}'') (param_ident p)) (map (segment_pieces D) xs) = map (segment_pieces (insert p D)) xs"
      using each by (simp only: map_map map_eq_conv comp_apply) blast
    then show ?thesis using join by (simp only: append_is_Nil_conv list.distinct simp_thms not_False_eq_True)
  qed
  then show ?case using Cons.IH [of "insert p D"] Cons.prems by simp
qed simp

lemma eval_join: "concat (map (eval_piece args) (join_pieces xs)) = join_with ''/'' (map (\<lambda>x. concat (map (eval_piece args) x)) xs)"
  by (induction xs rule: induct_list012) (simp_all add: eval_piece_def)

lemma called_path:
  assumes "plain_path (op_path op)"
  shows "eval_path args (tm_path (ts_method_of op)) = join_with ''/'' (map (subst_segment args) (split_on CHR ''/'' (op_path op)))"
proof -
  let ?segs = "split_on CHR ''/'' (op_path op)" and ?ps = "path_params (op_path op)"
  have plain: "list_all plain_segment ?segs" using assms by (simp add: plain_path_def)
  have ch: "concat (map (eval_piece args) (map Ch s)) = s" for s by (induction s) (simp_all add: eval_piece_def)
  have whole: "join_with ''/'' ?segs = op_path op" by (rule join_split_on)
  show ?thesis
  proof (cases "?ps = []")
    case True
    then have "subst_segment args s = s" if "s \<in> set ?segs" for s
      using that params_braced [of _ "op_path op"] by (auto simp: subst_segment_def split: option.split)
    then have "map (subst_segment args) ?segs = ?segs" by (simp add: map_idI)
    then show ?thesis using True whole by (simp add: ts_method_of_def eval_path_def)
  next
    case False
    have "set ?ps \<subseteq> {p. CHR ''{'' \<notin> set p \<and> CHR ''}'' \<notin> set p \<and> CHR ''/'' \<notin> set p}"
    proof
      fix p assume "p \<in> set ?ps"
      then obtain s where s: "s \<in> set ?segs" "braced s = Some p" by (auto simp: params_braced)
      then have "plain_segment s" "CHR ''/'' \<notin> set s" using plain split_on_no_sep by (auto simp: list_all_iff)
      moreover have "s = ''{'' @ p @ ''}''" using s(2) by (simp only: braced_iff)
      then have "CHR ''/'' \<in> set p \<Longrightarrow> CHR ''/'' \<in> set s" by simp
      ultimately show "p \<in> {p. CHR ''{'' \<notin> set p \<and> CHR ''}'' \<notin> set p \<and> CHR ''/'' \<notin> set p}"
        unfolding plain_segment_def s(2) option.case by blast
    qed
    note sub = this
    have "segment_pieces {} = map Ch" by (rule ext) (simp add: segment_pieces_def split: option.split)
    then have "path_template (op_path op) = join_pieces (map (segment_pieces (set ?ps)) ?segs)"
      using template_pieces [OF plain sub, of "{}"] pieces_of_join [of ?segs] whole by (simp add: path_template_def)
    moreover have "concat (map (eval_piece args) (segment_pieces (set ?ps) s)) = subst_segment args s" if "s \<in> set ?segs" for s
      using that params_braced [of _ "op_path op"] ch
      by (auto simp: segment_pieces_def subst_segment_def eval_piece_def split: option.split)
    ultimately show ?thesis using False by (simp add: ts_method_of_def eval_path_def eval_join comp_def cong: map_cong)
  qed
qed

lemma encode_no_slash: "CHR ''/'' \<notin> set (encode_component s)"
proof -
  have hex: "hex_digit n \<noteq> CHR ''/''" if "n < 16" for n
  proof -
    have "list_all (\<lambda>n. hex_digit n \<noteq> CHR ''/'') [0 ..< 16]" by code_simp
    then show ?thesis using that by (simp add: list_all_iff)
  qed
  have "\<not> unreserved (CHR ''/'')" by code_simp
  moreover have "hex_digit ((of_char c :: nat) div 16) \<noteq> CHR ''/''" "hex_digit ((of_char c :: nat) mod 16) \<noteq> CHR ''/''" for c
    by (rule hex, simp add: less_mult_imp_div_less)+
  ultimately have "CHR ''/'' \<notin> set (encode_char c)" for c by (auto simp: encode_char_def eq_commute [of "CHR ''/''"])
  then show ?thesis by (simp add: encode_component_def)
qed

lemma encode_nonempty: "encode_component s = [] \<longleftrightarrow> s = []"
  by (cases s) (auto simp: encode_component_def encode_char_def)

text \<open>A value of unreserved characters arrives as it is; any other arrives encoded.\<close>

lemma encode_same: "encode_component s = s \<longleftrightarrow> list_all unreserved s"
proof
  have len: "length s \<le> length (encode_component s) \<and> (length (encode_component s) = length s \<longrightarrow> list_all unreserved s)"
    by (induction s) (auto simp: encode_component_def encode_char_def)
  then show "encode_component s = s \<Longrightarrow> list_all unreserved s" by metis
  show "list_all unreserved s \<Longrightarrow> encode_component s = s"
    by (induction s) (auto simp: encode_component_def encode_char_def)
qed

lemma called_segments:
  assumes "plain_path (op_path op)" "\<forall>p \<in> set (path_params (op_path op)). args (param_ident p) \<noteq> []"
  shows "path_segments (eval_path args (tm_path (ts_method_of op))) = map (subst_segment args) (path_segments (op_path op))"
proof -
  let ?segs = "split_on CHR ''/'' (op_path op)"
  have "CHR ''/'' \<notin> set (subst_segment args s)" if "s \<in> set ?segs" for s
    using split_on_no_sep [OF that] encode_no_slash by (simp add: subst_segment_def split: option.split)
  then have "split_on CHR ''/'' (join_with ''/'' (map (subst_segment args) ?segs)) = map (subst_segment args) ?segs"
    by (intro split_on_join) auto
  moreover have "subst_segment args s = [] \<longleftrightarrow> s = []" if "s \<in> set ?segs" for s
  proof (cases "braced s")
    case (Some p)
    then have "p \<in> set (path_params (op_path op))" using that by (auto simp: params_braced)
    moreover have "s \<noteq> []" using Some by (auto simp only: braced_iff append_is_Nil_conv)
    ultimately show ?thesis using assms(2) by (simp add: subst_segment_def Some encode_nonempty)
  qed (simp add: subst_segment_def)
  ultimately show ?thesis
    by (simp add: path_segments_def called_path [OF assms(1)] filter_map comp_def cong: filter_cong)
qed

lemma called_binds:
  assumes "distinct (map param_ident (path_params path))" "p \<in> set (path_params path)"
  shows "map_of (rev (decl_binds (path_segments path) (map (subst_segment args) (path_segments path)))) p =
    Some (encode_component (args (param_ident p)))"
proof -
  let ?segs = "path_segments path"
  have binds: "decl_binds xs (map (subst_segment args) xs) =
      map (\<lambda>p. (p, encode_component (args (param_ident p)))) (List.map_filter braced xs)" for xs
    by (induction xs) (auto simp: decl_binds_def List.map_filter_simps subst_segment_def braced_param split: option.splits)
  have "braced [] = None" by (simp add: braced_def strip_prefix_def)
  then have "List.map_filter braced (filter (\<lambda>s. s \<noteq> []) xs) = List.map_filter braced xs" for xs
    by (induction xs) (auto simp: List.map_filter_simps split: option.split)
  then have params: "List.map_filter braced ?segs = path_params path" by (simp add: path_params_def path_segments_def)
  have "distinct (path_params path)" using assms(1) by (simp add: distinct_map)
  then have "distinct (map fst (rev (map (\<lambda>p. (p, encode_component (args (param_ident p)))) (path_params path))))"
    by (simp add: rev_map [symmetric] comp_def)
  then show ?thesis unfolding binds params by (rule map_of_is_SomeI) (use assms(2) in auto)
qed

lemma called_accepts: "list_all2 pat_accepts (map pat_of xs) (map (subst_segment args) xs)"
  by (induction xs) (auto simp: pat_of_def braced_param subst_segment_def)

text \<open>What a URL keeps as it is: characters of no meaning to it, in no dot segment.\<close>

definition url_char :: "char \<Rightarrow> bool" where
  "url_char c \<longleftrightarrow> \<not> path_encoded c \<and> \<not> List.member [CHR ''?'', CHR ''#'', CHR 0x5C] c"

definition url_literal :: "string \<Rightarrow> bool" where
  "url_literal s \<longleftrightarrow> list_all url_char s \<and> \<not> single_dot s \<and> \<not> double_dot s"

lemma resolve_none: "list_all (\<lambda>s. \<not> single_dot s \<and> \<not> double_dot s) ss \<Longrightarrow> resolve_dots acc ss = acc @ ss"
  by (induction acc ss rule: resolve_dots.induct) simp_all

lemma concat_singles: "(\<And>c. c \<in> set s \<Longrightarrow> f c = [c]) \<Longrightarrow> concat (map f s) = s"
  by (induction s) auto

lemma url_char_plain:
  assumes "list_all url_char s"
  shows "filter (\<lambda>c. \<not> List.member [CHR 0x09, CHR 0x0A, CHR 0x0D] c) s = s"
    and "takeWhile (\<lambda>c. c \<noteq> CHR ''?'' \<and> c \<noteq> CHR ''#'') s = s"
    and "map (\<lambda>c. if c = CHR 0x5C then CHR ''/'' else c) s = s" and "concat (map path_char s) = s"
proof -
  have c: "\<not> List.member [CHR 0x09, CHR 0x0A, CHR 0x0D] c" "c \<noteq> CHR ''?'' \<and> c \<noteq> CHR ''#''" "c \<noteq> CHR 0x5C" "path_char c = [c]"
    if "c \<in> set s" for c
  proof -
    have u: "url_char c" using assms that by (simp add: list_all_iff)
    then show "c \<noteq> CHR ''?'' \<and> c \<noteq> CHR ''#''" "c \<noteq> CHR 0x5C" "path_char c = [c]"
      by (auto simp: url_char_def path_char_def)
    have "path_encoded (CHR 0x09)" "path_encoded (CHR 0x0A)" "path_encoded (CHR 0x0D)" by code_simp+
    with u show "\<not> List.member [CHR 0x09, CHR 0x0A, CHR 0x0D] c" by (auto simp: url_char_def)
  qed
  show "filter (\<lambda>c. \<not> List.member [CHR 0x09, CHR 0x0A, CHR 0x0D] c) s = s" using c(1) by (intro filter_True) blast
  show "takeWhile (\<lambda>c. c \<noteq> CHR ''?'' \<and> c \<noteq> CHR ''#'') s = s" using c(2) by (simp add: takeWhile_eq_all_conv)
  show "map (\<lambda>c. if c = CHR 0x5C then CHR ''/'' else c) s = s" using c(3) by (intro map_idI) simp
  show "concat (map path_char s) = s" by (rule concat_singles) (rule c(4))
qed

lemma url_path_kept:
  assumes "list_all url_literal ss" "ss \<noteq> []" "list_all (\<lambda>s. CHR ''/'' \<notin> set s) ss"
  shows "url_path (CHR ''/'' # join_with ''/'' ss) = CHR ''/'' # join_with ''/'' ss"
proof -
  let ?p = "CHR ''/'' # join_with ''/'' ss"
  have slash: "url_char (CHR ''/'')" by code_simp
  have "list_all url_char (join_with ''/'' ss)"
    using assms(1) slash by (induction "''/''" ss rule: join_with.induct) (auto simp: url_literal_def)
  then have p: "list_all url_char ?p" using slash by simp
  have "split_on CHR ''/'' (join_with ''/'' ss) = ss" using assms(2,3) by (intro split_on_join) (auto simp: list_all_iff)
  then have split: "tl (split_on CHR ''/'' ?p) = ss" by simp
  have "map (\<lambda>s. concat (map path_char s)) ss = ss"
    using assms(1) url_char_plain(4) by (intro map_idI) (auto simp: list_all_iff url_literal_def)
  moreover have "resolve_dots [] ss = ss"
    using assms(1) by (subst resolve_none) (auto simp: list_all_iff url_literal_def)
  moreover have "concat (map (\<lambda>s. CHR ''/'' # s) xs) = CHR ''/'' # join_with ''/'' xs" if "xs \<noteq> []" for xs
    using that by (induction "''/''" xs rule: join_with.induct) auto
  ultimately show ?thesis
    unfolding url_path_def url_char_plain(1-3) [OF p] Let_def split using assms(2) by simp
qed

text \<open>An encoded value has no meaning to a URL, but for the two values that are dot segments.\<close>

lemma char_halves: "(of_char c :: nat) div 16 < 16" "(of_char c :: nat) mod 16 < 16"
  using nat_of_char_less_256 [of c] by (auto simp del: nat_of_char_less_256 intro: less_mult_imp_div_less)

lemma unreserved_url_char: "unreserved c \<Longrightarrow> url_char c"
proof -
  assume "unreserved c"
  then consider "is_alnum c" | "List.member ''-_.!~*()'' c \<or> c = CHR 0x27" unfolding unreserved_def by blast
  then show "url_char c"
  proof cases
    case 1
    then have "48 \<le> (of_char c :: nat)" "(of_char c :: nat) \<le> 122" "(of_char c :: nat) \<notin> {60, 62, 63, 92, 94, 96}"
      by (auto simp: is_alnum_def is_alpha_def is_lower_def is_digit_def)
    then show ?thesis by (auto simp: url_char_def path_encoded_def)
  next
    case 2
    then show ?thesis by (auto simp: url_char_def path_encoded_def)
  qed
qed

lemma hex_digit_code: "n < 16 \<Longrightarrow> (of_char (hex_digit n) :: nat) = (if n < 10 then 48 + n else 55 + n)"
  by (simp add: hex_digit_def)

lemma hex_digit_facts:
  assumes "n < 16"
  shows "url_char (hex_digit n)" "ascii_lower (hex_digit n) = CHR ''2'' \<Longrightarrow> n = 2" "ascii_lower (hex_digit n) = CHR ''e'' \<Longrightarrow> n = 14"
proof -
  note code = hex_digit_code [OF assms]
  show "url_char (hex_digit n)"
    by (rule unreserved_url_char) (use assms in \<open>auto simp: unreserved_def is_alnum_def is_alpha_def is_digit_def code\<close>)
  have lower: "(of_char (ascii_lower (hex_digit n)) :: nat) = (if n < 10 then 48 + n else 87 + n)"
    using assms by (simp add: ascii_lower_def code Let_def)
  show "ascii_lower (hex_digit n) = CHR ''2'' \<Longrightarrow> n = 2" using lower assms by (auto split: if_splits)
  show "ascii_lower (hex_digit n) = CHR ''e'' \<Longrightarrow> n = 14" using lower assms by (auto split: if_splits)
qed

lemma encoded_url_char: "list_all url_char (encode_component s)"
proof -
  have "url_char (CHR ''%'')" by code_simp
  then have "list_all url_char (encode_char c)" for c
    using unreserved_url_char [of c] char_halves [of c] by (simp add: encode_char_def hex_digit_facts(1))
  then show ?thesis by (auto simp: encode_component_def list_all_iff)
qed

lemma encode_char_lower:
  obtains "to_lowercase (encode_char c) = ''.''" "c = CHR ''.''"
  | d where "to_lowercase (encode_char c) = [d]" "d \<noteq> CHR ''.''" "d \<noteq> CHR ''%''"
  | a b where "to_lowercase (encode_char c) = [CHR ''%'', a, b]" "[a, b] \<noteq> ''2e''"
proof (cases "unreserved c")
  case True
  then have l: "to_lowercase (encode_char c) = [ascii_lower c]" by (simp add: encode_char_def to_lowercase_def)
  have kept: "ascii_lower c = x \<Longrightarrow> c = x" if "(of_char x :: nat) < 65" for x
    using that by (auto simp: ascii_lower_def Let_def split: if_splits)
  have "\<not> unreserved (CHR ''%'')" by code_simp
  with True have "c \<noteq> CHR ''%''" by auto
  with l kept [of "CHR ''%''"] kept [of "CHR ''.''"] show thesis
    by (cases "c = CHR ''.''") (auto intro: that simp: ascii_lower_def)
next
  case False
  let ?a = "ascii_lower (hex_digit ((of_char c :: nat) div 16))" and ?b = "ascii_lower (hex_digit ((of_char c :: nat) mod 16))"
  have l: "to_lowercase (encode_char c) = [CHR ''%'', ?a, ?b]"
    using False by (simp add: encode_char_def to_lowercase_def) (simp add: ascii_lower_def)
  have "\<not> (?a = CHR ''2'' \<and> ?b = CHR ''e'')"
  proof
    assume "?a = CHR ''2'' \<and> ?b = CHR ''e''"
    then have "(of_char c :: nat) div 16 = 2" "(of_char c :: nat) mod 16 = 14"
      using hex_digit_facts(2,3) char_halves [of c] by blast+
    then have "(of_char c :: nat) = of_char (CHR ''.'')" by simp presburger
    then have "c = CHR ''.''" by (simp only: of_char_eq_iff)
    moreover have "unreserved (CHR ''.'')" by code_simp
    ultimately show False using False by simp
  qed
  with l show thesis by (intro that(3)) auto
qed

lemma encoded_dots:
  "single_dot (encode_component s) \<Longrightarrow> s = ''.''" "double_dot (encode_component s) \<Longrightarrow> s = ''..''"
proof -
  have lower: "to_lowercase (encode_component (c # cs)) = to_lowercase (encode_char c) @ to_lowercase (encode_component cs)" for c cs
    by (simp add: encode_component_def to_lowercase_def)
  have head: "(c = CHR ''.'' \<and> (\<exists>r. x = CHR ''.'' # r \<and> to_lowercase (encode_component cs) = r))"
    if "to_lowercase (encode_component (c # cs)) = x" "prefix ''.'' x \<or> prefix ''%2e'' x" for c cs x
  proof -
    show ?thesis using that unfolding lower by (cases c rule: encode_char_lower) auto
  qed
  have nil: "to_lowercase (encode_component t) = [] \<longleftrightarrow> t = []" for t by (simp add: to_lowercase_def encode_nonempty)
  have single: "t = ''.''" if "single_dot (encode_component t)" for t
  proof (cases t)
    case Nil
    with that show ?thesis by (simp add: single_dot_def encode_component_def to_lowercase_def)
  next
    case (Cons c cs)
    with that head [of c cs] nil [of cs] show ?thesis by (auto simp: single_dot_def)
  qed
  then show "single_dot (encode_component s) \<Longrightarrow> s = ''.''" .
  assume d: "double_dot (encode_component s)"
  show "s = ''..''"
  proof (cases s)
    case Nil
    with d show ?thesis by (simp add: double_dot_def encode_component_def to_lowercase_def)
  next
    case (Cons c cs)
    with d head [of c cs] have "c = CHR ''.''" "single_dot (encode_component cs)" by (auto simp: double_dot_def single_dot_def)
    with single Cons show ?thesis by simp
  qed
qed

text \<open>What the client sends is what it wrote, when the path is made of literals and arguments that are no dot segments.\<close>

definition url_operation :: "(string \<Rightarrow> string) \<Rightarrow> fb_operation \<Rightarrow> bool" where
  "url_operation args op \<longleftrightarrow>
     prefix ''/'' (op_path op) \<and>
     (\<forall>s \<in> set (path_segments (op_path op)). braced s = None \<longrightarrow> url_literal s) \<and>
     (\<forall>p \<in> set (path_params (op_path op)). \<not> List.member [[], ''.'', ''..''] (args (param_ident p)))"

lemma called_url:
  assumes "plain_path (op_path op)" "url_operation args op"
  shows "url_path (eval_path args (tm_path (ts_method_of op))) = eval_path args (tm_path (ts_method_of op))"
proof -
  obtain rest where rest: "op_path op = CHR ''/'' # rest" using assms(2) by (auto simp: url_operation_def prefix_def)
  let ?ss = "split_on CHR ''/'' rest"
  have literal: "url_literal (subst_segment args s) \<and> CHR ''/'' \<notin> set (subst_segment args s)" if "s \<in> set ?ss" for s
  proof (cases "braced s")
    case None
    have "s = [] \<or> s \<in> set (path_segments (op_path op))" using that by (auto simp: path_segments_def rest)
    moreover have "url_literal []" by code_simp
    ultimately have "url_literal s" using None assms(2) by (auto simp: url_operation_def)
    with None split_on_no_sep [OF that] show ?thesis by (simp add: subst_segment_def)
  next
    case (Some p)
    then have "p \<in> set (path_params (op_path op))" using that by (auto simp: params_braced rest)
    then have "\<not> List.member [[], ''.'', ''..''] (args (param_ident p))" using assms(2) by (simp add: url_operation_def)
    then have "\<not> single_dot (encode_component (args (param_ident p)))" "\<not> double_dot (encode_component (args (param_ident p)))"
      using encoded_dots [of "args (param_ident p)"] by auto
    then show ?thesis using encoded_url_char encode_no_slash by (simp add: subst_segment_def Some url_literal_def)
  qed
  have "subst_segment args [] = []" by (simp add: subst_segment_def braced_def strip_prefix_def)
  then have "eval_path args (tm_path (ts_method_of op)) = CHR ''/'' # join_with ''/'' (map (subst_segment args) ?ss)"
    unfolding called_path [OF assms(1)] rest by (cases ?ss) simp_all
  moreover have "list_all url_literal (map (subst_segment args) ?ss)" "list_all (\<lambda>s. CHR ''/'' \<notin> set s) (map (subst_segment args) ?ss)"
    using literal by (simp_all add: list_all_iff)
  ultimately show ?thesis using url_path_kept [of "map (subst_segment args) ?ss"] by simp
qed


definition rename_op :: fb_operation where
  "rename_op =
     \<lparr>op_path = ''/users/{user-id}/rename'', op_method = ''POST'', op_id = None,
      op_request = Some ''Rename'', op_response = Some ''User''\<rparr>"

definition user_routes :: "(string \<times> string \<times> nat) list" where
  "user_routes = [(''/users/{user-id}/rename'', ''POST'', 1), (''/users'', ''GET'', 2)]"


text \<open>The two arguments left out change the path: \<^verbatim>\<open>fetch\<close> takes the segment before away.\<close>

lemma dot_argument_misroutes:
  "requested_path ''http://h'' (call_method (\<lambda>t. [1]) ''http://h/'' (\<lambda>x. ''..'') (ts_method_of rename_op)) = ''/rename''"
  by code_simp

text \<open>
  The server hands a parameter over as it came, so a value with a blank arrives as \<^verbatim>\<open>a%20b\<close>; and the
  check does not know the names the methods themselves use.
\<close>

lemma param_arrives_encoded: "encode_component ''a b'' = ''a%20b''"
  by code_simp

lemma codec_param_unchecked:
  "check_unique_method_names
     [\<lparr>op_path = ''/x/{codec}'', op_method = ''POST'', op_id = None, op_request = Some ''R'', op_response = None\<rparr>] = Inr () \<and>
   param_ident ''codec'' = ''codec'' \<and> param_ident ''encodeURIComponent'' = ''encodeURIComponent''"
  by code_simp

end
