(* ===== verification/GeneratedCodec.thy ===== *)
theory GeneratedCodec
  imports Codegen
begin

text \<open>
  What the Rust that \<^verbatim>\<open>crates/flatbed_build/src/codegen.rs\<close> generates does: the semantics of its
  items. flatc's generated code and the FlatBuffers runtime under it are a parameter. A Rust type
  error, which stops the user's build, is \<open>None\<close>.
\<close>

subsection \<open>Values and tables\<close>

text \<open>
  A field's value: \<open>Absent\<close> is \<open>None\<close>, the other constructors a present value; scalars and enums
  are numbers, \<open>Struct\<close> a generated struct by name, \<open>Variant\<close> a member of a union.
\<close>

datatype val =
    Absent
  | Num int
  | Str string
  | Vec "val list"
  | Struct string "(string \<times> val) list"
  | Variant string string val

text \<open>A member of flatc's \<open>Args\<close>, and what its accessor returns.\<close>

datatype 'w slot =
    ScalarSlot int
  | StringSlot "string option"
  | StringsSlot "string list option"
  | ScalarsSlot "int list option"
  | TableSlot "'w option"
  | TablesSlot "'w list option"
  | TagSlot string
  | UnionSlot "'w option"

record 'w fb_lib =
  fb_create :: "string \<Rightarrow> string \<Rightarrow> (string \<times> 'w slot) list \<Rightarrow> 'w"
  fb_get :: "'w \<Rightarrow> string \<Rightarrow> 'w slot option"
  fb_finish :: "'w \<Rightarrow> bytes"
  fb_root :: "string \<Rightarrow> string \<Rightarrow> bytes \<Rightarrow> 'w option"
  fb_within_limits :: "'w \<Rightarrow> bool"

text \<open>
  An accessor returns what the table was created with, and the verifier accepts a finished buffer
  within its limits of depth and size.
\<close>

definition fb_lib_ok :: "'w fb_lib \<Rightarrow> bool" where
  "fb_lib_ok L \<longleftrightarrow>
     (\<forall>ns t args x s. distinct (map fst args) \<longrightarrow> (x, s) \<in> set args \<longrightarrow> fb_get L (fb_create L ns t args) x = Some s) \<and>
     (\<forall>ns t args. fb_within_limits L (fb_create L ns t args) \<longrightarrow>
        fb_root L ns t (fb_finish L (fb_create L ns t args)) = Some (fb_create L ns t args))"

subsection \<open>The generated impls\<close>

fun item_impls :: "item \<Rightarrow> (string \<times> string \<times> struct_impl) list" where
  "item_impls (StructImpl ns im) = [(sm_table im, ns, im)]"
| "item_impls _ = []"

fun item_unions :: "item \<Rightarrow> (string \<times> (string \<times> string) list) list" where
  "item_unions (UnionImpl u ns members) = [(u, members)]"
| "item_unions _ = []"

definition struct_impls :: "item list \<Rightarrow> (string \<times> string \<times> struct_impl) list" where
  "struct_impls I = concat (map item_impls I)"

definition union_impls :: "item list \<Rightarrow> (string \<times> (string \<times> string) list) list" where
  "union_impls I = concat (map item_unions I)"

subsection \<open>\<open>build_flatbuffer\<close>\<close>

primrec all_some :: "'a option list \<Rightarrow> 'a list option" where
  "all_some [] = Some []"
| "all_some (x # xs) =
     (case x of None \<Rightarrow> None | Some a \<Rightarrow> map_option (Cons a) (all_some xs))"

definition as_string :: "val \<Rightarrow> string option" where
  "as_string v = (case v of Str s \<Rightarrow> Some s | _ \<Rightarrow> None)"

definition as_num :: "val \<Rightarrow> int option" where
  "as_num v = (case v of Num i \<Rightarrow> Some i | _ \<Rightarrow> None)"

text \<open>\<open>as_ref().map\<close> of an optional field.\<close>

definition prepare :: "('a option \<Rightarrow> 'w slot) \<Rightarrow> (val \<Rightarrow> 'a option) \<Rightarrow> val \<Rightarrow> 'w slot option" where
  "prepare slot conv v = (if v = Absent then Some (slot None) else map_option (slot \<circ> Some) (conv v))"

definition vector_with :: "(val \<Rightarrow> 'a option) \<Rightarrow> val \<Rightarrow> 'a list option" where
  "vector_with conv v = (case v of Vec vs \<Rightarrow> all_some (map conv vs) | _ \<Rightarrow> None)"

text \<open>A union's \<open>build_flatbuffer\<close> builds the member's table; \<open>union_type\<close> is its discriminator.\<close>

definition union_build :: "item list \<Rightarrow> (val \<Rightarrow> 'w option) \<Rightarrow> val \<Rightarrow> 'w option" where
  "union_build I build v =
     (case v of
        Variant u k t \<Rightarrow>
          (case map_of (union_impls I) u of
             Some members \<Rightarrow> if k \<in> fst ` set members then build t else None
           | None \<Rightarrow> None)
      | _ \<Rightarrow> None)"

definition offset_slot :: "item list \<Rightarrow> (val \<Rightarrow> 'w option) \<Rightarrow> build_expr \<Rightarrow> val \<Rightarrow> 'w slot option" where
  "offset_slot I build e v =
     (case e of
        BuildUnion \<Rightarrow> prepare UnionSlot (union_build I build) v
      | CreateString \<Rightarrow> prepare StringSlot as_string v
      | CreateStringVector \<Rightarrow> prepare StringsSlot (vector_with as_string) v
      | BuildTableVector \<Rightarrow> prepare TablesSlot (vector_with build) v
      | CreateVector \<Rightarrow> prepare ScalarsSlot (vector_with as_num) v
      | BuildTable \<Rightarrow> prepare TableSlot build v)"

definition arg_slot :: "(string \<times> val) list \<Rightarrow> (string \<times> 'w slot) list \<Rightarrow> arg_expr \<Rightarrow> 'w slot option" where
  "arg_slot fs offsets a =
     (case a of
        UnionTypeOf u x \<Rightarrow>
          (case map_of fs x of
             Some Absent \<Rightarrow> Some (TagSlot ''NONE'')
           | Some (Variant u' k t) \<Rightarrow> if u' = u then Some (TagSlot k) else None
           | _ \<Rightarrow> None)
      | OffsetOf x \<Rightarrow> map_of offsets x
      | FieldOf x \<Rightarrow> (case map_of fs x of Some v \<Rightarrow> map_option ScalarSlot (as_num v) | None \<Rightarrow> None))"

definition build_struct ::
  "'w fb_lib \<Rightarrow> item list \<Rightarrow> (val \<Rightarrow> 'w option) \<Rightarrow> string \<Rightarrow> struct_impl \<Rightarrow> (string \<times> val) list \<Rightarrow> 'w option" where
  "build_struct L I build ns im fs =
     (case all_some (map (\<lambda>(x, e).
          (case map_of fs x of Some v \<Rightarrow> map_option (Pair x) (offset_slot I build e v) | None \<Rightarrow> None)) (sm_offsets im)) of
        None \<Rightarrow> None
      | Some offsets \<Rightarrow>
          map_option (fb_create L ns (sm_table im))
            (all_some (map (\<lambda>(m, a). map_option (Pair m) (arg_slot fs offsets a)) (sm_args im))))"

text \<open>The fuel bounds how deep tables nest.\<close>

primrec build_flatbuffer :: "'w fb_lib \<Rightarrow> item list \<Rightarrow> nat \<Rightarrow> val \<Rightarrow> 'w option" where
  "build_flatbuffer L I 0 v = None"
| "build_flatbuffer L I (Suc n) v =
     (case v of
        Struct t fs \<Rightarrow>
          (case map_of (struct_impls I) t of
             Some (ns, im) \<Rightarrow> build_struct L I (build_flatbuffer L I n) ns im fs
           | None \<Rightarrow> None)
      | _ \<Rightarrow> None)"

subsection \<open>\<open>from_fb\<close>\<close>

definition optional :: "('a \<Rightarrow> val option) \<Rightarrow> 'a option \<Rightarrow> val option" where
  "optional f s = (case s of None \<Rightarrow> Some Absent | Some a \<Rightarrow> f a)"

definition vector_of_vals :: "('a \<Rightarrow> val option) \<Rightarrow> 'a list \<Rightarrow> val option" where
  "vector_of_vals f xs = map_option Vec (all_some (map f xs))"

text \<open>A union's \<open>from_fb\<close>: absent, too, when its discriminator is not one of this schema's.\<close>

definition union_from_fb ::
  "(string \<times> string) list \<Rightarrow> (string \<Rightarrow> 'w \<Rightarrow> val option) \<Rightarrow> string \<Rightarrow> string \<Rightarrow> 'w option \<Rightarrow> val option" where
  "union_from_fb members read u kind table =
     (case table of
        None \<Rightarrow> Some Absent
      | Some w \<Rightarrow>
          (case map_of members kind of
             Some t \<Rightarrow> map_option (Variant u kind) (read t w)
           | None \<Rightarrow> Some Absent))"

definition read_slot ::
  "'w fb_lib \<Rightarrow> item list \<Rightarrow> (string \<Rightarrow> 'w \<Rightarrow> val option) \<Rightarrow> 'w \<Rightarrow> read_expr \<Rightarrow> val option" where
  "read_slot L I read w r =
     (case r of
        ReadUnion u tx x \<Rightarrow>
          (case (fb_get L w tx, fb_get L w x, map_of (union_impls I) u) of
             (Some (TagSlot kind), Some (UnionSlot s), Some members) \<Rightarrow> union_from_fb members read u kind s
           | _ \<Rightarrow> None)
      | ReadString x \<Rightarrow> (case fb_get L w x of Some (StringSlot s) \<Rightarrow> optional (Some \<circ> Str) s | _ \<Rightarrow> None)
      | ReadStringVector x \<Rightarrow>
          (case fb_get L w x of Some (StringsSlot s) \<Rightarrow> optional (vector_of_vals (Some \<circ> Str)) s | _ \<Rightarrow> None)
      | ReadTableVector t x \<Rightarrow>
          (case fb_get L w x of Some (TablesSlot s) \<Rightarrow> optional (vector_of_vals (read t)) s | _ \<Rightarrow> None)
      | ReadVector x \<Rightarrow>
          (case fb_get L w x of Some (ScalarsSlot s) \<Rightarrow> optional (vector_of_vals (Some \<circ> Num)) s | _ \<Rightarrow> None)
      | ReadTable t x \<Rightarrow> (case fb_get L w x of Some (TableSlot s) \<Rightarrow> optional (read t) s | _ \<Rightarrow> None)
      | ReadField x \<Rightarrow> (case fb_get L w x of Some (ScalarSlot i) \<Rightarrow> Some (Num i) | _ \<Rightarrow> None))"

primrec from_fb :: "'w fb_lib \<Rightarrow> item list \<Rightarrow> nat \<Rightarrow> string \<Rightarrow> 'w \<Rightarrow> val option" where
  "from_fb L I 0 t w = None"
| "from_fb L I (Suc n) t w =
     (case map_of (struct_impls I) t of
        None \<Rightarrow> None
      | Some (ns, im) \<Rightarrow>
          map_option (Struct t)
            (all_some (map (\<lambda>(x, r). map_option (Pair x) (read_slot L I (from_fb L I n) w r)) (sm_reads im))))"

text \<open>\<open>from_flatbuffer\<close> fails with the verifier's error, here \<open>Some None\<close>.\<close>

definition to_flatbuffer :: "'w fb_lib \<Rightarrow> item list \<Rightarrow> nat \<Rightarrow> val \<Rightarrow> bytes option" where
  "to_flatbuffer L I n v = map_option (fb_finish L) (build_flatbuffer L I n v)"

definition from_flatbuffer :: "'w fb_lib \<Rightarrow> item list \<Rightarrow> nat \<Rightarrow> string \<Rightarrow> bytes \<Rightarrow> val option option" where
  "from_flatbuffer L I n t bytes =
     (case map_of (struct_impls I) t of
        None \<Rightarrow> None
      | Some (ns, im) \<Rightarrow>
          (case fb_root L ns t bytes of
             None \<Rightarrow> Some None
           | Some w \<Rightarrow> map_option Some (from_fb L I n t w)))"

subsection \<open>Typed values\<close>

text \<open>The values of the struct a table generates, field by field.\<close>

definition scalar_like :: "enum list \<Rightarrow> string \<Rightarrow> bool" where
  "scalar_like es ty \<longleftrightarrow> map_of rust_scalars ty \<noteq> None \<or> ty \<in> em_name ` set (plain_enums es)"

inductive typed :: "table list \<Rightarrow> enum list \<Rightarrow> string \<Rightarrow> val \<Rightarrow> bool" for ts es where
  typed_num: "scalar_like es ty \<Longrightarrow> typed ts es ty (Num i)"
| typed_string: "typed ts es ''string'' (Str s)"
| typed_vec: "\<forall>v \<in> set vs. typed ts es ty v \<Longrightarrow> ty \<notin> em_name ` set (unions es) \<Longrightarrow> typed ts es (vector_type ty) (Vec vs)"
| typed_variant: "u \<in> set (unions es) \<Longrightarrow> (k, t) \<in> set (zip (em_variants u) (union_tables u)) \<Longrightarrow> typed ts es t v \<Longrightarrow>
    typed ts es (em_name u) (Variant (em_name u) k v)"
| typed_struct: "t \<in> set ts \<Longrightarrow> length fs = length (tb_fields t) \<Longrightarrow>
    \<forall>p \<in> set (zip (tb_fields t) fs).
      fst (snd p) = rust_ident (fd_name (fst p)) \<and>
      (snd (snd p) = Absent \<and> \<not> scalar_like es (fd_fbs_type (fst p)) \<or> typed ts es (fd_fbs_type (fst p)) (snd (snd p))) \<Longrightarrow>
    typed ts es (tb_name t) (Struct (tb_name t) fs)"

subsection \<open>The impls of a generated module\<close>

lemma impls_simps [simp]:
  "struct_impls [] = []" "struct_impls (i # I) = item_impls i @ struct_impls I"
  "struct_impls (I @ J) = struct_impls I @ struct_impls J"
  "union_impls [] = []" "union_impls (i # I) = item_unions i @ union_impls I"
  "union_impls (I @ J) = union_impls I @ union_impls J"
  by (simp_all add: struct_impls_def union_impls_def)

lemma impls_concat:
  "struct_impls (concat Is) = concat (map struct_impls Is)" "union_impls (concat Is) = concat (map union_impls Is)"
  by (induction Is) simp_all

lemma impls_map_none:
  "(\<And>x. item_impls (f x) = []) \<Longrightarrow> struct_impls (map f xs) = []"
  "(\<And>x. item_unions (f x) = []) \<Longrightarrow> union_impls (map f xs) = []"
  by (induction xs) simp_all

lemma enum_serde_impls [simp]: "struct_impls (generate_enum_serde e) = []" "union_impls (generate_enum_serde e) = []"
  by (simp_all add: generate_enum_serde_def generate_bit_flags_serde_def Let_def)

lemma plain_struct_impls:
  assumes "generate_plain_struct t ts es b us = Inr I"
  shows "struct_impls I = []" "union_impls I = []"
proof -
  obtain fns where fns: "default_functions t ts es = Inr fns" using assms by (auto simp: generate_plain_struct_def)
  have "struct_impls fns = [] \<and> union_impls fns = []"
  proof -
    have "\<forall>i \<in> set fns. \<exists>a b c. i = DefaultFn a b c"
      using fns map_res_in by (fastforce simp: default_functions_def split: option.splits)
    then show ?thesis by (induction fns) (auto)
  qed
  then show "struct_impls I = []" "union_impls I = []"
    using assms fns by (auto simp: generate_plain_struct_def generate_union_field_serde_def impls_map_none)
qed

lemma page_impls:
  assumes "generate_page_impl ts t = Inr I"
  shows "struct_impls I = []" "union_impls I = []"
  using assms
  by (auto simp: generate_page_impl_def generate_page_request_impl_def generate_page_response_impl_def Let_def
      split: if_splits option.splits list.splits)

lemma concat_impls_none:
  assumes "map_res f xs = Inr Is" "\<And>x I. f x = Inr I \<Longrightarrow> struct_impls I = [] \<and> union_impls I = []"
  shows "struct_impls (concat Is) = []" "union_impls (concat Is) = []"
  using map_res_in [OF assms(1)] assms(2) by (force simp: impls_concat)+

definition impl_of :: "string \<Rightarrow> table list \<Rightarrow> enum list \<Rightarrow> table \<Rightarrow> struct_impl" where
  "impl_of ns ts es t =
     \<lparr>sm_table = tb_name t,
      sm_offsets = concat (map (build_step (map tb_name ts) (map em_name (unions es))) (tb_fields t)),
      sm_args = concat (map (create_args (map tb_name ts) (map em_name (unions es))) (tb_fields t)),
      sm_reads = map (read_field (map tb_name ts) (map em_name (unions es))) (tb_fields t)\<rparr>"

lemma module_impls:
  assumes "generate_plain_struct_module ns ts es = Inr I"
  shows "struct_impls I = map (\<lambda>t. (tb_name t, ns, impl_of ns ts es t)) ts"
    and "union_impls I = map (\<lambda>u. (em_name u, zip (em_variants u) (union_tables u))) (unions es)"
proof -
  obtain structs pages where
    s: "map_res (\<lambda>t. generate_plain_struct t (map tb_name ts) (map em_name (plain_enums es))
          (map em_name (filter (\<lambda>e. em_kind e = BitFlags) (plain_enums es))) (map em_name (unions es))) ts = Inr structs"
    and p: "map_res (generate_page_impl ts) (filter tb_paginated ts) = Inr pages"
    and I: "I = map (UseEnum ns) (map em_name (plain_enums es)) @
                concat (map generate_enum_serde (plain_enums es)) @
                map (generate_enum_schema_registration ns) (plain_enums es) @
                concat (map (generate_union ns) (unions es)) @
                concat structs @
                concat (map (\<lambda>t.
                  generate_plain_struct_impl t ns (map tb_name ts) (map em_name (unions es)) # generate_default_impl t @
                  [generate_flatbed_trait_impls t ns (map tb_name ts) (map em_name (unions es)),
                   generate_type_schema_registration t ns (map tb_name ts) (map em_name (unions es))]) ts) @
                concat pages"
    using assms unfolding generate_plain_struct_module_def Let_def bind_res_Inr by blast
  note none = concat_impls_none [OF s] plain_struct_impls concat_impls_none [OF p] page_impls
  have defaults: "struct_impls (generate_default_impl t) = []" "union_impls (generate_default_impl t) = []" for t
    by (simp_all add: generate_default_impl_def)
  have enums: "struct_impls (concat (map generate_enum_serde xs)) = []" "union_impls (concat (map generate_enum_serde xs)) = []" for xs
    by (simp_all add: impls_concat)
  have unions: "struct_impls (concat (map (generate_union ns) us)) = []"
    "union_impls (concat (map (generate_union ns) us)) = map (\<lambda>u. (em_name u, zip (em_variants u) (union_tables u))) us" for us
    by (induction us) (simp_all add: generate_union_def Let_def)
  have tables: "struct_impls (concat (map (\<lambda>t.
          generate_plain_struct_impl t ns T U # generate_default_impl t @
          [generate_flatbed_trait_impls t ns T U, generate_type_schema_registration t ns T U]) xs)) =
        concat (map (\<lambda>t. item_impls (generate_plain_struct_impl t ns T U)) xs)"
    "union_impls (concat (map (\<lambda>t.
          generate_plain_struct_impl t ns T U # generate_default_impl t @
          [generate_flatbed_trait_impls t ns T U, generate_type_schema_registration t ns T U]) xs)) = []" for T U xs
    by (induction xs)
      (simp_all add: defaults generate_plain_struct_impl_def generate_flatbed_trait_impls_def generate_type_schema_registration_def)
  have impl: "concat (map (\<lambda>t. item_impls (generate_plain_struct_impl t ns (map tb_name ts) (map em_name (unions es)))) xs) =
      map (\<lambda>t. (tb_name t, ns, impl_of ns ts es t)) xs" for xs
    by (induction xs) (simp_all add: generate_plain_struct_impl_def impl_of_def)
  show "struct_impls I = map (\<lambda>t. (tb_name t, ns, impl_of ns ts es t)) ts"
    unfolding I impls_simps enums unions tables impl
    by (simp add: none impls_map_none generate_enum_schema_registration_def)
  show "union_impls I = map (\<lambda>u. (em_name u, zip (em_variants u) (union_tables u))) (unions es)"
    unfolding I impls_simps enums unions tables
    by (simp add: none impls_map_none generate_enum_schema_registration_def)
qed

subsection \<open>Kinds of types\<close>

lemma string_not_scalar: "map_of rust_scalars ''string'' = None"
  by (simp add: rust_scalars_def)

lemma vector_not_type_name: "\<not> type_name (vector_type x)"
  using type_name_plain vector_type_not_plain by blast

lemma scalar_not_vector: "map_of rust_scalars (vector_type x) = None"
  using scalar_plain [of "vector_type x"] vector_type_not_plain [of x] by (cases "map_of rust_scalars (vector_type x)") auto

lemma string_not_vector: "''string'' \<noteq> vector_type x"
  using string_plain vector_type_not_plain by metis

lemma vector_type_inject [simp]: "vector_type x = vector_type y \<longleftrightarrow> x = y"
  by (simp add: vector_type_def)

lemma type_name_facts: "type_name n \<Longrightarrow> n \<noteq> ''string'' \<and> map_of rust_scalars n = None"
  by (simp add: type_name_def)

lemma namespace_names:
  assumes "namespace_ok ts es"
  shows "t \<in> set ts \<Longrightarrow> type_name (tb_name t)" "e \<in> set es \<Longrightarrow> type_name (em_name e)"
    and "t \<in> set ts \<Longrightarrow> e \<in> set es \<Longrightarrow> tb_name t \<noteq> em_name e"
    and "inj_on tb_name (set ts)" "inj_on em_name (set es)"
  using namespace_okD(1,2,6) [OF assms] by (auto simp: list_all_iff distinct_map dest: inj_onD)

lemma plain_in: "e \<in> set (plain_enums es) \<longleftrightarrow> e \<in> set es \<and> \<not> is_union e"
  and union_in: "e \<in> set (unions es) \<longleftrightarrow> e \<in> set es \<and> is_union e"
  by (auto simp: plain_enums_def unions_def)

lemma type_name_kind: "type_name n \<Longrightarrow> n \<noteq> ''string''" "type_name n \<Longrightarrow> n \<noteq> vector_type x"
    "type_name n \<Longrightarrow> map_of rust_scalars n = None"
  using vector_not_type_name by (blast dest: type_name_facts)+

lemma scalar_like_kind:
  assumes "namespace_ok ts es" "scalar_like es ty"
  shows "ty \<noteq> ''string''" "ty \<noteq> vector_type x" "t \<in> set ts \<Longrightarrow> ty \<noteq> tb_name t"
    "u \<in> set (unions es) \<Longrightarrow> ty \<noteq> em_name u"
proof -
  consider r where "map_of rust_scalars ty = Some r" | e where "e \<in> set es" "\<not> is_union e" "ty = em_name e"
    using assms(2) unfolding scalar_like_def by (auto simp: plain_in)
  note cases = this
  note names = namespace_names [OF assms(1)]
  show "ty \<noteq> ''string''"
    by (cases rule: cases) (use string_not_scalar type_name_kind(1) [OF names(2)] in auto)
  show "ty \<noteq> vector_type x"
    by (cases rule: cases) (use scalar_not_vector type_name_kind(2) [OF names(2)] in auto)
  show "ty \<noteq> tb_name t" if "t \<in> set ts"
    by (cases rule: cases) (use type_name_kind(3) [OF names(1) [OF that]] names(3) [OF that] in force)+
  show "ty \<noteq> em_name u" if "u \<in> set (unions es)"
    by (cases rule: cases) (use type_name_kind(3) [OF names(2)] names(5) that in \<open>auto simp: union_in dest: inj_onD\<close>)
qed

lemma name_kind:
  assumes "namespace_ok ts es"
  shows "t \<in> set ts \<Longrightarrow> tb_name t \<noteq> ''string''" "t \<in> set ts \<Longrightarrow> tb_name t \<noteq> vector_type x"
    "u \<in> set (unions es) \<Longrightarrow> em_name u \<noteq> ''string''" "u \<in> set (unions es) \<Longrightarrow> em_name u \<noteq> vector_type x"
    "t \<in> set ts \<Longrightarrow> u \<in> set (unions es) \<Longrightarrow> tb_name t \<noteq> em_name u"
  using namespace_names(1-3) [OF assms] type_name_kind unfolding union_in by blast+

text \<open>The shape of a typed value is decided by its type.\<close>

lemma typed_string_val:
  assumes "namespace_ok ts es" "typed ts es ''string'' v"
  shows "\<exists>s. v = Str s"
  using assms(2)
proof cases
  case (typed_num i)
  then show ?thesis using scalar_like_kind(1) [OF assms(1)] by blast
qed (use string_not_vector name_kind [OF assms(1)] in metis)+

lemma typed_scalar_val:
  assumes "namespace_ok ts es" "scalar_like es ty" "typed ts es ty v"
  shows "\<exists>i. v = Num i"
  using assms(3) by cases (use scalar_like_kind [OF assms(1,2)] in metis)+

lemma typed_vector_val:
  assumes "namespace_ok ts es" "typed ts es (vector_type ty) v"
  shows "\<exists>vs. v = Vec vs \<and> (\<forall>x \<in> set vs. typed ts es ty x)"
  using assms(2)
proof cases
  case (typed_num i)
  then show ?thesis using scalar_like_kind(2) [OF assms(1)] by blast
next
  case (typed_vec vs ty')
  then show ?thesis by simp
qed (use string_not_vector name_kind [OF assms(1)] in metis)+

lemma typed_table_val:
  assumes "namespace_ok ts es" "t \<in> set ts" "typed ts es (tb_name t) v"
  shows "\<exists>fs. v = Struct (tb_name t) fs \<and> length fs = length (tb_fields t) \<and>
    (\<forall>p \<in> set (zip (tb_fields t) fs). fst (snd p) = rust_ident (fd_name (fst p)) \<and>
      (snd (snd p) = Absent \<and> \<not> scalar_like es (fd_fbs_type (fst p)) \<or> typed ts es (fd_fbs_type (fst p)) (snd (snd p))))"
  using assms(3)
proof cases
  case (typed_num i)
  then show ?thesis using scalar_like_kind(3) [OF assms(1) _ assms(2)] by blast
next
  case (typed_struct t' fs)
  then have "t' = t" using namespace_names(4) [OF assms(1)] assms(2) by (metis inj_onD)
  with typed_struct show ?thesis by blast
qed (use name_kind [OF assms(1)] assms(2) in metis)+

lemma typed_union_val:
  assumes "namespace_ok ts es" "u \<in> set (unions es)" "typed ts es (em_name u) v"
  shows "\<exists>k t w. v = Variant (em_name u) k w \<and> (k, t) \<in> set (zip (em_variants u) (union_tables u)) \<and> typed ts es t w"
  using assms(3)
proof cases
  case (typed_num i)
  then show ?thesis using scalar_like_kind(4) [OF assms(1) _ assms(2)] by blast
next
  case (typed_variant u' k t v')
  then have "u' = u" using namespace_names(5) [OF assms(1)] assms(2) by (metis inj_onD union_in)
  with typed_variant show ?thesis by blast
qed (use name_kind [OF assms(1)] assms(2) in metis)+

subsection \<open>One field\<close>

lemma scalar_like_plain:
  assumes "namespace_ok ts es" "scalar_like es ty"
  shows "plain_name ty"
proof -
  consider r where "map_of rust_scalars ty = Some r" | e where "e \<in> set es" "ty = em_name e"
    using assms(2) unfolding scalar_like_def by (auto simp: plain_in)
  then show ?thesis
    by cases (use scalar_plain type_name_plain [OF namespace_names(2) [OF assms(1)]] in auto)
qed

lemma not_table_scalar:
  assumes "namespace_ok ts es" "scalar_like es ty"
  shows "ty \<notin> set (map tb_name ts)" "ty \<notin> set (map em_name (unions es))"
  using scalar_like_kind(3,4) [OF assms] by auto

lemma serde_table: "type_name n \<Longrightarrow> is_table_type n T \<longleftrightarrow> n \<in> set T"
  using plain_not_vector [OF type_name_plain] by (auto simp: is_table_type_def type_name_not_primitive list_ex_iff)

lemma vector_template:
  assumes "plain_name x"
  shows "is_vector_type (vector_type x)" "vector_inner_type (vector_type x) = x"
    "is_table_vector (vector_type x) T \<longleftrightarrow> x \<in> set T" "\<not> is_table_type (vector_type x) T"
  using vector_of_plain [OF assms] by (auto simp: is_table_vector_def is_table_type_def list_ex_iff)

text \<open>What the templates of each kind of field are.\<close>

lemma field_templates:
  assumes "namespace_ok ts es" and T: "T = map tb_name ts" and U: "U = map em_name (unions es)"
    and i: "i = rust_ident (fd_name f)" and ti: "ti = rust_ident (fd_name f @ ''_type'')" and ty: "ty = fd_fbs_type f"
  shows
    "ty \<in> set U \<Longrightarrow> build_step T U f = [(i, BuildUnion)] \<and>
       create_args T U f = [(ti, UnionTypeOf ty i), (i, OffsetOf i)] \<and> snd (read_field T U f) = ReadUnion ty ti i"
    "ty = ''string'' \<Longrightarrow> build_step T U f = [(i, CreateString)] \<and>
       create_args T U f = [(i, OffsetOf i)] \<and> snd (read_field T U f) = ReadString i"
    "ty = vector_type ''string'' \<Longrightarrow> build_step T U f = [(i, CreateStringVector)] \<and>
       create_args T U f = [(i, OffsetOf i)] \<and> snd (read_field T U f) = ReadStringVector i"
    "ty = vector_type x \<Longrightarrow> x \<in> set T \<Longrightarrow> build_step T U f = [(i, BuildTableVector)] \<and>
       create_args T U f = [(i, OffsetOf i)] \<and> snd (read_field T U f) = ReadTableVector x i"
    "ty = vector_type x \<Longrightarrow> scalar_like es x \<Longrightarrow> build_step T U f = [(i, CreateVector)] \<and>
       create_args T U f = [(i, OffsetOf i)] \<and> snd (read_field T U f) = ReadVector i"
    "ty \<in> set T \<Longrightarrow> build_step T U f = [(i, BuildTable)] \<and>
       create_args T U f = [(i, OffsetOf i)] \<and> snd (read_field T U f) = ReadTable ty i"
    "scalar_like es ty \<Longrightarrow> build_step T U f = [] \<and>
       create_args T U f = [(i, FieldOf i)] \<and> snd (read_field T U f) = ReadField i"
proof -
  note defs = build_step_def create_args_def read_field_def Let_def i ti ty
  have "vector_type x \<notin> set U" for x
  proof
    assume "vector_type x \<in> set U"
    then obtain u where "u \<in> set (unions es)" "em_name u = vector_type x" unfolding U by auto
    then show False using name_kind(4) [OF assms(1)] by blast
  qed
  note V = this string_not_vector [symmetric]
  have S: "''string'' \<notin> set U" "''string'' \<notin> set T"
    using name_kind(1,3) [OF assms(1)] unfolding U T by force+
  have pt: "type_name x" if "x \<in> set T" for x using that namespace_names(1) [OF assms(1)] unfolding T by auto
  have tu: "x \<notin> set U" "x \<noteq> ''string''" if "x \<in> set T" for x
    using that name_kind(1,5) [OF assms(1)] unfolding T U by auto
  have pv: "\<not> is_vector_type x" if "x \<in> set T" for x using plain_not_vector [OF type_name_plain [OF pt [OF that]]] .
  show "ty \<in> set U \<Longrightarrow> build_step T U f = [(i, BuildUnion)] \<and>
       create_args T U f = [(ti, UnionTypeOf ty i), (i, OffsetOf i)] \<and> snd (read_field T U f) = ReadUnion ty ti i"
    by (simp add: defs)
  show "ty = ''string'' \<Longrightarrow> build_step T U f = [(i, CreateString)] \<and>
       create_args T U f = [(i, OffsetOf i)] \<and> snd (read_field T U f) = ReadString i"
    using S by (simp add: defs)
  show "ty = vector_type ''string'' \<Longrightarrow> build_step T U f = [(i, CreateStringVector)] \<and>
       create_args T U f = [(i, OffsetOf i)] \<and> snd (read_field T U f) = ReadStringVector i"
    using V vector_template [OF string_plain] by (simp add: defs)
  show "build_step T U f = [(i, BuildTableVector)] \<and>
       create_args T U f = [(i, OffsetOf i)] \<and> snd (read_field T U f) = ReadTableVector x i"
    if t: "ty = vector_type x" and x: "x \<in> set T"
    using V t x tu(2) [OF x] vector_template [OF type_name_plain [OF pt [OF x]]] by (simp add: defs)
  show "build_step T U f = [(i, CreateVector)] \<and>
       create_args T U f = [(i, OffsetOf i)] \<and> snd (read_field T U f) = ReadVector i"
    if t: "ty = vector_type x" and x: "scalar_like es x"
    using V t vector_template [OF scalar_like_plain [OF assms(1) x]] scalar_like_kind(1) [OF assms(1) x]
      not_table_scalar(1) [OF assms(1) x] by (simp add: defs T)
  show "build_step T U f = [(i, BuildTable)] \<and>
       create_args T U f = [(i, OffsetOf i)] \<and> snd (read_field T U f) = ReadTable ty i"
    if x: "ty \<in> set T"
    using tu [OF x] pv [OF x] serde_table [OF pt [OF x], of T] x by (simp add: defs)
  show "build_step T U f = [] \<and>
       create_args T U f = [(i, FieldOf i)] \<and> snd (read_field T U f) = ReadField i"
    if x: "scalar_like es ty"
    using not_table_scalar [OF assms(1) x] scalar_like_kind(1) [OF assms(1) x]
      plain_not_vector [OF scalar_like_plain [OF assms(1) x]] by (simp add: defs T U is_table_type_def list_ex_iff image_iff)
qed

definition carries ::
  "'w fb_lib \<Rightarrow> item list \<Rightarrow> (val \<Rightarrow> 'w option) \<Rightarrow> (string \<Rightarrow> 'w \<Rightarrow> val option) \<Rightarrow>
   string list \<Rightarrow> string list \<Rightarrow> field \<Rightarrow> val \<Rightarrow> bool" where
  "carries L I B R T U f v \<longleftrightarrow>
     (\<exists>offs args.
        all_some (map (\<lambda>(x, e). map_option (Pair x) (offset_slot I B e v)) (build_step T U f)) = Some offs \<and>
        all_some (map (\<lambda>(m, a). map_option (Pair m) (arg_slot [(rust_ident (fd_name f), v)] offs a)) (create_args T U f)) = Some args \<and>
        (\<forall>w. (\<forall>(m, s) \<in> set args. fb_get L w m = Some s) \<longrightarrow> read_slot L I R w (snd (read_field T U f)) = Some v))"

lemma all_some_map: "(\<forall>x \<in> set xs. g x = Some (h x)) \<Longrightarrow> all_some (map g xs) = Some (map h xs)"
  by (induction xs) auto

lemma all_some_there_and_back:
  "(\<forall>x \<in> set xs. \<exists>y. g x = Some y \<and> h y = Some x) \<Longrightarrow> \<exists>ys. all_some (map g xs) = Some ys \<and> all_some (map h ys) = Some xs"
  by (induction xs) auto

lemma vector_carries:
  assumes "\<forall>x \<in> set vs. \<exists>y. g x = Some y \<and> h y = Some x"
  shows "\<exists>ys. vector_with g (Vec vs) = Some ys \<and> vector_of_vals h ys = Some (Vec vs)"
  using all_some_there_and_back [OF assms] by (auto simp: vector_with_def vector_of_vals_def)

text \<open>\<open>nested v\<close> are the table values directly inside a field's value.\<close>

lemma field_carries:
  assumes ok: "namespace_ok ts es"
    and T: "T = map tb_name ts" and U: "U = map em_name (unions es)"
    and impls: "union_impls I = map (\<lambda>u. (em_name u, zip (em_variants u) (union_tables u))) (unions es)"
    and variants: "\<And>u. u \<in> set (unions es) \<Longrightarrow> distinct (em_variants u)"
    and known: "known_type T (map em_name (plain_enums es)) (fd_fbs_type f) \<or> fd_fbs_type f \<in> set U"
    and fits: "v = Absent \<and> \<not> scalar_like es (fd_fbs_type f) \<or> typed ts es (fd_fbs_type f) v"
    and IH: "\<And>t c. t \<in> set T \<Longrightarrow> typed ts es t c \<Longrightarrow> size c \<le> size v \<Longrightarrow> \<exists>w. B c = Some w \<and> R t w = Some c"
  shows "carries L I B R T U f v"
proof -
  let ?ty = "fd_fbs_type f"
  note tmpl = field_templates [OF ok T U refl refl refl, where f = f]
  note defs = carries_def offset_slot_def arg_slot_def read_slot_def prepare_def optional_def
  have E: "scalar_like es x \<longleftrightarrow> map_of rust_scalars x \<noteq> None \<or> x \<in> set (map em_name (plain_enums es))" for x
    by (simp add: scalar_like_def)
  have elem: "size x \<le> size (Vec vs)" if "x \<in> set vs" for x :: val and vs
    using that by (induction vs) auto
  consider "?ty \<in> set U" | "?ty = ''string''" | "?ty = vector_type ''string''"
    | x where "?ty = vector_type x" "x \<in> set T" | x where "?ty = vector_type x" "scalar_like es x"
    | "?ty \<in> set T" | "scalar_like es ?ty"
    using known by (auto simp: E elim!: known_type.cases)
  then show ?thesis
  proof cases
    case 1
    obtain u where u: "u \<in> set (unions es)" "?ty = em_name u" using 1 unfolding U by auto
    have find: "map_of (union_impls I) (em_name u) = Some (zip (em_variants u) (union_tables u))"
    proof -
      have "distinct (map em_name (unions es))"
        using namespace_okD(6) [OF ok] unfolding distinct_append unions_def by (blast intro: distinct_map_filter)
      then have "distinct (map fst (map (\<lambda>u. (em_name u, zip (em_variants u) (union_tables u))) (unions es)))"
        by (simp add: comp_def)
      then show ?thesis unfolding impls by (rule map_of_is_SomeI) (use u(1) in auto)
    qed
    show ?thesis
    proof (cases "v = Absent")
      case True
      then show ?thesis using tmpl(1) [OF 1] u(2) find by (simp add: defs union_from_fb_def)
    next
      case False
      then have "typed ts es (em_name u) v" using fits u(2) by simp
      from typed_union_val [OF ok u(1) this] obtain k t c where
        c: "v = Variant (em_name u) k c" "(k, t) \<in> set (zip (em_variants u) (union_tables u))" "typed ts es t c" by blast
      have "t \<in> set T" using c(2) namespace_okD(4) [OF ok, of u] u(1) unfolding T
        by (auto simp: union_in dest: set_zip_rightD)
      then obtain w where w: "B c = Some w" "R t w = Some c" using IH [of t c] c by auto
      have "map_of (zip (em_variants u) (union_tables u)) k = Some t"
        using c(2) variants [OF u(1)] by (simp add: map_of_is_SomeI map_fst_zip_take distinct_take)
      moreover have "k \<in> fst ` set (zip (em_variants u) (union_tables u))" using c(2) by force
      ultimately show ?thesis using tmpl(1) [OF 1] u(2) c(1) find w
        by (simp add: defs union_build_def union_from_fb_def)
    qed
  next
    case 2
    then have "v = Absent \<or> (\<exists>s. v = Str s)" using fits typed_string_val [OF ok] by auto
    then show ?thesis using tmpl(2) [OF 2] by (auto simp: defs as_string_def)
  next
    case 3
    then consider "v = Absent" | vs where "v = Vec vs" "\<forall>x \<in> set vs. typed ts es ''string'' x"
      using fits typed_vector_val [OF ok] by metis
    then show ?thesis
    proof cases
      case 1
      then show ?thesis using tmpl(3) [OF 3] by (simp add: defs)
    next
      case vs: 2
      have "\<forall>x \<in> set vs. \<exists>s. as_string x = Some s \<and> (Some \<circ> Str) s = Some x"
        using vs(2) typed_string_val [OF ok] by (force simp: as_string_def)
      from vector_carries [OF this] show ?thesis using tmpl(3) [OF 3] vs(1) by (auto simp: defs comp_def)
    qed
  next
    case (4 x)
    then consider "v = Absent" | vs where "v = Vec vs" "\<forall>c \<in> set vs. typed ts es x c"
      using fits typed_vector_val [OF ok] by metis
    then show ?thesis
    proof cases
      case 1
      then show ?thesis using tmpl(4) [OF 4] by (simp add: defs)
    next
      case vs: 2
      have "\<forall>c \<in> set vs. \<exists>w. B c = Some w \<and> R x w = Some c"
        using IH [OF 4(2)] vs elem by blast
      from vector_carries [OF this] show ?thesis using tmpl(4) [OF 4] vs(1) by (auto simp: defs)
    qed
  next
    case (5 x)
    then consider "v = Absent" | vs where "v = Vec vs" "\<forall>c \<in> set vs. typed ts es x c"
      using fits typed_vector_val [OF ok] by metis
    then show ?thesis
    proof cases
      case 1
      then show ?thesis using tmpl(5) [OF 5] by (simp add: defs)
    next
      case vs: 2
      have "\<forall>c \<in> set vs. \<exists>i. as_num c = Some i \<and> (Some \<circ> Num) i = Some c"
        using vs(2) typed_scalar_val [OF ok 5(2)] by (force simp: as_num_def)
      from vector_carries [OF this] show ?thesis using tmpl(5) [OF 5] vs(1) by (auto simp: defs comp_def)
    qed
  next
    case 6
    show ?thesis
    proof (cases "v = Absent")
      case True
      then show ?thesis using tmpl(6) [OF 6] by (simp add: defs)
    next
      case False
      then obtain w where "B v = Some w" "R ?ty w = Some v" using fits IH [OF 6] by auto
      then show ?thesis using tmpl(6) [OF 6] False by (simp add: defs)
    qed
  next
    case 7
    then obtain i where "v = Num i" using fits typed_scalar_val [OF ok 7] by auto
    then show ?thesis using tmpl(7) [OF 7] by (simp add: defs as_num_def)
  qed
qed

subsection \<open>A whole table\<close>

lemma all_some_append:
  "all_some (xs @ ys) = (case all_some xs of None \<Rightarrow> None | Some as \<Rightarrow> map_option ((@) as) (all_some ys))"
proof (induction xs)
  case Nil
  then show ?case by (cases "all_some ys") auto
next
  case (Cons x xs)
  then show ?case by (cases "all_some ys") (auto split: option.splits)
qed

lemma all_some_concat:
  "(\<forall>x \<in> set xs. all_some (map g (h x)) = Some (k x)) \<Longrightarrow> all_some (map g (concat (map h xs))) = Some (concat (map k xs))"
  by (induction xs) (auto simp: all_some_append)

lemma all_some_keys: "all_some (map (\<lambda>(x, e). map_option (Pair x) (g e)) xs) = Some ys \<Longrightarrow> map fst ys = map fst xs"
  by (induction xs arbitrary: ys) (auto split: option.splits)

lemma map_of_concat_one:
  assumes "f \<in> set fs" "distinct (map k fs)" "\<forall>g \<in> set fs. fst ` set (h g) \<subseteq> {k g}"
  shows "map_of (concat (map h fs)) (k f) = map_of (h f) (k f)"
  using assms
proof (induction fs)
  case (Cons g fs)
  show ?case
  proof (cases "f = g")
    case True
    have "map_of (concat (map h fs)) (k g) = None"
      using Cons.prems(2,3) by (force simp: map_of_eq_None_iff)
    then show ?thesis by (simp add: True map_add_def split: option.split)
  next
    case False
    then have f: "f \<in> set fs" using Cons.prems(1) by simp
    then have "k f \<in> set (map k fs)" by simp
    then have "k f \<noteq> k g" using Cons.prems(2) by (metis distinct.simps(2) list.simps(9))
    then have "map_of (h g) (k f) = None" using Cons.prems(3) by (auto simp: map_of_eq_None_iff)
    then show ?thesis using Cons.IH f Cons.prems(2,3) by (simp add: map_add_def split: option.split)
  qed
qed simp

lemma concat_map_in: "f \<in> set fs \<Longrightarrow> x \<in> set (h f) \<Longrightarrow> x \<in> set (concat (map h fs))"
  by auto

lemma build_step_keys: "fst ` set (build_step T U f) \<subseteq> {rust_ident (fd_name f)}"
  by (auto simp: build_step_def Let_def)

text \<open>flatc's \<open>Args\<close> of a table has distinct members.\<close>

definition members_distinct :: "table list \<Rightarrow> enum list \<Rightarrow> table \<Rightarrow> bool" where
  "members_distinct ts es t \<longleftrightarrow>
     distinct (map fst (concat (map (create_args (map tb_name ts) (map em_name (unions es))) (tb_fields t))))"

lemma create_args_ident: "rust_ident (fd_name f) \<in> fst ` set (create_args T U f)"
  by (simp add: create_args_def Let_def)

lemma distinct_concat_pick:
  "distinct (concat (map h fs)) \<Longrightarrow> (\<forall>f \<in> set fs. k f \<in> set (h f)) \<Longrightarrow> distinct (map k fs)"
  by (induction fs) fastforce+

lemma idents_distinct:
  assumes "members_distinct ts es t"
  shows "distinct (map (\<lambda>f. rust_ident (fd_name f)) (tb_fields t))"
proof (rule distinct_concat_pick)
  show "distinct (concat (map (\<lambda>f. map fst (create_args (map tb_name ts) (map em_name (unions es)) f)) (tb_fields t)))"
    using assms by (simp add: members_distinct_def map_concat comp_def)
qed (use create_args_ident in force)

lemma arg_slot_own:
  assumes "(m, a) \<in> set (create_args T U f)" "map_of fs (rust_ident (fd_name f)) = Some v"
    "map_of offsets (rust_ident (fd_name f)) = map_of offs (rust_ident (fd_name f))"
  shows "arg_slot fs offsets a = arg_slot [(rust_ident (fd_name f), v)] offs a"
  using assms by (auto simp: create_args_def arg_slot_def Let_def split: if_splits)

lemma struct_carries:
  assumes L: "fb_lib_ok L"
    and fields: "\<forall>f \<in> set (tb_fields t). carries L I B R (map tb_name ts) (map em_name (unions es)) f (g f)"
    and members: "members_distinct ts es t"
  shows "\<exists>w. build_struct L I B ns (impl_of ns ts es t) (map (\<lambda>f. (rust_ident (fd_name f), g f)) (tb_fields t)) = Some w \<and>
    all_some (map (\<lambda>(x, r). map_option (Pair x) (read_slot L I R w r)) (sm_reads (impl_of ns ts es t))) =
      Some (map (\<lambda>f. (rust_ident (fd_name f), g f)) (tb_fields t)) \<and>
    (\<exists>args. w = fb_create L ns (tb_name t) args)"
proof -
  let ?T = "map tb_name ts" and ?U = "map em_name (unions es)" and ?F = "tb_fields t"
  let ?id = "\<lambda>f. rust_ident (fd_name f)"
  let ?fs = "map (\<lambda>f. (?id f, g f)) ?F"
  have d: "distinct (map ?id ?F)" by (rule idents_distinct [OF members])
  have fs: "map_of ?fs (?id f) = Some (g f)" if "f \<in> set ?F" for f
    using that d by (intro map_of_is_SomeI) (auto simp: comp_def)
  obtain offs args where oa: "\<And>f. f \<in> set ?F \<Longrightarrow>
        all_some (map (\<lambda>(x, e). map_option (Pair x) (offset_slot I B e (g f))) (build_step ?T ?U f)) = Some (offs f) \<and>
        all_some (map (\<lambda>(m, a). map_option (Pair m) (arg_slot [(?id f, g f)] (offs f) a)) (create_args ?T ?U f)) = Some (args f) \<and>
        (\<forall>w. (\<forall>(m, s) \<in> set (args f). fb_get L w m = Some s) \<longrightarrow> read_slot L I R w (snd (read_field ?T ?U f)) = Some (g f))"
    using fields unfolding carries_def by metis
  have offset_keys: "fst ` set (offs f) \<subseteq> {?id f}" if "f \<in> set ?F" for f
    using all_some_keys [OF oa [OF that, THEN conjunct1]] build_step_keys [of ?T ?U f] by (metis list.set_map)
  have offsets: "all_some (map (\<lambda>(x, e).
          (case map_of ?fs x of Some v \<Rightarrow> map_option (Pair x) (offset_slot I B e v) | None \<Rightarrow> None)) (concat (map (build_step ?T ?U) ?F))) =
        Some (concat (map offs ?F))"
  proof (rule all_some_concat, rule)
    fix f assume f: "f \<in> set ?F"
    have "map (\<lambda>(x, e). (case map_of ?fs x of Some v \<Rightarrow> map_option (Pair x) (offset_slot I B e v) | None \<Rightarrow> None)) (build_step ?T ?U f) =
        map (\<lambda>(x, e). map_option (Pair x) (offset_slot I B e (g f))) (build_step ?T ?U f)"
      using build_step_keys [of ?T ?U f] fs [OF f] by (intro map_cong) auto
    note e = this
    show "all_some (map (\<lambda>(x, e). (case map_of ?fs x of Some v \<Rightarrow> map_option (Pair x) (offset_slot I B e v) | None \<Rightarrow> None)) (build_step ?T ?U f)) = Some (offs f)"
      unfolding e by (rule oa [OF f, THEN conjunct1])
  qed
  have own: "map_of (concat (map offs ?F)) (?id f) = map_of (offs f) (?id f)" if "f \<in> set ?F" for f
    using map_of_concat_one [OF that d] offset_keys by blast
  have slots: "all_some (map (\<lambda>(m, a). map_option (Pair m) (arg_slot ?fs (concat (map offs ?F)) a)) (concat (map (create_args ?T ?U) ?F))) =
        Some (concat (map args ?F))"
  proof (rule all_some_concat, rule)
    fix f assume f: "f \<in> set ?F"
    have "map (\<lambda>(m, a). map_option (Pair m) (arg_slot ?fs (concat (map offs ?F)) a)) (create_args ?T ?U f) =
        map (\<lambda>(m, a). map_option (Pair m) (arg_slot [(?id f, g f)] (offs f) a)) (create_args ?T ?U f)"
      using arg_slot_own [OF _ fs [OF f] own [OF f]] by (intro map_cong) auto
    note e = this
    show "all_some (map (\<lambda>(m, a). map_option (Pair m) (arg_slot ?fs (concat (map offs ?F)) a)) (create_args ?T ?U f)) = Some (args f)"
      unfolding e by (rule oa [OF f, THEN conjunct2, THEN conjunct1])
  qed
  let ?w = "fb_create L ns (tb_name t) (concat (map args ?F))"
  have "map fst (concat (map args ?F)) = map fst (concat (map (create_args ?T ?U) ?F))"
    by (rule all_some_keys [OF slots])
  then have "distinct (map fst (concat (map args ?F)))" using members by (simp only: members_distinct_def)
  then have get: "fb_get L ?w m = Some s" if "f \<in> set ?F" "(m, s) \<in> set (args f)" for f m s
    using L that unfolding fb_lib_ok_def by (metis concat_map_in)
  have "all_some (map (\<lambda>(x, r). map_option (Pair x) (read_slot L I R ?w r)) (map (read_field ?T ?U) ?F)) = Some ?fs"
    unfolding map_map
  proof (rule all_some_map, rule)
    fix f assume f: "f \<in> set ?F"
    have "fst (read_field ?T ?U f) = ?id f" by (simp add: read_field_def Let_def)
    moreover have "read_slot L I R ?w (snd (read_field ?T ?U f)) = Some (g f)" using oa [OF f] get [OF f] by blast
    ultimately show "((\<lambda>(x, r). map_option (Pair x) (read_slot L I R ?w r)) \<circ> read_field ?T ?U) f = Some (?id f, g f)"
      by (simp add: case_prod_unfold)
  qed
  moreover have "build_struct L I B ns (impl_of ns ts es t) ?fs = Some ?w"
    using offsets slots by (simp add: build_struct_def impl_of_def)
  ultimately show ?thesis unfolding impl_of_def struct_impl.simps by blast
qed

lemma aligned_fields:
  assumes "length fs = length F" "\<forall>p \<in> set (zip F fs). fst (snd p) = k (fst p)" "distinct (map k F)"
  shows "\<exists>g. fs = map (\<lambda>f. (k f, g f)) F \<and> (\<forall>f \<in> set F. (f, (k f, g f)) \<in> set (zip F fs))"
  using assms
proof (induction fs F rule: list_induct2)
  case (Cons p fs f F)
  then obtain g where g: "fs = map (\<lambda>f. (k f, g f)) F" "\<forall>f \<in> set F. (f, (k f, g f)) \<in> set (zip F fs)" by auto
  have "\<forall>h \<in> set F. h \<noteq> f" using Cons.prems(2) by auto
  moreover have "p = (k f, snd p)" using Cons.prems(1) by (cases p) auto
  ultimately have "p # fs = map (\<lambda>h. (k h, (g(f := snd p)) h)) (f # F)" "\<forall>h \<in> set (f # F). (h, (k h, (g(f := snd p)) h)) \<in> set (zip (f # F) (p # fs))"
    using g by (auto simp: fun_upd_def)
  then show ?case by (intro exI [of _ "g(f := snd p)"] conjI)
qed simp

lemma size_field: "(x, v) \<in> set fs \<Longrightarrow> size v < size (Struct t fs)"
  by (induction fs) auto

definition flatc_ok :: "table list \<Rightarrow> enum list \<Rightarrow> bool" where
  "flatc_ok ts es \<longleftrightarrow> list_all (members_distinct ts es) ts \<and> list_all (\<lambda>u. distinct (em_variants u)) (unions es)"

lemma nested_roundtrip:
  assumes L: "fb_lib_ok L" and ok: "namespace_ok ts es" and fl: "flatc_ok ts es"
    and gen: "generate_plain_struct_module ns ts es = Inr I"
    and t: "t \<in> set ts" and v: "typed ts es (tb_name t) v" and n: "size v \<le> n"
  shows "\<exists>w. build_flatbuffer L I n v = Some w \<and> from_fb L I n (tb_name t) w = Some v \<and>
    (\<exists>args. w = fb_create L ns (tb_name t) args)"
  using t v n
proof (induction n arbitrary: t v)
  case 0
  then show ?case using typed_table_val [OF ok] by fastforce
next
  case (Suc n)
  let ?id = "\<lambda>f. rust_ident (fd_name f)"
  note impls = module_impls [OF gen]
  have d: "distinct (map tb_name ts)" using namespace_okD(6) [OF ok] by simp
  have find: "map_of (struct_impls I) (tb_name t) = Some (ns, impl_of ns ts es t)"
    unfolding impls using Suc.prems(1) d by (intro map_of_is_SomeI) (auto simp: comp_def)
  have members: "members_distinct ts es t" and variants: "\<And>u. u \<in> set (unions es) \<Longrightarrow> distinct (em_variants u)"
    using fl Suc.prems(1) by (auto simp: flatc_ok_def list_all_iff)
  obtain fs where fs: "v = Struct (tb_name t) fs" "length fs = length (tb_fields t)"
    "\<forall>p \<in> set (zip (tb_fields t) fs). fst (snd p) = ?id (fst p) \<and>
      (snd (snd p) = Absent \<and> \<not> scalar_like es (fd_fbs_type (fst p)) \<or> typed ts es (fd_fbs_type (fst p)) (snd (snd p)))"
    using typed_table_val [OF ok Suc.prems(1,2)] by blast
  have "\<forall>p \<in> set (zip (tb_fields t) fs). fst (snd p) = ?id (fst p)" using fs(3) by blast
  from aligned_fields [OF fs(2) this idents_distinct [OF members]] obtain g where
    g: "fs = map (\<lambda>f. (?id f, g f)) (tb_fields t)" "\<forall>f \<in> set (tb_fields t). (f, (?id f, g f)) \<in> set (zip (tb_fields t) fs)"
    by blast
  have "\<forall>f \<in> set (tb_fields t). carries L I (build_flatbuffer L I n) (from_fb L I n) (map tb_name ts) (map em_name (unions es)) f (g f)"
  proof
    fix f assume f: "f \<in> set (tb_fields t)"
    have small: "size (g f) \<le> n"
      using size_field [of "?id f" "g f" fs "tb_name t"] g(1) f Suc.prems(3) fs(1) by auto
    have known: "known_type (map tb_name ts) (map em_name (plain_enums es)) (fd_fbs_type f) \<or> fd_fbs_type f \<in> set (map em_name (unions es))"
      using namespace_okD(3) [OF ok Suc.prems(1) f] by blast
    have fits: "g f = Absent \<and> \<not> scalar_like es (fd_fbs_type f) \<or> typed ts es (fd_fbs_type f) (g f)"
      using g(2) f fs(3) by fastforce
    show "carries L I (build_flatbuffer L I n) (from_fb L I n) (map tb_name ts) (map em_name (unions es)) f (g f)"
    proof (rule field_carries [OF ok refl refl impls(2) variants known fits])
      fix x c assume "x \<in> set (map tb_name ts)" and c: "typed ts es x c" "size c \<le> size (g f)"
      then obtain t' where "t' \<in> set ts" "x = tb_name t'" by auto
      then show "\<exists>w. build_flatbuffer L I n c = Some w \<and> from_fb L I n x w = Some c"
        using Suc.IH [of t' c] c small by auto
    qed
  qed
  from struct_carries [OF L this members, of ns] show ?case
    using find fs(1) g(1) by auto
qed

text \<open>
  C6. A generated struct survives the wire: for every schema the generator accepts, every value of
  a table's struct, nested tables, vectors, enums and unions included, is built without a type
  error and read back equal, and, within the verifier's limits, through the bytes as well.
\<close>

theorem codec_roundtrip:
  assumes "fb_lib_ok L" "namespace_ok ts es" "flatc_ok ts es"
    "generate_plain_struct_module ns ts es = Inr I" "t \<in> set ts" "typed ts es (tb_name t) v" "size v \<le> n"
  shows "\<exists>w. build_flatbuffer L I n v = Some w \<and> from_fb L I n (tb_name t) w = Some v \<and>
    (fb_within_limits L w \<longrightarrow>
      (\<exists>bytes. to_flatbuffer L I n v = Some bytes \<and> from_flatbuffer L I n (tb_name t) bytes = Some (Some v)))"
proof -
  obtain w args where w: "build_flatbuffer L I n v = Some w" "from_fb L I n (tb_name t) w = Some v"
    "w = fb_create L ns (tb_name t) args"
    using nested_roundtrip [OF assms] by blast
  have "distinct (map tb_name ts)" using namespace_okD(6) [OF assms(2)] by simp
  then have "map_of (struct_impls I) (tb_name t) = Some (ns, impl_of ns ts es t)"
    unfolding module_impls [OF assms(4)] using assms(5) by (intro map_of_is_SomeI) (auto simp: comp_def)
  moreover have "fb_within_limits L w \<longrightarrow> fb_root L ns (tb_name t) (fb_finish L w) = Some w"
    using assms(1) w(3) unfolding fb_lib_ok_def by blast
  ultimately show ?thesis using w by (auto simp: to_flatbuffer_def from_flatbuffer_def)
qed

text \<open>A runtime that keeps its tables as they were created, and one document of two tables.\<close>

datatype fb_table = FbTable string string "(string \<times> fb_table slot) list"

fun args_of :: "fb_table \<Rightarrow> (string \<times> fb_table slot) list" where
  "args_of (FbTable ns t args) = args"

definition mail_tables :: "table list" where
  "mail_tables =
     [\<lparr>tb_name = ''Mail'', tb_fields =
        [\<lparr>fd_name = ''type'', fd_fbs_type = ''string'', fd_default = None, fd_id = 0\<rparr>,
         \<lparr>fd_name = ''level'', fd_fbs_type = ''Level'', fd_default = None, fd_id = 1\<rparr>,
         \<lparr>fd_name = ''parts'', fd_fbs_type = ''[Part]'', fd_default = None, fd_id = 2\<rparr>,
         \<lparr>fd_name = ''ref'', fd_fbs_type = ''Source'', fd_default = None, fd_id = 4\<rparr>], tb_paginated = False\<rparr>,
      \<lparr>tb_name = ''Part'', tb_fields =
        [\<lparr>fd_name = ''size'', fd_fbs_type = ''uint32'', fd_default = Some ''7'', fd_id = 0\<rparr>], tb_paginated = False\<rparr>]"

definition mail_enums :: "enum list" where
  "mail_enums =
     [\<lparr>em_name = ''Level'', em_variants = [''Low'', ''High''], em_values = [0, 1], em_underlying = ''int8'', em_kind = Plain\<rparr>,
      \<lparr>em_name = ''Source'', em_variants = [''A'', ''B''], em_values = [1, 2], em_underlying = ''uint8'',
       em_kind = UnionOf [''Part'', ''Mail'']\<rparr>]"

definition mail_items :: "item list" where
  "mail_items = (case generate_plain_struct_module ''v1'' mail_tables mail_enums of Inr I \<Rightarrow> I | Inl e \<Rightarrow> [])"

definition mail_value :: val where
  "mail_value =
     Struct ''Mail''
       [(''type_'', Str ''note''), (''level'', Num 1),
        (''parts'', Vec [Struct ''Part'' [(''size'', Num 3)], Struct ''Part'' [(''size'', Num 7)]]),
        (''ref_'', Variant ''Source'' ''A'' (Struct ''Part'' [(''size'', Num 9)]))]"

definition tree_fb :: "fb_table fb_lib" where
  "tree_fb =
     \<lparr>fb_create = FbTable, fb_get = (\<lambda>w x. map_of (args_of w) x), fb_finish = (\<lambda>w. [1, 2]),
      fb_root = (\<lambda>ns t bytes. if bytes = [1, 2] then Some (FbTable ''v1'' ''Part'' [(''size'', ScalarSlot 3)]) else None),
      fb_within_limits = (\<lambda>w. w = FbTable ''v1'' ''Part'' [(''size'', ScalarSlot 3)])\<rparr>"

lemma tree_fb_ok: "fb_lib_ok tree_fb"
  unfolding fb_lib_ok_def tree_fb_def by simp

lemma mail_generates: "generate_plain_struct_module ''v1'' mail_tables mail_enums = Inr mail_items"
proof -
  have "isl (generate_plain_struct_module ''v1'' mail_tables mail_enums) = False" by code_simp
  then show ?thesis
    by (cases "generate_plain_struct_module ''v1'' mail_tables mail_enums") (simp_all add: mail_items_def)
qed

lemma mail_namespace_ok: "namespace_ok mail_tables mail_enums"
proof -
  have names: "list_all (\<lambda>t. type_name (tb_name t)) mail_tables" "list_all (\<lambda>e. type_name (em_name e)) mail_enums" by code_simp+
  have lists: "map tb_name mail_tables = [''Mail'', ''Part'']" "map em_name (plain_enums mail_enums) = [''Level'']"
    "map em_name (unions mail_enums) = [''Source'']" by code_simp+
  have fields: "map (\<lambda>t. map (\<lambda>f. (fd_default f, fd_fbs_type f)) (tb_fields t)) mail_tables =
      [[(None, ''string''), (None, ''Level''), (None, ''[Part]''), (None, ''Source'')], [(Some ''7'', ''uint32'')]]"
    by code_simp
  have vec: "''[Part]'' = vector_type ''Part''" by (simp add: vector_type_def)
  have u32: "map_of rust_scalars ''uint32'' = Some ''u32''" by code_simp
  have types: "\<forall>x \<in> {(None, ''string''), (None, ''Level''), (None, ''[Part]''), (None, ''Source''), (Some ''7'', ''uint32'')}.
      known_type [''Mail'', ''Part''] [''Level''] (snd x) \<or> fst x = None \<and> snd x \<in> {''Source''}"
    unfolding vec using u32 by (auto intro: known_type.intros)
  have "\<forall>t \<in> set mail_tables. \<forall>f \<in> set (tb_fields t).
      known_type [''Mail'', ''Part''] [''Level''] (fd_fbs_type f) \<or> fd_default f = None \<and> fd_fbs_type f \<in> {''Source''}"
  proof (intro ballI)
    fix t f assume "t \<in> set mail_tables" "f \<in> set (tb_fields t)"
    then have "(fd_default f, fd_fbs_type f) \<in> \<Union> (set (map (set \<circ> map (\<lambda>f. (fd_default f, fd_fbs_type f)) \<circ> tb_fields) mail_tables))" by auto
    then have "(fd_default f, fd_fbs_type f) \<in> {(None, ''string''), (None, ''Level''), (None, ''[Part]''), (None, ''Source''), (Some ''7'', ''uint32'')}"
      unfolding map_map [symmetric] comp_def [symmetric] using fields by (auto simp: comp_def)
    with types show "known_type [''Mail'', ''Part''] [''Level''] (fd_fbs_type f) \<or> fd_default f = None \<and> fd_fbs_type f \<in> {''Source''}"
      by fastforce
  qed
  moreover have "\<forall>e \<in> set mail_enums. set (union_tables e) \<subseteq> {''Mail'', ''Part''} \<and>
      (is_union e \<longrightarrow> length (union_tables e) = length (em_variants e))"
    by (auto simp: mail_enums_def union_tables_def is_union_def)
  moreover have "distinct (map tb_name mail_tables @ map em_name mail_enums)" by code_simp
  ultimately show ?thesis unfolding namespace_ok_def lists using names by simp
qed

lemma mail_value_typed: "typed mail_tables mail_enums ''Mail'' mail_value"
proof -
  have num: "scalar_like mail_enums ''Level''" "scalar_like mail_enums ''uint32''"
    "\<not> scalar_like mail_enums ''string''" by (code_simp)+
  have part: "typed mail_tables mail_enums ''Part'' (Struct ''Part'' [(''size'', Num i)])" for i
    using typed_struct [of "mail_tables ! 1" mail_tables "[(''size'', Num i)]" mail_enums] typed_num [OF num(2), of mail_tables i]
    by (simp add: mail_tables_def rust_ident_def rust_keywords_def)
  have parts: "typed mail_tables mail_enums ''[Part]'' (Vec [Struct ''Part'' [(''size'', Num 3)], Struct ''Part'' [(''size'', Num 7)]])"
    using typed_vec [of "[Struct ''Part'' [(''size'', Num 3)], Struct ''Part'' [(''size'', Num 7)]]" mail_tables mail_enums "''Part''"] part
    by (simp add: vector_type_def unions_def mail_enums_def is_union_def)
  have source: "typed mail_tables mail_enums ''Source'' (Variant ''Source'' ''A'' (Struct ''Part'' [(''size'', Num 9)]))"
    using typed_variant [of "mail_enums ! 1" mail_enums "''A''" "''Part''" mail_tables] part
    by (simp add: unions_def mail_enums_def is_union_def union_tables_def)
  show ?thesis
    using typed_struct [of "mail_tables ! 0" mail_tables _ mail_enums] num(1) parts source
    by (simp add: mail_value_def mail_tables_def rust_ident_def rust_keywords_def typed_num typed_string)
qed

theorem codec_roundtrip_witness:
  "\<exists>w. build_flatbuffer tree_fb mail_items (size mail_value) mail_value = Some w \<and>
    from_fb tree_fb mail_items (size mail_value) ''Mail'' w = Some mail_value"
proof -
  have "flatc_ok mail_tables mail_enums" by code_simp
  moreover have "mail_tables ! 0 \<in> set mail_tables" "tb_name (mail_tables ! 0) = ''Mail''" by (simp_all add: mail_tables_def)
  ultimately show ?thesis
    using codec_roundtrip [OF tree_fb_ok mail_namespace_ok _ mail_generates, of "mail_tables ! 0" mail_value "size mail_value"]
      mail_value_typed by auto
qed

end
