(* ===== verification/TsSemantics.thy ===== *)
theory TsSemantics
  imports TsCodec GeneratedCodec
begin

text \<open>
  What the TypeScript that \<^verbatim>\<open>crates/flatbed_build/src/ts_codec.rs\<close> generates does. The npm runtime
  (\<^verbatim>\<open>flatbuffers\<close>) and JavaScript's numeric literals are a parameter; a thrown error is \<open>None\<close>.
\<close>

subsection \<open>Values and the runtime\<close>

text \<open>
  A JavaScript number that is an integer is \<open>JsNumber\<close>, one with a fraction \<open>JsFraction\<close> with the bits
  of its double. Infinities, NaN and the negative zero are left out, so that \<open>=\<close> is JavaScript's.
\<close>

datatype js_num = JsNumber int | JsFraction "64 word" | JsBigint int

definition exponent :: "64 word \<Rightarrow> nat" where
  "exponent w = unat (and (drop_bit 52 w) 2047)"

text \<open>The exponent's bias is 1023, the mantissa has 52 bits.\<close>

definition proper_fraction :: "64 word \<Rightarrow> bool" where
  "proper_fraction w \<longleftrightarrow>
     (if exponent w < 1023 then and w (2 ^ 63 - 1) \<noteq> 0
      else exponent w < 1075 \<and> and w (2 ^ (1075 - exponent w) - 1) \<noteq> 0)"

datatype tsval =
    Undefined
  | TNum js_num
  | TBoolean bool
  | TStr string
  | TArr "tsval list"
  | TObject "(string \<times> tsval) list"
  | TUnionVal string tsval

datatype 'w js_slot =
    JScalar bytes
  | JString string
  | JTable 'w
  | JScalars "bytes list"
  | JStrings "string list"
  | JTables "'w list"

record 'w js_lib =
  js_object :: "nat \<Rightarrow> (nat \<times> 'w js_slot) list \<Rightarrow> 'w"
  js_slot_at :: "'w \<Rightarrow> nat \<Rightarrow> 'w js_slot option"
  js_put :: "string \<Rightarrow> js_num \<Rightarrow> bytes option"
  js_get :: "string \<Rightarrow> bytes \<Rightarrow> js_num"
  js_literal :: "string \<Rightarrow> js_num"

text \<open>The runtime's scalar methods with the numbers they carry: field, vector, read, bigint, range.\<close>

definition js_rows :: "(string \<times> string \<times> string \<times> bool \<times> int \<times> int) list" where
  "js_rows =
     [(''addFieldInt8'', ''addInt8'', ''readInt8'', False, - (2 ^ 7), 2 ^ 7),
      (''addFieldInt8'', ''addInt8'', ''readUint8'', False, 0, 2 ^ 8),
      (''addFieldInt16'', ''addInt16'', ''readInt16'', False, - (2 ^ 15), 2 ^ 15),
      (''addFieldInt16'', ''addInt16'', ''readUint16'', False, 0, 2 ^ 16),
      (''addFieldInt32'', ''addInt32'', ''readInt32'', False, - (2 ^ 31), 2 ^ 31),
      (''addFieldInt32'', ''addInt32'', ''readUint32'', False, 0, 2 ^ 32),
      (''addFieldInt64'', ''addInt64'', ''readInt64'', True, - (2 ^ 63), 2 ^ 63),
      (''addFieldInt64'', ''addInt64'', ''readUint64'', True, 0, 2 ^ 64)]"

text \<open>The floats: an integer up to the mantissa's width, or a fraction the width holds.\<close>

definition js_float_rows :: "(string \<times> string \<times> string) list" where
  "js_float_rows =
     [(''addFieldFloat32'', ''addFloat32'', ''readFloat32''), (''addFieldFloat64'', ''addFloat64'', ''readFloat64'')]"

definition float_fits :: "string \<Rightarrow> js_num \<Rightarrow> bool" where
  "float_fits rd n \<longleftrightarrow>
     (case n of
        JsNumber i \<Rightarrow> rd = ''readFloat32'' \<and> \<bar>i\<bar> \<le> 2 ^ 24 \<or> rd = ''readFloat64'' \<and> \<bar>i\<bar> \<le> 2 ^ 53
      | JsFraction w \<Rightarrow>
          proper_fraction w \<and>
          (rd = ''readFloat32'' \<and> 897 \<le> exponent w \<and> and w (2 ^ 29 - 1) = 0 \<or> rd = ''readFloat64'')
      | JsBigint i \<Rightarrow> False)"

definition js_num_of :: "bool \<Rightarrow> int \<Rightarrow> js_num" where
  "js_num_of big i = (if big then JsBigint i else JsNumber i)"

definition row_ok :: "'w js_lib \<Rightarrow> string \<times> string \<times> string \<times> bool \<times> int \<times> int \<Rightarrow> bool" where
  "row_ok L r \<longleftrightarrow>
     (case r of (af, va, rd, big, lo, hi) \<Rightarrow>
        \<forall>i. lo \<le> i \<longrightarrow> i < hi \<longrightarrow>
          (\<exists>b. js_put L af (js_num_of big i) = Some b \<and> js_get L rd b = js_num_of big i) \<and>
          (\<exists>b. js_put L va (js_num_of big i) = Some b \<and> js_get L rd b = js_num_of big i))"

definition float_row_ok :: "'w js_lib \<Rightarrow> string \<times> string \<times> string \<Rightarrow> bool" where
  "float_row_ok L r \<longleftrightarrow>
     (case r of (af, va, rd) \<Rightarrow>
        \<forall>n. float_fits rd n \<longrightarrow>
          (\<exists>b. js_put L af n = Some b \<and> js_get L rd b = n) \<and> (\<exists>b. js_put L va n = Some b \<and> js_get L rd b = n))"

text \<open>
  A slot is found at the vtable offset of its id when the object was started with room for it; the
  literals are JavaScript's.
\<close>

definition js_lib_ok :: "'w js_lib \<Rightarrow> bool" where
  "js_lib_ok L \<longleftrightarrow>
     list_all (row_ok L) js_rows \<and>
     list_all (float_row_ok L) js_float_rows \<and>
     (\<forall>n slots i. distinct (map fst slots) \<longrightarrow>
        js_slot_at L (js_object L n slots) (4 + i * 2) = (if i < n then map_of slots i else None)) \<and>
     (\<forall>i. js_literal L (show_int i) = JsNumber i) \<and>
     (\<forall>i. js_literal L (show_int i @ ''n'') = JsBigint i)"

subsection \<open>Helpers\<close>

fun item_flags :: "ts_item \<Rightarrow> (string \<times> (string \<times> 64 word) list) list" where
  "item_flags (FlagsHelpers n masks) = [(n, masks)]"
| "item_flags _ = []"

fun item_union_helpers :: "ts_item \<Rightarrow> (string \<times> (string \<times> string \<times> int) list) list" where
  "item_union_helpers (UnionHelpers n members) = [(n, members)]"
| "item_union_helpers _ = []"

fun item_encoders :: "ts_item \<Rightarrow> (string \<times> ts_encode) list" where
  "item_encoders (EncodeTable e) = [(te_table e, e)]"
| "item_encoders _ = []"

fun item_decoders :: "ts_item \<Rightarrow> (string \<times> ts_decode) list" where
  "item_decoders (DecodeTableFn d) = [(td_table d, d)]"
| "item_decoders _ = []"

text \<open>\<^verbatim>\<open>encodeFlags\<close>: the union of the named masks; an unknown name throws.\<close>

definition encode_flag_names :: "(string \<times> 64 word) list \<Rightarrow> tsval \<Rightarrow> int option" where
  "encode_flag_names masks v =
     (case v of
        TArr vs \<Rightarrow>
          map_option (\<lambda>ws. uint (foldl or 0 ws))
            (all_some (map (\<lambda>x. case x of TStr n \<Rightarrow> map_of masks n | _ \<Rightarrow> None) vs))
      | _ \<Rightarrow> None)"

text \<open>\<^verbatim>\<open>decodeFlags\<close>: the names whose mask is met; bits left over throw.\<close>

definition decode_flag_names :: "(string \<times> 64 word) list \<Rightarrow> int \<Rightarrow> tsval option" where
  "decode_flag_names masks i =
     (let bits = word_of_int i;
          met = filter (\<lambda>(n, m). and bits m \<noteq> 0) masks;
          unknown = foldl (\<lambda>rest (n, m). and rest (not m)) bits met
      in if unknown \<noteq> 0 then None else Some (TArr (map (TStr \<circ> fst) met)))"

definition encode_scalar :: "ts_item list \<Rightarrow> conv \<Rightarrow> tsval \<Rightarrow> js_num option" where
  "encode_scalar I c v =
     (case c of
        AsIs \<Rightarrow> (case v of TNum n \<Rightarrow> Some n | _ \<Rightarrow> None)
      | BoolConv \<Rightarrow> (case v of TBoolean b \<Rightarrow> Some (JsNumber (if b then 1 else 0)) | _ \<Rightarrow> None)
      | FlagsBig n \<Rightarrow>
          (case map_of (concat (map item_flags I)) n of
             Some masks \<Rightarrow> map_option JsBigint (encode_flag_names masks v)
           | None \<Rightarrow> None)
      | FlagsNumber n \<Rightarrow>
          (case map_of (concat (map item_flags I)) n of
             Some masks \<Rightarrow> map_option JsNumber (encode_flag_names masks v)
           | None \<Rightarrow> None))"

definition decode_scalar :: "ts_item list \<Rightarrow> conv \<Rightarrow> js_num \<Rightarrow> tsval option" where
  "decode_scalar I c n =
     (case c of
        AsIs \<Rightarrow> Some (TNum n)
      | BoolConv \<Rightarrow> Some (TBoolean (n \<noteq> JsNumber 0))
      | FlagsBig f \<Rightarrow>
          (case (map_of (concat (map item_flags I)) f, n) of
             (Some masks, JsBigint i) \<Rightarrow> decode_flag_names masks i
           | _ \<Rightarrow> None)
      | FlagsNumber f \<Rightarrow>
          (case (map_of (concat (map item_flags I)) f, n) of
             (Some masks, JsNumber i) \<Rightarrow> decode_flag_names masks i
           | _ \<Rightarrow> None))"

subsection \<open>Encoding\<close>

definition ts_vector :: "(tsval \<Rightarrow> 'a option) \<Rightarrow> tsval \<Rightarrow> 'a list option" where
  "ts_vector f v = (case v of TArr vs \<Rightarrow> all_some (map f vs) | _ \<Rightarrow> None)"

definition ts_string :: "tsval \<Rightarrow> string option" where
  "ts_string v = (case v of TStr s \<Rightarrow> Some s | _ \<Rightarrow> None)"

definition prepare_offset ::
  "'w js_lib \<Rightarrow> ts_item list \<Rightarrow> (string \<Rightarrow> tsval \<Rightarrow> 'w option) \<Rightarrow> prep_expr \<Rightarrow> tsval \<Rightarrow> 'w js_slot option" where
  "prepare_offset L I enc p v =
     (case p of
        PrepVector (BuildTables t) \<Rightarrow> map_option JTables (ts_vector (enc t) v)
      | PrepVector BuildStrings \<Rightarrow> map_option JStrings (ts_vector ts_string v)
      | PrepVector (BuildScalars sz m c) \<Rightarrow>
          map_option JScalars (ts_vector (\<lambda>x. Option.bind (encode_scalar I c x) (js_put L m)) v)
      | PrepTable t \<Rightarrow> map_option JTable (enc t v)
      | PrepString \<Rightarrow> map_option JString (ts_string v)
      | PrepUnion u \<Rightarrow> None)"

text \<open>\<^verbatim>\<open>encodeUnion\<close>: the discriminator and the offset of the member's table.\<close>

definition encode_union ::
  "ts_item list \<Rightarrow> (string \<Rightarrow> tsval \<Rightarrow> 'w option) \<Rightarrow> string \<Rightarrow> tsval \<Rightarrow> (int \<times> 'w) option" where
  "encode_union I enc u v =
     (case (v, map_of (concat (map item_union_helpers I)) u) of
        (TUnionVal k t, Some members) \<Rightarrow>
          (case map_of members k of
             Some (table, d) \<Rightarrow> map_option (Pair d) (enc table t)
           | None \<Rightarrow> None)
      | _ \<Rightarrow> None)"

text \<open>The slots one field adds: none for an absent value or for the declared default.\<close>

definition field_slots ::
  "'w js_lib \<Rightarrow> ts_item list \<Rightarrow> (string \<Rightarrow> tsval \<Rightarrow> 'w option) \<Rightarrow> encode_field \<Rightarrow> tsval \<Rightarrow>
   (nat \<times> 'w js_slot) list option" where
  "field_slots L I enc e v =
     (case ef_add e of
        AddOffset i \<Rightarrow>
          (if v = Undefined then Some []
           else (case ef_prep e of
               Some p \<Rightarrow> map_option (\<lambda>s. [(i, s)]) (prepare_offset L I enc p v)
             | None \<Rightarrow> None))
      | AddUnion d i \<Rightarrow>
          (if v = Undefined then Some []
           else (case ef_prep e of
               Some (PrepUnion u) \<Rightarrow>
                 (case encode_union I enc u v of
                    Some (k, w) \<Rightarrow> map_option (\<lambda>b. [(d, JScalar b), (i, JTable w)]) (js_put L ''addFieldInt8'' (JsNumber k))
                  | None \<Rightarrow> None)
             | _ \<Rightarrow> None))
      | AddScalar m i c dflt \<Rightarrow>
          (case encode_scalar I c v of
             Some n \<Rightarrow>
               (if n = js_literal L dflt then Some []
                else map_option (\<lambda>b. [(i, JScalar b)]) (js_put L m n))
           | None \<Rightarrow> None))"

primrec ts_encode_table :: "'w js_lib \<Rightarrow> ts_item list \<Rightarrow> nat \<Rightarrow> string \<Rightarrow> tsval \<Rightarrow> 'w option" where
  "ts_encode_table L I 0 t v = None"
| "ts_encode_table L I (Suc n) t v =
     (case (v, map_of (concat (map item_encoders I)) t) of
        (TObject fs, Some e) \<Rightarrow>
          map_option (js_object L (te_slots e) \<circ> concat)
            (all_some (map (\<lambda>ef.
               field_slots L I (ts_encode_table L I n) ef (case map_of fs (ef_name ef) of Some x \<Rightarrow> x | None \<Rightarrow> Undefined))
               (te_fields e)))
      | _ \<Rightarrow> None)"

subsection \<open>Decoding\<close>

definition read_elements ::
  "'w js_lib \<Rightarrow> ts_item list \<Rightarrow> (string \<Rightarrow> 'w \<Rightarrow> tsval option) \<Rightarrow> element_read \<Rightarrow> 'w js_slot \<Rightarrow> tsval option" where
  "read_elements L I dec r s =
     map_option TArr
       (case (r, s) of
          (ReadTables t, JTables ws) \<Rightarrow> all_some (map (dec t) ws)
        | (ReadStrings, JStrings ss) \<Rightarrow> Some (map TStr ss)
        | (ReadBools, JScalars bs) \<Rightarrow> Some (map (\<lambda>b. TBoolean (js_get L ''readInt8'' b \<noteq> JsNumber 0)) bs)
        | (ReadScalars rd sz c, JScalars bs) \<Rightarrow> all_some (map (\<lambda>b. decode_scalar I c (js_get L rd b)) bs)
        | _ \<Rightarrow> None)"

definition literal_value :: "'w js_lib \<Rightarrow> ts_literal \<Rightarrow> tsval" where
  "literal_value L l =
     (case l of
        NumLit s \<Rightarrow> TNum (js_literal L s)
      | BoolLit b \<Rightarrow> TBoolean b
      | NamesLit ns \<Rightarrow> TArr (map TStr ns))"

text \<open>\<^verbatim>\<open>decodeUnion\<close>: an unknown discriminator decodes as absent.\<close>

definition decode_union ::
  "ts_item list \<Rightarrow> (string \<Rightarrow> 'w \<Rightarrow> tsval option) \<Rightarrow> string \<Rightarrow> js_num \<Rightarrow> 'w \<Rightarrow> tsval option" where
  "decode_union I dec u d w =
     (case map_of (concat (map item_union_helpers I)) u of
        None \<Rightarrow> None
      | Some members \<Rightarrow>
          (case List.find (\<lambda>(k, t, i). JsNumber i = d) members of
             Some (k, t, i) \<Rightarrow> map_option (TUnionVal k) (dec t w)
           | None \<Rightarrow> Some Undefined))"

definition decode_value ::
  "'w js_lib \<Rightarrow> ts_item list \<Rightarrow> (string \<Rightarrow> 'w \<Rightarrow> tsval option) \<Rightarrow> (string \<Rightarrow> 'w js_slot option) \<Rightarrow> string \<Rightarrow>
   decode_expr \<Rightarrow> tsval option" where
  "decode_value L I dec slot name e =
     (case e of
        DecodeVector ty r \<Rightarrow> (case slot name of None \<Rightarrow> Some Undefined | Some s \<Rightarrow> read_elements L I dec r s)
      | DecodeTable t \<Rightarrow> (case slot name of None \<Rightarrow> Some Undefined | Some (JTable w) \<Rightarrow> dec t w | _ \<Rightarrow> None)
      | DecodeString \<Rightarrow> (case slot name of None \<Rightarrow> Some Undefined | Some (JString s) \<Rightarrow> Some (TStr s) | _ \<Rightarrow> None)
      | DecodeUnion u \<Rightarrow>
          (case (slot name, slot (name @ ''_type'')) of
             (Some (JTable w), Some (JScalar b)) \<Rightarrow> decode_union I dec u (js_get L ''readUint8'' b) w
           | (None, _) \<Rightarrow> Some Undefined
           | (_, None) \<Rightarrow> Some Undefined
           | _ \<Rightarrow> None)
      | DecodeBool absent \<Rightarrow>
          (case slot name of
             None \<Rightarrow> Some (literal_value L absent)
           | Some (JScalar b) \<Rightarrow> Some (TBoolean (js_get L ''readInt8'' b \<noteq> JsNumber 0))
           | _ \<Rightarrow> None)
      | DecodeScalar rd c absent cast \<Rightarrow>
          (case slot name of
             None \<Rightarrow> Some (literal_value L absent)
           | Some (JScalar b) \<Rightarrow> decode_scalar I c (js_get L rd b)
           | _ \<Rightarrow> None))"

primrec ts_decode_table :: "'w js_lib \<Rightarrow> ts_item list \<Rightarrow> nat \<Rightarrow> string \<Rightarrow> 'w \<Rightarrow> tsval option" where
  "ts_decode_table L I 0 t w = None"
| "ts_decode_table L I (Suc n) t w =
     (case map_of (concat (map item_decoders I)) t of
        None \<Rightarrow> None
      | Some d \<Rightarrow>
          map_option TObject
            (all_some (map (\<lambda>(x, e). map_option (Pair x)
               (decode_value L I (ts_decode_table L I n)
                  (\<lambda>y. Option.bind (map_of (td_offsets d) y) (js_slot_at L w)) x e)) (td_fields d))))"

end
