(* ===== verification/TsRoundtrip.thy ===== *)
theory TsRoundtrip
  imports TsSemantics
begin

text \<open>
  The generated TypeScript codec reads back what it wrote, and its flag helpers agree with the Rust
  adapters.
\<close>

lemma all_some_Some: "all_some (map Some xs) = Some xs"
  by (induction xs) auto

lemma concat_nils [simp]: "concat (map (\<lambda>x. []) xs) = []"
  by (induction xs) auto

subsection \<open>Flags in both languages\<close>

lemma fold_and_not: "foldl (\<lambda>rest (n, m). and rest (not m)) (bits :: 64 word) met = and bits (not (or_all (map snd met)))"
proof (rule bit_eqI)
  fix j
  have "bit (foldl (\<lambda>rest (n, m). and rest (not m)) bits met) j \<longleftrightarrow> bit bits j \<and> (\<forall>p \<in> set met. \<not> bit (snd p) j)" if "j < 64"
    using that by (induction met arbitrary: bits) (auto simp: bit_and_iff bit_not_iff)
  moreover assume "possible_bit TYPE(64 word) j"
  ultimately show "bit (foldl (\<lambda>rest (n, m). and rest (not m)) bits met) j \<longleftrightarrow> bit (and bits (not (or_all (map snd met)))) j"
    by (auto simp: bit_and_iff bit_not_iff bit_or_all)
qed

lemma foldl_or: "foldl or (a :: 64 word) ws = or a (or_all ws)"
proof (rule bit_eqI)
  fix j
  have "bit (foldl or a ws) j \<longleftrightarrow> bit a j \<or> (\<exists>w \<in> set ws. bit w j)"
    by (induction ws arbitrary: a) (auto simp: bit_or_iff)
  then show "bit (foldl or a ws) j \<longleftrightarrow> bit (or a (or_all ws)) j" by (simp add: bit_or_iff bit_or_all)
qed

lemma met_same:
  assumes "single_bits e"
  shows "filter (\<lambda>(n, m). and v m \<noteq> 0) (flags e) = filter (\<lambda>(n, m). and v m = m) (flags e)"
  using contains_iff(1) [OF assms] by (intro filter_cong) auto

lemma flags_decode:
  assumes "single_bits e"
  shows "decode_flag_names (flags e) (uint v) =
      (case to_names e v of Inr ns \<Rightarrow> Some (TArr (map TStr ns)) | Inl _ \<Rightarrow> None)"
proof -
  let ?met = "filter (\<lambda>(n, m). and v m = m) (flags e)"
  have bits: "word_of_int (uint v) = v" by simp
  have left: "foldl (\<lambda>rest (n, m). and rest (not m)) v ?met = 0 \<longleftrightarrow> and v (not (all_bits e)) = 0"
  proof -
    have "bit (and v (not (or_all (map snd ?met)))) j \<longleftrightarrow> bit (and v (not (all_bits e))) j" for j
      by (cases "j < 64") (auto simp: bit_and_iff bit_not_iff met_flags [OF assms])
    then have "and v (not (or_all (map snd ?met))) = and v (not (all_bits e))" by (simp add: bit_eq_iff)
    then show ?thesis by (simp only: fold_and_not)
  qed
  show ?thesis
    unfolding decode_flag_names_def Let_def bits met_same [OF assms] left to_names_def
    by (simp add: comp_def)
qed

lemma flags_encode:
  assumes "single_bits e" "to_names e v = Inr ns"
  shows "encode_flag_names (flags e) (TArr (map TStr ns)) = Some (uint v)"
proof -
  have known: "and v (not (all_bits e)) = 0" using assms(2) by (auto simp: to_names_def split: if_splits)
  have "all_some (map (map_of (flags e)) ns) = Some (map snd (filter (\<lambda>(n, m). and v m = m) (flags e)))"
    unfolding met_names [OF assms] by (rule all_some_Some)
  then show ?thesis using or_met [OF assms(1) known] by (simp add: encode_flag_names_def comp_def foldl_or)
qed

text \<open>
  C28. The flag helpers of the two generators agree on every 64-bit value: TypeScript decodes it to
  the names Rust serializes it to, in the same order, throws just when Rust fails, and the names
  encode to the value again in both.
\<close>

theorem flag_helpers_agree:
  assumes "single_bits e"
  shows "decode_flag_names (flags e) (uint v) =
      (case to_names e v of Inr ns \<Rightarrow> Some (TArr (map TStr ns)) | Inl _ \<Rightarrow> None) \<and>
    (\<forall>ns. to_names e v = Inr ns \<longrightarrow>
      encode_flag_names (flags e) (TArr (map TStr ns)) = Some (uint v) \<and> from_names e ns = Inr v)"
  using flags_decode [OF assms] flags_encode [OF assms] flags_names_back [OF assms] by blast

theorem flag_helpers_agree_witness:
  "encode_flag_names (flags traits) (TArr [TStr ''Money'', TStr ''Gmail'']) = Some 3 \<and>
   decode_flag_names (flags traits) 3 = Some (TArr [TStr ''Money'', TStr ''Gmail''])"
proof -
  have "to_names traits 3 = Inr [''Money'', ''Gmail'']" by code_simp
  then show ?thesis using flag_helpers_agree [OF traits_single_bits, of 3] by simp
qed

subsection \<open>The items of a codec\<close>

lemma codec_items:
  assumes "I = generate_codec S"
  shows "concat (map item_flags I) = map (\<lambda>e. (em_name e, flags e)) (filter (\<lambda>e. em_kind e = BitFlags) (sc_enums S))"
    and "concat (map item_union_helpers I) =
      map (\<lambda>u. (em_name u, zip (em_variants u) (zip (union_tables u) (em_values u)))) (sc_unions S)"
    and "concat (map item_encoders I) =
      map (\<lambda>t. (tb_name t, \<lparr>te_table = tb_name t, te_slots = slot_count t, te_fields = map (encode_field_of S) (tb_fields t)\<rparr>)) (sc_tables S)"
    and "concat (map item_decoders I) =
      map (\<lambda>t. (tb_name t, \<lparr>td_table = tb_name t, td_offsets = concat (map (decode_offsets S) (tb_fields t)),
        td_fields = map (\<lambda>f. (fd_name f, decode_field S f)) (tb_fields t)\<rparr>)) (sc_tables S)"
proof -
  have pairs: "concat (map g (concat (map (\<lambda>t. [f t, h t]) xs))) = concat (map (\<lambda>t. g (f t) @ g (h t)) xs)"
    for f h :: "table \<Rightarrow> ts_item" and g :: "ts_item \<Rightarrow> 'b list" and xs
    by (induction xs) auto
  have one: "concat (map (\<lambda>x. [f x]) xs) = map f xs" for f :: "'a \<Rightarrow> 'b" and xs by (induction xs) auto
  note defs = generate_codec_def assms pairs one flags_helpers_def union_helpers_def encode_table_def decode_table_def comp_def
  show "concat (map item_flags I) = map (\<lambda>e. (em_name e, flags e)) (filter (\<lambda>e. em_kind e = BitFlags) (sc_enums S))"
    by (simp add: defs)
  show "concat (map item_union_helpers I) =
      map (\<lambda>u. (em_name u, zip (em_variants u) (zip (union_tables u) (em_values u)))) (sc_unions S)"
    by (simp add: defs)
  show "concat (map item_encoders I) =
      map (\<lambda>t. (tb_name t, \<lparr>te_table = tb_name t, te_slots = slot_count t, te_fields = map (encode_field_of S) (tb_fields t)\<rparr>)) (sc_tables S)"
    by (simp add: defs)
  show "concat (map item_decoders I) =
      map (\<lambda>t. (tb_name t, \<lparr>td_table = tb_name t, td_offsets = concat (map (decode_offsets S) (tb_fields t)),
        td_fields = map (\<lambda>f. (fd_name f, decode_field S f)) (tb_fields t)\<rparr>)) (sc_tables S)"
    by (simp add: defs)
qed

subsection \<open>Scalars on the wire\<close>

definition row_for :: "string \<Rightarrow> (string \<times> string \<times> string \<times> bool \<times> int \<times> int) option" where
  "row_for rd = List.find (\<lambda>(af, va, r, big, lo, hi). r = rd) js_rows"

definition row_fits :: "scalar \<Rightarrow> bool" where
  "row_fits s \<longleftrightarrow>
     (case row_for (sc_read s) of
        None \<Rightarrow> List.member js_float_rows (sc_add_field s, sc_vec_add s, sc_read s)
      | Some (af, va, rd, big, lo, hi) \<Rightarrow>
          af = sc_add_field s \<and> va = sc_vec_add s \<and> rd = sc_read s \<and>
          (\<forall>x \<in> set js_float_rows. snd (snd x) \<noteq> rd))"

lemma find_in: "List.find P xs = Some x \<Longrightarrow> x \<in> set xs \<and> P x"
  by (auto simp: find_Some_iff)

lemma scalar_fits: "row_fits (scalar t)"
proof -
  have "list_all (\<lambda>(ns, s). row_fits s) scalar_rows" "row_fits (scalar_row ''addFieldInt32'' ''addInt32'' ''readInt32'' 4 ''0'')"
    by code_simp+
  note rows = this
  show ?thesis
  proof (cases "List.find (\<lambda>(ns, s). List.member ns t) scalar_rows")
    case None
    then show ?thesis using rows(2) by (simp only: scalar_def option.case)
  next
    case (Some p)
    then obtain ns s where p: "p = (ns, s)" "(ns, s) \<in> set scalar_rows" using find_in by (metis prod.collapse)
    then have "row_fits s" using rows(1) unfolding list_all_iff by blast
    then show ?thesis using Some p(1) by (simp add: scalar_def)
  qed
qed

lemma js_lib_okD:
  assumes "js_lib_ok L"
  shows "r \<in> set js_rows \<Longrightarrow> row_ok L r" and "x \<in> set js_float_rows \<Longrightarrow> float_row_ok L x"
    and "distinct (map fst slots) \<Longrightarrow>
      js_slot_at L (js_object L n slots) (4 + i * 2) = (if i < n then map_of slots i else None)"
    and "js_literal L (show_int k) = JsNumber k" and "js_literal L (show_int k @ ''n'') = JsBigint k"
proof -
  have "list_all (row_ok L) js_rows" "list_all (float_row_ok L) js_float_rows" using assms by (simp_all only: js_lib_ok_def)
  then show "r \<in> set js_rows \<Longrightarrow> row_ok L r" "x \<in> set js_float_rows \<Longrightarrow> float_row_ok L x" by (simp_all only: list_all_iff)
  show "distinct (map fst slots) \<Longrightarrow> js_slot_at L (js_object L n slots) (4 + i * 2) = (if i < n then map_of slots i else None)"
    "js_literal L (show_int k) = JsNumber k" "js_literal L (show_int k @ ''n'') = JsBigint k"
    using assms by (simp_all only: js_lib_ok_def)
qed

text \<open>A number in the range of its type's row crosses, as a field and as an element.\<close>

definition wire_range :: "string \<Rightarrow> bool \<times> int \<times> int" where
  "wire_range t =
     (case row_for (sc_read (scalar t)) of
        Some (af, va, rd, big, lo, hi) \<Rightarrow> (big, lo, hi)
      | None \<Rightarrow> (False, 0, 0))"

definition crosses :: "'w js_lib \<Rightarrow> scalar \<Rightarrow> js_num \<Rightarrow> bool" where
  "crosses L s n \<longleftrightarrow>
     (\<exists>b. js_put L (sc_add_field s) n = Some b \<and> js_get L (sc_read s) b = n) \<and>
     (\<exists>b. js_put L (sc_vec_add s) n = Some b \<and> js_get L (sc_read s) b = n)"

lemma scalar_crosses:
  assumes "js_lib_ok L" "wire_range t = (big, lo, hi)" "lo \<le> i" "i < hi"
  shows "crosses L (scalar t) (js_num_of big i)"
proof -
  have "row_for (sc_read (scalar t)) \<noteq> None" using assms(2-4) by (cases "row_for (sc_read (scalar t))") (auto simp: wire_range_def)
  then obtain af va rd big' lo' hi' where row: "row_for (sc_read (scalar t)) = Some (af, va, rd, big', lo', hi')" by auto
  have b: "big' = big" "lo' = lo" "hi' = hi" using assms(2) by (simp_all add: wire_range_def row)
  have r: "af = sc_add_field (scalar t)" "va = sc_vec_add (scalar t)" "rd = sc_read (scalar t)"
    using scalar_fits [of t] by (simp_all add: row_fits_def row)
  have "(af, va, rd, big', lo', hi') \<in> set js_rows" by (rule find_in [OF row [unfolded row_for_def], THEN conjunct1])
  then have "row_ok L (af, va, rd, big, lo, hi)" using js_lib_okD(1) [OF assms(1)] b by simp
  then show ?thesis using assms(3,4) unfolding row_ok_def crosses_def r by simp
qed

lemma float_crosses:
  assumes "js_lib_ok L" "float_fits (sc_read (scalar t)) n"
  shows "crosses L (scalar t) n"
proof -
  let ?s = "scalar t"
  have rd: "sc_read ?s \<in> {''readFloat32'', ''readFloat64''}" using assms(2) by (auto simp: float_fits_def split: js_num.splits)
  have "row_for ''readFloat32'' = None" "row_for ''readFloat64'' = None" by code_simp+
  then have "row_for (sc_read ?s) = None" using rd by auto
  then have "(sc_add_field ?s, sc_vec_add ?s, sc_read ?s) \<in> set js_float_rows" using scalar_fits [of t] by (simp add: row_fits_def)
  from js_lib_okD(2) [OF assms(1) this] show ?thesis using assms(2) unfolding float_row_ok_def crosses_def prod.case by blast
qed

lemma wire_range_facts:
  shows "fst (wire_range t) \<longleftrightarrow> t \<in> {''uint64'', ''ulong'', ''int64'', ''long''}"
    and "fst (snd (wire_range t)) \<le> 0"
proof -
  have rows: "list_all (\<lambda>(ns, s). list_all (\<lambda>t. (fst (wire_range t) \<longleftrightarrow> List.member [''uint64'', ''ulong'', ''int64'', ''long''] t) \<and>
      fst (snd (wire_range t)) \<le> 0) ns) scalar_rows"
    by code_simp
  have named: "List.find (\<lambda>(ns, s). List.member ns x) scalar_rows \<noteq> None" if "x \<in> {''uint64'', ''ulong'', ''int64'', ''long''}" for x
  proof -
    have "list_all (\<lambda>x. List.find (\<lambda>(ns, s). List.member ns x) scalar_rows \<noteq> None) [''uint64'', ''ulong'', ''int64'', ''long'']"
      by code_simp
    moreover have "x \<in> set [''uint64'', ''ulong'', ''int64'', ''long'']" using that by simp
    ultimately show ?thesis unfolding list_all_iff by (rule bspec)
  qed
  have "(fst (wire_range t) \<longleftrightarrow> t \<in> {''uint64'', ''ulong'', ''int64'', ''long''}) \<and> fst (snd (wire_range t)) \<le> 0"
  proof (cases "List.find (\<lambda>(ns, s). List.member ns t) scalar_rows")
    case None
    then have "scalar t = scalar_row ''addFieldInt32'' ''addInt32'' ''readInt32'' 4 ''0''" by (simp add: scalar_def)
    moreover have "row_for (sc_read (scalar_row ''addFieldInt32'' ''addInt32'' ''readInt32'' 4 ''0'')) =
        Some (''addFieldInt32'', ''addInt32'', ''readInt32'', False, - (2 ^ 31), 2 ^ 31)" by code_simp
    ultimately have "wire_range t = (False, - (2 ^ 31), 2 ^ 31)" by (simp add: wire_range_def)
    moreover have "t \<notin> {''uint64'', ''ulong'', ''int64'', ''long''}" by (rule notI, drule named, erule notE) (rule None)
    ultimately show ?thesis by simp
  next
    case (Some p)
    then obtain ns s where p: "p = (ns, s)" "(ns, s) \<in> set scalar_rows" "t \<in> set ns"
      using find_in [OF Some] by (cases p) auto
    have "list_all (\<lambda>t. (fst (wire_range t) \<longleftrightarrow> List.member [''uint64'', ''ulong'', ''int64'', ''long''] t) \<and>
        fst (snd (wire_range t)) \<le> 0) ns"
      using rows [unfolded list_all_iff, rule_format, OF p(2)] by (simp only: prod.case list_all_iff)
    from this [unfolded list_all_iff, rule_format, OF p(3)] show ?thesis by simp
  qed
  then show "fst (wire_range t) \<longleftrightarrow> t \<in> {''uint64'', ''ulong'', ''int64'', ''long''}" "fst (snd (wire_range t)) \<le> 0"
    by blast+
qed

subsection \<open>Typed values\<close>

definition range_of :: "ts_schema \<Rightarrow> string \<Rightarrow> bool \<times> int \<times> int" where
  "range_of S t = wire_range (scalar_fbs S t)"

text \<open>A plain enum is a \<^verbatim>\<open>number\<close> in TypeScript, whatever its width.\<close>

definition num_ok :: "ts_schema \<Rightarrow> string \<Rightarrow> js_num \<Rightarrow> bool" where
  "num_ok S t n \<longleftrightarrow>
     (case range_of S t of
        (big, lo, hi) \<Rightarrow>
          (case n of
             JsNumber i \<Rightarrow> (\<not> big \<or> ts_is_enum S t) \<and> lo \<le> i \<and> i < hi
           | JsFraction w \<Rightarrow> False
           | JsBigint i \<Rightarrow> big \<and> \<not> ts_is_enum S t \<and> lo \<le> i \<and> i < hi)) \<or>
     float_fits (sc_read (scalar (scalar_fbs S t))) n"

definition names_ok :: "ts_schema \<Rightarrow> string \<Rightarrow> string list \<Rightarrow> bool" where
  "names_ok S t ns \<longleftrightarrow>
     (case enum_named S t of
        None \<Rightarrow> False
      | Some e \<Rightarrow>
          (case from_names e ns of
             Inl _ \<Rightarrow> False
           | Inr w \<Rightarrow> to_names e w = Inr ns \<and> uint w < snd (snd (range_of S t))))"

inductive ts_typed :: "table list \<Rightarrow> enum list \<Rightarrow> string \<Rightarrow> tsval \<Rightarrow> bool" for ts es where
  tt_num: "scalar_like es ty \<Longrightarrow> ty \<noteq> ''bool'' \<Longrightarrow> \<not> is_flags (schema_of ts es) ty \<Longrightarrow> num_ok (schema_of ts es) ty n \<Longrightarrow>
    ts_typed ts es ty (TNum n)"
| tt_bool: "ts_typed ts es ''bool'' (TBoolean b)"
| tt_flags: "ty \<in> em_name ` set (plain_enums es) \<Longrightarrow> is_flags (schema_of ts es) ty \<Longrightarrow> names_ok (schema_of ts es) ty ns \<Longrightarrow>
    ts_typed ts es ty (TArr (map TStr ns))"
| tt_string: "ts_typed ts es ''string'' (TStr s)"
| tt_vec: "\<forall>v \<in> set vs. ts_typed ts es ty v \<Longrightarrow> ts_typed ts es (vector_type ty) (TArr vs)"
| tt_union: "u \<in> set (unions es) \<Longrightarrow> (k, t) \<in> set (zip (em_variants u) (union_tables u)) \<Longrightarrow> ts_typed ts es t v \<Longrightarrow>
    ts_typed ts es (em_name u) (TUnionVal k v)"
| tt_table: "t \<in> set ts \<Longrightarrow> length fs = length (tb_fields t) \<Longrightarrow>
    \<forall>p \<in> set (zip (tb_fields t) fs).
      fst (snd p) = fd_name (fst p) \<and>
      (snd (snd p) = Undefined \<and> \<not> scalar_like es (fd_fbs_type (fst p)) \<or> ts_typed ts es (fd_fbs_type (fst p)) (snd (snd p))) \<Longrightarrow>
    ts_typed ts es (tb_name t) (TObject fs)"

lemma scalar_like_bool: "scalar_like es ''bool''"
  by (simp add: scalar_like_def rust_scalars_def)

lemma scalar_like_enum: "ty \<in> em_name ` set (plain_enums es) \<Longrightarrow> scalar_like es ty"
  by (simp add: scalar_like_def)

lemma ts_string_val:
  assumes "namespace_ok ts es" "ts_typed ts es ''string'' v"
  shows "\<exists>s. v = TStr s"
  using assms(2)
proof cases
  case (tt_num n)
  then show ?thesis using scalar_like_kind(1) [OF assms(1)] by blast
next
  case (tt_flags ns)
  then show ?thesis using scalar_like_kind(1) [OF assms(1) scalar_like_enum] by blast
qed (use string_not_vector name_kind [OF assms(1)] in metis)+

lemma ts_vector_val:
  assumes "namespace_ok ts es" "ts_typed ts es (vector_type ty) v"
  shows "\<exists>vs. v = TArr vs \<and> (\<forall>x \<in> set vs. ts_typed ts es ty x)"
  using assms(2)
proof cases
  case (tt_num n)
  then show ?thesis using scalar_like_kind(2) [OF assms(1)] by blast
next
  case (tt_bool b)
  then show ?thesis using scalar_like_kind(2) [OF assms(1) scalar_like_bool] by metis
next
  case (tt_flags ns)
  then show ?thesis using scalar_like_kind(2) [OF assms(1) scalar_like_enum] by blast
next
  case (tt_vec vs ty')
  then show ?thesis by simp
qed (use string_not_vector name_kind [OF assms(1)] in metis)+

lemma ts_table_val:
  assumes "namespace_ok ts es" "t \<in> set ts" "ts_typed ts es (tb_name t) v"
  shows "\<exists>fs. v = TObject fs \<and> length fs = length (tb_fields t) \<and>
    (\<forall>p \<in> set (zip (tb_fields t) fs). fst (snd p) = fd_name (fst p) \<and>
      (snd (snd p) = Undefined \<and> \<not> scalar_like es (fd_fbs_type (fst p)) \<or> ts_typed ts es (fd_fbs_type (fst p)) (snd (snd p))))"
  using assms(3)
proof cases
  case (tt_num n)
  then show ?thesis using scalar_like_kind(3) [OF assms(1) _ assms(2)] by blast
next
  case (tt_bool b)
  then show ?thesis using scalar_like_kind(3) [OF assms(1) scalar_like_bool assms(2)] by metis
next
  case (tt_flags ns)
  then show ?thesis using scalar_like_kind(3) [OF assms(1) scalar_like_enum assms(2)] by blast
next
  case (tt_table t' fs)
  then have "t' = t" using namespace_names(4) [OF assms(1)] assms(2) by (metis inj_onD)
  with tt_table show ?thesis by blast
qed (use name_kind [OF assms(1)] assms(2) in metis)+

lemma ts_union_val:
  assumes "namespace_ok ts es" "u \<in> set (unions es)" "ts_typed ts es (em_name u) v"
  shows "\<exists>k t w. v = TUnionVal k w \<and> (k, t) \<in> set (zip (em_variants u) (union_tables u)) \<and> ts_typed ts es t w"
  using assms(3)
proof cases
  case (tt_num n)
  then show ?thesis using scalar_like_kind(4) [OF assms(1) _ assms(2)] by blast
next
  case (tt_bool b)
  then show ?thesis using scalar_like_kind(4) [OF assms(1) scalar_like_bool assms(2)] by metis
next
  case (tt_flags ns)
  then show ?thesis using scalar_like_kind(4) [OF assms(1) scalar_like_enum assms(2)] by blast
next
  case (tt_union u' k t v')
  then have "u' = u" using namespace_names(5) [OF assms(1)] assms(2) by (metis inj_onD union_in)
  with tt_union show ?thesis by blast
next
  case (tt_table t' fs)
  then show ?thesis using name_kind(5) [OF assms(1) _ assms(2)] by metis
qed (use name_kind [OF assms(1)] assms(2) in metis)+

subsection \<open>What a scalar's type says\<close>

text \<open>
  The schema's enums: a flag each of a \<^verbatim>\<open>bit_flags\<close> enum's bits, and no 64-bit plain enum, whose
  TypeScript \<^verbatim>\<open>number\<close> the generated \<^verbatim>\<open>addFieldInt64\<close> refuses.
\<close>

definition enums_ok :: "enum list \<Rightarrow> bool" where
  "enums_ok es \<longleftrightarrow>
     list_all (\<lambda>e. if em_kind e = BitFlags then single_bits e else \<not> fst (wire_range (em_underlying e))) (plain_enums es)"

lemma find_keyed: "x \<in> set xs \<Longrightarrow> distinct (map k xs) \<Longrightarrow> List.find (\<lambda>y. k y = k x) xs = Some x"
  by (induction xs) auto

lemma enums_distinct:
  assumes "namespace_ok ts es"
  shows "distinct (map em_name (plain_enums es))" "distinct (map em_name (unions es))"
  using namespace_okD(6) [OF assms] unfolding distinct_append unions_def plain_enums_def by (blast intro: distinct_map_filter)+

lemma enum_lookup:
  assumes "namespace_ok ts es" "e \<in> set (plain_enums es)"
  shows "enum_named (schema_of ts es) (em_name e) = Some e"
    and "scalar_fbs (schema_of ts es) (em_name e) = em_underlying e"
proof -
  note d = enums_distinct(1) [OF assms(1)]
  show "enum_named (schema_of ts es) (em_name e) = Some e"
    using find_keyed [OF assms(2) d] by (simp add: enum_named_def schema_of_def)
  have "map_of (rev (map (\<lambda>e. (em_name e, em_underlying e)) (plain_enums es))) (em_name e) = Some (em_underlying e)"
    using assms(2) d by (intro map_of_is_SomeI) (auto simp: comp_def rev_map [symmetric])
  then show "scalar_fbs (schema_of ts es) (em_name e) = em_underlying e" by (simp add: scalar_fbs_def schema_of_def)
qed

lemma scalar_lookup:
  assumes "namespace_ok ts es" "map_of rust_scalars ty \<noteq> None"
  shows "enum_named (schema_of ts es) ty = None" "scalar_fbs (schema_of ts es) ty = ty"
proof -
  have none: "ty \<notin> em_name ` set (plain_enums es)"
    using type_names_enums(1) [OF assms(1)] assms(2) by (auto simp: list_all_iff type_name_def)
  then show "enum_named (schema_of ts es) ty = None" by (auto simp: enum_named_def schema_of_def find_None_iff)
  have "map_of (rev (map (\<lambda>e. (em_name e, em_underlying e)) (plain_enums es))) ty = None"
    using none by (auto simp: map_of_eq_None_iff)
  then show "scalar_fbs (schema_of ts es) ty = ty" by (simp add: scalar_fbs_def schema_of_def)
qed

lemma bool_facts:
  assumes "namespace_ok ts es"
  shows "is_flags (schema_of ts es) ''bool'' = False" "ts_is_enum (schema_of ts es) ''bool'' = False"
    "scalar_fbs (schema_of ts es) ''bool'' = ''bool''" "wire_range ''bool'' = (False, - (2 ^ 7), 2 ^ 7)"
proof -
  have b: "map_of rust_scalars ''bool'' \<noteq> None" by (simp add: rust_scalars_def)
  note l = scalar_lookup [OF assms b]
  show "is_flags (schema_of ts es) ''bool'' = False" "ts_is_enum (schema_of ts es) ''bool'' = False"
    "scalar_fbs (schema_of ts es) ''bool'' = ''bool''"
    using l by (simp_all add: is_flags_def ts_is_enum_def)
  show "wire_range ''bool'' = (False, - (2 ^ 7), 2 ^ 7)" by code_simp
qed

lemma ts_scalar_val:
  assumes "namespace_ok ts es" "scalar_like es ty" "ts_typed ts es ty v"
  shows "(\<exists>b. ty = ''bool'' \<and> v = TBoolean b) \<or>
    (\<exists>n. ty \<noteq> ''bool'' \<and> \<not> is_flags (schema_of ts es) ty \<and> v = TNum n \<and> num_ok (schema_of ts es) ty n) \<or>
    (\<exists>ns. is_flags (schema_of ts es) ty \<and> v = TArr (map TStr ns) \<and> names_ok (schema_of ts es) ty ns)"
  using assms(3) by cases (use scalar_like_kind [OF assms(1,2)] in metis)+

text \<open>What the decoder makes of a scalar it has read.\<close>

definition scalar_back :: "ts_item list \<Rightarrow> ts_schema \<Rightarrow> string \<Rightarrow> js_num \<Rightarrow> tsval option" where
  "scalar_back I S ty n =
     (if ty = ''bool'' then Some (TBoolean (n \<noteq> JsNumber 0))
      else decode_scalar I (if is_flags S ty then flags_conv S ty else AsIs) n)"

lemma flags_helper:
  assumes "namespace_ok ts es" "enum_named (schema_of ts es) ty = Some e" "em_kind e = BitFlags"
  shows "map_of (concat (map item_flags (generate_codec (schema_of ts es)))) ty = Some (flags e)"
proof -
  have e: "e \<in> set (plain_enums es)" "em_name e = ty"
    using find_in [OF assms(2) [unfolded enum_named_def]] by (simp_all add: schema_of_def)
  have "distinct (map em_name (filter (\<lambda>e. em_kind e = BitFlags) (plain_enums es)))"
    using enums_distinct(1) [OF assms(1)] by (rule distinct_map_filter)
  then show ?thesis unfolding codec_items(1) [OF refl] using e assms(3)
    by (intro map_of_is_SomeI) (auto simp: comp_def schema_of_def)
qed

lemma flags_cross:
  assumes "namespace_ok ts es" "enums_ok es" and S: "S = schema_of ts es" and I: "I = generate_codec S"
    and "is_flags S ty" "names_ok S ty ns"
  shows "\<exists>e w lo hi. enum_named S ty = Some e \<and> single_bits e \<and> to_names e w = Inr ns \<and>
    wire_range (scalar_fbs S ty) = (fst (wire_range (scalar_fbs S ty)), lo, hi) \<and> lo \<le> uint w \<and> uint w < hi \<and>
    encode_scalar I (flags_conv S ty) (TArr (map TStr ns)) = Some (js_num_of (fst (wire_range (scalar_fbs S ty))) (uint w)) \<and>
    decode_scalar I (flags_conv S ty) (js_num_of (fst (wire_range (scalar_fbs S ty))) (uint w)) = Some (TArr (map TStr ns))"
proof -
  let ?big = "fst (wire_range (scalar_fbs S ty))"
  obtain e where e: "enum_named S ty = Some e" "em_kind e = BitFlags"
    using assms(5) by (auto simp: is_flags_def split: option.splits)
  have "e \<in> set (plain_enums es)" using find_in [OF e(1) [unfolded enum_named_def]] by (simp add: S schema_of_def)
  then have bits: "single_bits e" using assms(2) e(2) by (auto simp: enums_ok_def list_all_iff)
  obtain w where w: "to_names e w = Inr ns" "uint w < snd (snd (wire_range (scalar_fbs S ty)))"
    using assms(6) e(1) by (auto simp: names_ok_def range_of_def split: sum.splits)
  obtain lo hi where r: "wire_range (scalar_fbs S ty) = (?big, lo, hi)" by (metis prod.collapse)
  have "lo \<le> 0" "uint w < hi" using wire_range_facts(2) [of "scalar_fbs S ty"] w(2) r by (metis fst_conv snd_conv)+
  moreover have "0 \<le> uint w" by simp
  ultimately have range: "lo \<le> uint w" "uint w < hi" by linarith+
  have conv: "flags_conv S ty = (if ?big then FlagsBig ty else FlagsNumber ty)"
    by (simp add: flags_conv_def wire_range_facts(1))
  have helper: "map_of (concat (map item_flags I)) ty = Some (flags e)"
    using flags_helper [OF assms(1)] e unfolding S I by blast
  have decode: "decode_flag_names (flags e) (uint w) = Some (TArr (map TStr ns))"
    using flags_decode [OF bits, of w] w(1) by simp
  show ?thesis
    using e(1) bits w(1) r range flags_encode [OF bits w(1)] decode
    by (intro exI [of _ e] exI [of _ w] exI [of _ lo] exI [of _ hi])
      (simp add: conv encode_scalar_def decode_scalar_def helper js_num_of_def)
qed

text \<open>A typed scalar crosses as a field and as an element, and the decoder makes it what it was.\<close>

lemma scalar_wire:
  assumes "js_lib_ok L" "namespace_ok ts es" "enums_ok es" and S: "S = schema_of ts es" and I: "I = generate_codec S"
    and "scalar_like es ty" "ts_typed ts es ty v"
  shows "\<exists>n. encode_scalar I (encode_conv S ty) v = Some n \<and> crosses L (scalar (scalar_fbs S ty)) n \<and>
    scalar_back I S ty n = Some v"
proof -
  consider b where "ty = ''bool''" "v = TBoolean b"
    | n where "ty \<noteq> ''bool''" "\<not> is_flags S ty" "v = TNum n" "num_ok S ty n"
    | ns where "is_flags S ty" "v = TArr (map TStr ns)" "names_ok S ty ns"
    using ts_scalar_val [OF assms(2,6,7)] unfolding S by blast
  then show ?thesis
  proof cases
    case (1 b)
    note bf = bool_facts [OF assms(2), folded S]
    have "crosses L (scalar ''bool'') (js_num_of False (if b then 1 else 0))"
      by (rule scalar_crosses [OF assms(1) bf(4)]) auto
    then show ?thesis
      using 1 bf by (simp add: encode_conv_def encode_scalar_def scalar_back_def js_num_of_def)
  next
    case (2 n)
    obtain big lo hi where r: "wire_range (scalar_fbs S ty) = (big, lo, hi)" by (metis prod.collapse)
    have plain: "\<not> big" if enum: "ts_is_enum S ty"
    proof -
      obtain e where e: "enum_named S ty = Some e" "em_kind e = Plain"
        using enum by (auto simp: ts_is_enum_def split: option.splits)
      then have m: "e \<in> set (plain_enums es)" "em_name e = ty"
        using find_in [OF e(1) [unfolded enum_named_def]] by (simp_all add: S schema_of_def)
      then have "\<not> fst (wire_range (em_underlying e))" using assms(3) e(2) by (auto simp: enums_ok_def list_all_iff)
      then show ?thesis using enum_lookup(2) [OF assms(2) m(1)] m(2) r by (simp add: S)
    qed
    have "crosses L (scalar (scalar_fbs S ty)) n"
    proof (cases "float_fits (sc_read (scalar (scalar_fbs S ty))) n")
      case True
      then show ?thesis by (rule float_crosses [OF assms(1)])
    next
      case False
      then obtain i where "n = js_num_of big i" "lo \<le> i" "i < hi"
        using 2(4) plain by (auto simp: num_ok_def range_of_def r js_num_of_def split: js_num.splits)
      then show ?thesis using scalar_crosses [OF assms(1) r] by simp
    qed
    then show ?thesis
      using 2 by (simp add: encode_conv_def encode_scalar_def scalar_back_def decode_scalar_def)
  next
    case (3 ns)
    have "ty \<noteq> ''bool''" using 3(1) bool_facts(1) [OF assms(2)] S by auto
    with flags_cross [OF assms(2,3) S I 3(1,3)] show ?thesis
      using 3 scalar_crosses [OF assms(1)] by (simp add: encode_conv_def scalar_back_def) metis
  qed
qed

text \<open>What a scalar decodes to when its slot is absent is the value it was not written for.\<close>

lemma absent_back:
  assumes "js_lib_ok L" "namespace_ok ts es" "enums_ok es" and S: "S = schema_of ts es" and I: "I = generate_codec S"
    and t: "fd_fbs_type f = ty" "scalar_like es ty" "ts_typed ts es ty v"
    and n: "encode_scalar I (encode_conv S ty) v = Some (js_literal L (fst (field_defaults S f)))"
  shows "literal_value L (snd (field_defaults S f)) = v"
proof -
  consider b where "ty = ''bool''" "v = TBoolean b"
    | n where "ty \<noteq> ''bool''" "\<not> is_flags S ty" "v = TNum n" "num_ok S ty n"
    | ns where "is_flags S ty" "v = TArr (map TStr ns)" "names_ok S ty ns"
    using ts_scalar_val [OF assms(2) t(2,3)] unfolding S by blast
  then show ?thesis
  proof cases
    case (1 b)
    have digits: "show_int 0 = ''0''" "show_int 1 = ''1''" by code_simp+
    have lit: "js_literal L ''0'' = JsNumber 0" by (rule js_lib_okD(4) [OF assms(1), of 0, unfolded digits])
    have lit1: "js_literal L ''1'' = JsNumber 1" by (rule js_lib_okD(4) [OF assms(1), of 1, unfolded digits])
    note lit = lit lit1
    note bf = bool_facts(1,2) [OF assms(2), folded S]
    have fd: "field_defaults S f = (if fd_default f = Some ''true'' then (''1'', BoolLit True) else (''0'', BoolLit False))"
      unfolding field_defaults_def Let_def t(1) 1(1) bf by (simp split: option.split)
    have "encode_conv S ty = BoolConv" by (simp add: encode_conv_def 1(1))
    then have "JsNumber (if b then 1 else 0) = js_literal L (fst (field_defaults S f))"
      using n by (simp add: encode_scalar_def 1(2))
    then show ?thesis unfolding fd using lit 1(2) by (cases "fd_default f = Some ''true''"; cases b) (simp_all add: literal_value_def)
  next
    case (2 n)
    then show ?thesis
      using n t(1) by (auto simp: field_defaults_def Let_def encode_conv_def encode_scalar_def literal_value_def split: option.splits)
  next
    case (3 ns)
    from flags_cross [OF assms(2,3) S I 3(1,3)] obtain e w where
      e: "enum_named S ty = Some e" "single_bits e" "to_names e w = Inr ns"
      "encode_scalar I (flags_conv S ty) v = Some (js_num_of (fst (wire_range (scalar_fbs S ty))) (uint w))"
      unfolding 3(2) by blast
    have not_bool: "ty \<noteq> ''bool''" using 3(1) bool_facts(1) [OF assms(2)] S by auto
    define m :: "64 word" where "m = (case fd_default f of None \<Rightarrow> 0 | Some lit \<Rightarrow> word_of_int (enum_value S ty (after_colons lit)))"
    have fd: "field_defaults S f = (show_nat (unat m) @ suffix_n (is_64 S ty), NamesLit (flag_names S ty m))"
      unfolding field_defaults_def Let_def t(1) m_def by (simp only: 3(1) if_True)
    have "js_literal L (show_nat (unat m) @ suffix_n (is_64 S ty)) =
        js_num_of (is_64 S ty) (uint m)"
    proof -
      have "show_nat (unat m) = show_int (uint m)" by (simp add: show_int_def)
      then show ?thesis using js_lib_okD(4,5) [OF assms(1)] by (simp add: suffix_n_def js_num_of_def)
    qed
    then have "uint w = uint m" using n e(4) 3(1) not_bool unfolding fd
      by (auto simp: encode_conv_def js_num_of_def split: if_splits)
    then have "w = m" by (simp add: word_uint_eq_iff)
    moreover have "ns = map fst (filter (\<lambda>(n, f). and w f = f) (flags e))"
      using e(3) by (auto simp: to_names_def split: if_splits)
    moreover have "flag_names S ty m = map fst (filter (\<lambda>(n, f). and m f \<noteq> 0) (flags e))"
      by (simp add: flag_names_def e(1) flags_def filter_map comp_def case_prod_unfold)
    ultimately have "flag_names S ty m = ns" by (simp only: met_same [OF e(2)])
    then show ?thesis by (simp add: fd literal_value_def 3(2))
  qed
qed

subsection \<open>One field\<close>

text \<open>What flatc guarantees of a table: the ids and the names its slots go by are distinct.\<close>

definition field_ids :: "ts_schema \<Rightarrow> field \<Rightarrow> nat list" where
  "field_ids S f = (if ts_is_union S (fd_fbs_type f) then [unat (fd_id f - 1)] else []) @ [unat (fd_id f)]"

definition slots_ok :: "ts_schema \<Rightarrow> table \<Rightarrow> bool" where
  "slots_ok S t \<longleftrightarrow>
     distinct (concat (map (field_ids S) (tb_fields t))) \<and>
     distinct (map fst (concat (map (decode_offsets S) (tb_fields t)))) \<and>
     list_all (\<lambda>f. ts_is_union S (fd_fbs_type f) \<longrightarrow> fd_id f \<noteq> 0) (tb_fields t)"

definition unions_ok :: "enum list \<Rightarrow> bool" where
  "unions_ok es \<longleftrightarrow>
     list_all (\<lambda>u. distinct (em_variants u) \<and> distinct (em_values u) \<and>
       length (em_values u) = length (em_variants u) \<and> list_all (\<lambda>v. 0 \<le> v \<and> v < 2 ^ 8) (em_values u)) (unions es)"

definition ts_carries ::
  "'w js_lib \<Rightarrow> ts_item list \<Rightarrow> (string \<Rightarrow> tsval \<Rightarrow> 'w option) \<Rightarrow> (string \<Rightarrow> 'w \<Rightarrow> tsval option) \<Rightarrow>
   ts_schema \<Rightarrow> field \<Rightarrow> tsval \<Rightarrow> bool" where
  "ts_carries L I enc dec S f v \<longleftrightarrow>
     (\<exists>slots.
        field_slots L I enc (encode_field_of S f) v = Some slots \<and>
        (slots = [] \<or> map fst slots = field_ids S f) \<and>
        (\<forall>slot. slot (fd_name f) = map_of slots (unat (fd_id f)) \<longrightarrow>
           (ts_is_union S (fd_fbs_type f) \<longrightarrow> slot (fd_name f @ ''_type'') = map_of slots (unat (fd_id f - 1))) \<longrightarrow>
           decode_value L I dec slot (fd_name f) (decode_field S f) = Some v))"

lemma schema_kinds:
  "ts_is_table (schema_of ts es) x \<longleftrightarrow> x \<in> set (map tb_name ts)"
  "ts_is_union (schema_of ts es) x \<longleftrightarrow> x \<in> set (map em_name (unions es))"
  by (auto simp: ts_is_table_def ts_is_union_def schema_of_def list_ex_iff)

text \<open>What the templates of each kind of field are.\<close>

lemma ts_templates:
  assumes ok: "namespace_ok ts es" and S: "S = schema_of ts es" and ty: "ty = fd_fbs_type f"
    and T: "T = map tb_name ts" and U: "U = map em_name (unions es)"
  shows
    "ty \<in> set U \<Longrightarrow> ef_prep (encode_field_of S f) = Some (PrepUnion ty) \<and>
       ef_add (encode_field_of S f) = AddUnion (unat (fd_id f - 1)) (unat (fd_id f)) \<and> decode_field S f = DecodeUnion ty"
    "ty = ''string'' \<Longrightarrow> ef_prep (encode_field_of S f) = Some PrepString \<and>
       ef_add (encode_field_of S f) = AddOffset (unat (fd_id f)) \<and> decode_field S f = DecodeString"
    "ty = vector_type x \<Longrightarrow> plain_name x \<Longrightarrow> ef_prep (encode_field_of S f) = Some (PrepVector (build_vector S x)) \<and>
       ef_add (encode_field_of S f) = AddOffset (unat (fd_id f)) \<and>
       decode_field S f = DecodeVector (ts_type S x) (decode_element S x)"
    "ty \<in> set T \<Longrightarrow> ef_prep (encode_field_of S f) = Some (PrepTable ty) \<and>
       ef_add (encode_field_of S f) = AddOffset (unat (fd_id f)) \<and> decode_field S f = DecodeTable ty"
    "scalar_like es ty \<Longrightarrow> ef_prep (encode_field_of S f) = None \<and>
       ef_add (encode_field_of S f) =
         AddScalar (sc_add_field (scalar (scalar_fbs S ty))) (unat (fd_id f)) (encode_conv S ty) (fst (field_defaults S f)) \<and>
       decode_field S f =
         (if ty = ''bool'' then DecodeBool (snd (field_defaults S f))
          else DecodeScalar (sc_read (scalar (scalar_fbs S ty))) (if is_flags S ty then flags_conv S ty else AsIs)
            (snd (field_defaults S f)) (\<not> is_flags S ty \<and> ts_is_enum S ty))"
    "ts_is_union S ty \<longleftrightarrow> ty \<in> set U"
proof -
  note kinds = schema_kinds [of ts es, folded S, folded T U]
  note defs = encode_field_of_def decode_field_def Let_def kinds ty [symmetric]
  have pt: "type_name x \<and> x \<notin> set U \<and> x \<noteq> ''string''" if "x \<in> set T" for x
    using that namespace_names(1) [OF ok] name_kind(1,5) [OF ok] unfolding T U by auto
  have pu: "type_name x \<and> x \<notin> set T \<and> x \<noteq> ''string''" if "x \<in> set U" for x
  proof -
    from that have "x \<in> em_name ` set (unions es)" by (simp add: U)
    then obtain u where u: "x = em_name u" "u \<in> set (unions es)" by blast
    then have "x \<notin> set T" using name_kind(5) [OF ok _ u(2)] unfolding T u(1) by force
    then show ?thesis using u namespace_names(2) [OF ok] name_kind(3) [OF ok u(2)] by (auto simp: union_in)
  qed
  have nv: "\<not> is_vector_type x" if "type_name x" for x using plain_not_vector [OF type_name_plain [OF that]] .
  have s: "''string'' \<notin> set T" "''string'' \<notin> set U" using pt pu by blast+
  show "ty \<in> set U \<Longrightarrow> ef_prep (encode_field_of S f) = Some (PrepUnion ty) \<and>
       ef_add (encode_field_of S f) = AddUnion (unat (fd_id f - 1)) (unat (fd_id f)) \<and> decode_field S f = DecodeUnion ty"
    using pu nv by (simp add: defs)
  show "ty = ''string'' \<Longrightarrow> ef_prep (encode_field_of S f) = Some PrepString \<and>
       ef_add (encode_field_of S f) = AddOffset (unat (fd_id f)) \<and> decode_field S f = DecodeString"
    using s plain_not_vector [OF string_plain] by (simp add: defs)
  show "ty = vector_type x \<Longrightarrow> plain_name x \<Longrightarrow> ef_prep (encode_field_of S f) = Some (PrepVector (build_vector S x)) \<and>
       ef_add (encode_field_of S f) = AddOffset (unat (fd_id f)) \<and>
       decode_field S f = DecodeVector (ts_type S x) (decode_element S x)"
    using vector_of_plain [of x] by (simp add: defs)
  show "ty \<in> set T \<Longrightarrow> ef_prep (encode_field_of S f) = Some (PrepTable ty) \<and>
       ef_add (encode_field_of S f) = AddOffset (unat (fd_id f)) \<and> decode_field S f = DecodeTable ty"
    using pt nv by (simp add: defs)
  show "scalar_like es ty \<Longrightarrow> ef_prep (encode_field_of S f) = None \<and>
       ef_add (encode_field_of S f) =
         AddScalar (sc_add_field (scalar (scalar_fbs S ty))) (unat (fd_id f)) (encode_conv S ty) (fst (field_defaults S f)) \<and>
       decode_field S f =
         (if ty = ''bool'' then DecodeBool (snd (field_defaults S f))
          else DecodeScalar (sc_read (scalar (scalar_fbs S ty))) (if is_flags S ty then flags_conv S ty else AsIs)
            (snd (field_defaults S f)) (\<not> is_flags S ty \<and> ts_is_enum S ty))"
    using not_table_scalar [OF ok] scalar_like_kind(1) [OF ok] plain_not_vector [OF scalar_like_plain [OF ok]] T U
    by (simp add: defs)
  show "ts_is_union S ty \<longleftrightarrow> ty \<in> set U" by (rule kinds(2))
qed

text \<open>The elements of a vector cross one by one.\<close>

lemma vector_crosses:
  assumes L: "js_lib_ok L" and ok: "namespace_ok ts es" and en: "enums_ok es"
    and S: "S = schema_of ts es" and I: "I = generate_codec S"
    and x: "x = ''string'' \<or> x \<in> set (map tb_name ts) \<or> scalar_like es x"
    and vs: "\<forall>c \<in> set vs. ts_typed ts es x c"
    and IH: "\<And>c. x \<in> set (map tb_name ts) \<Longrightarrow> c \<in> set vs \<Longrightarrow> \<exists>w. enc x c = Some w \<and> dec x w = Some c"
  shows "\<exists>s. prepare_offset L I enc (PrepVector (build_vector S x)) (TArr vs) = Some s \<and>
    read_elements L I dec (decode_element S x) s = Some (TArr vs)"
proof -
  note kinds = schema_kinds [of ts es, folded S]
  note defs = prepare_offset_def build_vector_def decode_element_def kinds ts_vector_def read_elements_def Let_def
  have st: "''string'' \<notin> set (map tb_name ts)" using name_kind(1) [OF ok] by force
  from x consider "x = ''string''" | "x \<in> set (map tb_name ts)" | "scalar_like es x" by blast
  then show ?thesis
  proof cases
    case 1
    have "\<forall>c \<in> set vs. \<exists>s. ts_string c = Some s \<and> Some (TStr s) = Some c"
      using vs ts_string_val [OF ok] 1 by (force simp: ts_string_def)
    from all_some_there_and_back [OF this] obtain ss where
      "all_some (map ts_string vs) = Some ss" "all_some (map (\<lambda>s. Some (TStr s)) ss) = Some vs" by blast
    moreover from this(2) have "map TStr ss = vs" using all_some_map [of ss "\<lambda>s. Some (TStr s)" TStr] by simp
    ultimately show ?thesis using st by (simp add: defs 1)
  next
    case 2
    have "\<forall>c \<in> set vs. \<exists>w. enc x c = Some w \<and> dec x w = Some c" using IH [OF 2] by blast
    from all_some_there_and_back [OF this] show ?thesis using 2 by (auto simp: defs)
  next
    case 3
    let ?s = "scalar (scalar_fbs S x)"
    have nt: "x \<notin> set (map tb_name ts)" "x \<noteq> ''string''"
      using not_table_scalar(1) [OF ok 3] scalar_like_kind(1) [OF ok 3] .
    have "\<exists>b. Option.bind (encode_scalar I (encode_conv S x) c) (js_put L (sc_vec_add ?s)) = Some b \<and>
        scalar_back I S x (js_get L (sc_read ?s) b) = Some c" if "c \<in> set vs" for c
      using scalar_wire [OF L ok en S I 3, of c] vs that unfolding crosses_def by (metis Option.bind.simps(2))
    then obtain bs where bs: "all_some (map (\<lambda>c. Option.bind (encode_scalar I (encode_conv S x) c) (js_put L (sc_vec_add ?s))) vs) = Some bs"
      "all_some (map (\<lambda>b. scalar_back I S x (js_get L (sc_read ?s) b)) bs) = Some vs"
      using all_some_there_and_back [of vs "\<lambda>c. Option.bind (encode_scalar I (encode_conv S x) c) (js_put L (sc_vec_add ?s))"
          "\<lambda>b. scalar_back I S x (js_get L (sc_read ?s) b)"] by blast
    show ?thesis
    proof (cases "x = ''bool''")
      case True
      have rd: "sc_read (scalar ''bool'') = ''readInt8''" by code_simp
      have "map (\<lambda>b. TBoolean (js_get L ''readInt8'' b \<noteq> JsNumber 0)) bs = vs"
        using bs(2) all_some_map [of bs "\<lambda>b. scalar_back I S x (js_get L (sc_read ?s) b)" "\<lambda>b. TBoolean (js_get L ''readInt8'' b \<noteq> JsNumber 0)"]
        unfolding True by (simp add: scalar_back_def bool_facts(3) [OF ok, folded S] rd)
      then show ?thesis using bs(1) nt unfolding True by (simp add: defs)
    next
      case False
      then show ?thesis using bs nt by (simp add: defs scalar_back_def)
    qed
  qed
qed

lemma ts_union_lookup:
  assumes "namespace_ok ts es" "u \<in> set (unions es)"
  shows "map_of (concat (map item_union_helpers (generate_codec (schema_of ts es)))) (em_name u) =
    Some (zip (em_variants u) (zip (union_tables u) (em_values u)))"
  using assms(2) enums_distinct(2) [OF assms(1)] unfolding codec_items(2) [OF refl]
  by (intro map_of_is_SomeI) (auto simp: comp_def schema_of_def)

text \<open>A union member is found again by its name and by its discriminator.\<close>

lemma union_member:
  assumes "unions_ok es" "u \<in> set (unions es)" "(k, t) \<in> set (zip (em_variants u) (union_tables u))"
    "length (union_tables u) = length (em_variants u)"
  shows "\<exists>d. map_of (zip (em_variants u) (zip (union_tables u) (em_values u))) k = Some (t, d) \<and>
    List.find (\<lambda>(k, t, i). JsNumber i = JsNumber d) (zip (em_variants u) (zip (union_tables u) (em_values u))) = Some (k, t, d) \<and>
    0 \<le> d \<and> d < 2 ^ 8"
proof -
  let ?Z = "zip (em_variants u) (zip (union_tables u) (em_values u))"
  have u: "distinct (em_variants u)" "distinct (em_values u)" "length (em_values u) = length (em_variants u)"
    "\<forall>v \<in> set (em_values u). 0 \<le> v \<and> v < 2 ^ 8"
    using assms(1,2) by (auto simp: unions_ok_def list_all_iff)
  obtain i where i: "i < length (em_variants u)" "em_variants u ! i = k" "union_tables u ! i = t"
    using assms(3,4) by (auto simp: in_set_zip)
  let ?d = "em_values u ! i"
  have mem: "(k, t, ?d) \<in> set ?Z" using i u(3) assms(4) by (auto simp: in_set_zip)
  have "map_of ?Z k = Some (t, ?d)"
    using mem u(1) by (intro map_of_is_SomeI) (simp_all add: map_fst_zip_take distinct_take)
  moreover have "List.find (\<lambda>y. (snd \<circ> snd) y = (snd \<circ> snd) (k, t, ?d)) ?Z = Some (k, t, ?d)"
  proof (rule find_keyed [OF mem])
    have "map (snd \<circ> snd) ?Z = em_values u"
      using u(3) assms(4) by (simp add: map_map [symmetric] map_snd_zip)
    then show "distinct (map (snd \<circ> snd) ?Z)" using u(2) by simp
  qed
  moreover have "0 \<le> ?d \<and> ?d < 2 ^ 8" using u(3,4) i(1) by simp
  ultimately show ?thesis by (auto simp: comp_def case_prod_unfold)
qed

lemma union_carries:
  assumes L: "js_lib_ok L" and ok: "namespace_ok ts es" and un: "unions_ok es"
    and S: "S = schema_of ts es" and I: "I = generate_codec S"
    and u: "u \<in> set (unions es)" "fd_fbs_type f = em_name u"
    and v: "ts_typed ts es (em_name u) v" and id: "fd_id f \<noteq> 0"
    and IH: "\<And>t c. t \<in> set (map tb_name ts) \<Longrightarrow> ts_typed ts es t c \<Longrightarrow> size c \<le> size v \<Longrightarrow> \<exists>w. enc t c = Some w \<and> dec t w = Some c"
  shows "ts_carries L I enc dec S f v"
proof -
  let ?Z = "zip (em_variants u) (zip (union_tables u) (em_values u))"
  have U: "em_name u \<in> set (map em_name (unions es))" using u(1) by simp
  note tmpl = ts_templates(1) [OF ok S u(2) [symmetric] refl refl U]
  have isu: "ts_is_union S (em_name u)" using U schema_kinds(2) [of ts es] unfolding S by blast
  obtain k t c where c: "v = TUnionVal k c" "(k, t) \<in> set (zip (em_variants u) (union_tables u))" "ts_typed ts es t c"
    using ts_union_val [OF ok u(1) v] by blast
  have "t \<in> set (map tb_name ts)" using c(2) namespace_okD(4) [OF ok, of u] u(1)
    by (auto simp: union_in dest: set_zip_rightD)
  then obtain w where w: "enc t c = Some w" "dec t w = Some c" using IH [of t c] c by auto
  have len: "length (union_tables u) = length (em_variants u)"
    using namespace_okD(5) [OF ok] u(1) by (simp add: union_in)
  obtain d where d: "map_of ?Z k = Some (t, d)"
    "List.find (\<lambda>(k, t, i). JsNumber i = JsNumber d) ?Z = Some (k, t, d)" "0 \<le> d" "d < 2 ^ 8"
    using union_member [OF un u(1) c(2) len] by blast
  have row: "row_ok L (''addFieldInt8'', ''addInt8'', ''readUint8'', False, 0, 2 ^ 8)"
    by (rule js_lib_okD(1) [OF L]) (simp add: js_rows_def)
  then obtain b where b: "js_put L ''addFieldInt8'' (JsNumber d) = Some b" "js_get L ''readUint8'' b = JsNumber d"
    using d(3,4) by (auto simp: row_ok_def js_num_of_def)
  have find: "map_of (concat (map item_union_helpers I)) (em_name u) = Some ?Z"
    using ts_union_lookup [OF ok u(1)] unfolding S I by blast
  have ne: "unat (fd_id f - 1) \<noteq> unat (fd_id f)" by (simp add: word_unat_eq_iff [symmetric])
  show ?thesis
    unfolding ts_carries_def
    using tmpl find d(1,2) w b ne
    by (intro exI [of _ "[(unat (fd_id f - 1), JScalar b), (unat (fd_id f), JTable w)]"])
      (simp add: field_slots_def encode_union_def c(1) field_ids_def u(2) isu decode_value_def decode_union_def)
qed

lemma scalar_carries:
  assumes L: "js_lib_ok L" and ok: "namespace_ok ts es" and en: "enums_ok es"
    and S: "S = schema_of ts es" and I: "I = generate_codec S"
    and ty: "scalar_like es (fd_fbs_type f)" and v: "ts_typed ts es (fd_fbs_type f) v"
  shows "ts_carries L I enc dec S f v"
proof -
  let ?ty = "fd_fbs_type f" and ?lit = "js_literal L (fst (field_defaults S f))"
  let ?s = "scalar (scalar_fbs S ?ty)"
  note tmpl = ts_templates(5,6) [OF ok S refl refl refl]
  have nu: "\<not> ts_is_union S ?ty" using tmpl(2) not_table_scalar(2) [OF ok ty] by blast
  obtain n where n: "encode_scalar I (encode_conv S ?ty) v = Some n" "crosses L ?s n" "scalar_back I S ?ty n = Some v"
    using scalar_wire [OF L ok en S I ty v] by blast
  note defs = ts_carries_def field_slots_def decode_value_def tmpl(1) [OF ty] nu
  show ?thesis
  proof (cases "n = ?lit")
    case True
    have "literal_value L (snd (field_defaults S f)) = v"
      using absent_back [OF L ok en S I refl ty v] n(1) True by simp
    then show ?thesis using True n(1) by (simp add: defs)
  next
    case False
    obtain b where b: "js_put L (sc_add_field ?s) n = Some b" "js_get L (sc_read ?s) b = n"
      using n(2) by (auto simp: crosses_def)
    have rd: "sc_read (scalar (scalar_fbs S ''bool'')) = ''readInt8''"
      unfolding bool_facts(3) [OF ok, folded S] by code_simp
    show ?thesis
    proof (cases "?ty = ''bool''")
      case True
      then have "js_get L ''readInt8'' b = n" using b(2) rd by simp
      then show ?thesis using False n b(1) True nu by (simp add: defs field_ids_def scalar_back_def)
    next
      case not_bool: False
      then show ?thesis using False n b by (simp add: defs field_ids_def scalar_back_def)
    qed
  qed
qed

lemma ts_field_carries:
  assumes L: "js_lib_ok L" and ok: "namespace_ok ts es" and en: "enums_ok es" and un: "unions_ok es"
    and S: "S = schema_of ts es" and I: "I = generate_codec S"
    and id: "ts_is_union S (fd_fbs_type f) \<Longrightarrow> fd_id f \<noteq> 0"
    and known: "known_type (map tb_name ts) (map em_name (plain_enums es)) (fd_fbs_type f) \<or> fd_fbs_type f \<in> set (map em_name (unions es))"
    and fits: "v = Undefined \<and> \<not> scalar_like es (fd_fbs_type f) \<or> ts_typed ts es (fd_fbs_type f) v"
    and IH: "\<And>t c. t \<in> set (map tb_name ts) \<Longrightarrow> ts_typed ts es t c \<Longrightarrow> size c \<le> size v \<Longrightarrow> \<exists>w. enc t c = Some w \<and> dec t w = Some c"
  shows "ts_carries L I enc dec S f v"
proof -
  let ?ty = "fd_fbs_type f" and ?T = "map tb_name ts" and ?U = "map em_name (unions es)"
  note tmpl = ts_templates [OF ok S refl refl refl, where f = f]
  note defs = ts_carries_def field_slots_def decode_value_def field_ids_def prepare_offset_def
  have elem: "size c \<le> size (TArr vs)" if "c \<in> set vs" for c :: tsval and vs
    using that by (induction vs) auto
  have E: "scalar_like es x \<longleftrightarrow> map_of rust_scalars x \<noteq> None \<or> x \<in> set (map em_name (plain_enums es))" for x
    by (simp add: scalar_like_def)
  have nu: "\<not> ts_is_union S ?ty" if "?ty \<notin> set ?U" using that tmpl(6) by blast
  consider "?ty \<in> set ?U" | "?ty = ''string''"
    | x where "?ty = vector_type x" "x = ''string'' \<or> x \<in> set ?T \<or> scalar_like es x"
    | "?ty \<in> set ?T" | "scalar_like es ?ty"
    using known by (auto simp: E elim!: known_type.cases)
  then show ?thesis
  proof cases
    case 1
    then obtain u where u: "u \<in> set (unions es)" "?ty = em_name u" by auto
    show ?thesis
    proof (cases "v = Undefined")
      case True
      then show ?thesis using tmpl(1) [OF 1] by (simp add: defs)
    next
      case False
      then have "ts_typed ts es (em_name u) v" using fits u(2) by simp
      from union_carries [OF L ok un S I u this id] show ?thesis using 1 tmpl(6) IH by blast
    qed
  next
    case 2
    have "v = Undefined \<or> (\<exists>s. v = TStr s)" using fits ts_string_val [OF ok] 2 by auto
    moreover have "\<not> ts_is_union S ?ty" using nu name_kind(3) [OF ok] 2 by force
    ultimately show ?thesis using tmpl(2) [OF 2] by (auto simp: defs ts_string_def)
  next
    case (3 x)
    have px: "plain_name x"
      using 3(2) string_plain type_name_plain namespace_okD(1) [OF ok] scalar_like_plain [OF ok]
      unfolding list_all_iff by blast
    have "?ty \<notin> em_name ` set (unions es)" using name_kind(4) [OF ok, of _ x] 3(1) by (metis imageE)
    then have nv: "\<not> ts_is_union S ?ty" using nu by simp
    show ?thesis
    proof (cases "v = Undefined")
      case True
      then show ?thesis using tmpl(3) [OF 3(1) px] by (simp add: defs nv)
    next
      case False
      then obtain vs where vs: "v = TArr vs" "\<forall>c \<in> set vs. ts_typed ts es x c"
        using fits 3(1) ts_vector_val [OF ok] by metis
      have "\<exists>w. enc x c = Some w \<and> dec x w = Some c" if "x \<in> set ?T" "c \<in> set vs" for c
        using IH [OF that(1)] vs that(2) elem [OF that(2)] by blast
      from vector_crosses [OF L ok en S I 3(2) vs(2), of enc dec, OF this] obtain s where
        s: "prepare_offset L I enc (PrepVector (build_vector S x)) (TArr vs) = Some s"
          "read_elements L I dec (decode_element S x) s = Some (TArr vs)" by blast
      show ?thesis unfolding ts_carries_def
        using s tmpl(3) [OF 3(1) px] nv False vs(1)
        by (intro exI [of _ "[(unat (fd_id f), s)]"]) (simp add: field_slots_def field_ids_def decode_value_def)
    qed
  next
    case 4
    have nt: "\<not> ts_is_union S ?ty" using nu name_kind(5) [OF ok] 4 by force
    show ?thesis
    proof (cases "v = Undefined")
      case True
      then show ?thesis using tmpl(4) [OF 4] by (simp add: defs nt)
    next
      case False
      then obtain w where "enc ?ty v = Some w" "dec ?ty w = Some v" using fits IH [OF 4] by auto
      then show ?thesis using tmpl(4) [OF 4] False nt by (simp add: defs)
    qed
  next
    case 5
    then show ?thesis using scalar_carries [OF L ok en S I 5] fits by blast
  qed
qed

subsection \<open>A whole table\<close>

lemma keys_within: "\<forall>f \<in> set fs. sl f = [] \<or> map fst (sl f) = h f \<Longrightarrow> fst ` set (concat (map sl fs)) \<subseteq> set (concat (map h fs))"
proof (induction fs)
  case (Cons f fs)
  have "set (map fst (sl f)) \<subseteq> set (h f)" using Cons.prems by (cases "sl f = []") simp_all
  then have "fst ` set (sl f) \<subseteq> set (h f)" by simp
  moreover have "fst ` set (concat (map sl fs)) \<subseteq> set (concat (map h fs))" using Cons by simp
  ultimately show ?case by (simp only: list.map concat.simps set_append image_Un) blast
qed simp

lemma keys_distinct:
  assumes "\<forall>f \<in> set fs. sl f = [] \<or> map fst (sl f) = h f" "distinct (concat (map h fs))"
  shows "distinct (map fst (concat (map sl fs)))"
  using assms
proof (induction fs)
  case (Cons f fs)
  have "distinct (map fst (sl f))" using Cons.prems by (cases "sl f = []") auto
  moreover have "fst ` set (sl f) \<inter> fst ` set (concat (map sl fs)) = {}"
    using keys_within [of "[f]" sl h] keys_within [of fs sl h] Cons.prems by (simp add: disjoint_iff) blast
  moreover have "distinct (map fst (concat (map sl fs)))" using Cons by simp
  ultimately show ?case by (simp only: list.map concat.simps map_append distinct_append set_map simp_thms)
qed simp

lemma map_of_concat_slots:
  assumes "\<forall>f \<in> set fs. sl f = [] \<or> map fst (sl f) = h f" "distinct (concat (map h fs))" "f \<in> set fs" "i \<in> set (h f)"
  shows "map_of (concat (map sl fs)) i = map_of (sl f) i"
  using assms
proof (induction fs)
  case (Cons g fs)
  have within: "fst ` set (concat (map sl fs)) \<subseteq> set (concat (map h fs))" "fst ` set (sl g) \<subseteq> set (h g)"
    using keys_within [of fs sl h] keys_within [of "[g]" sl h] Cons.prems(1) by simp_all
  have apart: "set (h g) \<inter> set (concat (map h fs)) = {}" using Cons.prems(2) by simp
  show ?case
  proof (cases "f = g")
    case True
    then have "i \<notin> fst ` set (concat (map sl fs))" using within(1) apart Cons.prems(4) by blast
    then have "map_of (concat (map sl fs)) i = None" by (simp only: map_of_eq_None_iff not_False_eq_True)
    then show ?thesis unfolding True by (cases "map_of (sl g) i") (simp_all add: map_add_def)
  next
    case False
    then have f: "f \<in> set fs" using Cons.prems(3) by simp
    then have "i \<in> set (concat (map h fs))" using Cons.prems(4) by auto
    then have "i \<notin> fst ` set (sl g)" using within(2) apart by blast
    then have "map_of (sl g) i = None" by (simp only: map_of_eq_None_iff not_False_eq_True)
    then show ?thesis using Cons.IH f Cons.prems by (simp add: map_add_def split: option.split)
  qed
qed simp

lemma slot_count_bound: "f \<in> set (tb_fields t) \<Longrightarrow> unat (fd_id f) < slot_count t"
proof -
  have max: "foldl max a ns \<ge> a \<and> (\<forall>n \<in> set ns. foldl max a ns \<ge> n)" for a :: nat and ns
  proof (induction ns arbitrary: a)
    case (Cons n ns)
    from Cons.IH [of "max a n"] show ?case by auto
  qed simp
  assume "f \<in> set (tb_fields t)"
  then have "unat (fd_id f) + 1 \<in> set (map (\<lambda>f. unat (fd_id f) + 1) (tb_fields t))" by auto
  then have "unat (fd_id f) + 1 \<le> slot_count t" unfolding slot_count_def using max by blast
  then show ?thesis by simp
qed

lemma decode_offset_names: "fd_name f \<in> set (map fst (decode_offsets S f))"
  by (simp add: decode_offsets_def)

lemma field_names_distinct:
  assumes "slots_ok S t"
  shows "distinct (map fd_name (tb_fields t))"
proof (rule distinct_concat_pick)
  show "distinct (concat (map (\<lambda>f. map fst (decode_offsets S f)) (tb_fields t)))"
    using assms by (simp add: slots_ok_def map_concat comp_def)
qed (simp add: decode_offset_names del: set_map)

lemma table_lookups:
  assumes "namespace_ok ts es" "t \<in> set ts" and S: "S = schema_of ts es" and I: "I = generate_codec S"
  shows "map_of (concat (map item_encoders I)) (tb_name t) =
      Some \<lparr>te_table = tb_name t, te_slots = slot_count t, te_fields = map (encode_field_of S) (tb_fields t)\<rparr>"
    and "map_of (concat (map item_decoders I)) (tb_name t) =
      Some \<lparr>td_table = tb_name t, td_offsets = concat (map (decode_offsets S) (tb_fields t)),
        td_fields = map (\<lambda>f. (fd_name f, decode_field S f)) (tb_fields t)\<rparr>"
proof -
  have d: "distinct (map tb_name ts)" using namespace_okD(6) [OF assms(1)] by simp
  have tables: "sc_tables S = ts" by (simp add: S schema_of_def)
  show "map_of (concat (map item_encoders I)) (tb_name t) =
      Some \<lparr>te_table = tb_name t, te_slots = slot_count t, te_fields = map (encode_field_of S) (tb_fields t)\<rparr>"
    unfolding codec_items(3) [OF I] tables using d assms(2) by (intro map_of_is_SomeI) (auto simp: comp_def)
  show "map_of (concat (map item_decoders I)) (tb_name t) =
      Some \<lparr>td_table = tb_name t, td_offsets = concat (map (decode_offsets S) (tb_fields t)),
        td_fields = map (\<lambda>f. (fd_name f, decode_field S f)) (tb_fields t)\<rparr>"
    unfolding codec_items(4) [OF I] tables using d assms(2) by (intro map_of_is_SomeI) (auto simp: comp_def)
qed

lemma object_slots:
  assumes L: "js_lib_ok L" and ok: "slots_ok S t" and F: "F = tb_fields t"
    and sl: "\<forall>f \<in> set F. sl f = [] \<or> map fst (sl f) = field_ids S f"
    and w: "w = js_object L (slot_count t) (concat (map sl F))"
    and slot: "slot = (\<lambda>y. Option.bind (map_of (concat (map (decode_offsets S) F)) y) (js_slot_at L w))"
    and f: "f \<in> set F"
  shows "slot (fd_name f) = map_of (sl f) (unat (fd_id f))"
    and "ts_is_union S (fd_fbs_type f) \<Longrightarrow> slot (fd_name f @ ''_type'') = map_of (sl f) (unat (fd_id f - 1))"
proof -
  have ids: "distinct (concat (map (field_ids S) F))" and offs: "distinct (map fst (concat (map (decode_offsets S) F)))"
    and nz: "ts_is_union S (fd_fbs_type f) \<Longrightarrow> fd_id f \<noteq> 0"
    using ok f by (simp_all add: slots_ok_def F list_all_iff)
  have off: "map_of (concat (map (decode_offsets S) F)) y = Some k" if "(y, k) \<in> set (decode_offsets S f)" for y k
    using offs f that by (intro map_of_is_SomeI) auto
  have at: "js_slot_at L w (4 + i * 2) = map_of (sl f) i" if "i < slot_count t" "i \<in> set (field_ids S f)" for i
    unfolding w js_lib_okD(3) [OF L keys_distinct [OF sl ids]] using that map_of_concat_slots [OF sl ids f that(2)] by simp
  have b: "unat (fd_id f) < slot_count t" using slot_count_bound f F by simp
  show "slot (fd_name f) = map_of (sl f) (unat (fd_id f))"
    using off [of "fd_name f" "vtable_offset (fd_id f)"] at [OF b]
    by (simp add: slot decode_offsets_def field_ids_def vtable_offset_def)
  assume u: "ts_is_union S (fd_fbs_type f)"
  have "unat (fd_id f - 1) < slot_count t" using b nz [OF u] by (simp add: unat_minus_one)
  from at [OF this] show "slot (fd_name f @ ''_type'') = map_of (sl f) (unat (fd_id f - 1))"
    using off [of "fd_name f @ ''_type''" "vtable_offset (fd_id f - 1)"] u
    by (simp add: slot decode_offsets_def field_ids_def vtable_offset_def)
qed

lemma table_carries:
  assumes L: "js_lib_ok L" and ok: "namespace_ok ts es" and t: "t \<in> set ts"
    and S: "S = schema_of ts es" and I: "I = generate_codec S" and so: "slots_ok S t"
    and fields: "\<forall>f \<in> set (tb_fields t). ts_carries L I (ts_encode_table L I n) (ts_decode_table L I n) S f (g f)"
    and fs: "fs = map (\<lambda>f. (fd_name f, g f)) (tb_fields t)"
  shows "\<exists>w. ts_encode_table L I (Suc n) (tb_name t) (TObject fs) = Some w \<and>
    ts_decode_table L I (Suc n) (tb_name t) w = Some (TObject fs)"
proof -
  let ?F = "tb_fields t" and ?enc = "ts_encode_table L I n" and ?dec = "ts_decode_table L I n"
  have names: "distinct (map fd_name ?F)" by (rule field_names_distinct [OF so])
  have field: "map_of fs (fd_name f) = Some (g f)" if "f \<in> set ?F" for f
    unfolding fs using that names by (intro map_of_is_SomeI) (auto simp: comp_def)
  obtain sl where sl: "\<And>f. f \<in> set ?F \<Longrightarrow> field_slots L I ?enc (encode_field_of S f) (g f) = Some (sl f) \<and>
      (sl f = [] \<or> map fst (sl f) = field_ids S f) \<and>
      (\<forall>slot. slot (fd_name f) = map_of (sl f) (unat (fd_id f)) \<longrightarrow>
         (ts_is_union S (fd_fbs_type f) \<longrightarrow> slot (fd_name f @ ''_type'') = map_of (sl f) (unat (fd_id f - 1))) \<longrightarrow>
         decode_value L I ?dec slot (fd_name f) (decode_field S f) = Some (g f))"
    using fields unfolding ts_carries_def by metis
  define w where "w = js_object L (slot_count t) (concat (map sl ?F))"
  define slot where "slot = (\<lambda>y. Option.bind (map_of (concat (map (decode_offsets S) ?F)) y) (js_slot_at L w))"
  have keys: "\<forall>f \<in> set ?F. sl f = [] \<or> map fst (sl f) = field_ids S f" using sl by blast
  have name: "ef_name (encode_field_of S f) = fd_name f" for f by (simp add: encode_field_of_def Let_def)
  have "all_some (map (\<lambda>ef. field_slots L I ?enc ef (case map_of fs (ef_name ef) of Some x \<Rightarrow> x | None \<Rightarrow> Undefined))
      (map (encode_field_of S) ?F)) = Some (map sl ?F)"
    unfolding map_map by (rule all_some_map) (use sl field in \<open>auto simp: name\<close>)
  then have enc: "ts_encode_table L I (Suc n) (tb_name t) (TObject fs) = Some w"
    using table_lookups(1) [OF ok t S I] by (simp add: w_def)
  have "all_some (map (\<lambda>(x, e). map_option (Pair x) (decode_value L I ?dec slot x e)) (map (\<lambda>f. (fd_name f, decode_field S f)) ?F)) = Some fs"
    unfolding map_map fs
  proof (rule all_some_map, rule)
    fix f assume f: "f \<in> set ?F"
    have "decode_value L I ?dec slot (fd_name f) (decode_field S f) = Some (g f)"
      using sl [OF f] object_slots [OF L so refl keys w_def slot_def f] by blast
    then show "((\<lambda>(x, e). map_option (Pair x) (decode_value L I ?dec slot x e)) \<circ> (\<lambda>f. (fd_name f, decode_field S f))) f = Some (fd_name f, g f)"
      by simp
  qed
  then have "ts_decode_table L I (Suc n) (tb_name t) w = Some (TObject fs)"
    using table_lookups(2) [OF ok t S I] by (simp add: slot_def)
  with enc show ?thesis by blast
qed

lemma ts_size_field: "(x, v) \<in> set fs \<Longrightarrow> size v < size (TObject fs)"
  by (induction fs) auto

definition ts_schema_ok :: "table list \<Rightarrow> enum list \<Rightarrow> bool" where
  "ts_schema_ok ts es \<longleftrightarrow> enums_ok es \<and> unions_ok es \<and> list_all (slots_ok (schema_of ts es)) ts"

text \<open>
  C7. The generated TypeScript codec survives the wire: for every schema within the TypeScript
  generator's reach, a value of a table's interface, flags, bigints, unions, nested tables and
  absent fields included, is encoded without throwing and decoded equal, a default left out of the
  buffer included.
\<close>

theorem ts_codec_roundtrip:
  assumes "js_lib_ok L" "namespace_ok ts es" "ts_schema_ok ts es" "I = generate_codec (schema_of ts es)"
    "t \<in> set ts" "ts_typed ts es (tb_name t) v" "size v \<le> n"
  shows "\<exists>w. ts_encode_table L I n (tb_name t) v = Some w \<and> ts_decode_table L I n (tb_name t) w = Some v"
  using assms(5-7)
proof (induction n arbitrary: t v)
  case 0
  then show ?case using ts_table_val [OF assms(2)] by fastforce
next
  case (Suc n)
  let ?S = "schema_of ts es"
  have en: "enums_ok es" and un: "unions_ok es" and so: "slots_ok ?S t"
    using assms(3) Suc.prems(1) by (auto simp: ts_schema_ok_def list_all_iff)
  obtain fs where fs: "v = TObject fs" "length fs = length (tb_fields t)"
    "\<forall>p \<in> set (zip (tb_fields t) fs). fst (snd p) = fd_name (fst p) \<and>
      (snd (snd p) = Undefined \<and> \<not> scalar_like es (fd_fbs_type (fst p)) \<or> ts_typed ts es (fd_fbs_type (fst p)) (snd (snd p)))"
    using ts_table_val [OF assms(2) Suc.prems(1,2)] by blast
  have "\<forall>p \<in> set (zip (tb_fields t) fs). fst (snd p) = fd_name (fst p)" using fs(3) by blast
  from aligned_fields [OF fs(2) this field_names_distinct [OF so]] obtain g where
    g: "fs = map (\<lambda>f. (fd_name f, g f)) (tb_fields t)" "\<forall>f \<in> set (tb_fields t). (f, (fd_name f, g f)) \<in> set (zip (tb_fields t) fs)"
    by blast
  have "\<forall>f \<in> set (tb_fields t). ts_carries L I (ts_encode_table L I n) (ts_decode_table L I n) ?S f (g f)"
  proof
    fix f assume f: "f \<in> set (tb_fields t)"
    have small: "size (g f) \<le> n"
      using ts_size_field [of "fd_name f" "g f" fs] g(1) f Suc.prems(3) fs(1) by auto
    have fits: "g f = Undefined \<and> \<not> scalar_like es (fd_fbs_type f) \<or> ts_typed ts es (fd_fbs_type f) (g f)"
      using g(2) f fs(3) by fastforce
    have known: "known_type (map tb_name ts) (map em_name (plain_enums es)) (fd_fbs_type f) \<or> fd_fbs_type f \<in> set (map em_name (unions es))"
      using namespace_okD(3) [OF assms(2) Suc.prems(1) f] by blast
    have id: "ts_is_union ?S (fd_fbs_type f) \<Longrightarrow> fd_id f \<noteq> 0"
      using so f by (simp add: slots_ok_def list_all_iff)
    show "ts_carries L I (ts_encode_table L I n) (ts_decode_table L I n) ?S f (g f)"
    proof (rule ts_field_carries [OF assms(1,2) en un refl assms(4) id known fits])
      fix x c assume "x \<in> set (map tb_name ts)" and c: "ts_typed ts es x c" "size c \<le> size (g f)"
      then obtain t' where "t' \<in> set ts" "x = tb_name t'" by auto
      then show "\<exists>w. ts_encode_table L I n x c = Some w \<and> ts_decode_table L I n x w = Some c"
        using Suc.IH [of t' c] c small by auto
    qed
  qed
  from table_carries [OF assms(1,2) Suc.prems(1) refl assms(4) so this g(1)] show ?case unfolding fs(1) .
qed

subsection \<open>A runtime\<close>

text \<open>
  Little-endian numbers, tables as trees, decimal literals: a runtime that keeps the laws. A number
  where a bigint belongs, or the other way round, is refused, as JavaScript does.
\<close>

primrec le_bytes :: "nat \<Rightarrow> int \<Rightarrow> bytes" where
  "le_bytes 0 i = []"
| "le_bytes (Suc k) i = word_of_int i # le_bytes k (i div 256)"

primrec le_value :: "bytes \<Rightarrow> int" where
  "le_value [] = 0"
| "le_value (b # bs) = uint b + 256 * le_value bs"

definition le_signed :: "nat \<Rightarrow> bytes \<Rightarrow> int" where
  "le_signed k bs = (if 256 ^ k \<le> 2 * le_value bs then le_value bs - 256 ^ k else le_value bs)"

lemma le_value_bytes: "le_value (le_bytes k i) = i mod 256 ^ k"
proof (induction k arbitrary: i)
  case (Suc k)
  have "i mod (256 * 256 ^ k) = 256 * (i div 256 mod 256 ^ k) + i mod 256" by (rule zmod_zmult2_eq) simp
  then show ?case using Suc by (simp add: unsigned_of_int take_bit_eq_mod)
qed simp

lemma le_signed_bytes:
  assumes "- (256 ^ k) \<le> 2 * i" "2 * i < 256 ^ k"
  shows "le_signed k (le_bytes k i) = i"
proof (cases "0 \<le> i")
  case True
  then have "i mod 256 ^ k = i" using assms by (intro mod_pos_pos_trivial) auto
  then show ?thesis using assms by (simp add: le_signed_def le_value_bytes)
next
  case False
  have "(i + 256 ^ k) mod 256 ^ k = i + 256 ^ k" using False assms by (intro mod_pos_pos_trivial) auto
  then have "i mod 256 ^ k = i + 256 ^ k" by simp
  then show ?thesis using assms by (simp add: le_signed_def le_value_bytes)
qed

text \<open>A toy float: the integer or the fraction, told apart by a byte.\<close>

definition js_writes :: "(string \<times> (js_num \<Rightarrow> bytes option)) list" where
  "js_writes =
     (let int_of = (\<lambda>k n. case n of JsNumber i \<Rightarrow> Some (le_bytes k i) | _ \<Rightarrow> None);
          big_of = (\<lambda>k n. case n of JsBigint i \<Rightarrow> Some (le_bytes k i) | _ \<Rightarrow> None);
          float_of = (\<lambda>n. case n of
             JsNumber i \<Rightarrow> Some (0 # le_bytes 8 i) | JsFraction w \<Rightarrow> Some (1 # le_bytes 8 (uint w)) | _ \<Rightarrow> None)
      in [(''addFieldInt8'', int_of 1), (''addInt8'', int_of 1), (''addFieldInt16'', int_of 2), (''addInt16'', int_of 2),
          (''addFieldInt32'', int_of 4), (''addInt32'', int_of 4), (''addFieldInt64'', big_of 8), (''addInt64'', big_of 8),
          (''addFieldFloat32'', float_of), (''addFloat32'', float_of), (''addFieldFloat64'', float_of), (''addFloat64'', float_of)])"

definition float_read :: "bytes \<Rightarrow> js_num" where
  "float_read b =
     (if b \<noteq> [] \<and> hd b = 0 then JsNumber (le_signed 8 (tl b)) else JsFraction (word_of_int (le_value (tl b))))"

definition js_reads :: "(string \<times> (bytes \<Rightarrow> js_num)) list" where
  "js_reads =
     [(''readInt8'', JsNumber \<circ> le_signed 1), (''readUint8'', JsNumber \<circ> le_value),
      (''readInt16'', JsNumber \<circ> le_signed 2), (''readUint16'', JsNumber \<circ> le_value),
      (''readInt32'', JsNumber \<circ> le_signed 4), (''readUint32'', JsNumber \<circ> le_value),
      (''readInt64'', JsBigint \<circ> le_signed 8), (''readUint64'', JsBigint \<circ> le_value),
      (''readFloat32'', float_read), (''readFloat64'', float_read)]"

definition write_number :: "string \<Rightarrow> js_num \<Rightarrow> bytes option" where
  "write_number m n = (case map_of js_writes m of Some f \<Rightarrow> f n | None \<Rightarrow> None)"

definition decimal_value :: "string \<Rightarrow> int" where
  "decimal_value s =
     (let digits = (\<lambda>ds. int (case parse_digits ds of Some n \<Rightarrow> n | None \<Rightarrow> 0))
      in if s \<noteq> [] \<and> hd s = CHR ''-'' then - digits (tl s) else digits s)"

definition js_literal_value :: "string \<Rightarrow> js_num" where
  "js_literal_value s =
     (if suffix ''n'' s then JsBigint (decimal_value (butlast s)) else JsNumber (decimal_value s))"

datatype js_tree = JsTree nat "(nat \<times> js_tree js_slot) list"

fun tree_slot :: "js_tree \<Rightarrow> nat \<Rightarrow> js_tree js_slot option" where
  "tree_slot (JsTree n slots) offset = (let i = (offset - 4) div 2 in if i < n then map_of slots i else None)"

definition tree_js :: "js_tree js_lib" where
  "tree_js =
     \<lparr>js_object = JsTree, js_slot_at = tree_slot, js_put = write_number,
      js_get = (\<lambda>m. case map_of js_reads m of Some f \<Rightarrow> f | None \<Rightarrow> (\<lambda>b. JsNumber 0)), js_literal = js_literal_value\<rparr>"

lemma decimal_back: "decimal_value (show_int i) = i" and literal_not_big: "\<not> suffix ''n'' (show_int i)"
proof -
  have d: "list_all is_digit (show_nat n)" "show_nat n \<noteq> []" for n using show_nat_digits by blast+
  have nd: "\<not> is_digit (CHR ''-'')" "\<not> is_digit (CHR ''n'')" by code_simp+
  obtain c cs where c: "show_nat (nat i) = c # cs" "is_digit c" using d [of "nat i"] by (cases "show_nat (nat i)") auto
  have "c \<noteq> CHR ''-''" using c(2) nd(1) by metis
  then have "decimal_value (show_nat (nat i)) = int (nat i)"
    using parse_digits_show [of "nat i"] unfolding decimal_value_def Let_def c(1) by simp
  moreover have "decimal_value (CHR ''-'' # show_nat k) = - int k" for k by (simp add: decimal_value_def Let_def)
  ultimately show "decimal_value (show_int i) = i" by (simp add: show_int_def)
  have "\<not> suffix ''n'' (show_nat k)" for k
  proof
    assume "suffix ''n'' (show_nat k)"
    then have "CHR ''n'' \<in> set (show_nat k)" by (auto simp: suffix_def)
    then show False using d(1) [of k] nd(2) unfolding list_all_iff by blast
  qed
  then show "\<not> suffix ''n'' (show_int i)"
    using d(2) unfolding show_int_def suffix_def by (auto simp: append_eq_Cons_conv Cons_eq_append_conv)
qed

lemma tree_js_ok: "js_lib_ok tree_js"
proof -
  have signed: "le_signed (Suc 0) (le_bytes (Suc 0) i) = i" if "- 128 \<le> i" "i < 128" for i
    using that le_signed_bytes [of "Suc 0" i] by (simp del: le_bytes.simps)
  have signed2: "le_signed 2 (le_bytes 2 i) = i" if "- (2 ^ 15) \<le> i" "i < 2 ^ 15" for i
    using that le_signed_bytes [of 2 i] by simp
  have signed4: "le_signed 4 (le_bytes 4 i) = i" if "- (2 ^ 31) \<le> i" "i < 2 ^ 31" for i
    using that le_signed_bytes [of 4 i] by simp
  have signed8: "le_signed 8 (le_bytes 8 i) = i" if "- (2 ^ 63) \<le> i" "i < 2 ^ 63" for i
    using that le_signed_bytes [of 8 i] by simp
  have unsigned: "le_value (le_bytes k i) = i" if "0 \<le> i" "i < 256 ^ k" for k i
    using that by (simp add: le_value_bytes)
  have rows: "list_all (row_ok tree_js) js_rows"
    unfolding js_rows_def list.pred_inject row_ok_def prod.case
    by (intro conjI allI impI TrueI)
      (simp_all add: tree_js_def write_number_def js_writes_def js_reads_def js_num_of_def Let_def signed signed2 signed4 signed8 unsigned
        del: le_bytes.simps)
  have float: "float_read (0 # le_bytes 8 i) = JsNumber i" if "\<bar>i\<bar> \<le> 2 ^ 53" for i
    using that le_signed_bytes [of 8 i] by (simp add: float_read_def del: le_bytes.simps)
  have fraction: "float_read (1 # le_bytes 8 (uint w)) = JsFraction w" for w
  proof -
    have "uint w mod 256 ^ 8 = uint w" by (rule mod_pos_pos_trivial) (use uint_lt2p [of w] in simp_all)
    then show ?thesis by (simp add: float_read_def le_value_bytes del: le_bytes.simps)
  qed
  have puts: "list_all (\<lambda>(af, va, rd). js_put tree_js af = js_put tree_js va \<and>
      js_put tree_js af = (\<lambda>n. case n of
         JsNumber i \<Rightarrow> Some (0 # le_bytes 8 i) | JsFraction w \<Rightarrow> Some (1 # le_bytes 8 (uint w)) | _ \<Rightarrow> None) \<and>
      js_get tree_js rd = float_read) js_float_rows"
    by (simp add: tree_js_def write_number_def js_writes_def js_reads_def js_float_rows_def Let_def fun_eq_iff del: le_bytes.simps)
  have floats: "list_all (float_row_ok tree_js) js_float_rows"
    unfolding list_all_iff
  proof
    fix r assume r: "r \<in> set js_float_rows"
    obtain af va rd where e: "r = (af, va, rd)" by (metis prod.collapse)
    have p: "js_put tree_js va = js_put tree_js af" "js_get tree_js rd = float_read"
      "js_put tree_js af = (\<lambda>n. case n of
         JsNumber i \<Rightarrow> Some (0 # le_bytes 8 i) | JsFraction w \<Rightarrow> Some (1 # le_bytes 8 (uint w)) | _ \<Rightarrow> None)"
      using puts r unfolding list_all_iff e by auto
    have "\<exists>b. js_put tree_js af n = Some b \<and> float_read b = n" if "float_fits rd n" for n
      using that float fraction unfolding p(3) by (cases n) (auto simp: float_fits_def)
    then show "float_row_ok tree_js r" by (simp add: float_row_ok_def e p(1,2))
  qed
  have slots: "tree_slot (JsTree n slots) (4 + i * 2) = (if i < n then map_of slots i else None)" for n slots i
    by simp
  have small: "js_literal_value (show_int i) = JsNumber i" for i
    by (simp add: js_literal_value_def decimal_back literal_not_big)
  have big: "js_literal_value (show_int i @ ''n'') = JsBigint i" for i
    by (simp add: js_literal_value_def decimal_back suffix_def)
  show ?thesis using rows floats slots small big unfolding js_lib_ok_def by (simp add: tree_js_def)
qed

definition mail_ts_value :: tsval where
  "mail_ts_value =
     TObject
       [(''type'', TStr ''note''), (''level'', TNum (JsNumber 1)),
        (''parts'', TArr [TObject [(''size'', TNum (JsNumber 3))], TObject [(''size'', TNum (JsNumber 7))]]),
        (''ref'', TUnionVal ''A'' (TObject [(''size'', TNum (JsNumber 9))]))]"

lemma mail_ts_ok: "ts_schema_ok mail_tables mail_enums"
proof -
  have "list_all (\<lambda>e. em_kind e \<noteq> BitFlags \<and> \<not> fst (wire_range (em_underlying e))) (plain_enums mail_enums)" by code_simp
  then have "enums_ok mail_enums" by (simp add: enums_ok_def list_all_iff)
  moreover have "unions_ok mail_enums" "list_all (slots_ok (schema_of mail_tables mail_enums)) mail_tables" by code_simp+
  ultimately show ?thesis by (simp add: ts_schema_ok_def)
qed

lemma mail_ts_typed: "ts_typed mail_tables mail_enums ''Mail'' mail_ts_value"
proof -
  let ?S = "schema_of mail_tables mail_enums"
  have num: "scalar_like mail_enums ''Level''" "scalar_like mail_enums ''uint32''" "\<not> scalar_like mail_enums ''string''"
    "\<not> is_flags ?S ''Level''" "\<not> is_flags ?S ''uint32''" "num_ok ?S ''Level'' (JsNumber 1)"
    "list_all (\<lambda>i. num_ok ?S ''uint32'' (JsNumber i)) [3, 7, 9]" by code_simp+
  have part: "ts_typed mail_tables mail_enums ''Part'' (TObject [(''size'', TNum (JsNumber i))])" if "i \<in> {3, 7, 9}" for i
  proof -
    have "ts_typed mail_tables mail_enums ''uint32'' (TNum (JsNumber i))"
      using num(2,5,7) that by (intro tt_num) auto
    then show ?thesis
      using tt_table [of "mail_tables ! 1" mail_tables "[(''size'', TNum (JsNumber i))]" mail_enums] by (simp add: mail_tables_def)
  qed
  have parts: "ts_typed mail_tables mail_enums ''[Part]''
      (TArr [TObject [(''size'', TNum (JsNumber 3))], TObject [(''size'', TNum (JsNumber 7))]])"
    using tt_vec [of "[TObject [(''size'', TNum (JsNumber 3))], TObject [(''size'', TNum (JsNumber 7))]]" mail_tables mail_enums "''Part''"] part
    by (simp add: vector_type_def)
  have source: "ts_typed mail_tables mail_enums ''Source'' (TUnionVal ''A'' (TObject [(''size'', TNum (JsNumber 9))]))"
    using tt_union [of "mail_enums ! 1" mail_enums "''A''" "''Part''" mail_tables] part
    by (simp add: unions_def mail_enums_def is_union_def union_tables_def)
  have level: "ts_typed mail_tables mail_enums ''Level'' (TNum (JsNumber 1))"
    using num(1,4,6) by (intro tt_num) auto
  show ?thesis
    using tt_table [of "mail_tables ! 0" mail_tables _ mail_enums] level parts source
    by (simp add: mail_ts_value_def mail_tables_def tt_string)
qed

theorem ts_codec_roundtrip_witness:
  "\<exists>w. ts_encode_table tree_js (generate_codec (schema_of mail_tables mail_enums)) (size mail_ts_value) ''Mail'' mail_ts_value = Some w \<and>
    ts_decode_table tree_js (generate_codec (schema_of mail_tables mail_enums)) (size mail_ts_value) ''Mail'' w = Some mail_ts_value"
proof -
  have "mail_tables ! 0 \<in> set mail_tables" "tb_name (mail_tables ! 0) = ''Mail''" by (simp_all add: mail_tables_def)
  then show ?thesis
    using ts_codec_roundtrip [OF tree_js_ok mail_namespace_ok mail_ts_ok refl, of "mail_tables ! 0" mail_ts_value "size mail_ts_value"]
      mail_ts_typed by simp
qed

text \<open>A plain enum of 64 bits, which TypeScript declares a \<^verbatim>\<open>number\<close>, is refused by the runtime's bigint writer.\<close>

lemma wide_enum_throws:
  "field_slots tree_js [] (\<lambda>t v. None)
     (encode_field_of (schema_of [] [\<lparr>em_name = ''Big'', em_variants = [''A'', ''B''], em_values = [0, 1],
        em_underlying = ''int64'', em_kind = Plain\<rparr>])
       \<lparr>fd_name = ''big'', fd_fbs_type = ''Big'', fd_default = None, fd_id = 0\<rparr>) (TNum (JsNumber 1)) = None"
  by code_simp

end
