(* ===== verification/BuildDriver.thy ===== *)
theory BuildDriver
  imports TsClient StaticFiles TsRoundtrip Lines
begin

text \<open>
  The drivers of the generators: \<^verbatim>\<open>crates/flatbed_build/src/compile.rs\<close>, \<open>gen_fb_plugin\<close> of
  \<^verbatim>\<open>fb_plugin.rs\<close> and the command line, \<^verbatim>\<open>bin/flatbed.rs\<close>. flatc, the file system, HTTP and the JSON
  parser are parameters; what a run prints to cargo and writes to disk is a list in order. A panic
  of a generator ends a run like an error.
\<close>

subsection \<open>Text\<close>

definition opens_module :: "string \<Rightarrow> bool" where
  "opens_module line \<longleftrightarrow> prefix ''#[allow('' line \<and> contains_str line ''pub mod'' \<or> prefix ''pub mod '' line"

text \<open>The depth is unsigned: a closing brace too many panics, \<open>None\<close>.\<close>

fun extract_lines :: "bool \<Rightarrow> nat \<Rightarrow> string \<Rightarrow> string list \<Rightarrow> string option" where
  "extract_lines in_module depth result [] = Some result"
| "extract_lines in_module depth result (line # ls) =
     (if in_module \<or> opens_module line then
        (let result' = result @ line @ newline_text;
             up = depth + count_list line (CHR ''{''); down = count_list line (CHR ''}'')
         in if up < down then None
            else if up - down = 0 \<and> contains_str result' ''pub mod'' then Some result'
            else extract_lines True (up - down) result' ls)
      else extract_lines False depth result ls)"

definition extract_module_content :: "string \<Rightarrow> string option" where
  "extract_module_content generated = extract_lines False 0 [] (text_lines generated)"

subsection \<open>Compiling schemas\<close>

definition path_extension :: "string \<Rightarrow> string option" where
  "path_extension p =
     (case file_name p of
        None \<Rightarrow> None
      | Some s \<Rightarrow>
          (let after = takeWhile (\<lambda>c. c \<noteq> CHR ''.'') (rev s)
           in if length after + 1 \<ge> length s then None else Some (rev after)))"

text \<open>\<open>Path::file_stem\<close>; the code unwraps it.\<close>

definition file_stem :: "string \<Rightarrow> string" where
  "file_stem p =
     (case file_name p of
        None \<Rightarrow> []
      | Some s \<Rightarrow> (case path_extension p of Some e \<Rightarrow> take (length s - length e - 1) s | None \<Rightarrow> s))"

text \<open>\<open>Path::parent\<close>: what comes before the last component, without the separator.\<close>

definition parent_dir :: "string \<Rightarrow> string" where
  "parent_dir p =
     (let before = rev (dropWhile (\<lambda>c. c \<noteq> CHR ''/'') (rev (trim_end_matches CHR ''/'' p)));
          dir = trim_end_matches CHR ''/'' before
      in if dir = [] \<and> before \<noteq> [] then ''/'' else dir)"

text \<open>A directory's entries: a path and whether it is a file.\<close>

definition root_fbs_files :: "string + (string \<times> bool) list \<Rightarrow> string + string list" where
  "root_fbs_files listing =
     bind_res listing (\<lambda>entries.
       Inr (sort (map fst (filter (\<lambda>(p, is_file). is_file \<and> path_extension p = Some ''fbs'') entries))))"

record 'd build_tools =
  bt_bfbs :: "string \<Rightarrow> string + 'd rschema"
  bt_rust :: "string \<Rightarrow> string + string"
  bt_read :: "string \<Rightarrow> string + string"
  bt_floats :: "'d float_fmt"

definition reflect_schema_file ::
  "'d build_tools \<Rightarrow> string \<Rightarrow> string + (table by_namespace \<times> enum by_namespace \<times> string list)" where
  "reflect_schema_file T schema_path =
     (let dir = parent_dir schema_path
      in bind_res (bt_bfbs T schema_path) (\<lambda>S.
         bind_res (build_reflected_schema (bt_floats T) (\<lambda>f. bt_read T (path_join dir f)) S) (\<lambda>(tables, enums).
         Inr (tables, enums, map (\<lambda>f. path_join dir (trim_root f)) (rs_fbs_files S)))))"

datatype build_output =
    RerunIfChanged string
  | WriteGenerated string string
  | WriteFlatbed string module_file

type_synonym build_run = "build_output list \<times> (string + unit)"

definition then_run :: "build_run \<Rightarrow> build_run \<Rightarrow> build_run" where
  "then_run r q = (case snd r of Inl e \<Rightarrow> r | Inr u \<Rightarrow> (fst r @ fst q, snd q))"

definition emit_result :: "string + 'a \<Rightarrow> ('a \<Rightarrow> build_run) \<Rightarrow> build_run" where
  "emit_result r f = (case r of Inl e \<Rightarrow> ([], Inl e) | Inr a \<Rightarrow> f a)"

definition combined_preamble :: string where
  "combined_preamble =
     concat (map (\<lambda>l. l @ newline_text)
       [''// automatically generated by flatbed_build - do not edit'', [],
        ''use core::mem;'', ''use core::cmp::Ordering;'', [],
        ''extern crate flatbuffers;'', ''use self::flatbuffers::{EndianScalar, Follow};'', []])"

text \<open>One include: flatc writes its file, whose module joins the combined text.\<close>

fun combine_includes :: "'d build_tools \<Rightarrow> string \<Rightarrow> string list \<Rightarrow> string \<Rightarrow> build_output list \<times> (string + string)" where
  "combine_includes T out_dir [] combined = ([], Inr combined)"
| "combine_includes T out_dir (p # ps) combined =
     (case bt_rust T p of
        Inl e \<Rightarrow> ([], Inl e)
      | Inr text \<Rightarrow>
          (let written = WriteGenerated (path_join out_dir (file_stem p @ ''_generated.rs'')) text
           in case extract_module_content text of
                None \<Rightarrow> ([written], Inl ''attempt to subtract with overflow'')
              | Some content \<Rightarrow>
                  (case combine_includes T out_dir ps (combined @ content @ newline_text) of
                     (ws, r) \<Rightarrow> (written # ws, r))))"

definition compile_one_schema :: "'d build_tools \<Rightarrow> string \<Rightarrow> string \<Rightarrow> build_run" where
  "compile_one_schema T out_dir schema_path =
     (let stem = file_stem schema_path; generated = path_join out_dir (stem @ ''_generated.rs'')
      in then_run ([RerunIfChanged schema_path], Inr ())
           (emit_result (reflect_schema_file T schema_path) (\<lambda>(tables, enums, files).
              (let includes = filter (\<lambda>f. components f \<noteq> components schema_path) files
               in then_run (map RerunIfChanged files, Inr ())
                   (then_run
                     (if includes = [] then
                        emit_result (bt_rust T schema_path) (\<lambda>text. ([WriteGenerated generated text], Inr ()))
                      else (case combine_includes T out_dir includes combined_preamble of
                          (ws, Inl e) \<Rightarrow> (ws, Inl e)
                        | (ws, Inr text) \<Rightarrow> (ws @ [WriteGenerated generated text], Inr ())))
                     (emit_result (generate_flatbed_module tables enums stem) (\<lambda>m.
                        ([WriteFlatbed (path_join out_dir (stem @ ''_flatbed.rs'')) m], Inr ()))))))))"

text \<open>\<open>Config\<close>: the schemas in order; the first failure ends the run.\<close>

definition config_compile :: "'d build_tools \<Rightarrow> string \<Rightarrow> string list \<Rightarrow> build_run" where
  "config_compile T out_dir schemas =
     foldl (\<lambda>r s. then_run r (compile_one_schema T out_dir s)) ([], Inr ()) schemas"

definition run_generate :: "'d build_tools \<Rightarrow> string + (string \<times> bool) list \<Rightarrow> string + unit \<Rightarrow> string \<Rightarrow> build_run" where
  "run_generate T listing create_dir out_dir =
     emit_result (root_fbs_files listing) (\<lambda>schemas.
       if schemas = [] then ([], Inl ''no top-level .fbs files found'')
       else emit_result create_dir (\<lambda>u. config_compile T out_dir schemas))"

subsection \<open>The plugin\<close>

datatype spec_source = SpecServer string | SpecFile string

record spec_tools =
  st_read :: "string \<Rightarrow> string + string"
  st_get :: "string \<Rightarrow> string + string"
  st_parse :: "string \<Rightarrow> string + json"

definition load_spec :: "spec_tools \<Rightarrow> spec_source \<Rightarrow> string + json" where
  "load_spec P spec_at =
     bind_res
       (case spec_at of
          SpecFile p \<Rightarrow> st_read P p
        | SpecServer base_url \<Rightarrow> st_get P (trim_end_matches CHR ''/'' base_url @ ''/openapi.json''))
       (st_parse P)"

record plugin_files =
  pl_types :: "ts_item list"
  pl_codec :: "ts_item list"
  pl_client :: ts_client

definition plugin_files_of :: "table by_namespace \<Rightarrow> enum by_namespace \<Rightarrow> fb_operation list \<Rightarrow> plugin_files" where
  "plugin_files_of tables enums ops =
     \<lparr>pl_types = fst (generate_ts tables enums), pl_codec = snd (generate_ts tables enums), pl_client = generate_client ops\<rparr>"

text \<open>\<open>out\<close> says whether files are asked for.\<close>

definition gen_fb_plugin ::
  "spec_tools \<Rightarrow> 'd build_tools \<Rightarrow> spec_source \<Rightarrow> string + (string \<times> bool) list \<Rightarrow> bool \<Rightarrow> string + plugin_files option" where
  "gen_fb_plugin P T spec_at listing out =
     bind_res (load_spec P spec_at) (\<lambda>spec.
     bind_res (reflect_schemas (\<lambda>r. bind_res (reflect_schema_file T r) (\<lambda>(t, e, includes). Inr (t, e))) (root_fbs_files listing)) (\<lambda>te.
       (let ops = fb_operations spec
        in bind_res (validate_ops ops (table_names (fst te))) (\<lambda>u.
           if out then bind_res (check_unique_method_names ops) (\<lambda>u. Inr (Some (plugin_files_of (fst te) (snd te) ops)))
           else Inr None))))"

subsection \<open>The command line\<close>

datatype command =
    Generate
  | GenFbPlugin "string option" "string option" bool

text \<open>The exit code; clap refuses \<^verbatim>\<open>--server\<close> with \<^verbatim>\<open>--openapi\<close>.\<close>

definition run_command ::
  "spec_tools \<Rightarrow> 'd build_tools \<Rightarrow> string + (string \<times> bool) list \<Rightarrow> string + unit \<Rightarrow> string \<Rightarrow> command \<Rightarrow> bool option" where
  "run_command P T listing create_dir out_dir c =
     (case c of
        Generate \<Rightarrow> Some (\<not> isl (snd (run_generate T listing create_dir out_dir)))
      | GenFbPlugin server openapi out \<Rightarrow>
          (case (server, openapi) of
             (Some url, None) \<Rightarrow> Some (\<not> isl (gen_fb_plugin P T (SpecServer url) listing out))
           | (None, Some f) \<Rightarrow> Some (\<not> isl (gen_fb_plugin P T (SpecFile f) listing out))
           | (None, None) \<Rightarrow> Some False
           | (Some _, Some _) \<Rightarrow> None))"

subsection \<open>The plugin's files fit together\<close>

fun item_interfaces :: "ts_item \<Rightarrow> string list" where
  "item_interfaces (Interface n fs) = [n]"
| "item_interfaces _ = []"

text \<open>The tables a codec can encode and decode, and the interfaces of a types file.\<close>

definition codec_names :: "ts_item list \<Rightarrow> string list" where
  "codec_names I = filter (\<lambda>t. List.member (map fst (concat (map item_decoders I))) t) (map fst (concat (map item_encoders I)))"

definition interface_names :: "ts_item list \<Rightarrow> string list" where
  "interface_names I = concat (map item_interfaces I)"

definition method_types :: "ts_method \<Rightarrow> string list" where
  "method_types tm = option_list (tm_encode tm) @ option_list (tm_decode tm)"

lemma schema_new_tables: "set (sc_tables (schema_new tables enums)) = {t. \<exists>ns ts. (ns, ts) \<in> set tables \<and> t \<in> set ts}"
  by (force simp: schema_new_def schema_of_def sorted_by_key_def)

lemma generated_names:
  assumes "x \<in> set (table_names tables)"
  shows "x \<in> set (codec_names (snd (generate_ts tables enums)))" "x \<in> set (interface_names (fst (generate_ts tables enums)))"
proof -
  let ?S = "schema_new tables enums"
  obtain ns ts t where "(ns, ts) \<in> set tables" "t \<in> set ts" "x = tb_name t"
    using assms by (auto simp: table_names_def)
  then have t: "t \<in> set (sc_tables ?S)" "x = tb_name t" by (auto simp: schema_new_tables)
  then show "x \<in> set (codec_names (snd (generate_ts tables enums)))"
    by (auto simp: codec_names_def generate_ts_def Let_def codec_items(3,4) [OF refl])
  have "item_interfaces (if em_kind e = BitFlags then TypeAlias (em_name e) (em_variants e) else EnumDecl (em_name e) (constants e)) = []" for e
    by simp
  then show "x \<in> set (interface_names (fst (generate_ts tables enums)))"
    using t by (auto simp: interface_names_def generate_ts_def Let_def generate_types_def)
qed

lemma client_types:
  "set (method_types (ts_method_of op)) \<subseteq> set (op_types op)"
  "set (tc_types (generate_client ops)) \<subseteq> (\<Union>op \<in> set ops. set (op_types op))"
proof -
  have types: "set (option_list (effective_request_type op) @ option_list (op_response op)) \<subseteq> set (op_types op)" for op
    by (auto simp: option_list_def effective_request_type_def op_types_def split: option.splits if_splits)
  show "set (method_types (ts_method_of op)) \<subseteq> set (op_types op)"
    using types [of op] by (simp add: method_types_def ts_method_of_def)
  show "set (tc_types (generate_client ops)) \<subseteq> (\<Union>op \<in> set ops. set (op_types op))"
    using types by (fastforce simp: generate_client_def)
qed

text \<open>
  C30. What the plugin writes fits together: when it succeeds, every method of the client encodes and
  decodes with functions its codec exports, every type the client imports is an interface of its
  types file, the methods are valid members with names apart, and the codec is imported just when
  a method uses it.
\<close>

theorem plugin_files_consistent:
  assumes "gen_fb_plugin P T spec_at listing True = Inr (Some files)"
  shows "list_all (\<lambda>tm. method_ok tm \<and> set (method_types tm) \<subseteq> set (codec_names (pl_codec files))) (tc_methods (pl_client files)) \<and>
    distinct (map tm_name (tc_methods (pl_client files))) \<and>
    set (tc_types (pl_client files)) \<subseteq> set (interface_names (pl_types files)) \<and>
    (tc_codec_import (pl_client files) \<longleftrightarrow> list_ex (\<lambda>tm. method_types tm \<noteq> []) (tc_methods (pl_client files)))"
proof -
  obtain spec tables enums where
    v: "validate_ops (fb_operations spec) (table_names tables) = Inr ()"
    and c: "check_unique_method_names (fb_operations spec) = Inr ()"
    and f: "files = plugin_files_of tables enums (fb_operations spec)"
    using assms unfolding gen_fb_plugin_def by (auto simp: bind_res_def Let_def split: sum.splits)
  let ?ops = "fb_operations spec"
  have types: "set (op_types op) \<subseteq> set (table_names tables)" if "op \<in> set ?ops" for op
    using v that unfolding validate_iff by blast
  have ms: "tc_methods (pl_client files) = map ts_method_of ?ops" by (simp add: f plugin_files_of_def generate_client_def)
  have "method_ok (ts_method_of op) \<and> set (method_types (ts_method_of op)) \<subseteq> set (codec_names (pl_codec files))"
    if "op \<in> set ?ops" for op
  proof
    show "method_ok (ts_method_of op)"
      using c that unfolding check_unique_method_names_def check_operations_iff by blast
    show "set (method_types (ts_method_of op)) \<subseteq> set (codec_names (pl_codec files))"
      using client_types(1) [of op] types [OF that] generated_names(1) [of _ tables enums] by (auto simp: f plugin_files_of_def)
  qed
  moreover have "distinct (map tm_name (map ts_method_of ?ops))"
    using c unfolding check_unique_method_names_def check_operations_iff by (simp add: comp_def ts_method_of_def)
  moreover have "set (tc_types (pl_client files)) \<subseteq> set (interface_names (pl_types files))"
    using client_types(2) [of ?ops] types generated_names(2) [of _ tables enums] by (force simp: f plugin_files_of_def)
  moreover have "method_types (ts_method_of op) \<noteq> [] \<longleftrightarrow> effective_request_type op \<noteq> None \<or> op_response op \<noteq> None" for op
    by (simp add: method_types_def ts_method_of_def option_list_def split: option.split)
  then have "tc_codec_import (pl_client files) \<longleftrightarrow> list_ex (\<lambda>tm. method_types tm \<noteq> []) (map ts_method_of ?ops)"
    by (simp add: f plugin_files_of_def generate_client_def list_ex_iff)
  ultimately show ?thesis unfolding ms by (simp add: list_all_iff)
qed

definition mail_document :: json where
  "mail_document =
     (let content = (\<lambda>t. JObj [(''application/json'', JObj [(''schema'', JObj [(''$ref'', json.JString (''#/components/schemas/'' @ t))])]),
                              (''application/x-flatbuffers'', JObj [])])
      in JObj [(''paths'', JObj
           [(''/mails/{id}'', JObj
              [(''get'', JObj [(''responses'', JObj [(''200'', JObj [(''content'', content ''Mail'')])])]),
               (''put'', JObj [(''requestBody'', JObj [(''content'', content ''Mail'')]),
                             (''responses'', JObj [(''204'', JObj [])])])])])])"

definition mail_tools :: "unit build_tools" where
  "mail_tools =
     \<lparr>bt_bfbs = (\<lambda>p. Inr \<lparr>rs_objects =
        [\<lparr>ro_name = ''v1.Mail'', ro_is_struct = False, ro_fields = [], ro_attributes = [],
         ro_declaration_file = Some ''//mail.fbs''\<rparr>], rs_enums = [], rs_fbs_files = [''//mail.fbs'']\<rparr>),
      bt_rust = (\<lambda>p. Inr []), bt_read = (\<lambda>p. Inr ''table Mail {}''), bt_floats = no_floats\<rparr>"

definition mail_spec_tools :: spec_tools where
  "mail_spec_tools = \<lparr>st_read = (\<lambda>p. Inr []), st_get = (\<lambda>u. Inl ''refused''), st_parse = (\<lambda>t. Inr mail_document)\<rparr>"

lemma mail_operations:
  "map method_name (fb_operations mail_document) = [''getMailsById'', ''putMailsById'']"
  "validate_ops (fb_operations mail_document) [''Mail''] = Inr ()"
  "check_unique_method_names (fb_operations mail_document) = Inr ()"
  by code_simp+

lemma mail_file:
  "\<exists>tables enums files. reflect_schema_file mail_tools ''s/mail.fbs'' = Inr (tables, enums, files) \<and>
     table_names (merge_namespaces tb_name tables []) = [''Mail'']"
proof -
  have "(case reflect_schema_file mail_tools ''s/mail.fbs'' of Inl e \<Rightarrow> False
      | Inr (tables, enums, files) \<Rightarrow> table_names (merge_namespaces tb_name tables []) = [''Mail''])"
    by code_simp
  then show ?thesis by (auto split: sum.splits)
qed

lemma mail_roots: "root_fbs_files (Inr [(''s/mail.fbs'', True)]) = Inr [''s/mail.fbs'']"
  by code_simp

lemma mail_reflected:
  "\<exists>tables enums. reflect_schemas (\<lambda>r. bind_res (reflect_schema_file mail_tools r) (\<lambda>(t, e, includes). Inr (t, e)))
     (root_fbs_files (Inr [(''s/mail.fbs'', True)])) = Inr (tables, enums) \<and> table_names tables = [''Mail'']"
proof -
  obtain tables enums files where "reflect_schema_file mail_tools ''s/mail.fbs'' = Inr (tables, enums, files)"
    "table_names (merge_namespaces tb_name tables []) = [''Mail'']"
    using mail_file by blast
  then show ?thesis unfolding mail_roots by (simp add: reflect_schemas_def bind_res_def)
qed

theorem plugin_files_consistent_witness:
  "\<exists>files. gen_fb_plugin mail_spec_tools mail_tools (SpecFile ''openapi.json'') (Inr [(''s/mail.fbs'', True)]) True = Inr (Some files) \<and>
     map tm_name (tc_methods (pl_client files)) = [''getMailsById'', ''putMailsById''] \<and>
     set (tc_types (pl_client files)) \<subseteq> set (interface_names (pl_types files))"
proof -
  obtain tables enums where r:
    "reflect_schemas (\<lambda>r. bind_res (reflect_schema_file mail_tools r) (\<lambda>(t, e, includes). Inr (t, e)))
      (root_fbs_files (Inr [(''s/mail.fbs'', True)])) = Inr (tables, enums)" "table_names tables = [''Mail'']"
    using mail_reflected by blast
  have l: "load_spec mail_spec_tools (SpecFile ''openapi.json'') = Inr mail_document"
    by (simp add: load_spec_def mail_spec_tools_def bind_res_def)
  have run: "gen_fb_plugin mail_spec_tools mail_tools (SpecFile ''openapi.json'') (Inr [(''s/mail.fbs'', True)]) True =
      Inr (Some (plugin_files_of tables enums (fb_operations mail_document)))"
    unfolding gen_fb_plugin_def l r unfolding bind_res_def by (simp add: Let_def r(2) mail_operations)
  have "map tm_name (tc_methods (pl_client (plugin_files_of tables enums (fb_operations mail_document)))) =
      [''getMailsById'', ''putMailsById'']"
    using mail_operations(1) by (simp add: plugin_files_of_def generate_client_def ts_method_of_def comp_def)
  with run plugin_files_consistent [OF run, THEN conjunct2, THEN conjunct2, THEN conjunct1] show ?thesis by (intro exI conjI)
qed

subsection \<open>What the extraction keeps\<close>

definition balance :: "string list \<Rightarrow> int" where
  "balance ls = (\<Sum>l\<leftarrow>ls. int (count_list l (CHR ''{'')) - int (count_list l (CHR ''}'')))"

text \<open>A module's lines: open from the first on, closed by the last.\<close>

definition module_block :: "string list \<Rightarrow> bool" where
  "module_block ls \<longleftrightarrow>
     ls \<noteq> [] \<and> prefix ''pub mod '' (hd ls) \<and> balance ls = 0 \<and>
     (\<forall>k < length ls. 0 < k \<longrightarrow> 0 < balance (take k ls))"

lemma extract_open:
  assumes "ls \<noteq> []" "int depth + balance ls = 0" "\<forall>k < length ls. 0 < k \<longrightarrow> 0 < int depth + balance (take k ls)"
    "contains_str result ''pub mod''"
  shows "extract_lines True depth result (ls @ rest) = Some (result @ concat (map (\<lambda>l. l @ newline_text) ls))"
  using assms
proof (induction ls arbitrary: depth result)
  case (Cons l ls)
  let ?up = "depth + count_list l (CHR ''{'')" and ?down = "count_list l (CHR ''}'')"
  have grows: "contains_str (result @ l @ newline_text) ''pub mod''"
    using Cons.prems(4) by (auto simp: contains_str_iff sublist_append_rightI intro: sublist_order.order_trans)
  show ?case
  proof (cases "ls = []")
    case True
    then have "?up = ?down" using Cons.prems(2) by (simp add: balance_def)
    then show ?thesis using True grows by (simp add: Let_def)
  next
    case False
    have pos: "0 < int depth + balance (take 1 (l # ls))"
      using Cons.prems(3) [rule_format, of 1] False by (cases ls) simp_all
    then have d: "?down < ?up" "int (?up - ?down) = int depth + balance [l]" by (simp_all add: balance_def)
    have "extract_lines True (?up - ?down) (result @ l @ newline_text) (ls @ rest) =
        Some ((result @ l @ newline_text) @ concat (map (\<lambda>l. l @ newline_text) ls))"
    proof (rule Cons.IH [OF False _ _ grows])
      show "int (?up - ?down) + balance ls = 0" unfolding d(2) using Cons.prems(2) by (simp add: balance_def)
      show "\<forall>k < length ls. 0 < k \<longrightarrow> 0 < int (?up - ?down) + balance (take k ls)"
      proof (intro allI impI)
        fix k assume k: "k < length ls" "0 < k"
        then have "0 < int depth + balance (take (Suc k) (l # ls))" using Cons.prems(3) by auto
        then show "0 < int (?up - ?down) + balance (take k ls)" unfolding d(2) by (simp add: balance_def)
      qed
    qed
    then show ?thesis using d(1) by (simp add: Let_def)
  qed
qed simp

lemma extract_skips:
  "list_all (\<lambda>l. \<not> opens_module l) pre \<Longrightarrow> extract_lines False depth result (pre @ ls) = extract_lines False depth result ls"
  by (induction pre) auto

text \<open>
  The extraction keeps the first top-level module of flatc's output, whole, and only that: what
  follows, another module included, is dropped.
\<close>

lemma extract_first_module:
  assumes "text_lines generated = pre @ block @ rest" "list_all (\<lambda>l. \<not> opens_module l) pre" "module_block block"
  shows "extract_module_content generated = Some (concat (map (\<lambda>l. l @ newline_text) block))"
proof -
  obtain l ls where b: "block = l # ls" "prefix ''pub mod '' l" using assms(3) by (cases block) (auto simp: module_block_def)
  have "contains_str l ''pub mod''"
  proof -
    have "prefix ''pub mod'' ''pub mod ''" by (simp add: prefix_def)
    then show ?thesis unfolding contains_str_iff using b(2) prefix_order.trans prefix_imp_sublist by blast
  qed
  then have c: "contains_str (l @ newline_text) ''pub mod''"
    unfolding contains_str_iff using sublist_append_rightI sublist_order.order_trans by blast
  have "extract_lines False 0 [] (l # ls @ rest) = Some (concat (map (\<lambda>l. l @ newline_text) block))"
  proof (cases "ls = []")
    case True
    then have "count_list l (CHR ''{'') = count_list l (CHR ''}'')" using assms(3) by (simp add: module_block_def b balance_def)
    then show ?thesis using b True c by (simp add: Let_def opens_module_def)
  next
    case False
    let ?up = "count_list l (CHR ''{'')" and ?down = "count_list l (CHR ''}'')"
    have all: "balance block = 0" "\<forall>k < length block. 0 < k \<longrightarrow> 0 < balance (take k block)"
      using assms(3) by (simp_all add: module_block_def)
    from all(2) [rule_format, of 1] False have "0 < balance (take 1 block)" by (cases ls) (simp_all add: b(1))
    then have d: "?down < ?up" "int (?up - ?down) = balance [l]" by (simp_all add: b(1) balance_def)
    have "extract_lines True (?up - ?down) (l @ newline_text) (ls @ rest) =
        Some ((l @ newline_text) @ concat (map (\<lambda>l. l @ newline_text) ls))"
    proof (rule extract_open [OF False _ _ c])
      show "int (?up - ?down) + balance ls = 0" unfolding d(2) using all(1) by (simp add: b(1) balance_def)
      show "\<forall>k < length ls. 0 < k \<longrightarrow> 0 < int (?up - ?down) + balance (take k ls)"
      proof (intro allI impI)
        fix k assume k: "k < length ls" "0 < k"
        then have "0 < balance (take (Suc k) block)" using all(2) b(1) by auto
        then show "0 < int (?up - ?down) + balance (take k ls)" unfolding d(2) by (simp add: b(1) balance_def)
      qed
    qed
    then show ?thesis using d(1) b by (simp add: Let_def opens_module_def)
  qed
  then show ?thesis using extract_skips [OF assms(2), of 0 "[]" "block @ rest"] by (simp add: extract_module_content_def assms(1) b(1))
qed

text \<open>
  With includes, the root's own flatc output is not read: its declarations are in the flatbed
  module and missing from the generated one.
\<close>

lemma root_output_unused:
  assumes "reflect_schema_file T p = Inr (tables, enums, files)" "filter (\<lambda>f. components f \<noteq> components p) files = j # js"
    "\<forall>q \<in> set (j # js). rust' q = bt_rust T q"
  shows "compile_one_schema (T\<lparr>bt_rust := rust'\<rparr>) out_dir p = compile_one_schema T out_dir p"
proof -
  have same: "combine_includes (T\<lparr>bt_rust := rust'\<rparr>) out_dir qs acc = combine_includes T out_dir qs acc"
    if "\<forall>q \<in> set qs. rust' q = bt_rust T q" for qs acc
    using that by (induction qs arbitrary: acc) (auto simp: Let_def split: sum.splits option.splits)
  have "reflect_schema_file (T\<lparr>bt_rust := rust'\<rparr>) p = reflect_schema_file T p" by (simp add: reflect_schema_file_def)
  then show ?thesis
    unfolding compile_one_schema_def Let_def assms(1) emit_result_def sum.case prod.case
    by (simp only: assms(2) same [OF assms(3)] list.distinct if_False simp_thms sum.case prod.case assms(1) refl)
qed

end
