(* ===== verification/Macros.thy ===== *)
theory Macros
  imports Lines Registry NatsSubjects StaticFiles
begin

text \<open>
  The attribute and function macros of \<^verbatim>\<open>crates/flatbed_macros\<close>: what \<open>#[route]\<close>, \<open>#[nats_route]\<close> and
  \<open>static_route!\<close> accept, what they refuse and what they register. A token is classified by the
  parser of the syn crate that accepts it, a type is syn's tree of it, and the text of a type and
  the generated fields of one come from the compiler. Spans are left out.
\<close>

subsection \<open>Tokens\<close>

text \<open>An identifier is one that is no keyword. A bracketed group holds its own tokens.\<close>

datatype token =
    TkIdent string
  | TkStr string
  | TkBool bool
  | TkComma
  | TkEq
  | TkBrackets "token list"
  | TkOther string

text \<open>An error of syn's own, an error the macro words, or a panic on a name that is no identifier.\<close>

datatype macro_error = Unexpected | Refused string | BadIdent string

type_synonym 'a token_parser = "token list \<Rightarrow> macro_error + ('a \<times> token list)"

definition and_then :: "'e + 'a \<Rightarrow> ('a \<Rightarrow> 'e + 'b) \<Rightarrow> 'e + 'b" where
  "and_then r f = (case r of Inl e \<Rightarrow> Inl e | Inr x \<Rightarrow> f x)"

lemma and_then_simps [simp]: "and_then (Inl e) f = Inl e" "and_then (Inr x) f = f x"
  by (simp_all add: and_then_def)

lemma and_then_Inr: "and_then r f = Inr y \<longleftrightarrow> (\<exists>x. r = Inr x \<and> f x = Inr y)"
  by (cases r) auto

lemma and_then_cong [fundef_cong]:
  "r = r' \<Longrightarrow> (\<And>x. r' = Inr x \<Longrightarrow> f x = g x) \<Longrightarrow> and_then r f = and_then r' g"
  by (cases r') auto

fun parse_ident :: "string token_parser" where
  "parse_ident (TkIdent s # ts) = Inr (s, ts)"
| "parse_ident _ = Inl Unexpected"

fun parse_lit_str :: "string token_parser" where
  "parse_lit_str (TkStr s # ts) = Inr (s, ts)"
| "parse_lit_str _ = Inl Unexpected"

fun parse_lit_bool :: "bool token_parser" where
  "parse_lit_bool (TkBool b # ts) = Inr (b, ts)"
| "parse_lit_bool _ = Inl Unexpected"

fun parse_eq :: "unit token_parser" where
  "parse_eq (TkEq # ts) = Inr ((), ts)"
| "parse_eq _ = Inl Unexpected"

fun parse_brackets :: "token list token_parser" where
  "parse_brackets (TkBrackets content # ts) = Inr (content, ts)"
| "parse_brackets _ = Inl Unexpected"

fun peek_comma :: "token list \<Rightarrow> bool" where
  "peek_comma (TkComma # ts) = True"
| "peek_comma _ = False"

text \<open>\<open>parse_terminated\<close> with commas takes the whole of its stream.\<close>

function (sequential) parse_terminated :: "token list \<Rightarrow> macro_error + string list" where
  "parse_terminated [] = Inr []"
| "parse_terminated (TkStr s # []) = Inr [s]"
| "parse_terminated (TkStr s # TkComma # ts) = and_then (parse_terminated ts) (\<lambda>xs. Inr (s # xs))"
| "parse_terminated _ = Inl Unexpected"
  by pat_completeness auto
termination by (relation "measure length") auto

text \<open>\<open>parse_macro_input!\<close> refuses what its parser leaves.\<close>

definition parse_macro_input :: "'a token_parser \<Rightarrow> token list \<Rightarrow> macro_error + 'a" where
  "parse_macro_input p ts = and_then (p ts) (\<lambda>(x, rest). if rest = [] then Inr x else Inl Unexpected)"

lemma parse_some:
  "parse_ident ts = Inr (s, r) \<longleftrightarrow> ts = TkIdent s # r"
  "parse_lit_str ts = Inr (s, r) \<longleftrightarrow> ts = TkStr s # r"
  "parse_lit_bool ts = Inr (b, r) \<longleftrightarrow> ts = TkBool b # r"
  "parse_eq ts = Inr (u, r) \<longleftrightarrow> ts = TkEq # r"
  "parse_brackets ts = Inr (c, r) \<longleftrightarrow> ts = TkBrackets c # r"
  by (cases ts rule: parse_ident.cases; auto) (cases ts rule: parse_lit_str.cases; auto
    | cases ts rule: parse_lit_bool.cases; auto | cases ts rule: parse_eq.cases; auto
    | cases ts rule: parse_brackets.cases; auto)+

lemma peek_comma_iff: "peek_comma ts \<longleftrightarrow> (\<exists>r. ts = TkComma # r)"
  by (cases ts rule: peek_comma.cases) auto

subsection \<open>The arguments of a route\<close>

text \<open>
  \<open>str::to_uppercase\<close> as far as its result is ASCII: these are the characters outside ASCII whose
  upper case is in it; every other one keeps a byte that no method has.
\<close>

definition folded_to_ascii :: "(string \<times> string) list" where
  "folded_to_ascii =
     [([CHR 0xC3, CHR 0x9F], ''SS''), ([CHR 0xC4, CHR 0xB1], ''I''), ([CHR 0xC5, CHR 0xBF], ''S''),
      ([CHR 0xEF, CHR 0xAC, CHR 0x80], ''FF''), ([CHR 0xEF, CHR 0xAC, CHR 0x81], ''FI''),
      ([CHR 0xEF, CHR 0xAC, CHR 0x82], ''FL''), ([CHR 0xEF, CHR 0xAC, CHR 0x83], ''FFI''),
      ([CHR 0xEF, CHR 0xAC, CHR 0x84], ''FFL''), ([CHR 0xEF, CHR 0xAC, CHR 0x85], ''ST''),
      ([CHR 0xEF, CHR 0xAC, CHR 0x86], ''ST'')]"

function upper_case :: "string \<Rightarrow> string" where
  "upper_case [] = []"
| "upper_case (c # s) =
     (case find (\<lambda>(u, v). prefix u (c # s)) folded_to_ascii of
        Some (u, v) \<Rightarrow> v @ upper_case (drop (length u - 1) s)
      | None \<Rightarrow> ascii_upper c # upper_case s)"
  by pat_completeness auto
termination by (relation "measure length") auto

definition method_names :: "(string \<times> http_method) list" where
  "method_names = map (\<lambda>m. (method_str m, m)) [Get, Post, Put, Delete, Patch, Head, Options]"

definition method_from_str :: "string \<Rightarrow> http_method option" where
  "method_from_str s = map_of method_names (upper_case s)"

record route_attrs =
  at_path :: string
  at_method :: http_method
  at_version :: "string option"
  at_tag :: "string option"
  at_summary :: "string option"
  at_operation_id :: "string option"
  at_deprecated :: bool

definition route_attrs_new :: "string \<Rightarrow> route_attrs" where
  "route_attrs_new p =
     \<lparr>at_path = p, at_method = Post, at_version = None, at_tag = None, at_summary = None,
      at_operation_id = None, at_deprecated = False\<rparr>"

text \<open>The value after one key and its equals sign.\<close>

definition route_value :: "string \<Rightarrow> route_attrs \<Rightarrow> route_attrs token_parser" where
  "route_value key a ts =
     (if key = ''method'' then
        and_then (parse_lit_str ts) (\<lambda>(s, ts).
          case method_from_str s of
            Some m \<Rightarrow> Inr (a\<lparr>at_method := m\<rparr>, ts)
          | None \<Rightarrow> Inl (Refused ''Invalid HTTP method. Use: GET, POST, PUT, DELETE, PATCH, HEAD, OPTIONS''))
      else if key = ''version'' then and_then (parse_lit_str ts) (\<lambda>(s, ts). Inr (a\<lparr>at_version := Some s\<rparr>, ts))
      else if key = ''tag'' then and_then (parse_lit_str ts) (\<lambda>(s, ts). Inr (a\<lparr>at_tag := Some s\<rparr>, ts))
      else if key = ''summary'' then and_then (parse_lit_str ts) (\<lambda>(s, ts). Inr (a\<lparr>at_summary := Some s\<rparr>, ts))
      else if key = ''operation_id'' then and_then (parse_lit_str ts) (\<lambda>(s, ts). Inr (a\<lparr>at_operation_id := Some s\<rparr>, ts))
      else if key = ''deprecated'' then and_then (parse_lit_bool ts) (\<lambda>(b, ts). Inr (a\<lparr>at_deprecated := b\<rparr>, ts))
      else Inl (Refused (''Unknown attribute: '' @ key)))"

lemma route_value_shorter: "route_value key a ts = Inr (a', r) \<Longrightarrow> length ts = Suc (length r)"
  by (auto simp: route_value_def and_then_Inr parse_some split: if_splits option.splits)

function parse_route_keys :: "route_attrs \<Rightarrow> route_attrs token_parser" where
  "parse_route_keys a ts =
     (if \<not> peek_comma ts then Inr (a, ts)
      else if tl ts = [] then Inr (a, [])
      else and_then (parse_ident (tl ts)) (\<lambda>(key, r).
        and_then (parse_eq r) (\<lambda>(_, r).
        and_then (route_value key a r) (\<lambda>(a, r). parse_route_keys a r))))"
  by pat_completeness auto
termination
  by (relation "measure (\<lambda>(a, ts). length ts)")
    (auto simp: parse_some peek_comma_iff dest!: route_value_shorter)

declare parse_route_keys.simps [simp del]

definition parse_route_attrs :: "route_attrs token_parser" where
  "parse_route_attrs ts = and_then (parse_lit_str ts) (\<lambda>(p, r). parse_route_keys (route_attrs_new p) r)"

text \<open>The grammar of the arguments: a key with its value each, in any order, the last of a key counting.\<close>

datatype route_arg =
    MethodArg string
  | VersionArg string
  | TagArg string
  | SummaryArg string
  | OperationIdArg string
  | DeprecatedArg bool

primrec arg_pair :: "route_arg \<Rightarrow> string \<times> token" where
  "arg_pair (MethodArg s) = (''method'', TkStr s)"
| "arg_pair (VersionArg s) = (''version'', TkStr s)"
| "arg_pair (TagArg s) = (''tag'', TkStr s)"
| "arg_pair (SummaryArg s) = (''summary'', TkStr s)"
| "arg_pair (OperationIdArg s) = (''operation_id'', TkStr s)"
| "arg_pair (DeprecatedArg b) = (''deprecated'', TkBool b)"

definition arg_tokens :: "route_arg \<Rightarrow> token list" where
  "arg_tokens x = [TkComma, TkIdent (fst (arg_pair x)), TkEq, snd (arg_pair x)]"

definition arg_ok :: "route_arg \<Rightarrow> bool" where
  "arg_ok x \<longleftrightarrow> (case x of MethodArg s \<Rightarrow> method_from_str s \<noteq> None | _ \<Rightarrow> True)"

primrec apply_arg :: "route_arg \<Rightarrow> route_attrs \<Rightarrow> route_attrs" where
  "apply_arg (MethodArg s) a = a\<lparr>at_method := the (method_from_str s)\<rparr>"
| "apply_arg (VersionArg s) a = a\<lparr>at_version := Some s\<rparr>"
| "apply_arg (TagArg s) a = a\<lparr>at_tag := Some s\<rparr>"
| "apply_arg (SummaryArg s) a = a\<lparr>at_summary := Some s\<rparr>"
| "apply_arg (OperationIdArg s) a = a\<lparr>at_operation_id := Some s\<rparr>"
| "apply_arg (DeprecatedArg b) a = a\<lparr>at_deprecated := b\<rparr>"

lemma route_value_sound:
  assumes "route_value key a ts = Inr (a', r)"
  obtains x where "arg_ok x" "key = fst (arg_pair x)" "ts = snd (arg_pair x) # r" "a' = apply_arg x a"
proof -
  from assms consider (verb) s m where "key = ''method''" "ts = TkStr s # r" "method_from_str s = Some m" "a' = a\<lparr>at_method := m\<rparr>"
    | (str) s x where "x \<in> {VersionArg s, TagArg s, SummaryArg s, OperationIdArg s}" "key = fst (arg_pair x)"
        "ts = TkStr s # r" "a' = apply_arg x a"
    | (bool) b where "key = ''deprecated''" "ts = TkBool b # r" "a' = a\<lparr>at_deprecated := b\<rparr>"
    by (fastforce simp: route_value_def and_then_Inr parse_some split: if_splits option.splits)
  then show thesis
  proof cases
    case verb
    then show thesis by (intro that [of "MethodArg s"]) (simp_all add: arg_ok_def)
  next
    case str
    then show thesis by (intro that [of x]) (auto simp: arg_ok_def)
  next
    case bool
    then show thesis by (intro that [of "DeprecatedArg b"]) (simp_all add: arg_ok_def)
  qed
qed

lemma route_value_complete:
  "arg_ok x \<Longrightarrow> route_value (fst (arg_pair x)) a (snd (arg_pair x) # r) = Inr (apply_arg x a, r)"
  by (cases x) (auto simp: route_value_def arg_ok_def)

definition args_tokens :: "route_arg list \<Rightarrow> bool \<Rightarrow> token list" where
  "args_tokens xs trailing = concat (map arg_tokens xs) @ (if trailing then [TkComma] else [])"

lemma parse_route_keys_complete:
  "list_all arg_ok xs \<Longrightarrow> parse_route_keys a (args_tokens xs trailing) = Inr (fold apply_arg xs a, [])"
proof (induction xs arbitrary: a)
  case Nil
  then show ?case by (simp add: args_tokens_def parse_route_keys.simps)
next
  case (Cons x xs)
  have "args_tokens (x # xs) trailing = arg_tokens x @ args_tokens xs trailing" by (simp add: args_tokens_def)
  then show ?case using Cons
    by (subst parse_route_keys.simps) (simp add: arg_tokens_def route_value_complete)
qed

lemma parse_route_keys_sound:
  "parse_route_keys a ts = Inr (a', []) \<Longrightarrow>
     \<exists>xs trailing. list_all arg_ok xs \<and> ts = args_tokens xs trailing \<and> a' = fold apply_arg xs a"
proof (induction a ts rule: parse_route_keys.induct)
  case (1 a ts)
  show ?case
  proof (cases "\<exists>r. ts = TkComma # r \<and> r \<noteq> []")
    case False
    then have "ts = args_tokens [] (ts \<noteq> []) \<and> a' = a"
      using "1.prems" by (auto simp: parse_route_keys.simps [of a ts] args_tokens_def peek_comma_iff split: if_splits)
    then show ?thesis by (intro exI [of _ "[]"]) auto
  next
    case True
    then obtain r where r: "ts = TkComma # r" "r \<noteq> []" by blast
    with "1.prems" obtain key r1 a1 r2 where s: "r = TkIdent key # TkEq # r1" "route_value key a r1 = Inr (a1, r2)"
      "parse_route_keys a1 r2 = Inr (a', [])"
      by (auto simp: parse_route_keys.simps [of a "TkComma # r"] and_then_Inr parse_some)
    from route_value_sound [OF s(2)] obtain x where x: "arg_ok x" "key = fst (arg_pair x)" "r1 = snd (arg_pair x) # r2"
      "a1 = apply_arg x a" .
    have "\<exists>xs trailing. list_all arg_ok xs \<and> r2 = args_tokens xs trailing \<and> a' = fold apply_arg xs a1"
      using "1.IH" [of "(key, TkEq # r1)" key "TkEq # r1" "((), r1)" "()" r1 "(a1, r2)" a1 r2] r s by simp
    then obtain xs trailing where "list_all arg_ok xs" "r2 = args_tokens xs trailing" "a' = fold apply_arg xs a1" by blast
    with x r s(1) show ?thesis
      by (intro exI [of _ "x # xs"] exI [of _ trailing]) (simp add: args_tokens_def arg_tokens_def)
  qed
qed

lemma route_attrs_grammar:
  "parse_macro_input parse_route_attrs ts = Inr a \<longleftrightarrow>
     (\<exists>p xs trailing. ts = TkStr p # args_tokens xs trailing \<and> list_all arg_ok xs \<and> a = fold apply_arg xs (route_attrs_new p))"
proof
  assume "parse_macro_input parse_route_attrs ts = Inr a"
  then obtain p r where "ts = TkStr p # r" "parse_route_keys (route_attrs_new p) r = Inr (a, [])"
    by (auto simp: parse_macro_input_def parse_route_attrs_def and_then_Inr parse_some split: if_splits)
  with parse_route_keys_sound [OF this(2)]
  show "\<exists>p xs trailing. ts = TkStr p # args_tokens xs trailing \<and> list_all arg_ok xs \<and> a = fold apply_arg xs (route_attrs_new p)"
    by blast
qed (auto simp: parse_macro_input_def parse_route_attrs_def parse_route_keys_complete)

subsection \<open>Types and signatures\<close>

text \<open>
  A path holds what precedes its segments (a leading separator, a qualified self) as text; an
  argument that is no type is a lifetime, a constant or a binding.
\<close>

datatype rust_type =
    PathType string "path_segment list"
  | TupleType "rust_type list"
  | OtherType string
and path_segment = Segment string path_arguments
and path_arguments = NoArguments | AngleBracketed "generic_argument list" | Parenthesized string
and generic_argument = TypeArgument rust_type | OtherArgument string

text \<open>
  What the macros take from the compiler: the text of a type's tokens and the fields the type's
  generated \<open>ToFlatBuffer\<close> lists. Of the text they rely on this: only the unit type reads \<open>()\<close>, and
  no type's text is empty.
\<close>

record compiler =
  cp_text :: "rust_type \<Rightarrow> string"
  cp_fields :: "rust_type \<Rightarrow> field_info list"

definition compiler_ok :: "compiler \<Rightarrow> bool" where
  "compiler_ok E \<longleftrightarrow> (\<forall>t. cp_text E t \<noteq> [] \<and> (cp_text E t = ''()'' \<longleftrightarrow> t = TupleType []))"

text \<open>What follows the last \<open>::\<close> of a text, as \<open>split\<close> and \<open>last\<close> give it.\<close>

function after_separators :: "string \<Rightarrow> string" where
  "after_separators s =
     (case find_str ''::'' s of None \<Rightarrow> s | Some i \<Rightarrow> after_separators (drop (i + 2) s))"
  by pat_completeness auto
termination
proof (relation "measure length")
  fix s :: string and i
  assume "find_str ''::'' s = Some i"
  then have "s \<noteq> []" by auto
  then show "(drop (i + 2) s, s) \<in> measure length" by simp
qed simp

declare after_separators.simps [simp del]

definition extract_type_name :: "string \<Rightarrow> string" where
  "extract_type_name full =
     (let name = trim (after_separators full)
      in if CHR ''<'' \<in> set name then trim (takeWhile (\<lambda>c. c \<noteq> CHR ''<'') name) else name)"

text \<open>The generic arguments of a path whose last segment has a given name.\<close>

definition arguments_of :: "string \<Rightarrow> rust_type \<Rightarrow> generic_argument list option" where
  "arguments_of name t =
     (case t of
        PathType _ segments \<Rightarrow>
          (if segments = [] then None
           else case last segments of
             Segment ident args \<Rightarrow>
               if ident \<noteq> name then None
               else (case args of AngleBracketed gs \<Rightarrow> Some gs | _ \<Rightarrow> None))
      | _ \<Rightarrow> None)"

definition first_type :: "generic_argument list \<Rightarrow> rust_type option" where
  "first_type gs = (case gs of TypeArgument t # _ \<Rightarrow> Some t | _ \<Rightarrow> None)"

definition extract_arc_inner_type :: "rust_type \<Rightarrow> rust_type option" where
  "extract_arc_inner_type t = Option.bind (arguments_of ''Arc'' t) first_type"

record request_type_info =
  qt_body :: rust_type
  qt_context :: "rust_type option"
  qt_has_context :: bool

definition parse_request_type :: "compiler \<Rightarrow> rust_type \<Rightarrow> request_type_info option" where
  "parse_request_type E t =
     Option.bind (arguments_of ''Request'' t) (\<lambda>gs.
     Option.bind (first_type gs) (\<lambda>body.
       let ctx = first_type (drop 1 gs)
       in Some \<lparr>qt_body = body, qt_context = ctx,
                qt_has_context = (case ctx of None \<Rightarrow> False | Some c \<Rightarrow> cp_text E c \<noteq> ''()'' \<and> cp_text E c \<noteq> [])\<rparr>))"

definition parse_response_type :: "rust_type \<Rightarrow> rust_type option" where
  "parse_response_type t =
     Option.bind (arguments_of ''Result'' t) (\<lambda>gs.
     Option.bind (first_type gs) (\<lambda>wrapper.
     Option.bind (arguments_of ''Response'' wrapper) first_type))"

datatype fn_arg = Receiver | Typed rust_type

record item_fn =
  fn_name :: string
  fn_async :: bool
  fn_generic :: bool
  fn_inputs :: "fn_arg list"
  fn_output :: "rust_type option"

text \<open>
  \<open>Ident::new\<close> panics unless it gets an identifier. The names made here are a prefix and the
  function's name, which is none only when that name is written raw, \<open>r#type\<close>.
\<close>

definition ident_new :: "string \<Rightarrow> macro_error + string" where
  "ident_new s = (if CHR ''#'' \<in> set s then Inl (BadIdent s) else Inr s)"

definition require :: "'a option \<Rightarrow> string \<Rightarrow> macro_error + 'a" where
  "require x message = (case x of Some y \<Rightarrow> Inr y | None \<Rightarrow> Inl (Refused message))"

lemma require_Inr [simp]: "require x m = Inr y \<longleftrightarrow> x = Some y"
  by (cases x) (simp_all add: require_def)

subsection \<open>Routes\<close>

text \<open>
  The generated handler: the wrapper's name, the function it calls, the type it decodes, the type
  it downcasts the context to, and the type it encodes.
\<close>

record route_handler =
  rh_wrapper :: string
  rh_function :: string
  rh_body :: rust_type
  rh_context :: "rust_type option"
  rh_response :: rust_type

definition first_input :: "item_fn \<Rightarrow> rust_type option" where
  "first_input f = (case fn_inputs f of Typed t # _ \<Rightarrow> Some t | _ \<Rightarrow> None)"

definition route_context :: "request_type_info \<Rightarrow> macro_error + rust_type option" where
  "route_context q =
     (if qt_has_context q then
        and_then (require (extract_arc_inner_type (case qt_context q of Some c \<Rightarrow> c | None \<Rightarrow> TupleType []))
            ''Route context type must be Arc<C> where C is your context type'')
          (\<lambda>c. Inr (Some c))
      else Inr None)"

definition route_output :: "string \<Rightarrow> string \<Rightarrow> item_fn \<Rightarrow> macro_error + rust_type" where
  "route_output mismatch missing f =
     (case fn_output f of None \<Rightarrow> Inl (Refused missing) | Some t \<Rightarrow> require (parse_response_type t) mismatch)"

definition route_entry_info ::
  "compiler \<Rightarrow> route_attrs \<Rightarrow> item_fn \<Rightarrow> string \<Rightarrow> rust_type \<Rightarrow> rust_type option \<Rightarrow> rust_type \<Rightarrow> route_handler route_info" where
  "route_entry_info E a f wrapper body ctx response =
     \<lparr>ri_path = at_path a, ri_method = at_method a, ri_request_type = cp_text E body, ri_response_type = cp_text E response,
      ri_handlers = \<lparr>rh_wrapper = wrapper, rh_function = fn_name f, rh_body = body, rh_context = ctx, rh_response = response\<rparr>,
      ri_openapi =
        \<lparr>oi_version = at_version a, oi_tag = at_tag a, oi_summary = at_summary a, oi_operation_id = at_operation_id a,
         oi_deprecated = at_deprecated a,
         oi_request_schema = Some \<lparr>si_name = extract_type_name (cp_text E body), si_fields = cp_fields E body\<rparr>,
         oi_response_schema = Some \<lparr>si_name = extract_type_name (cp_text E response), si_fields = cp_fields E response\<rparr>\<rparr>\<rparr>"

definition route :: "compiler \<Rightarrow> token list \<Rightarrow> item_fn option \<Rightarrow> macro_error + route_handler route_info" where
  "route E ts item =
     and_then (parse_macro_input parse_route_attrs ts) (\<lambda>a.
     and_then (case item of None \<Rightarrow> Inl Unexpected | Some f \<Rightarrow> Inr f) (\<lambda>f.
     if \<not> fn_async f then Inl (Refused ''Route handler must be async. Use: async fn handle(...)'')
     else and_then (require (first_input f) ''Route handler must have a Request<T> or Request<T, C> parameter'') (\<lambda>p.
       and_then (require (parse_request_type E p) ''First parameter must be Request<T> or Request<T, C>'') (\<lambda>q.
       and_then (route_context q) (\<lambda>ctx.
       and_then (route_output
           ''Return type must be Result<Response<T>, FlatbedError> or Result<Response<T>, FlatbedError<D>>''
           ''Route handler must return Result<Response<T>, FlatbedError>'' f) (\<lambda>response.
       and_then (ident_new (''__hyper_handler_'' @ fn_name f)) (\<lambda>wrapper.
         Inr (route_entry_info E a f wrapper (qt_body q) ctx response))))))))"

subsection \<open>What a route may look like\<close>

definition named :: "string \<Rightarrow> generic_argument list \<Rightarrow> rust_type \<Rightarrow> bool" where
  "named n gs t \<longleftrightarrow> (\<exists>lead before. t = PathType lead (before @ [Segment n (AngleBracketed gs)]))"

text \<open>\<open>Request<T>\<close>, \<open>Request<T, ()>\<close> and \<open>Request<T, Arc<C>>\<close>, whatever path leads to each name.\<close>

inductive takes :: "rust_type \<Rightarrow> rust_type \<Rightarrow> rust_type option \<Rightarrow> bool" where
  plain: "named ''Request'' (TypeArgument b # gs) t \<Longrightarrow> first_type gs = None \<Longrightarrow> takes t b None"
| no_context: "named ''Request'' (TypeArgument b # TypeArgument (TupleType []) # gs) t \<Longrightarrow> takes t b None"
| shared: "named ''Request'' (TypeArgument b # TypeArgument a # gs) t \<Longrightarrow> named ''Arc'' (TypeArgument c # gs') a \<Longrightarrow>
    takes t b (Some c)"

inductive gives :: "rust_type \<Rightarrow> rust_type \<Rightarrow> bool" where
  "named ''Result'' (TypeArgument w # gs) t \<Longrightarrow> named ''Response'' (TypeArgument r # gs') w \<Longrightarrow> gives t r"

inductive well_declared :: "item_fn \<Rightarrow> rust_type \<Rightarrow> rust_type option \<Rightarrow> rust_type \<Rightarrow> bool" where
  "fn_async f \<Longrightarrow> fn_inputs f = Typed p # others \<Longrightarrow> takes p body ctx \<Longrightarrow> fn_output f = Some out \<Longrightarrow> gives out response \<Longrightarrow>
    CHR ''#'' \<notin> set (fn_name f) \<Longrightarrow> well_declared f body ctx response"

lemma arguments_of_iff: "arguments_of n t = Some gs \<longleftrightarrow> named n gs t"
proof
  assume "arguments_of n t = Some gs"
  then obtain lead ss where t: "t = PathType lead ss" "ss \<noteq> []" "last ss = Segment n (AngleBracketed gs)"
    by (auto simp: arguments_of_def split: rust_type.splits path_segment.splits path_arguments.splits if_splits)
  then have "ss = butlast ss @ [Segment n (AngleBracketed gs)]" by (metis append_butlast_last_id)
  with t(1) show "named n gs t" unfolding named_def by blast
qed (auto simp: named_def arguments_of_def)

lemma first_type_iff: "first_type gs = Some t \<longleftrightarrow> (\<exists>rest. gs = TypeArgument t # rest)"
  by (auto simp: first_type_def split: list.splits generic_argument.splits)

lemma named_inject: "named n gs t \<Longrightarrow> named n hs t \<Longrightarrow> gs = hs"
  by (auto simp: named_def)

lemma arc_iff: "extract_arc_inner_type t = Some c \<longleftrightarrow> (\<exists>gs. named ''Arc'' (TypeArgument c # gs) t)"
  by (auto simp: extract_arc_inner_type_def bind_eq_Some_conv arguments_of_iff first_type_iff)

lemma response_iff: "parse_response_type t = Some r \<longleftrightarrow> gives t r"
  by (fastforce simp: parse_response_type_def bind_eq_Some_conv arguments_of_iff first_type_iff gives.simps)

lemma request_iff:
  "parse_request_type E t = Some q \<longleftrightarrow>
     (\<exists>b gs. named ''Request'' (TypeArgument b # gs) t \<and>
       q = \<lparr>qt_body = b, qt_context = first_type gs,
            qt_has_context = (case first_type gs of None \<Rightarrow> False | Some c \<Rightarrow> cp_text E c \<noteq> ''()'' \<and> cp_text E c \<noteq> [])\<rparr>)"
  by (fastforce simp: parse_request_type_def bind_eq_Some_conv arguments_of_iff first_type_iff Let_def)

lemma request_takes:
  assumes "compiler_ok E"
  shows "(\<exists>q. parse_request_type E t = Some q \<and> qt_body q = b \<and> route_context q = Inr ctx) \<longleftrightarrow> takes t b ctx"
proof
  assume "\<exists>q. parse_request_type E t = Some q \<and> qt_body q = b \<and> route_context q = Inr ctx"
  then obtain q gs where q: "named ''Request'' (TypeArgument b # gs) t" "route_context q = Inr ctx" "qt_context q = first_type gs"
    "qt_has_context q = (case first_type gs of None \<Rightarrow> False | Some c \<Rightarrow> cp_text E c \<noteq> ''()'' \<and> cp_text E c \<noteq> [])"
    by (auto simp: request_iff)
  show "takes t b ctx"
  proof (cases "first_type gs")
    case None
    with q show ?thesis by (auto simp: route_context_def intro: takes.plain)
  next
    case (Some a)
    then obtain rest where "gs = TypeArgument a # rest" by (auto simp: first_type_iff)
    with q Some assms show ?thesis
      by (cases "a = TupleType []")
        (auto simp: route_context_def compiler_ok_def and_then_Inr arc_iff intro: takes.intros)
  qed
next
  assume "takes t b ctx"
  then show "\<exists>q. parse_request_type E t = Some q \<and> qt_body q = b \<and> route_context q = Inr ctx"
  proof cases
    case (plain gs)
    then show ?thesis
      by (intro exI [of _ "\<lparr>qt_body = b, qt_context = None, qt_has_context = False\<rparr>"])
        (auto simp: request_iff route_context_def)
  next
    case (no_context gs)
    then show ?thesis using assms
      by (intro exI [of _ "\<lparr>qt_body = b, qt_context = Some (TupleType []), qt_has_context = False\<rparr>"])
        (auto simp: request_iff route_context_def compiler_ok_def first_type_def)
  next
    case (shared a gs c gs')
    then have a: "a \<noteq> TupleType []" "extract_arc_inner_type a = Some c" by (auto simp: named_def arc_iff)
    let ?q = "\<lparr>qt_body = b, qt_context = Some a, qt_has_context = True\<rparr>"
    have "parse_request_type E t = Some ?q"
      unfolding request_iff using shared(2) a(1) assms
      by (intro exI [of _ b] exI [of _ "TypeArgument a # gs"]) (simp add: first_type_def compiler_ok_def)
    moreover have "route_context ?q = Inr ctx" using a(2) shared(1) by (simp add: route_context_def require_def)
    ultimately show ?thesis by (intro exI [of _ ?q]) simp
  qed
qed

lemma route_output_Inr: "route_output m1 m2 f = Inr r \<longleftrightarrow> (\<exists>out. fn_output f = Some out \<and> gives out r)"
  by (auto simp: route_output_def response_iff split: option.splits)

lemma first_input_iff: "first_input f = Some p \<longleftrightarrow> (\<exists>others. fn_inputs f = Typed p # others)"
  by (auto simp: first_input_def split: list.splits fn_arg.splits)

lemma ident_new_Inr: "ident_new s = Inr w \<longleftrightarrow> CHR ''#'' \<notin> set s \<and> w = s"
  by (auto simp: ident_new_def)

text \<open>
  C32. \<open>#[route]\<close> accepts exactly a path literal with known keys, in any order, the last of a key
  counting and a trailing comma allowed, on an async function from \<open>Request<T>\<close>, \<open>Request<T, ()>\<close> or
  \<open>Request<T, Arc<C>>\<close> to \<open>Result<Response<U>, _>\<close>; and what it registers is that path, those keys, with
  POST as the default method, and a handler that decodes \<open>T\<close>, takes a \<open>C\<close> and encodes \<open>U\<close>. A context that is
  not written \<open>Arc<C>\<close>, as in an example of the macro's documentation, is refused.
\<close>

theorem route_accepts_exactly:
  assumes "compiler_ok E"
  shows "route E ts item = Inr r \<longleftrightarrow>
    (\<exists>p xs trailing f body ctx response.
       ts = TkStr p # args_tokens xs trailing \<and> list_all arg_ok xs \<and> item = Some f \<and> well_declared f body ctx response \<and>
       r = route_entry_info E (fold apply_arg xs (route_attrs_new p)) f (''__hyper_handler_'' @ fn_name f) body ctx response)"
    (is "?l \<longleftrightarrow> ?r")
proof
  assume ?l
  then obtain a f p q ctx response where g: "parse_macro_input parse_route_attrs ts = Inr a" "item = Some f" "fn_async f"
    "first_input f = Some p" "parse_request_type E p = Some q" "route_context q = Inr ctx"
    "\<exists>out. fn_output f = Some out \<and> gives out response" "CHR ''#'' \<notin> set (fn_name f)"
    "r = route_entry_info E a f (''__hyper_handler_'' @ fn_name f) (qt_body q) ctx response"
    by (auto simp: route_def and_then_Inr route_output_Inr ident_new_Inr split: if_splits option.splits)
  moreover have "takes p (qt_body q) ctx" using request_takes [OF assms] g(5,6) by blast
  ultimately have "well_declared f (qt_body q) ctx response" by (auto simp: first_input_iff intro: well_declared.intros)
  with g show ?r unfolding route_attrs_grammar by blast
next
  assume ?r
  then obtain p xs trailing f body ctx response where g: "ts = TkStr p # args_tokens xs trailing" "list_all arg_ok xs"
    "item = Some f" "well_declared f body ctx response"
    "r = route_entry_info E (fold apply_arg xs (route_attrs_new p)) f (''__hyper_handler_'' @ fn_name f) body ctx response" by blast
  then have a: "parse_macro_input parse_route_attrs ts = Inr (fold apply_arg xs (route_attrs_new p))"
    unfolding route_attrs_grammar by blast
  from g(4) obtain t others out where w: "fn_async f" "fn_inputs f = Typed t # others" "takes t body ctx" "fn_output f = Some out"
    "gives out response" "CHR ''#'' \<notin> set (fn_name f)" by (cases rule: well_declared.cases)
  obtain q where "parse_request_type E t = Some q" "qt_body q = body" "route_context q = Inr ctx"
    using request_takes [OF assms] w(3) by blast
  with w g(3,5) a show ?l
    by (auto simp: route_def and_then_Inr first_input_iff route_output_Inr ident_new_Inr intro!: exI)
qed

subsection \<open>Responders\<close>

record nats_route_attrs =
  na_subject :: string
  na_queue :: "string option"

function parse_nats_keys :: "nats_route_attrs \<Rightarrow> nats_route_attrs token_parser" where
  "parse_nats_keys a ts =
     (if \<not> peek_comma ts then Inr (a, ts)
      else if tl ts = [] then Inr (a, [])
      else and_then (parse_ident (tl ts)) (\<lambda>(key, r).
        and_then (parse_eq r) (\<lambda>(_, r).
        if key = ''queue'' then and_then (parse_lit_str r) (\<lambda>(q, r). parse_nats_keys (a\<lparr>na_queue := Some q\<rparr>) r)
        else Inl (Refused (''unknown nats_route key `'' @ key @ ''`; expected `queue`'')))))"
  by pat_completeness auto
termination
  by (relation "measure (\<lambda>(a, ts). length ts)") (auto simp: parse_some peek_comma_iff)

declare parse_nats_keys.simps [simp del]

definition parse_nats_route_attrs :: "nats_route_attrs token_parser" where
  "parse_nats_route_attrs ts =
     and_then (parse_lit_str ts) (\<lambda>(s, r). parse_nats_keys \<lparr>na_subject = s, na_queue = None\<rparr> r)"

text \<open>What a responder registers: its entry, and a worker that runs it on a context of one type.\<close>

record responder_expansion =
  nx_info :: nats_route_info
  nx_request_type :: string
  nx_response_type :: string
  nx_handler :: string
  nx_constant :: string
  nx_function :: string
  nx_body :: rust_type
  nx_context :: rust_type
  nx_response :: rust_type
  nx_worker :: string

definition nats_context :: "request_type_info \<Rightarrow> macro_error + rust_type" where
  "nats_context q =
     and_then (require (if qt_has_context q then qt_context q else None)
        (''nats_route handler must take Request<T, Arc<C>> where C implements flatbed::HasNatsClient '' @
         [CHR 0xE2, CHR 0x80, CHR 0x94] @ '' the responder subscribes through the context'' @ [CHR 0x27] @ ''s client''))
       (\<lambda>c. require (extract_arc_inner_type c) ''nats_route context type must be Arc<C> where C is your context type'')"

definition nats_signature :: "compiler \<Rightarrow> item_fn \<Rightarrow> macro_error + rust_type \<times> rust_type \<times> rust_type" where
  "nats_signature E f =
     (if \<not> fn_async f then Inl (Refused ''nats_route handler must be async. Use: async fn handle(...)'')
      else if fn_generic f then Inl (Refused ''nats_route handler must not be generic'')
      else if length (fn_inputs f) \<noteq> 1 then Inl (Refused ''nats_route handler takes exactly one Request<T, Arc<C>> parameter'')
      else and_then (require (first_input f) ''nats_route handler must have a Request<T, Arc<C>> parameter'') (\<lambda>p.
        and_then (require (parse_request_type E p) ''First parameter must be Request<T, Arc<C>>'') (\<lambda>q.
        and_then (nats_context q) (\<lambda>c.
        and_then (route_output
            ''Return type must be Result<Response<T>, FlatbedError> or Result<Response<T>, FlatbedError<D>>''
            ''nats_route handler must return Result<Response<T>, FlatbedError>'' f) (\<lambda>response.
          Inr (qt_body q, c, response))))))"

definition nats_route_impl :: "compiler \<Rightarrow> token list \<Rightarrow> item_fn option \<Rightarrow> macro_error + responder_expansion" where
  "nats_route_impl E ts item =
     and_then (parse_macro_input parse_nats_route_attrs ts) (\<lambda>a.
     and_then (case item of None \<Rightarrow> Inl Unexpected | Some f \<Rightarrow> Inr f) (\<lambda>f.
     and_then (case nats_route (na_subject a) (na_queue a) of Inl m \<Rightarrow> Inl (Refused m) | Inr info \<Rightarrow> Inr info) (\<lambda>info.
     and_then (nats_signature E f) (\<lambda>(body, c, response).
     and_then (ident_new (''__nats_handler_'' @ fn_name f)) (\<lambda>wrapper.
     and_then (ident_new (''__NATS_ROUTE_'' @ fn_name f)) (\<lambda>constant.
       Inr \<lparr>nx_info = info, nx_request_type = cp_text E body, nx_response_type = cp_text E response, nx_handler = wrapper,
            nx_constant = constant, nx_function = fn_name f, nx_body = body, nx_context = c, nx_response = response,
            nx_worker = ''nats_route:'' @ na_subject a\<rparr>))))))"

lemma nats_request_takes:
  assumes "compiler_ok E"
  shows "(\<exists>q. parse_request_type E t = Some q \<and> qt_body q = b \<and> nats_context q = Inr c) \<longleftrightarrow> takes t b (Some c)"
proof -
  have "nats_context q = Inr c \<longleftrightarrow> route_context q = Inr (Some c)" if "parse_request_type E t = Some q" for q
    using that by (auto simp: nats_context_def route_context_def request_iff and_then_Inr split: option.splits)
  then show ?thesis using request_takes [OF assms, of t b "Some c"] by blast
qed

text \<open>A responder takes a context, one parameter and no generics; a route may lack the first and be let off the others.\<close>

lemma nats_signature_exact:
  assumes "compiler_ok E"
  shows "nats_signature E f = Inr (body, c, response) \<and> CHR ''#'' \<notin> set (fn_name f) \<longleftrightarrow>
    well_declared f body (Some c) response \<and> length (fn_inputs f) = 1 \<and> \<not> fn_generic f"
proof -
  have "nats_signature E f = Inr (body, c, response) \<longleftrightarrow>
      fn_async f \<and> \<not> fn_generic f \<and> length (fn_inputs f) = 1 \<and>
      (\<exists>p. first_input f = Some p \<and> takes p body (Some c)) \<and> (\<exists>out. fn_output f = Some out \<and> gives out response)"
    unfolding nats_request_takes [OF assms, symmetric]
    by (auto simp: nats_signature_def and_then_Inr route_output_Inr split: if_splits)
  then show ?thesis by (auto simp: well_declared.simps first_input_iff)
qed

lemma refused_Inr: "(case r of Inl m \<Rightarrow> Inl (Refused m) | Inr i \<Rightarrow> Inr i) = Inr y \<longleftrightarrow> r = Inr y"
  by (cases r) auto

definition queue_tokens :: "string \<Rightarrow> token list" where
  "queue_tokens q = [TkComma, TkIdent ''queue'', TkEq, TkStr q]"

lemma parse_nats_keys_complete:
  "parse_nats_keys a (concat (map queue_tokens qs) @ (if trailing then [TkComma] else [])) =
     Inr (fold (\<lambda>q. na_queue_update (\<lambda>_. Some q)) qs a, [])"
  by (induction qs arbitrary: a) (auto simp: queue_tokens_def parse_nats_keys.simps)

lemma parse_nats_keys_sound:
  "parse_nats_keys a ts = Inr (a', []) \<Longrightarrow>
     \<exists>qs trailing. ts = concat (map queue_tokens qs) @ (if trailing then [TkComma] else []) \<and>
       a' = fold (\<lambda>q. na_queue_update (\<lambda>_. Some q)) qs a"
proof (induction a ts rule: parse_nats_keys.induct)
  case (1 a ts)
  show ?case
  proof (cases "\<exists>r. ts = TkComma # r \<and> r \<noteq> []")
    case False
    then show ?thesis using "1.prems"
      by (intro exI [of _ "[]"] exI [of _ "ts \<noteq> []"]) (auto simp: parse_nats_keys.simps [of a ts] peek_comma_iff split: if_splits)
  next
    case True
    then obtain r where r: "ts = TkComma # r" "r \<noteq> []" by blast
    with "1.prems" obtain q r1 where s: "r = TkIdent ''queue'' # TkEq # TkStr q # r1"
      "parse_nats_keys (a\<lparr>na_queue := Some q\<rparr>) r1 = Inr (a', [])"
      by (auto simp: parse_nats_keys.simps [of a "TkComma # r"] and_then_Inr parse_some split: if_splits)
    have "\<exists>qs trailing. r1 = concat (map queue_tokens qs) @ (if trailing then [TkComma] else []) \<and>
        a' = fold (\<lambda>q. na_queue_update (\<lambda>_. Some q)) qs (a\<lparr>na_queue := Some q\<rparr>)"
      using "1.IH" [of "(''queue'', TkEq # TkStr q # r1)" "''queue''" "TkEq # TkStr q # r1" "((), TkStr q # r1)" "()"
        "TkStr q # r1" "(q, r1)" q r1] r s by simp
    then obtain qs trailing where "r1 = concat (map queue_tokens qs) @ (if trailing then [TkComma] else [])"
      "a' = fold (\<lambda>q. na_queue_update (\<lambda>_. Some q)) qs (a\<lparr>na_queue := Some q\<rparr>)" by blast
    with r s(1) show ?thesis
      by (intro exI [of _ "q # qs"] exI [of _ trailing]) (simp add: queue_tokens_def [of q])
  qed
qed

text \<open>
  Whatever \<open>#[nats_route]\<close> accepts is a subject whose pattern parses, with a queue group that has a
  name, on a function that takes a context.
\<close>

lemma nats_route_impl_sound:
  assumes "compiler_ok E" "nats_route_impl E ts item = Inr x"
  obtains subject qs trailing f where
    "ts = TkStr subject # concat (map queue_tokens qs) @ (if trailing then [TkComma] else [])"
    "nats_route subject (if qs = [] then None else Some (last qs)) = Inr (nx_info x)"
    "item = Some f" "well_declared f (nx_body x) (Some (nx_context x)) (nx_response x)"
    "length (fn_inputs f) = 1" "nx_worker x = ''nats_route:'' @ nr_subject (nx_info x)"
proof -
  have queue: "na_queue (fold (\<lambda>q. na_queue_update (\<lambda>_. Some q)) qs a) = (if qs = [] then na_queue a else Some (last qs))"
    and subject: "na_subject (fold (\<lambda>q. na_queue_update (\<lambda>_. Some q)) qs a) = na_subject a" for qs a
    by (induction qs arbitrary: a) auto
  from assms(2) obtain a f where g: "parse_macro_input parse_nats_route_attrs ts = Inr a" "item = Some f"
    "nats_route (na_subject a) (na_queue a) = Inr (nx_info x)"
    "nats_signature E f = Inr (nx_body x, nx_context x, nx_response x)" "CHR ''#'' \<notin> set (fn_name f)"
    "nx_worker x = ''nats_route:'' @ na_subject a"
    by (auto simp: nats_route_impl_def and_then_Inr ident_new_Inr refused_Inr split: option.splits)
  from g(1) obtain s r where s: "ts = TkStr s # r" "parse_nats_keys \<lparr>na_subject = s, na_queue = None\<rparr> r = Inr (a, [])"
    by (auto simp: parse_macro_input_def parse_nats_route_attrs_def and_then_Inr parse_some split: if_splits)
  from parse_nats_keys_sound [OF s(2)] obtain qs trailing where
    q: "r = concat (map queue_tokens qs) @ (if trailing then [TkComma] else [])"
    "a = fold (\<lambda>q. na_queue_update (\<lambda>_. Some q)) qs \<lparr>na_subject = s, na_queue = None\<rparr>" by blast
  have na: "na_subject a = s" "na_queue a = (if qs = [] then None else Some (last qs))" by (simp_all add: q(2) queue subject)
  have "nr_subject (nx_info x) = s"
    using g(3) na(1) by (auto simp: nats_route_def simp flip: nats_route_info.surjective split: sum.splits if_splits
        dest: arg_cong [where f = nr_subject])
  with that [of s qs trailing f] g s(1) q(1) na nats_signature_exact [OF assms(1), of f "nx_body x" "nx_context x" "nx_response x"]
  show thesis by simp
qed

subsection \<open>Static mounts\<close>

record static_args =
  sa_mount :: "string option"
  sa_dir :: "string option"
  sa_embed :: "string option"
  sa_fallback :: "string option"
  sa_no_fallback :: "string list"

definition static_args_new :: static_args where
  "static_args_new = \<lparr>sa_mount = None, sa_dir = None, sa_embed = None, sa_fallback = None, sa_no_fallback = []\<rparr>"

definition static_value :: "string \<Rightarrow> static_args \<Rightarrow> static_args token_parser" where
  "static_value key a ts =
     (if key = ''no_fallback'' then
        and_then (parse_brackets ts) (\<lambda>(content, r).
        and_then (parse_terminated content) (\<lambda>xs. Inr (a\<lparr>sa_no_fallback := xs\<rparr>, r)))
      else and_then (parse_lit_str ts) (\<lambda>(v, r).
        if key = ''mount'' then Inr (a\<lparr>sa_mount := Some v\<rparr>, r)
        else if key = ''dir'' then Inr (a\<lparr>sa_dir := Some v\<rparr>, r)
        else if key = ''embed'' then Inr (a\<lparr>sa_embed := Some v\<rparr>, r)
        else if key = ''fallback'' then Inr (a\<lparr>sa_fallback := Some v\<rparr>, r)
        else Inl (Refused (''unknown static_route key `'' @ key @
          ''`; expected `mount`, `dir`, `embed`, `fallback`, or `no_fallback`''))))"

lemma static_value_shorter: "static_value key a ts = Inr (a', r) \<Longrightarrow> length ts = Suc (length r)"
  by (auto simp: static_value_def and_then_Inr parse_some split: if_splits)

text \<open>The comma after a value may be left out.\<close>

definition skip_comma :: "token list \<Rightarrow> token list" where
  "skip_comma ts = (if peek_comma ts then tl ts else ts)"

function parse_static_keys :: "static_args \<Rightarrow> token list \<Rightarrow> macro_error + static_args" where
  "parse_static_keys a ts =
     (if ts = [] then Inr a
      else and_then (parse_ident ts) (\<lambda>(key, r).
        and_then (parse_eq r) (\<lambda>(_, r).
        and_then (static_value key a r) (\<lambda>(a, r). parse_static_keys a (skip_comma r)))))"
  by pat_completeness auto
termination
  by (relation "measure (\<lambda>(a, ts). length ts)") (auto simp: parse_some skip_comma_def dest!: static_value_shorter)

declare parse_static_keys.simps [simp del]

definition dots :: string where
  "dots = [CHR 0x22] @ ''...'' @ [CHR 0x22]"

datatype static_source_arg = DirArg string | EmbedArg string

definition static_source_of :: "static_args \<Rightarrow> macro_error + static_source_arg" where
  "static_source_of a =
     (case (sa_dir a, sa_embed a) of
        (Some d, None) \<Rightarrow> Inr (DirArg d)
      | (None, Some e) \<Rightarrow> Inr (EmbedArg e)
      | (Some _, Some _) \<Rightarrow> Inl (Refused (''static_route! takes either `dir = '' @ dots @ ''` or `embed = '' @ dots @ ''`, not both''))
      | (None, None) \<Rightarrow> Inl (Refused (''static_route! requires `dir = '' @ dots @ ''` or `embed = '' @ dots @ ''`'')))"

definition embed_path :: "string \<Rightarrow> string" where
  "embed_path v = (if prefix ''/'' v \<or> prefix ''$'' v then v else ''$CARGO_MANIFEST_DIR/'' @ v)"

text \<open>\<open>include_dir!\<close> is the compiler's: it turns a path into the files below it.\<close>

definition static_route :: "(string \<Rightarrow> string \<Rightarrow> bytes option) \<Rightarrow> token list \<Rightarrow> macro_error + static_route_info" where
  "static_route include_dir ts =
     and_then (parse_static_keys static_args_new ts) (\<lambda>a.
     and_then (require (sa_mount a) (''static_route! requires `mount = '' @ dots @ ''`'')) (\<lambda>m.
     and_then (static_source_of a) (\<lambda>src.
       Inr \<lparr>mount = m, source = (case src of DirArg d \<Rightarrow> Dir d | EmbedArg e \<Rightarrow> Embedded (include_dir (embed_path e))),
            fallback = sa_fallback a, no_fallback = sa_no_fallback a\<rparr>)))"

text \<open>A mount written out: its keys in any order would do, and the commas are as the documentation has them.\<close>

primrec source_tokens :: "static_source_arg \<Rightarrow> token list" where
  "source_tokens (DirArg d) = [TkIdent ''dir'', TkEq, TkStr d]"
| "source_tokens (EmbedArg e) = [TkIdent ''embed'', TkEq, TkStr e]"

fun list_tokens :: "string list \<Rightarrow> token list" where
  "list_tokens [] = []"
| "list_tokens [s] = [TkStr s]"
| "list_tokens (s # t # ss) = TkStr s # TkComma # list_tokens (t # ss)"

definition mount_tokens :: "string \<Rightarrow> static_source_arg \<Rightarrow> string option \<Rightarrow> string list \<Rightarrow> token list" where
  "mount_tokens m src fb nf =
     [TkIdent ''mount'', TkEq, TkStr m, TkComma] @ source_tokens src @
     (case fb of None \<Rightarrow> [] | Some f \<Rightarrow> [TkComma, TkIdent ''fallback'', TkEq, TkStr f]) @
     [TkComma, TkIdent ''no_fallback'', TkEq, TkBrackets (list_tokens nf)]"

lemma parse_list_tokens: "parse_terminated (list_tokens ss) = Inr ss"
  by (induction ss rule: list_tokens.induct) auto

lemma static_step:
  "parse_static_keys a (TkIdent key # TkEq # v # r) =
     and_then (static_value key a (v # r)) (\<lambda>(a, r). parse_static_keys a (skip_comma r))"
  by (simp add: parse_static_keys.simps [of a "TkIdent key # TkEq # v # r"])

lemma static_route_written:
  "static_route inc (mount_tokens m src fb nf) =
     Inr \<lparr>mount = m, source = (case src of DirArg d \<Rightarrow> Dir d | EmbedArg e \<Rightarrow> Embedded (inc (embed_path e))),
          fallback = fb, no_fallback = nf\<rparr>"
  by (cases src; cases fb)
    (simp_all add: static_route_def mount_tokens_def static_step static_value_def skip_comma_def static_args_new_def
      parse_static_keys.simps [of _ "[]"] parse_list_tokens require_def static_source_of_def)

lemma static_route_accepted:
  "(\<exists>x. static_route inc ts = Inr x) \<longleftrightarrow>
     (\<exists>a. parse_static_keys static_args_new ts = Inr a \<and> sa_mount a \<noteq> None \<and> (sa_dir a = None \<longleftrightarrow> sa_embed a \<noteq> None))"
proof -
  have source: "(\<exists>src. static_source_of a = Inr src) \<longleftrightarrow> (sa_dir a = None \<longleftrightarrow> sa_embed a \<noteq> None)" for a
    by (auto simp: static_source_of_def split: option.splits)
  show ?thesis unfolding source [symmetric] by (auto simp: static_route_def and_then_Inr)
qed

subsection \<open>Schema names\<close>

lemma after_separators_plain:
  assumes "CHR '':'' \<notin> set s"
  shows "after_separators s = s"
proof -
  have "find_str ''::'' s = None" using assms by (induction s) auto
  then show ?thesis by (simp add: after_separators.simps [of s])
qed

lemma after_separators_step:
  assumes "CHR '':'' \<notin> set a"
  shows "after_separators (a @ ''::'' @ b) = after_separators b"
proof -
  have "find_str ''::'' (a @ ''::'' @ b) = Some (length a)" using assms by (induction a) auto
  then show ?thesis by (subst after_separators.simps) simp
qed

text \<open>A path without generic arguments is named by its last segment.\<close>

lemma path_type_name:
  assumes "CHR '':'' \<notin> set a" "CHR '':'' \<notin> set n" "list_all (\<lambda>c. \<not> is_space c \<and> c \<noteq> CHR ''<'') n" "n \<noteq> []"
  shows "extract_type_name (a @ ''::'' @ '' '' @ n) = n" "extract_type_name n = n"
proof -
  have trimmed: "trim ('' '' @ n) = n" "trim n = n"
  proof -
    have "dropWhile is_space n = n" "dropWhile is_space (rev n) = rev n"
      using assms(3,4) by (simp_all add: dropWhile_eq_self_iff hd_rev list_all_iff)
    then show "trim ('' '' @ n) = n" "trim n = n" by (simp_all add: trim_def is_space_def)
  qed
  moreover have "CHR ''<'' \<notin> set n" using assms(3) by (auto simp: list_all_iff)
  moreover have "after_separators (a @ ''::'' @ '' '' @ n) = '' '' @ n" "after_separators n = n"
    using assms(1,2) after_separators_step [of a "'' '' @ n"] after_separators_plain [of "'' '' @ n"] after_separators_plain [of n]
    by simp_all
  ultimately show "extract_type_name (a @ ''::'' @ '' '' @ n) = n" "extract_type_name n = n"
    by (simp_all add: extract_type_name_def)
qed

text \<open>The arguments are cut off after the path is: a path inside them is taken for the type's own.\<close>

lemma generic_name_misread: "extract_type_name ''Page < v1 :: User >'' = ''User >''"
proof -
  have "''Page < v1 :: User >'' = ''Page < v1 '' @ ''::'' @ '' User >''" by simp
  then have "after_separators ''Page < v1 :: User >'' = '' User >''"
    using after_separators_step [of "''Page < v1 ''" "'' User >''"] after_separators_plain [of "'' User >''"] by simp
  then show ?thesis by (simp add: extract_type_name_def trim_def is_space_def)
qed

subsection \<open>Concrete declarations\<close>

definition demo_compiler :: compiler where
  "demo_compiler = \<lparr>cp_text = (\<lambda>t. if t = TupleType [] then ''()'' else ''Ping''), cp_fields = (\<lambda>t. [])\<rparr>"

lemma demo_compiler_ok: "compiler_ok demo_compiler"
  by (simp add: compiler_ok_def demo_compiler_def)

definition plain_type :: "string \<Rightarrow> rust_type" where
  "plain_type n = PathType [] [Segment n NoArguments]"

definition generic_type :: "string \<Rightarrow> rust_type list \<Rightarrow> rust_type" where
  "generic_type n ts = PathType [] [Segment n (AngleBracketed (map TypeArgument ts))]"

definition ping_fn :: "string \<Rightarrow> rust_type \<Rightarrow> item_fn" where
  "ping_fn n ctx =
     \<lparr>fn_name = n, fn_async = True, fn_generic = False,
      fn_inputs = [Typed (generic_type ''Request'' [plain_type ''Ping'', ctx])],
      fn_output = Some (generic_type ''Result'' [generic_type ''Response'' [plain_type ''Pong''], plain_type ''FlatbedError''])\<rparr>"

abbreviation ping_context :: rust_type where
  "ping_context \<equiv> generic_type ''Arc'' [plain_type ''Ctx'']"

lemma method_case: "method_from_str ''get'' = Some Get" "method_from_str ''fetch'' = None"
  by code_simp+

text \<open>A ligature folds to the letters it stands for.\<close>

lemma method_ligature: "method_from_str [CHR ''p'', CHR ''o'', CHR 0xEF, CHR 0xAC, CHR 0x85] = Some Post"
  by code_simp

lemma ping_declared:
  "well_declared (ping_fn ''ping'' ping_context) (plain_type ''Ping'') (Some (plain_type ''Ctx'')) (plain_type ''Pong'')"
  by (rule well_declared.intros [where others = "[]"
        and p = "generic_type ''Request'' [plain_type ''Ping'', ping_context]"
        and out = "generic_type ''Result'' [generic_type ''Response'' [plain_type ''Pong''], plain_type ''FlatbedError'']"])
    (auto simp: ping_fn_def named_def generic_type_def intro!: takes.shared gives.intros)

theorem route_accepts_exactly_witness:
  "compiler_ok demo_compiler \<and>
   route demo_compiler
     (TkStr ''/ping'' # args_tokens [MethodArg ''get'', TagArg ''Ops'', TagArg ''Core'', DeprecatedArg True] True)
     (Some (ping_fn ''ping'' ping_context)) =
   Inr (route_entry_info demo_compiler
     \<lparr>at_path = ''/ping'', at_method = Get, at_version = None, at_tag = Some ''Core'', at_summary = None,
      at_operation_id = None, at_deprecated = True\<rparr>
     (ping_fn ''ping'' ping_context) ''__hyper_handler_ping'' (plain_type ''Ping'') (Some (plain_type ''Ctx'')) (plain_type ''Pong''))"
proof -
  let ?xs = "[MethodArg ''get'', TagArg ''Ops'', TagArg ''Core'', DeprecatedArg True]"
  have "fold apply_arg ?xs (route_attrs_new ''/ping'') =
      \<lparr>at_path = ''/ping'', at_method = Get, at_version = None, at_tag = Some ''Core'', at_summary = None,
       at_operation_id = None, at_deprecated = True\<rparr>" "list_all arg_ok ?xs"
    by (simp_all add: route_attrs_new_def method_case arg_ok_def)
  moreover have "''__hyper_handler_'' @ fn_name (ping_fn ''ping'' ping_context) = ''__hyper_handler_ping''"
    by (simp add: ping_fn_def)
  ultimately show ?thesis
    using demo_compiler_ok ping_declared unfolding route_accepts_exactly [OF demo_compiler_ok] by metis
qed

text \<open>A context that is not written \<open>Arc<C>\<close>, as in the documentation of the macro, is refused.\<close>

lemma documented_context_refused:
  "route demo_compiler [TkStr ''/users/{id}''] (Some (ping_fn ''update_user'' (plain_type ''AppCtx''))) =
     Inl (Refused ''Route context type must be Arc<C> where C is your context type'')"
  by (simp add: route_def parse_macro_input_def parse_route_attrs_def parse_route_keys.simps ping_fn_def first_input_def
      parse_request_type_def arguments_of_def generic_type_def first_type_def plain_type_def demo_compiler_def
      route_context_def extract_arc_inner_type_def require_def Let_def)

text \<open>A handler with a raw name makes the macro panic.\<close>

lemma raw_name_panics:
  "route demo_compiler [TkStr ''/types''] (Some (ping_fn ''r#type'' (TupleType []))) =
     Inl (BadIdent ''__hyper_handler_r#type'')"
  by (simp add: route_def parse_macro_input_def parse_route_attrs_def parse_route_keys.simps ping_fn_def first_input_def
      parse_request_type_def parse_response_type_def route_output_def arguments_of_def generic_type_def first_type_def
      plain_type_def demo_compiler_def route_context_def require_def ident_new_def Let_def)

lemma embedded_anchor: "embed_path ''web/dist'' = ''$CARGO_MANIFEST_DIR/web/dist''" "embed_path ''/srv/web'' = ''/srv/web''"
  by (simp_all add: embed_path_def)

end
