(* ===== verification/Spec2Isabelle.thy ===== *)
theory Spec2Isabelle
  imports LocalQueue OpenApi Pagination NatsRequest NatsConnect Finalizers StreamWorker KvWorker Server Sentry BuildDriver Macros
begin

text \<open>
  A verification library for flatbed, a Rust runtime that serves HTTP routes, NATS responders and
  background workers over FlatBuffers messages, and the code generators that go with it. This
  theory holds the map of the library; the theories it imports hold the model. Paths are under
  \<^verbatim>\<open>src/\<close>; \<^verbatim>\<open>flatbed\<close>, \<^verbatim>\<open>flatbed_build\<close> and \<^verbatim>\<open>flatbed_macros\<close> are the crates in \<^verbatim>\<open>src/crates\<close>.

  \<^bold>\<open>How the program is put together.\<close> A service declares its messages in \<^verbatim>\<open>.fbs\<close> schemas. At build
  time \<^verbatim>\<open>flatbed_build\<close> reflects them and writes Rust structs with their conversions, JSON adapters
  and registrations, and, against a served document, a TypeScript client. The macros of
  \<^verbatim>\<open>flatbed_macros\<close> wrap the service's functions into handlers and register them. At run time
  \<^verbatim>\<open>flatbed\<close> validates the registries, builds the router, starts the supervised workers, raises the
  readiness gates, serves requests and, on a signal, drains.

  \<^bold>\<open>How the code is modelled.\<close> A struct is a \<^theory_text>\<open>record\<close>, an enum a \<^theory_text>\<open>datatype\<close>, a function a definition
  of the same name, a \<^verbatim>\<open>Result\<close> a sum with the error on the left, a panic a value of its own, a
  machine integer a word where wrapping or saturation matters, a \<^verbatim>\<open>str\<close> the list of its bytes.
  Concurrency is an inductive step relation whose steps are the atomic accesses or the awaits of
  the code. Code that is not in the repository is a parameter: a record of functions (\<open>http_lib\<close>,
  \<open>page_lib\<close>, \<open>nats_lib\<close>, \<open>body_codecs\<close>, \<open>client_codecs\<close>, \<open>fb_lib\<close>, \<open>js_lib\<close>, \<open>outside\<close>) with its
  documented laws (\<open>http_ok\<close>, \<open>page_lib_ok\<close>, \<open>nats_ok\<close>, \<open>fb_lib_ok\<close>, \<open>js_lib_ok\<close>), or free steps (the
  broker, the apiserver, the user's handlers). Every law set has an instance beside its witnesses.

  \<^bold>\<open>Shared ground.\<close> \<open>Prelude\<close>: strings, association maps, saturating arithmetic, the \<open>fifo_line\<close>
  interface and the collections the component proofs share. \<open>HttpTypes\<close> (\<^verbatim>\<open>flatbed/src/lib.rs\<close>): requests,
  responses, errors, codecs, methods.

  \<^bold>\<open>HTTP.\<close> \<open>Router\<close> (\<^verbatim>\<open>hyper/router.rs\<close>, \<^verbatim>\<open>hyper/mod.rs\<close>): the trie refines the table of routes; matching is
  sound, complete where nothing shadows, and the methods of a 405 are exact. \<open>StaticFiles\<close>
  (\<^verbatim>\<open>hyper/static_files.rs\<close>): a mount is confined to its directory. \<open>RouteWrapper\<close> (the code \<open>#[route]\<close>
  generates): decoding, the handler, encoding and the errors of each. \<open>Service\<close> (\<^verbatim>\<open>hyper/service.rs\<close>): the
  whole dispatch; every request is answered, in the codec it asked for, under its identifier, and
  every server error but an \<open>Ok\<close> of the route's function is reported once. \<open>Readiness\<close> (\<^verbatim>\<open>readiness.rs\<close>): gates and the atomic counter
  behind the probe, with threads interleaved. \<open>Pagination\<close> (\<^verbatim>\<open>pagination.rs\<close>): cursors and pages; walking
  the cursors enumerates the rows, with one unit of fuel per row and one more, since every page but
  the last has a row. \<open>Registry\<close> and \<open>OpenApi\<close> (\<^verbatim>\<open>lib.rs\<close>, \<^verbatim>\<open>hyper/endpoints.rs\<close>): the registries, their startup
  validation and the document generated from them.

  \<^bold>\<open>Workers.\<close> \<open>ErrorReporting\<close> (\<^verbatim>\<open>error_reporting.rs\<close>) and \<open>Supervisor\<close> (\<^verbatim>\<open>supervisor.rs\<close>): panics, restarts,
  backoff and health, any number of workers interleaved. \<open>Sentry\<close> (\<^verbatim>\<open>sentry.rs\<close>, over \<open>Lines\<close>): the
  reporter that sends them on, once each, with the backtrace read back. \<open>LocalQueue\<close> (\<^verbatim>\<open>local_queue.rs\<close>): the
  bounded keyed queue with its sender and its worker; a producer's push and its notification are two
  steps, and the calls of \<open>handle\<close> are recorded, so that the attempt limit is a bound on calls and no
  wake-up is missed in between. \<open>Leadership\<close>, \<open>Kubernetes\<close>, \<open>Finalizers\<close> (\<^verbatim>\<open>k8s.rs\<close>): the three executors refine one
  leader-gated loop, stated as the locales \<open>leader_gated\<close> and \<open>infallible_gated\<close> and interpreted on each
  executor: work falls into sessions entered when the election's channel read true; an object with our finalizer goes only after its cleanup. \<open>StreamWorker\<close> (\<^verbatim>\<open>nats.rs\<close>) and
  \<open>KvWorker\<close> (\<^verbatim>\<open>kv.rs\<close>): acknowledgement and convergence.

  \<^bold>\<open>The process.\<close> \<open>Boot\<close> (\<^verbatim>\<open>lib.rs\<close>, \<^verbatim>\<open>context.rs\<close>): the configuration, the checks before anything starts,
  the context wrapper and the registration of workers. \<open>Macros\<close> (\<^verbatim>\<open>flatbed_macros\<close>): what \<open>#[route]\<close>,
  \<open>#[nats_route]\<close> and \<open>static_route!\<close> accept, over the tokens and type trees the syn crate reads, and
  what they register. \<open>Server\<close> (\<^verbatim>\<open>lib.rs\<close>, \<^verbatim>\<open>hyper/server.rs\<close>): the tasks of a
  process from start to shutdown, with the supervisors inside and the request service's view of
  them; a ready service has its context, shutdown ends in time and drains the right workers.

  \<^bold>\<open>NATS.\<close> \<open>NatsSubjects\<close>, \<open>NatsRoute\<close> (\<^verbatim>\<open>nats_route.rs\<close>, and of the macros crate), \<open>NatsRequest\<close>
  (\<^verbatim>\<open>nats_request.rs\<close>), \<open>NatsConnect\<close> (\<^verbatim>\<open>nats_connect.rs\<close>): subjects and their overlap, responders, typed
  requests end to end, and the first connect, whose fuel exceeds the deadline divided by half the
  least backoff, the least time an attempt takes.

  \<^bold>\<open>Generators.\<close> \<open>FbsTypes\<close>, \<open>SourceOrder\<close>, \<open>Reflection\<close> (\<^verbatim>\<open>fbs_types.rs\<close>, \<^verbatim>\<open>source_order.rs\<close>, \<^verbatim>\<open>reflection.rs\<close>): from
  flatc's binary schema to tables and enums. \<open>Codegen\<close> (\<^verbatim>\<open>codegen.rs\<close>): the Rust generator, its output a
  list of items, one constructor per text template. \<open>GeneratedCodec\<close>, \<open>JsonAdapters\<close>: the semantics of
  those items and their round trips. \<open>TsCodec\<close>, \<open>TsSemantics\<close>, \<open>TsRoundtrip\<close> (\<^verbatim>\<open>ts_codec.rs\<close>): the same for
  TypeScript. The fuel of a codec is the size of the value, which no nesting exceeds. \<open>TsClient\<close>
  (\<^verbatim>\<open>ts_client.rs\<close>): the fetch client; its check is exact and its calls, their URLs parsed
  as \<^verbatim>\<open>fetch\<close> parses them, reach the routes they come from, dot and empty arguments apart.
  \<open>FbPlugin\<close> and \<open>BuildDriver\<close> (\<^verbatim>\<open>fb_plugin.rs\<close>, \<^verbatim>\<open>compile.rs\<close>, \<^verbatim>\<open>bin/flatbed.rs\<close>): the plugin's run, whose
  files fit together, the runs of flatc and the command line; of their messages the model keeps the
  finding, not the advice.

  \<^bold>\<open>Not modelled.\<close> Sockets, the hyper and tokio runtimes, TLS, flatc, the file system beyond maps from
  paths to contents, log lines, \<open>Debug\<close> and \<open>Display\<close> impls; the lexing
  and parsing the syn crate does before the macros see tokens, types and signatures; metrics and tracing exporters, which hand
  values to their clients; generated code under \<^verbatim>\<open>flatbed/src/generated\<close>, which is an output of the
  generators; tests, examples and scripts. The manifest lists each with its reason.

  \<^bold>\<open>Simplifications.\<close> The \<open>before_request\<close> hook returns. Connection events during a dial and an overflow
  of the attempt counter of \<open>NatsConnect\<close> do not happen. The broker under a typed request delivers
  and the handler answers within the timeout; queue groups are disregarded where subjects overlap, as
  the comment of the check does. Flags are single bits below bit 63, since a reflected value is a
  signed number. Letters are ASCII in \<open>TsClient\<close>.
\<close>

end
